(* ===== verification/Prelude.thy ===== *)
theory Prelude
  imports Main "HOL-Library.AList" "HOL-Library.Sublist"
begin

text \<open>
  What the components share: the Go language as far as the modelled sources use it.
  \<^item> maps: a Go \<open>map[K]V\<close> is an association list with distinct keys; its order stands for the
    order in which one \<open>range\<close> over the map meets the keys (Go leaves that order open, so every
    lemma quantifies over all lists);
  \<^item> strings: a Go string is a byte sequence, here a \<^typ>\<open>string\<close>; runes are decoded the way
    the \<open>unicode/utf8\<close> package decodes them (an invalid byte is one replacement rune);
  \<^item> machine integers: \<open>int\<close>/\<open>int64\<close> are \<^typ>\<open>int\<close>, with \<open>wrap64\<close> written out where an overflow
    can be reached;
  \<^item> generic facts about lists, and the reachability rule that the state machines use.
\<close>

named_theorems go_simps \<open>evaluation of the Go library functions\<close>
named_theorems inv_intros \<open>preservation of component invariants\<close>


section \<open>Maps\<close>

type_synonym ('k, 'v) gomap = "('k \<times> 'v) list"

abbreviation mget :: "('k, 'v) gomap \<Rightarrow> 'k \<Rightarrow> 'v option" where
  "mget m k \<equiv> map_of m k"

abbreviation mput :: "'k \<Rightarrow> 'v \<Rightarrow> ('k, 'v) gomap \<Rightarrow> ('k, 'v) gomap" where
  "mput k v m \<equiv> AList.update k v m"

abbreviation mdel :: "'k \<Rightarrow> ('k, 'v) gomap \<Rightarrow> ('k, 'v) gomap" where
  "mdel k m \<equiv> AList.delete k m"

abbreviation keys :: "('k, 'v) gomap \<Rightarrow> 'k list" where
  "keys m \<equiv> map fst m"

text \<open>Indexing a Go map yields the zero value of the element type for a missing key.\<close>

definition mget_or :: "'v \<Rightarrow> ('k, 'v) gomap \<Rightarrow> 'k \<Rightarrow> 'v" where
  "mget_or z m k = (case mget m k of None \<Rightarrow> z | Some v \<Rightarrow> v)"

abbreviation mtrue :: "('k, bool) gomap \<Rightarrow> 'k \<Rightarrow> bool" where
  "mtrue m k \<equiv> mget_or False m k"

lemma mget_mput [simp]: "mget (mput k v m) k' = (if k' = k then Some v else mget m k')"
  by (simp add: AList.update_conv')

lemma mget_mdel [simp]: "mget (mdel k m) k' = (if k' = k then None else mget m k')"
  by (simp add: AList.delete_conv')

lemma mget_or_mput [simp]: "mget_or z (mput k v m) k' = (if k' = k then v else mget_or z m k')"
  by (simp add: mget_or_def)

lemma mget_or_mdel [simp]: "mget_or z (mdel k m) k' = (if k' = k then z else mget_or z m k')"
  by (simp add: mget_or_def)

lemma mget_or_Nil [simp]: "mget_or z [] k = z"
  by (simp add: mget_or_def)

lemma distinct_keys_mput [simp, intro]: "distinct (keys m) \<Longrightarrow> distinct (keys (mput k v m))"
  by (rule AList.distinct_update)

lemma distinct_keys_mdel [simp, intro]: "distinct (keys m) \<Longrightarrow> distinct (keys (mdel k m))"
  by (rule AList.distinct_delete)

lemma keys_mdel [simp]: "set (keys (mdel k m)) = set (keys m) - {k}"
  by (induction m) auto

lemma keys_mput [simp]: "set (keys (mput k v m)) = insert k (set (keys m))"
  by (simp add: AList.dom_update)

lemma fst_set_mdel [simp]: "fst ` set (mdel k m) = fst ` set m - {k}"
  using keys_mdel [of k m] by simp

lemma fst_set_mput [simp]: "fst ` set (mput k v m) = insert k (fst ` set m)"
  using keys_mput [of k v m] by simp

lemma mget_eq_None: "mget m k = None \<longleftrightarrow> k \<notin> set (keys m)"
  by (simp add: map_of_eq_None_iff image_image)

lemma mget_in_keys: "mget m k = Some v \<Longrightarrow> k \<in> set (keys m)"
  by (metis mget_eq_None option.distinct(1))

lemma keys_mget: "k \<in> set (keys m) \<Longrightarrow> \<exists>v. mget m k = Some v"
  by (metis mget_eq_None not_None_eq)

lemma mdel_absent: "k \<notin> set (keys m) \<Longrightarrow> mdel k m = m"
  by (induction m) auto

lemma mget_map_values: "mget (map (\<lambda>(k, v). (k, f k v)) m) k = map_option (f k) (mget m k)"
  by (induction m) auto

lemma find_key_None: "f y \<notin> f ` set xs \<Longrightarrow> find (\<lambda>x. f x = f y) xs = None"
  by (metis (mono_tags, lifting) find_None_iff image_eqI)

text \<open>
  The interface the components rely on: what a lookup returns after a store and after a delete,
  and that both keep the keys distinct. The association lists provide it.
\<close>

locale go_map =
  fixes lookup :: "'m \<Rightarrow> 'k \<Rightarrow> 'v option"
    and store :: "'k \<Rightarrow> 'v \<Rightarrow> 'm \<Rightarrow> 'm"
    and remove :: "'k \<Rightarrow> 'm \<Rightarrow> 'm"
    and wf_map :: "'m \<Rightarrow> bool"
  assumes lookup_store: "lookup (store k v m) k' = (if k' = k then Some v else lookup m k')"
    and lookup_remove: "lookup (remove k m) k' = (if k' = k then None else lookup m k')"
    and wf_store: "wf_map m \<Longrightarrow> wf_map (store k v m)"
    and wf_remove: "wf_map m \<Longrightarrow> wf_map (remove k m)"
begin

lemma lookup_store_same: "lookup (store k v m) k = Some v"
  by (simp add: lookup_store)

lemma lookup_other:
  "k' \<noteq> k \<Longrightarrow> lookup (store k v m) k' = lookup m k' \<and> lookup (remove k m) k' = lookup m k'"
  by (simp add: lookup_store lookup_remove)

lemma lookup_store_remove: "lookup (remove k (store k v m)) k' = (if k' = k then None else lookup m k')"
  by (simp add: lookup_store lookup_remove)

end

interpretation am: go_map mget mput mdel "\<lambda>m. distinct (keys m)"
  by unfold_locales simp_all


section \<open>Lists\<close>

text \<open>The slice idiom \<open>append(xs[:i], xs[i+1:]...)\<close> removes the element at an index.\<close>

definition remove_at :: "nat \<Rightarrow> 'a list \<Rightarrow> 'a list" where
  "remove_at i xs = take i xs @ drop (Suc i) xs"

lemma remove_at_0 [simp]: "remove_at 0 (x # xs) = xs"
  by (simp add: remove_at_def)

lemma remove_at_Suc [simp]: "remove_at (Suc i) (x # xs) = x # remove_at i xs"
  by (simp add: remove_at_def)

lemma length_remove_at [simp]: "i < length xs \<Longrightarrow> length (remove_at i xs) = length xs - 1"
  by (simp add: remove_at_def)

lemma set_remove_at: "set (remove_at i xs) \<subseteq> set xs"
  by (auto simp: remove_at_def dest: in_set_takeD in_set_dropD)

lemma remove_at_split: "i < length xs \<Longrightarrow> xs = take i xs @ xs ! i # drop (Suc i) xs"
  by (simp add: id_take_nth_drop)

text \<open>Removing the first element that satisfies a predicate (a \<open>for\<close> loop that splices and breaks).\<close>

fun remove_first :: "('a \<Rightarrow> bool) \<Rightarrow> 'a list \<Rightarrow> 'a list" where
  "remove_first p [] = []"
| "remove_first p (x # xs) = (if p x then xs else x # remove_first p xs)"

lemma set_remove_first: "set (remove_first p xs) \<subseteq> set xs"
  by (induction xs) auto

lemma length_remove_first: "length (remove_first p xs) \<le> length xs"
  by (induction xs) auto

lemma remove_first_absent: "\<forall>x \<in> set xs. \<not> p x \<Longrightarrow> remove_first p xs = xs"
  by (induction xs) auto

lemma distinct_remove_first: "distinct (map f xs) \<Longrightarrow> distinct (map f (remove_first p xs))"
proof (induction xs)
  case (Cons x xs)
  then show ?case using set_remove_first [of p xs] by auto
qed simp

lemma filter_filter_not: "length (filter p xs) + length (filter (\<lambda>x. \<not> p x) xs) = length xs"
  by (induction xs) auto


section \<open>Reachable states\<close>

inductive reach :: "('s \<Rightarrow> bool) \<Rightarrow> ('s \<Rightarrow> 's \<Rightarrow> bool) \<Rightarrow> 's \<Rightarrow> bool" for init step where
  reach_init: "init s \<Longrightarrow> reach init step s"
| reach_step: "reach init step s \<Longrightarrow> step s t \<Longrightarrow> reach init step t"

text \<open>An inductive invariant of a step relation: it holds at the start and every step keeps it.\<close>

locale invariant_of =
  fixes init :: "'s \<Rightarrow> bool"
    and step :: "'s \<Rightarrow> 's \<Rightarrow> bool"
    and inv :: "'s \<Rightarrow> bool"
  assumes inv_init: "init s \<Longrightarrow> inv s"
    and inv_step: "inv s \<Longrightarrow> step s t \<Longrightarrow> inv t"
begin

lemma inv_reach: "reach init step s \<Longrightarrow> inv s"
  by (induction rule: reach.induct) (auto intro: inv_init inv_step)

lemma inv_steps: "step\<^sup>*\<^sup>* s t \<Longrightarrow> inv s \<Longrightarrow> inv t"
  by (induction rule: rtranclp_induct) (auto intro: inv_step)

end

end
