(* ===== verification/Go_Strings.thy ===== *)
theory Go_Strings
  imports Prelude
begin

text \<open>
  Go strings: the functions of \<open>strings\<close>, \<open>strconv\<close>, \<open>unicode/utf8\<close> and \<open>fmt\<close> that the
  modelled sources call, each as an executable function on byte lists, with the round trips the
  components need (splitting and joining, printing and reading a decimal number).
\<close>

section \<open>Bytes and runes\<close>

definition byte :: "char \<Rightarrow> nat" where
  "byte c = of_char c"

definition in_range :: "nat \<Rightarrow> nat \<Rightarrow> char \<Rightarrow> bool" where
  "in_range lo hi c \<longleftrightarrow> lo \<le> byte c \<and> byte c \<le> hi"

abbreviation cont :: "char \<Rightarrow> bool" where
  "cont \<equiv> in_range 128 191"

definition rune_error :: nat where
  "rune_error = 65533"

text \<open>\<open>utf8.DecodeRuneInString\<close> on a non-empty string: the rune and how many bytes it takes.\<close>

fun decode2 :: "nat \<Rightarrow> nat \<Rightarrow> char \<Rightarrow> string \<Rightarrow> nat \<times> nat" where
  "decode2 lo hi c0 (c1 # s) =
     (if in_range lo hi c1 then (byte c0 mod 32 * 64 + byte c1 mod 64, 2) else (rune_error, 1))"
| "decode2 lo hi c0 [] = (rune_error, 1)"

fun decode3 :: "nat \<Rightarrow> nat \<Rightarrow> char \<Rightarrow> string \<Rightarrow> nat \<times> nat" where
  "decode3 lo hi c0 (c1 # c2 # s) =
     (if in_range lo hi c1 \<and> cont c2
      then (byte c0 mod 16 * 4096 + byte c1 mod 64 * 64 + byte c2 mod 64, 3) else (rune_error, 1))"
| "decode3 lo hi c0 s = (rune_error, 1)"

fun decode4 :: "nat \<Rightarrow> nat \<Rightarrow> char \<Rightarrow> string \<Rightarrow> nat \<times> nat" where
  "decode4 lo hi c0 (c1 # c2 # c3 # s) =
     (if in_range lo hi c1 \<and> cont c2 \<and> cont c3
      then (byte c0 mod 8 * 262144 + byte c1 mod 64 * 4096 + byte c2 mod 64 * 64 + byte c3 mod 64, 4)
      else (rune_error, 1))"
| "decode4 lo hi c0 s = (rune_error, 1)"

definition decode_rune :: "char \<Rightarrow> string \<Rightarrow> nat \<times> nat" where
  "decode_rune c s =
     (let b = byte c in
      if b < 128 then (b, 1)
      else if b < 194 then (rune_error, 1)
      else if b < 224 then decode2 128 191 c s
      else if b = 224 then decode3 160 191 c s
      else if b = 237 then decode3 128 159 c s
      else if b < 240 then decode3 128 191 c s
      else if b = 240 then decode4 144 191 c s
      else if b < 244 then decode4 128 191 c s
      else if b = 244 then decode4 128 143 c s
      else (rune_error, 1))"

lemma decode2_size: "0 < snd (decode2 lo hi c s)"
  by (induction lo hi c s rule: decode2.induct) auto

lemma decode3_size: "0 < snd (decode3 lo hi c s)"
  by (induction lo hi c s rule: decode3.induct) auto

lemma decode4_size: "0 < snd (decode4 lo hi c s)"
  by (induction lo hi c s rule: decode4.induct) auto

lemma decode_rune_size: "0 < snd (decode_rune c s)"
  by (simp add: decode_rune_def Let_def decode2_size decode3_size decode4_size)

text \<open>The runes of a string, each with the bytes it was decoded from.\<close>

function runes :: "string \<Rightarrow> (nat \<times> string) list" where
  "runes [] = []"
| "runes (c # s) =
     (let (r, n) = decode_rune c s in (r, take n (c # s)) # runes (drop n (c # s)))"
  by pat_completeness auto
termination
proof (relation "measure length")
  fix c s x r n
  assume "x = decode_rune c s" and "(r, n) = x"
  then have "0 < n" using decode_rune_size [of c s] by (metis snd_conv)
  then show "(drop n (c # s), c # s) \<in> measure length" by simp
qed simp

definition rune_count :: "string \<Rightarrow> nat" where
  "rune_count s = length (runes s)"

text \<open>Converting runes back: \<open>string(runes)\<close> writes U+FFFD where the input was invalid.\<close>

definition rune_bytes :: "nat \<times> string \<Rightarrow> string" where
  "rune_bytes x = (if fst x = rune_error then [char_of (239::nat), char_of (191::nat), char_of (189::nat)] else snd x)"

definition take_runes :: "nat \<Rightarrow> string \<Rightarrow> string" where
  "take_runes n s = concat (map rune_bytes (take n (runes s)))"

lemma concat_runes: "concat (map snd (runes s)) = s"
proof (induction s rule: runes.induct)
  case (2 c s)
  obtain r n where rn: "decode_rune c s = (r, n)" by force
  show ?case using "2.IH" [OF rn [symmetric] refl] by (simp add: rn del: take.simps drop.simps)
qed simp

lemma rune_count_le: "rune_count s \<le> length s"
  unfolding rune_count_def
proof (induction s rule: runes.induct)
  case (2 c s)
  obtain r n where rn: "decode_rune c s = (r, n)" by force
  then have "0 < n" using decode_rune_size [of c s] by simp
  with "2.IH" [OF rn [symmetric] refl] show ?case by (simp add: rn)
qed simp

section \<open>White space\<close>

text \<open>\<open>unicode.IsSpace\<close>.\<close>

definition is_space :: "nat \<Rightarrow> bool" where
  "is_space r \<longleftrightarrow> (9 \<le> r \<and> r \<le> 13) \<or> r = 32 \<or> r = 133 \<or> r = 160 \<or> r = 5760 \<or>
     (8192 \<le> r \<and> r \<le> 8202) \<or> r = 8232 \<or> r = 8233 \<or> r = 8239 \<or> r = 8287 \<or> r = 12288"

definition TrimSpace :: "string \<Rightarrow> string" where
  "TrimSpace s =
     (let sp = (\<lambda>x. is_space (fst x))
      in concat (map snd (rev (dropWhile sp (rev (dropWhile sp (runes s)))))))"

fun fields_of :: "(nat \<times> string) list \<Rightarrow> string \<Rightarrow> string list" where
  "fields_of [] acc = (if acc = [] then [] else [acc])"
| "fields_of ((r, bs) # xs) acc =
     (if is_space r then (if acc = [] then fields_of xs [] else acc # fields_of xs [])
      else fields_of xs (acc @ bs))"

definition Fields :: "string \<Rightarrow> string list" where
  "Fields s = fields_of (runes s) []"

lemma TrimSpace_Nil [simp]: "TrimSpace [] = []"
  by (simp add: TrimSpace_def)

section \<open>Searching, splitting and joining\<close>

abbreviation HasPrefix :: "string \<Rightarrow> string \<Rightarrow> bool" where
  "HasPrefix s p \<equiv> prefix p s"

abbreviation HasSuffix :: "string \<Rightarrow> string \<Rightarrow> bool" where
  "HasSuffix s p \<equiv> suffix p s"

definition TrimSuffix :: "string \<Rightarrow> string \<Rightarrow> string" where
  "TrimSuffix s suf = (if HasSuffix s suf then take (length s - length suf) s else s)"

abbreviation Contains :: "string \<Rightarrow> string \<Rightarrow> bool" where
  "Contains s p \<equiv> sublist p s"

text \<open>\<open>strings.Split\<close> with a one-byte separator.\<close>

fun split_on :: "char \<Rightarrow> string \<Rightarrow> string list" where
  "split_on c [] = [[]]"
| "split_on c (x # xs) =
     (if x = c then [] # split_on c xs
      else (case split_on c xs of [] \<Rightarrow> [[x]] | w # ws \<Rightarrow> (x # w) # ws))"

text \<open>\<open>strings.SplitN(s, c, 2)\<close>.\<close>

definition split2 :: "char \<Rightarrow> string \<Rightarrow> string list" where
  "split2 c s = (if c \<in> set s then [takeWhile (\<lambda>x. x \<noteq> c) s, tl (dropWhile (\<lambda>x. x \<noteq> c) s)] else [s])"

fun join :: "string \<Rightarrow> string list \<Rightarrow> string" where
  "join sep [] = []"
| "join sep [w] = w"
| "join sep (w # v # ws) = w @ sep @ join sep (v # ws)"

function replace_all :: "string \<Rightarrow> string \<Rightarrow> string \<Rightarrow> string" where
  "replace_all old new s =
     (if old = [] \<or> s = [] then s
      else if prefix old s then new @ replace_all old new (drop (length old) s)
      else hd s # replace_all old new (tl s))"
  by pat_completeness auto
termination
  by (relation "measure (\<lambda>(old, new, s). length s)") (auto simp: prefix_def)

declare replace_all.simps [simp del]

lemma split_on_nonempty [simp]: "split_on c s \<noteq> []"
  by (cases s) (auto split: list.splits)

lemma split_on_absent: "c \<notin> set s \<Longrightarrow> split_on c s = [s]"
  by (induction s) auto

lemma split_on_parts: "w \<in> set (split_on c s) \<Longrightarrow> c \<notin> set w"
  by (induction s arbitrary: w) (auto split: if_splits list.splits)

lemma join_Cons: "ws \<noteq> [] \<Longrightarrow> join sep (w # ws) = w @ sep @ join sep ws"
  by (cases ws) auto

lemma join_split_on [simp]: "join [c] (split_on c s) = s"
proof (induction s)
  case (Cons x xs)
  show ?case
  proof (cases "split_on c xs")
    case Nil
    then show ?thesis by simp
  next
    case (Cons w ws)
    with Cons.IH show ?thesis by (cases ws) (auto simp: join_Cons)
  qed
qed simp

lemma split_on_append_sep: "c \<notin> set w \<Longrightarrow> split_on c (w @ c # s) = w # split_on c s"
  by (induction w) auto

lemma split_on_join:
  "ws \<noteq> [] \<Longrightarrow> \<forall>w \<in> set ws. c \<notin> set w \<Longrightarrow> split_on c (join [c] ws) = ws"
proof (induction ws)
  case (Cons w ws)
  then show ?case
    by (cases ws) (auto simp: split_on_absent split_on_append_sep)
qed simp

text \<open>\<open>filepath.Ext\<close>: from the last dot of the last path element.\<close>

definition Ext :: "string \<Rightarrow> string" where
  "Ext path =
     (let back = takeWhile (\<lambda>c. c \<noteq> CHR ''.'' \<and> c \<noteq> CHR ''/'') (rev path)
      in case drop (length back) (rev path) of [] \<Rightarrow> [] | c # _ \<Rightarrow> if c = CHR ''.'' then CHR ''.'' # rev back else [])"

text \<open>
  The keys \<open>a + "\x00" + b\<close> that several components build are injective as long as the first
  part holds no NUL byte.
\<close>

definition nul_key :: "string \<Rightarrow> string \<Rightarrow> string" where
  "nul_key a b = a @ char_of (0::nat) # b"

definition nul_free :: "string \<Rightarrow> bool" where
  "nul_free s \<longleftrightarrow> char_of (0::nat) \<notin> set s"

lemma nul_key_inj:
  assumes "nul_free a" and "nul_free a'"
  shows "nul_key a b = nul_key a' b' \<longleftrightarrow> a = a' \<and> b = b'"
proof
  assume eq: "nul_key a b = nul_key a' b'"
  let ?p = "\<lambda>x. x \<noteq> char_of (0::nat)"
  have "takeWhile ?p (nul_key u v) = u" if "nul_free u" for u v
    using that by (auto simp: nul_key_def nul_free_def takeWhile_append)
  then have "a = a'" using assms eq by metis
  with eq show "a = a' \<and> b = b'" by (simp add: nul_key_def)
qed simp

section \<open>Numbers\<close>

definition wrap64 :: "int \<Rightarrow> int" where
  "wrap64 x = (x + 2 ^ 63) mod 2 ^ 64 - 2 ^ 63"

definition max_int64 :: int where
  "max_int64 = 2 ^ 63 - 1"

definition min_int64 :: int where
  "min_int64 = - (2 ^ 63)"

lemma wrap64_id: "min_int64 \<le> x \<Longrightarrow> x \<le> max_int64 \<Longrightarrow> wrap64 x = x"
  by (simp add: wrap64_def min_int64_def max_int64_def)

lemma wrap64_range: "min_int64 \<le> wrap64 x \<and> wrap64 x \<le> max_int64"
  by (simp add: wrap64_def min_int64_def max_int64_def)

definition is_digit :: "char \<Rightarrow> bool" where
  "is_digit c \<longleftrightarrow> 48 \<le> byte c \<and> byte c \<le> 57"

fun digits_value :: "int \<Rightarrow> string \<Rightarrow> int" where
  "digits_value n [] = n"
| "digits_value n (c # s) = digits_value (10 * n + (int (byte c) - 48)) s"

text \<open>
  \<open>strconv.Atoi\<close>: the value and whether there was no error. A syntax error gives 0, a value out
  of range gives the nearest \<open>int64\<close>.
\<close>

definition Atoi :: "string \<Rightarrow> int \<times> bool" where
  "Atoi s =
     (let neg = (case s of [] \<Rightarrow> False | c # _ \<Rightarrow> byte c = 45);
          ds = (case s of [] \<Rightarrow> [] | c # t \<Rightarrow> if byte c = 45 \<or> byte c = 43 then t else s)
      in if ds = [] \<or> \<not> list_all is_digit ds then (0, False)
         else let v = (if neg then - digits_value 0 ds else digits_value 0 ds)
              in if v > max_int64 then (max_int64, False)
                 else if v < min_int64 then (min_int64, False) else (v, True))"

fun nat_digits :: "nat \<Rightarrow> string" where
  "nat_digits n = (if n < 10 then [char_of (48 + n)] else nat_digits (n div 10) @ [char_of (48 + n mod 10)])"

declare nat_digits.simps [simp del]

definition Itoa :: "int \<Rightarrow> string" where
  "Itoa i = (if i < 0 then char_of (45::nat) # nat_digits (nat (- i)) else nat_digits (nat i))"

lemma digits_value_append: "digits_value n (s @ t) = digits_value (digits_value n s) t"
  by (induction s arbitrary: n) auto

lemma byte_char_of [simp]: "n < 256 \<Longrightarrow> byte (char_of n) = n"
  by (simp add: byte_def)

lemma nat_digits_nonempty [simp]: "nat_digits n \<noteq> []"
  by (subst nat_digits.simps) simp

lemma nat_digits_are_digits: "list_all is_digit (nat_digits n)"
proof (induction n rule: nat_digits.induct)
  case (1 n)
  show ?case
  proof (cases "n < 10")
    case True
    then show ?thesis by (subst nat_digits.simps) (simp add: is_digit_def)
  next
    case False
    have "n mod 10 < 10" by simp
    then have "is_digit (char_of (48 + n mod 10))" by (simp add: is_digit_def)
    with False "1.IH" show ?thesis by (subst nat_digits.simps) simp
  qed
qed

lemma digits_value_nat_digits: "digits_value 0 (nat_digits n) = int n"
proof (induction n rule: nat_digits.induct)
  case (1 n)
  show ?case
  proof (cases "n < 10")
    case True
    then show ?thesis by (subst nat_digits.simps) simp
  next
    case False
    then have "digits_value 0 (nat_digits n) = 10 * int (n div 10) + int (n mod 10)"
      using "1.IH" by (subst nat_digits.simps) (simp add: digits_value_append)
    also have "\<dots> = int n" by presburger
    finally show ?thesis .
  qed
qed

lemma hd_nat_digits: "is_digit (hd (nat_digits n))"
  using nat_digits_are_digits [of n] by (cases "nat_digits n") auto

lemma nat_digits_inj: "nat_digits m = nat_digits n \<longleftrightarrow> m = n"
  by (metis digits_value_nat_digits of_nat_eq_iff)

lemma nat_digits_no_sign: "nat_digits n \<noteq> char_of (45::nat) # s"
proof
  assume eq: "nat_digits n = char_of (45::nat) # s"
  show False using hd_nat_digits [of n] unfolding eq by (simp add: is_digit_def)
qed

lemma Itoa_inj: "Itoa i = Itoa j \<longleftrightarrow> i = j"
proof (cases "i < 0"; cases "j < 0")
  assume "i < 0" "j < 0"
  then have "nat (- i) = nat (- j) \<longleftrightarrow> i = j" by linarith
  with \<open>i < 0\<close> \<open>j < 0\<close> show ?thesis by (simp add: Itoa_def nat_digits_inj)
next
  assume "i < 0" "\<not> j < 0"
  then show ?thesis using nat_digits_no_sign [of "nat j", THEN not_sym] by (simp add: Itoa_def)
next
  assume "\<not> i < 0" "j < 0"
  then show ?thesis using nat_digits_no_sign [of "nat i"] by (simp add: Itoa_def)
next
  assume "\<not> i < 0" "\<not> j < 0"
  then show ?thesis by (simp add: Itoa_def nat_digits_inj eq_nat_nat_iff)
qed

lemma Atoi_Itoa: "min_int64 \<le> i \<Longrightarrow> i \<le> max_int64 \<Longrightarrow> Atoi (Itoa i) = (i, True)"
proof (cases "i < 0")
  case True
  assume "min_int64 \<le> i" "i \<le> max_int64"
  with True show ?thesis
    by (simp add: Atoi_def Itoa_def nat_digits_are_digits digits_value_nat_digits Let_def)
next
  case False
  assume range: "min_int64 \<le> i" "i \<le> max_int64"
  obtain c t where ct: "nat_digits (nat i) = c # t" by (cases "nat_digits (nat i)") auto
  with hd_nat_digits [of "nat i"] have "is_digit c" by simp
  with False range ct nat_digits_are_digits [of "nat i"] digits_value_nat_digits [of "nat i"]
  show ?thesis by (simp add: Atoi_def Itoa_def is_digit_def Let_def)
qed

section \<open>Letter case\<close>

text \<open>
  \<open>strings.EqualFold\<close> and \<open>strings.ToLower\<close> rest on the Unicode tables of the Go distribution,
  which are not part of the repository. The components take the folding as a parameter; what they
  rely on is that it is an equivalence. Folding of ASCII letters is the instance the witnesses use.
\<close>

definition lower_ascii :: "string \<Rightarrow> string" where
  "lower_ascii s = map (\<lambda>c. if 65 \<le> byte c \<and> byte c \<le> 90 then char_of (byte c + 32) else c) s"

definition EqualFold_ascii :: "string \<Rightarrow> string \<Rightarrow> bool" where
  "EqualFold_ascii a b \<longleftrightarrow> lower_ascii a = lower_ascii b"

locale case_fold =
  fixes EqualFold :: "string \<Rightarrow> string \<Rightarrow> bool"
  assumes fold_refl: "EqualFold a a"
    and fold_sym: "EqualFold a b \<Longrightarrow> EqualFold b a"
    and fold_trans: "EqualFold a b \<Longrightarrow> EqualFold b c \<Longrightarrow> EqualFold a c"
begin

lemma fold_left_cong: "EqualFold a b \<Longrightarrow> EqualFold a c = EqualFold b c"
  using fold_sym fold_trans by blast

end

interpretation ascii: case_fold EqualFold_ascii
  by unfold_locales (simp_all add: EqualFold_ascii_def)

end
