(* ===== verification/Events.thy ===== *)
theory Events
  imports Go_Strings
begin

text \<open>
  The vocabulary of \<open>internal/events\<close>: the event types, the stop reasons a run may end with,
  the message and tool-call records, and the payload a publisher hands to the bus. A payload is
  a JSON-like value: Go's \<open>map[string]any\<close> with the Go values the publishers put into it.
\<close>

section \<open>Event types\<close>

text \<open>The constants of \<open>event.go\<close>, each with its wire name.\<close>

definition event_types :: "(string \<times> string) list" where
  "event_types =
    [(''Snapshot'', ''snapshot''),
     (''ProjectionPatch'', ''projection.patch''),
     (''SessionCreated'', ''session.created''),
     (''SessionRenamed'', ''session.renamed''),
     (''ChatNamed'', ''chat.named''),
     (''SessionUpdated'', ''session.updated''),
     (''SessionReset'', ''session.reset''),
     (''SessionClosed'', ''session.closed''),
     (''SessionReopened'', ''session.reopened''),
     (''SessionRestoreFailed'', ''session.restore_failed''),
     (''ChatDeleted'', ''chat.deleted''),
     (''ChatListSnapshot'', ''chat.list.snapshot''),
     (''ChatListPatch'', ''chat.list.patch''),
     (''ConnectionProbed'', ''connection.probed''),
     (''ConnectionHealth'', ''connection.health''),
     (''ConnectionDiscovering'', ''connection.discovering''),
     (''ProbeRequest'', ''probe.request''),
     (''ConfigChanged'', ''config.changed''),
     (''ShellIdentity'', ''shell.identity''),
     (''ShellCredential'', ''shell.credential''),
     (''ServiceIdentityUnavailable'', ''service.identity_unavailable''),
     (''ShellGrant'', ''shell.grant''),
     (''ShellGrantLapsed'', ''shell.grant_lapsed''),
     (''FileGrant'', ''file.grant''),
     (''FileGrantLapsed'', ''file.grant_lapsed''),
     (''SigningApplied'', ''signing.applied''),
     (''OperatorContext'', ''operator.context''),
     (''Error'', ''error''),
     (''UIError'', ''ui.error''),
     (''SubscriberDropped'', ''subscriber.dropped''),
     (''LogRetention'', ''log.retention''),
     (''RunQueued'', ''run.queued''),
     (''RunResumed'', ''run.resumed''),
     (''RunStarted'', ''run.started''),
     (''RunStopping'', ''run.stopping''),
     (''RunStopped'', ''run.stopped''),
     (''RunLabeled'', ''run.labeled''),
     (''RunAborted'', ''run.aborted''),
     (''ItemDone'', ''item.done''),
     (''ItemStuck'', ''item.stuck''),
     (''PlanDone'', ''plan.done''),
     (''WorkerJob'', ''c.job''),
     (''Stage'', ''stage''),
     (''ModelRequest'', ''model.request''),
     (''ModelProgress'', ''model.progress''),
     (''ModelDelta'', ''model.delta''),
     (''ModelResponse'', ''model.response''),
     (''DelegatedUsage'', ''delegate.usage''),
     (''ModelRetry'', ''model.retry''),
     (''ModelUnreachable'', ''model.unreachable''),
     (''ModelBusy'', ''model.busy''),
     (''ModelReachable'', ''model.reachable''),
     (''ToolCallEvent'', ''tool.call''),
     (''ToolProgress'', ''tool.progress''),
     (''ToolResult'', ''tool.result''),
     (''HookRan'', ''hook.ran''),
     (''ToolToggled'', ''tool.toggled''),
     (''AgentTools'', ''agent.tools''),
     (''MessageAppended'', ''message.appended''),
     (''MessageUpdated'', ''message.updated''),
     (''MessageRemoved'', ''message.removed''),
     (''MessagesReminted'', ''messages.reminted''),
     (''MessageQueued'', ''message.queued''),
     (''CycleDetected'', ''cycle.detected''),
     (''ApprovalRequired'', ''approval.required''),
     (''ApprovalDecided'', ''approval.decided''),
     (''WorkspaceConflict'', ''workspace.conflict''),
     (''WorkspaceBound'', ''workspace.bound''),
     (''MemoryNoted'', ''memory.noted''),
     (''MemoryCleared'', ''memory.cleared''),
     (''MemoryFlushed'', ''memory.flushed''),
     (''StatsCleared'', ''stats.cleared''),
     (''ProjectInstructions'', ''project.instructions_loaded''),
     (''PolicyApproved'', ''policy.approved''),
     (''PolicyDenied'', ''policy.denied''),
     (''PolicyRevoked'', ''policy.revoked''),
     (''Compaction'', ''compaction''),
     (''CompactionSummary'', ''compaction.summary''),
     (''BudgetEvent'', ''budget''),
     (''FilesDelivered'', ''files.delivered''),
     (''NavigationStarted'', ''navigation.started''),
     (''NavigationMeasured'', ''navigation.measured''),
     (''NavigationSuppressed'', ''navigation.suppressed''),
     (''NotificationFailed'', ''notification.failed''),
     (''NotificationChanged'', ''notification.changed''),
     (''UpdateChanged'', ''update.changed''),
     (''Speech'', ''speech''),
     (''AttachmentOCRProgress'', ''attachment.ocr_progress''),
     (''ReflectionSkipped'', ''reflection.skipped''),
     (''ToolUnoffered'', ''tool.unoffered''),
     (''Trace'', ''trace''),
     (''RunSummary'', ''run.summary''),
     (''ModelRefused'', ''model.refused''),
     (''ModelPerf'', ''model.perf''),
     (''ToolPerf'', ''tool.perf''),
     (''ModelBehaviour'', ''model.behaviour''),
     (''BudgetDrift'', ''budget.drift''),
     (''ApprovalWait'', ''approval.wait''),
     (''ConnectionState'', ''connection.state''),
     (''UpdateResult'', ''update''),
     (''SettingsShape'', ''settings.shape''),
     (''AppStart'', ''app.start''),
     (''AppLifecycle'', ''app.lifecycle''),
     (''PageHealth'', ''page.health''),
     (''LinkHealth'', ''link.health''),
     (''Install'', ''install''),
     (''Resource'', ''resource''),
     (''FeatureUse'', ''feature.use''),
     (''HeaderState'', ''header.state''),
     (''ImportHermes'', ''import.hermes''),
     (''NavigationDocumentStarted'', ''navigation.document_started''),
     (''NavigationDocumentCompleted'', ''navigation.document_completed''),
     (''AgentConnectionChange'', ''agent.connection_change'')]"

abbreviation SessionCreated :: string where "SessionCreated \<equiv> ''session.created''"
abbreviation SessionReset :: string where "SessionReset \<equiv> ''session.reset''"
abbreviation SessionClosed :: string where "SessionClosed \<equiv> ''session.closed''"
abbreviation SessionReopened :: string where "SessionReopened \<equiv> ''session.reopened''"
abbreviation ShellGrant :: string where "ShellGrant \<equiv> ''shell.grant''"
abbreviation ShellGrantLapsed :: string where "ShellGrantLapsed \<equiv> ''shell.grant_lapsed''"
abbreviation FileGrant :: string where "FileGrant \<equiv> ''file.grant''"
abbreviation FileGrantLapsed :: string where "FileGrantLapsed \<equiv> ''file.grant_lapsed''"
abbreviation Error :: string where "Error \<equiv> ''error''"
abbreviation SubscriberDropped :: string where "SubscriberDropped \<equiv> ''subscriber.dropped''"
abbreviation RunQueued :: string where "RunQueued \<equiv> ''run.queued''"
abbreviation RunResumed :: string where "RunResumed \<equiv> ''run.resumed''"
abbreviation RunStarted :: string where "RunStarted \<equiv> ''run.started''"
abbreviation RunStopping :: string where "RunStopping \<equiv> ''run.stopping''"
abbreviation RunStopped :: string where "RunStopped \<equiv> ''run.stopped''"
abbreviation RunAborted :: string where "RunAborted \<equiv> ''run.aborted''"
abbreviation ModelReachable :: string where "ModelReachable \<equiv> ''model.reachable''"
abbreviation ToolCallEvent :: string where "ToolCallEvent \<equiv> ''tool.call''"
abbreviation ToolProgress :: string where "ToolProgress \<equiv> ''tool.progress''"
abbreviation MessageAppended :: string where "MessageAppended \<equiv> ''message.appended''"
abbreviation MessageUpdated :: string where "MessageUpdated \<equiv> ''message.updated''"
abbreviation MessageRemoved :: string where "MessageRemoved \<equiv> ''message.removed''"
abbreviation MessageQueued :: string where "MessageQueued \<equiv> ''message.queued''"
abbreviation ApprovalRequired :: string where "ApprovalRequired \<equiv> ''approval.required''"
abbreviation ApprovalDecided :: string where "ApprovalDecided \<equiv> ''approval.decided''"
abbreviation Compaction :: string where "Compaction \<equiv> ''compaction''"
abbreviation CompactionSummary :: string where "CompactionSummary \<equiv> ''compaction.summary''"
abbreviation ModelRetry :: string where "ModelRetry \<equiv> ''model.retry''"
abbreviation ItemDone :: string where "ItemDone \<equiv> ''item.done''"
abbreviation ItemStuck :: string where "ItemStuck \<equiv> ''item.stuck''"
abbreviation PlanDone :: string where "PlanDone \<equiv> ''plan.done''"
abbreviation WorkerJobEvent :: string where "WorkerJobEvent \<equiv> ''c.job''"

definition Stages :: "string list" where
  "Stages = [''assemble'', ''call_model'', ''parse'', ''dispatch'', ''execute'', ''append'', ''compact'', ''wait_user'']"

section \<open>Stop reasons\<close>

definition StopReasons :: "string list" where
  "StopReasons =
    [''done'', ''reply_empty_reasoning_shown'', ''reply_empty'', ''announced_action_and_stopped'', ''aborted_mid_model'', ''aborted_mid_tool'', ''aborted_mid_run'', ''mailbox_stop'', ''cron_timeout'', ''wall_clock'', ''cycle'', ''context_ceiling'', ''context_exhausted'', ''length'', ''model_error'', ''model_unreachable'', ''connection_not_runnable'', ''workspace_not_runnable'', ''malformed_turn'']"

definition HistoricalStopReasons :: "string list" where
  "HistoricalStopReasons = [''emergency'', ''safe'', ''tool_errors'']"

fun declared_in :: "string list \<Rightarrow> string \<Rightarrow> bool" where
  "declared_in [] reason = False"
| "declared_in (d # ds) reason = (if d = reason then True else declared_in ds reason)"

definition DeclaredStopReason :: "string \<Rightarrow> bool" where
  "DeclaredStopReason reason = declared_in StopReasons reason"

definition KnownStopReason :: "string \<Rightarrow> bool" where
  "KnownStopReason reason =
     (if DeclaredStopReason reason then True else reason \<in> set HistoricalStopReasons)"

lemma declared_in_iff: "declared_in ds r \<longleftrightarrow> r \<in> set ds"
  by (induction ds) auto

section \<open>Messages\<close>

record tool_call =
  tcID :: string
  tcName :: string
  tcArguments :: string

record attachment =
  aPath :: string
  aBytes :: int
  aSHA256 :: string
  aKind :: string
  aOutcome :: string

record plan_proposal =
  ppID :: string
  ppKind :: string
  ppPath :: string
  ppOldText :: string
  ppNewText :: string
  ppItemID :: string
  ppSourceMessageIDs :: "string list"

record message =
  mID :: string
  mRole :: string
  mContent :: string
  mReasoning :: string
  mToolCalls :: "tool_call list"
  mToolCallID :: string
  mName :: string
  mCategory :: string
  mTokens :: int
  mEstimated :: bool
  mElided :: bool
  mTurn :: int
  mOK :: "bool option"
  mAttachments :: "attachment list"
  mPlanProposals :: "plan_proposal list"

text \<open>The zero value of the struct.\<close>

definition zero_message :: message where
  "zero_message = \<lparr>mID = [], mRole = [], mContent = [], mReasoning = [], mToolCalls = [], mToolCallID = [],
     mName = [], mCategory = [], mTokens = 0, mEstimated = False, mElided = False, mTurn = 0, mOK = None,
     mAttachments = [], mPlanProposals = []\<rparr>"

section \<open>Payloads and events\<close>

datatype val =
    VNil
  | VBool bool
  | VInt int
  | VStr string
  | VList "val list"
  | VObj "(string \<times> val) list"
  | VMsg message
  | VCalls "tool_call list"

text \<open>What \<open>events.New\<close> is given; the time stamp and the sequence number are the bus's.\<close>

record bus_note =
  nType :: string
  nSession :: string
  nRun :: string
  nData :: val

record event = bus_note +
  eSeq :: int
  eTS :: string

definition New :: "string \<Rightarrow> string \<Rightarrow> string \<Rightarrow> (string \<times> val) list \<Rightarrow> bus_note" where
  "New t s r d = \<lparr>nType = t, nSession = s, nRun = r, nData = VObj d\<rparr>"

text \<open>Reading a payload: type assertions with the comma-ok form.\<close>

definition obj :: "val \<Rightarrow> (string \<times> val) list" where
  "obj v = (case v of VObj fs \<Rightarrow> fs | _ \<Rightarrow> [])"

definition str_of :: "val option \<Rightarrow> string" where
  "str_of v = (case v of Some (VStr s) \<Rightarrow> s | _ \<Rightarrow> [])"

definition bool_of :: "val option \<Rightarrow> bool" where
  "bool_of v = (case v of Some (VBool b) \<Rightarrow> b | _ \<Rightarrow> False)"

definition vstrs :: "string list \<Rightarrow> val" where
  "vstrs ss = VList (map VStr ss)"

definition strs_of :: "val option \<Rightarrow> string list" where
  "strs_of v = (case v of Some (VList vs) \<Rightarrow> map (\<lambda>x. str_of (Some x)) vs | _ \<Rightarrow> [])"

lemma New_sel [simp]:
  "nType (New t s r d) = t" "nSession (New t s r d) = s" "nRun (New t s r d) = r"
  "nData (New t s r d) = VObj d"
  by (simp_all add: New_def)

lemma strs_of_vstrs [simp]: "strs_of (Some (vstrs ss)) = ss"
  by (induction ss) (simp_all add: strs_of_def vstrs_def str_of_def)

end
