(* ===== verification/Session.thy ===== *)
theory Session
  imports Events "HOL-Library.Multiset"
begin

text \<open>
  A chat session (\<open>internal/session/session.go\<close>) and the part of the registry that admits work to
  it (\<open>registry.go\<close>): its run state, its messages, its open/closed life cycle, its tools, its
  per-run quotas and gates. Every method of the source holds the session's mutex for its whole
  body, so each is one function on the record. Where a method can fail, the result is
  \<open>Inl\<close> of the error text.
\<close>

section \<open>State\<close>

record run_state =
  rsStatus :: string
  rsRunID :: string
  rsTurn :: int
  rsQueuePosition :: int
  rsPartial :: string
  rsLastStopReason :: string
  rsLastStopDetail :: string
  rsLastRunID :: string
  rsResultLabel :: string

definition zero_run :: run_state where
  "zero_run = \<lparr>rsStatus = [], rsRunID = [], rsTurn = 0, rsQueuePosition = 0, rsPartial = [],
     rsLastStopReason = [], rsLastStopDetail = [], rsLastRunID = [], rsResultLabel = []\<rparr>"

text \<open>The part of a repository policy that the session reads (\<open>workspace.Policy\<close>).\<close>

record repo_policy =
  rpApprovalMode :: string
  rpDefaultToolset :: "string list"

record session =
  sID :: string
  sLabel :: string
  sAgentID :: string
  sConnectionID :: string
  sWorkspace :: string
  sRole :: string
  sPlanID :: string
  sUnattended :: bool
  sBoundaryHits :: "string list"
  sWorkspaceMissing :: bool
  sScratch :: bool
  sRepoPolicy :: "repo_policy option"
  sAgentName :: string
  sBConnection :: string
  sClosed :: bool
  sOrigin :: string
  sScheduledFailure :: string
  sMessages :: "message list"
  sRun :: run_state
  sToolsEnabled :: "(string, bool) gomap"
  sUntrustedInTurn :: bool
  sGeneratedImages :: int
  sToolCalls :: "(string, int) gomap"
  sRunnable :: bool
  sNotRunnableReason :: string
  sDegradedNotes :: "string list"
  sPromptAddendum :: string
  sNetworkBoundary :: string
  sNetworkBoundarySet :: bool
  sQueuedMessages :: int
  sQueuedMessageIDs :: "string list"
  sModelTurns :: int
  sCompactionCount :: int
  sCompactionTokenDelta :: int
  sCompactionModelCalls :: int
  sCompactionPrompt :: int
  sCompactionCompletion :: int
  sSubmitting :: int
  sRunPinID :: string
  sPlanPage :: bool
  sPlanAccept :: bool

section \<open>Run state, counters and boundary hits\<close>

definition SetRun :: "run_state \<Rightarrow> session \<Rightarrow> session" where
  "SetRun st s = s\<lparr>sRun := st\<rparr>"

definition UpdatePartial :: "string \<Rightarrow> session \<Rightarrow> session" where
  "UpdatePartial p s = s\<lparr>sRun := (sRun s)\<lparr>rsPartial := p\<rparr>\<rparr>"

definition SetQueuedMessages :: "int \<Rightarrow> session \<Rightarrow> session" where
  "SetQueuedMessages n s = s\<lparr>sQueuedMessages := n\<rparr>"

definition SetQueuedMessageIDs :: "string list \<Rightarrow> session \<Rightarrow> session" where
  "SetQueuedMessageIDs ids s = s\<lparr>sQueuedMessageIDs := ids\<rparr>"

definition RecordModelTurn :: "session \<Rightarrow> session" where
  "RecordModelTurn s = s\<lparr>sModelTurns := sModelTurns s + 1\<rparr>"

definition RecordCompaction :: "int \<Rightarrow> session \<Rightarrow> session" where
  "RecordCompaction d s = s\<lparr>sCompactionCount := sCompactionCount s + 1,
     sCompactionTokenDelta := sCompactionTokenDelta s + d\<rparr>"

definition RecordCompactionDelta :: "int \<Rightarrow> session \<Rightarrow> session" where
  "RecordCompactionDelta d s = s\<lparr>sCompactionTokenDelta := sCompactionTokenDelta s + d\<rparr>"

definition RecordCompactionModel :: "int \<Rightarrow> int \<Rightarrow> session \<Rightarrow> session" where
  "RecordCompactionModel p c s = s\<lparr>sCompactionModelCalls := sCompactionModelCalls s + 1,
     sCompactionPrompt := sCompactionPrompt s + p, sCompactionCompletion := sCompactionCompletion s + c\<rparr>"

definition RecordBoundaryHit :: "string \<Rightarrow> session \<Rightarrow> session" where
  "RecordBoundaryHit reason s = s\<lparr>sBoundaryHits := sBoundaryHits s @ [reason]\<rparr>"

definition ResetBoundaryHits :: "session \<Rightarrow> session" where
  "ResetBoundaryHits s = s\<lparr>sBoundaryHits := []\<rparr>"

definition SetRunnable :: "bool \<Rightarrow> string \<Rightarrow> session \<Rightarrow> session" where
  "SetRunnable ok reason s =
     (let reason' = (if \<not> ok \<and> TrimSpace reason = [] then ''chat is not runnable'' else reason)
      in s\<lparr>sRunnable := ok, sNotRunnableReason := reason'\<rparr>)"

definition stale_network_boundary_note :: string where
  "stale_network_boundary_note = ''network boundary text is stale until reopened''"

definition MarkNetworkBoundaryStale :: "string \<Rightarrow> session \<Rightarrow> session \<times> bool" where
  "MarkNetworkBoundaryStale current s =
     (let stale = (sNetworkBoundary s \<noteq> current);
          kept = filter (\<lambda>n. n \<noteq> stale_network_boundary_note) (sDegradedNotes s);
          notes = (if stale then kept @ [stale_network_boundary_note] else kept);
          changed = (length notes \<noteq> length (sDegradedNotes s))
      in (s\<lparr>sDegradedNotes := notes\<rparr>, changed))"

definition ReopenNetworkBoundary :: "string \<Rightarrow> session \<Rightarrow> session" where
  "ReopenNetworkBoundary current s =
     s\<lparr>sNetworkBoundary := current, sNetworkBoundarySet := True,
       sDegradedNotes := filter (\<lambda>n. n \<noteq> stale_network_boundary_note) (sDegradedNotes s)\<rparr>"

section \<open>Life cycle\<close>

definition IsRunning :: "session \<Rightarrow> bool" where
  "IsRunning s \<longleftrightarrow> rsStatus (sRun s) = ''running'' \<or> rsStatus (sRun s) = ''queued'' \<or>
     rsStatus (sRun s) = ''paused'' \<or> rsStatus (sRun s) = ''stopping'' \<or> rsStatus (sRun s) = ''held''"

definition Close :: "session \<Rightarrow> string + session" where
  "Close s =
     (if sClosed s then Inl ''session is already closed''
      else if IsRunning s then Inl ''session is running; stop the run before closing''
      else if sSubmitting s > 0 then Inl ''session is running; stop the run before closing''
      else Inr (s\<lparr>sClosed := True\<rparr>))"

definition BeginSubmission :: "session \<Rightarrow> session \<times> bool" where
  "BeginSubmission s =
     (if sClosed s then (s, False) else (s\<lparr>sSubmitting := sSubmitting s + 1\<rparr>, True))"

definition EndSubmission :: "session \<Rightarrow> session" where
  "EndSubmission s = s\<lparr>sSubmitting := sSubmitting s - 1\<rparr>"

text \<open>\<open>Registry.Reopen\<close> and \<open>Registry.BeginSubmission\<close> on the session they found; \<open>boundary\<close> is
  \<open>NetworkBoundary(r.config())\<close>. The second component is what is published.\<close>

definition registry_Reopen :: "string \<Rightarrow> session \<Rightarrow> string + session \<times> bus_note list" where
  "registry_Reopen boundary s =
     (if \<not> sClosed s then Inl ''session is already open''
      else Inr (ReopenNetworkBoundary boundary (s\<lparr>sClosed := False\<rparr>),
                [New SessionReopened (sID s) [] [(''session_id'', VStr (sID s))]]))"

definition registry_BeginSubmission ::
  "string \<Rightarrow> bool \<Rightarrow> session \<Rightarrow> string + session \<times> bus_note list" where
  "registry_BeginSubmission boundary reopen s =
     (let wasClosed = sClosed s
      in if wasClosed \<and> \<not> reopen then Inl ''session is closed''
         else let s1 = s\<lparr>sClosed := False, sSubmitting := sSubmitting s + 1\<rparr>
              in if wasClosed
                 then Inr (ReopenNetworkBoundary boundary s1,
                           [New SessionReopened (sID s) [] [(''session_id'', VStr (sID s))]])
                 else Inr (s1, []))"

section \<open>Messages\<close>

definition Append :: "message \<Rightarrow> session \<Rightarrow> session" where
  "Append m s = s\<lparr>sMessages := sMessages s @ [m]\<rparr>"

definition ReplaceMessages :: "message list \<Rightarrow> session \<Rightarrow> session" where
  "ReplaceMessages ms s = s\<lparr>sMessages := ms\<rparr>"

text \<open>
  The two splitting loops of \<open>MoveMessagesToEnd\<close> and \<open>RemoveMessages\<close>: the messages that stay,
  in order, and a map from id to message (the last one with that id wins) from which the wanted
  ids are read in the order given.
\<close>

fun split_wanted :: "string list \<Rightarrow> message list \<Rightarrow> message list \<times> (string, message) gomap" where
  "split_wanted wanted [] = ([], [])"
| "split_wanted wanted (m # ms) =
     (let (kept, byID) = split_wanted wanted ms
      in if mID m \<in> set wanted
         then (kept, if mget byID (mID m) = None then mput (mID m) m byID else byID)
         else (m # kept, byID))"

fun pick_by_id :: "(string, message) gomap \<Rightarrow> string list \<Rightarrow> message list" where
  "pick_by_id byID [] = []"
| "pick_by_id byID (i # ids) =
     (case mget byID i of Some m \<Rightarrow> m # pick_by_id byID ids | None \<Rightarrow> pick_by_id byID ids)"

definition MoveMessagesToEnd :: "string list \<Rightarrow> session \<Rightarrow> session \<times> message list" where
  "MoveMessagesToEnd ids s =
     (let (kept, byID) = split_wanted ids (sMessages s);
          moved = pick_by_id byID ids
      in (s\<lparr>sMessages := kept @ moved\<rparr>, moved))"

definition RemoveMessages :: "string list \<Rightarrow> session \<Rightarrow> session \<times> message list" where
  "RemoveMessages ids s =
     (let (kept, byID) = split_wanted ids (sMessages s)
      in (s\<lparr>sMessages := kept\<rparr>, pick_by_id byID ids))"

definition DropLastMessage :: "session \<Rightarrow> (session \<times> message) option" where
  "DropLastMessage s =
     (if sMessages s = [] then None
      else Some (s\<lparr>sMessages := butlast (sMessages s)\<rparr>, last (sMessages s)))"

text \<open>\<open>SetMessageCounts\<close>: the token counts a budget measurement assigns.\<close>

definition SetMessageCounts :: "(string, int \<times> bool) gomap \<Rightarrow> session \<Rightarrow> session" where
  "SetMessageCounts values s =
     s\<lparr>sMessages := map (\<lambda>m. case mget values (mID m) of
         Some (tokens, est) \<Rightarrow> m\<lparr>mTokens := tokens, mEstimated := est\<rparr> | None \<Rightarrow> m) (sMessages s)\<rparr>"

text \<open>
  \<open>RunPinFromTail\<close>: the loop that walks back from the end to the newest user message, then the
  loop that walks back to the start of that block.
\<close>

fun newest_user :: "message list \<Rightarrow> nat \<Rightarrow> nat option" where
  "newest_user ms 0 = None"
| "newest_user ms (Suc i) = (if mRole (ms ! i) = ''user'' then Some i else newest_user ms i)"

fun block_start :: "message list \<Rightarrow> nat \<Rightarrow> nat" where
  "block_start ms 0 = 0"
| "block_start ms (Suc i) = (if mRole (ms ! i) = ''user'' then block_start ms i else Suc i)"

definition RunPinFromTail :: "message list \<Rightarrow> string" where
  "RunPinFromTail ms =
     (if ms = [] then []
      else case newest_user ms (length ms) of
             None \<Rightarrow> mID (ms ! (length ms - 1))
           | Some i \<Rightarrow> mID (ms ! block_start ms i))"

definition SetRunPin :: "string \<Rightarrow> session \<Rightarrow> session" where
  "SetRunPin i s = s\<lparr>sRunPinID := i\<rparr>"

section \<open>Tools, images and the plan page\<close>

definition FullToolset :: "string list" where
  "FullToolset = [''read_file'', ''list_dir'', ''write_file'', ''edit_file'', ''search'', ''shell'',
     ''remember'', ''recall'', ''fetch_url'', ''web_search'', ''run_script'', ''call_service'',
     ''delegate'', ''cronjob'', ''image'', ''todo'', ''ask'', ''process'', ''code'', ''powershell_session'']"

definition ToolEnabled :: "session \<Rightarrow> string \<Rightarrow> bool" where
  "ToolEnabled s name = mtrue (sToolsEnabled s) name"

definition ToggleTool :: "string \<Rightarrow> bool \<Rightarrow> session \<Rightarrow> session \<times> bool" where
  "ToggleTool name enabled s =
     (if sClosed s \<or> sModelTurns s > 0 then (s, False)
      else if mget (sToolsEnabled s) name = None then (s, False)
      else if sRole s = ''d'' \<and> enabled \<and> (name = ''shell'' \<or> name = ''run_script'') then (s, False)
      else (s\<lparr>sToolsEnabled := mput name enabled (sToolsEnabled s)\<rparr>, True))"

definition IncrementToolCall :: "string \<Rightarrow> session \<Rightarrow> session" where
  "IncrementToolCall name s =
     (if mget (sToolsEnabled s) name = None then s
      else s\<lparr>sToolCalls := mput name (mget_or 0 (sToolCalls s) name + 1) (sToolCalls s)\<rparr>)"

definition DisableTools :: "session \<Rightarrow> session" where
  "DisableTools s = s\<lparr>sToolsEnabled := map (\<lambda>(n, _). (n, False)) (sToolsEnabled s)\<rparr>"

record agent_config =
  agName :: string
  agToolset :: "string list"
  agPowerShell :: string
  agPrompt :: string

text \<open>The map of enabled tools that \<open>ApplyAgentConfig\<close> builds.\<close>

definition agent_tools :: "agent_config \<Rightarrow> (string, bool) gomap" where
  "agent_tools agent =
     (let all_off = fold (\<lambda>n m. mput n False m) FullToolset [];
          wanted = fold (\<lambda>n m. mput n True m) (agToolset agent) all_off;
          read = mput ''powershell_session'' (agPowerShell agent = ''read'' \<or> agPowerShell agent = ''full'') wanted
      in mput ''powershell_session:full'' (agPowerShell agent = ''full'') read)"

definition restrict_role :: "string \<Rightarrow> (string, bool) gomap \<Rightarrow> (string, bool) gomap" where
  "restrict_role role m = (if role = ''d'' then mput ''run_script'' False (mput ''shell'' False m) else m)"

definition restrict_policy :: "repo_policy option \<Rightarrow> (string, bool) gomap \<Rightarrow> (string, bool) gomap" where
  "restrict_policy policy m =
     (case policy of
        None \<Rightarrow> m
      | Some p \<Rightarrow>
          if rpDefaultToolset p = [] then m
          else map (\<lambda>(n, v). (n, if n = ''powershell_session:full'' then v
                                 else v \<and> n \<in> set (rpDefaultToolset p))) m)"

definition ApplyAgentConfig ::
  "string \<Rightarrow> agent_config \<Rightarrow> string \<Rightarrow> string \<Rightarrow> session \<Rightarrow> session \<times> bool" where
  "ApplyAgentConfig agentID agent connectionID connectionLabel s =
     (let enabled = restrict_policy (sRepoPolicy s) (restrict_role (sRole s) (agent_tools agent));
          changed = (sAgentID s \<noteq> agentID \<or> sConnectionID s \<noteq> connectionID \<or> sAgentName s \<noteq> agName agent \<or>
                     sBConnection s \<noteq> connectionLabel \<or> sPromptAddendum s \<noteq> agPrompt agent \<or>
                     list_ex (\<lambda>(n, v). mtrue (sToolsEnabled s) n \<noteq> v) enabled);
          s1 = s\<lparr>sAgentID := agentID, sConnectionID := connectionID, sAgentName := agName agent,
                 sBConnection := connectionLabel, sPromptAddendum := agPrompt agent\<rparr>
      in (if sModelTurns s = 0 then s1\<lparr>sToolsEnabled := enabled\<rparr> else s1, changed))"

definition BeginTurnTrust :: "session \<Rightarrow> session" where
  "BeginTurnTrust s = s\<lparr>sUntrustedInTurn := False\<rparr>"

definition MarkUntrustedInTurn :: "session \<Rightarrow> session" where
  "MarkUntrustedInTurn s = s\<lparr>sUntrustedInTurn := True\<rparr>"

definition ReserveGeneratedImages :: "int \<Rightarrow> session \<Rightarrow> session \<times> bool" where
  "ReserveGeneratedImages n s =
     (if n < 1 \<or> sGeneratedImages s + n > 8 then (s, False)
      else (s\<lparr>sGeneratedImages := sGeneratedImages s + n\<rparr>, True))"

definition ReleaseGeneratedImages :: "int \<Rightarrow> session \<Rightarrow> session" where
  "ReleaseGeneratedImages n s = s\<lparr>sGeneratedImages := max 0 (sGeneratedImages s - n)\<rparr>"

definition SetPlanPage :: "bool \<Rightarrow> session \<Rightarrow> session" where
  "SetPlanPage enabled s = s\<lparr>sPlanPage := enabled\<rparr>"

definition BeginPlanAccept :: "session \<Rightarrow> session \<times> bool" where
  "BeginPlanAccept s = (if \<not> sPlanPage s then (s, False) else (s\<lparr>sPlanAccept := True\<rparr>, True))"

definition EndPlanAccept :: "session \<Rightarrow> session" where
  "EndPlanAccept s = s\<lparr>sPlanAccept := False\<rparr>"

definition PlanWriteAllowed :: "session \<Rightarrow> bool" where
  "PlanWriteAllowed s \<longleftrightarrow> \<not> sPlanPage s \<or> sPlanAccept s"

text \<open>
  \<open>EnsureWorkspace\<close>, the last check before a run reaches tools. The file system is a parameter:
  \<open>mkdir_err\<close> is the error text of \<open>os.MkdirAll\<close> (if any), \<open>is_dir\<close> whether \<open>os.Stat\<close> finds a
  folder.
\<close>

definition EnsureWorkspace ::
  "(string \<Rightarrow> string option) \<Rightarrow> (string \<Rightarrow> bool) \<Rightarrow> session \<Rightarrow> session \<times> bool \<times> string \<times> bool" where
  "EnsureWorkspace mkdir_err is_dir s =
     (let gone = (\<lambda>reason.
            (s\<lparr>sWorkspaceMissing := True, sRunnable := False, sNotRunnableReason := reason\<rparr>, False, reason,
             \<not> sWorkspaceMissing s \<or> sRunnable s \<or> sNotRunnableReason s \<noteq> reason))
      in if sScratch s then
           (case mkdir_err (sWorkspace s) of
              Some e \<Rightarrow> gone (''scratch folder is unavailable: '' @ sWorkspace s @ '': '' @ e)
            | None \<Rightarrow>
                (s\<lparr>sWorkspaceMissing := False, sRunnable := True, sNotRunnableReason := []\<rparr>, True, [],
                 sWorkspaceMissing s \<or> \<not> sRunnable s \<or> sNotRunnableReason s \<noteq> []))
         else if is_dir (sWorkspace s) then
           (if sWorkspaceMissing s
            then (s\<lparr>sWorkspaceMissing := False, sRunnable := True, sNotRunnableReason := []\<rparr>, True, [], True)
            else (s, True, [], False))
         else gone (''folder is missing: '' @ sWorkspace s))"

section \<open>Messages: what moving and removing do\<close>

lemma split_wanted_kept: "fst (split_wanted ids ms) = filter (\<lambda>m. mID m \<notin> set ids) ms"
  by (induction ms) (auto simp: Let_def split: prod.splits)

lemma split_wanted_byID:
  "distinct (map mID ms) \<Longrightarrow>
   mget (snd (split_wanted ids ms)) i = (if i \<in> set ids then find (\<lambda>m. mID m = i) ms else None)"
proof (induction ms)
  case (Cons m ms)
  have "find (\<lambda>x. mID x = mID m) ms = None"
    using Cons.prems by (intro find_key_None) simp
  with Cons show ?case
    by (auto simp: Let_def split: prod.splits)
qed simp

lemma find_by_id: "distinct (map mID ms) \<Longrightarrow> m \<in> set ms \<Longrightarrow> find (\<lambda>x. mID x = mID m) ms = Some m"
  by (induction ms) auto

lemma find_id_Some: "find (\<lambda>x. mID x = i) ms = Some m \<Longrightarrow> m \<in> set ms \<and> mID m = i"
  by (auto simp: find_Some_iff)

definition by_ids :: "message list \<Rightarrow> string list \<Rightarrow> message list" where
  "by_ids ms ids = List.map_filter (\<lambda>i. find (\<lambda>m. mID m = i) ms) ids"

lemma pick_by_id_eq: "pick_by_id byID ids = List.map_filter (mget byID) ids"
  by (induction ids) (auto simp: List.map_filter_def split: option.splits)

lemma map_filter_cong: "(\<And>x. x \<in> set xs \<Longrightarrow> f x = g x) \<Longrightarrow> List.map_filter f xs = List.map_filter g xs"
  by (induction xs) (auto simp: List.map_filter_def)

lemma pick_split_wanted:
  assumes "distinct (map mID ms)"
  shows "pick_by_id (snd (split_wanted ids ms)) ids = by_ids ms ids"
  unfolding pick_by_id_eq by_ids_def
  by (rule map_filter_cong) (simp add: split_wanted_byID [OF assms])

lemma set_by_ids: "distinct (map mID ms) \<Longrightarrow> set (by_ids ms ids) = {m \<in> set ms. mID m \<in> set ids}"
  by (auto simp: by_ids_def List.map_filter_def find_by_id dest: find_id_Some intro!: image_eqI)

lemma map_mID_by_ids: "map mID (by_ids ms ids) = filter (\<lambda>i. i \<in> mID ` set ms) ids"
proof (induction ids)
  case (Cons i ids)
  show ?case
  proof (cases "find (\<lambda>m. mID m = i) ms")
    case None
    then have "i \<notin> mID ` set ms" by (auto simp: find_None_iff)
    with None Cons show ?thesis by (simp add: by_ids_def List.map_filter_def)
  next
    case (Some m)
    then have "mID m = i" "i \<in> mID ` set ms" by (auto dest: find_id_Some)
    with Some Cons show ?thesis by (simp add: by_ids_def List.map_filter_def)
  qed
qed (simp add: by_ids_def List.map_filter_def)

lemma mset_by_ids:
  assumes "distinct (map mID ms)" and "distinct ids"
  shows "mset (by_ids ms ids) = mset (filter (\<lambda>m. mID m \<in> set ids) ms)"
proof -
  have "distinct (map mID (by_ids ms ids))"
    using assms(2) by (simp add: map_mID_by_ids)
  then have "distinct (by_ids ms ids)" by (simp add: distinct_map)
  moreover have "distinct (filter (\<lambda>m. mID m \<in> set ids) ms)"
    using assms(1) by (simp add: distinct_map)
  ultimately show ?thesis
    using assms(1) by (intro set_eq_iff_mset_eq_distinct [THEN iffD1]) (auto simp: set_by_ids)
qed

lemma MoveMessagesToEnd_eq:
  "distinct (map mID (sMessages s)) \<Longrightarrow>
   MoveMessagesToEnd ids s =
     (s\<lparr>sMessages := filter (\<lambda>m. mID m \<notin> set ids) (sMessages s) @ by_ids (sMessages s) ids\<rparr>,
      by_ids (sMessages s) ids)"
  by (simp add: MoveMessagesToEnd_def case_prod_beta Let_def split_wanted_kept pick_split_wanted)

lemma RemoveMessages_eq:
  "distinct (map mID (sMessages s)) \<Longrightarrow>
   RemoveMessages ids s =
     (s\<lparr>sMessages := filter (\<lambda>m. mID m \<notin> set ids) (sMessages s)\<rparr>, by_ids (sMessages s) ids)"
  by (simp add: RemoveMessages_def case_prod_beta Let_def split_wanted_kept pick_split_wanted)

section \<open>The run pin\<close>

lemma newest_user_Some:
  "newest_user ms n = Some i \<Longrightarrow> i < n \<and> mRole (ms ! i) = ''user'' \<and> (\<forall>j. i < j \<and> j < n \<longrightarrow> mRole (ms ! j) \<noteq> ''user'')"
  by (induction n) (auto simp: less_Suc_eq split: if_splits)

lemma newest_user_None: "newest_user ms n = None \<Longrightarrow> \<forall>j < n. mRole (ms ! j) \<noteq> ''user''"
  by (induction n) (auto simp: less_Suc_eq split: if_splits)

lemma block_start_le: "block_start ms i \<le> i"
  by (induction i) (auto intro: le_SucI)

lemma block_start_user: "block_start ms i \<le> j \<Longrightarrow> j < i \<Longrightarrow> mRole (ms ! j) = ''user''"
  by (induction i) (auto simp: less_Suc_eq split: if_splits)

lemma block_start_before: "0 < block_start ms i \<Longrightarrow> mRole (ms ! (block_start ms i - 1)) \<noteq> ''user''"
  by (induction i) (auto split: if_splits)

lemma run_pin_block:
  "(\<exists>m \<in> set ms. mRole m = ''user'') \<Longrightarrow>
     \<exists>before block after. ms = before @ block @ after \<and> block \<noteq> [] \<and> RunPinFromTail ms = mID (hd block) \<and>
       (\<forall>m \<in> set block. mRole m = ''user'') \<and> (\<forall>m \<in> set after. mRole m \<noteq> ''user'') \<and>
       (before = [] \<or> mRole (last before) \<noteq> ''user'')"
proof -
  assume ex: "\<exists>m \<in> set ms. mRole m = ''user''"
  then obtain i where i: "newest_user ms (length ms) = Some i"
    using newest_user_None by (metis in_set_conv_nth not_None_eq)
  note newest = newest_user_Some [OF i]
  define b where "b = block_start ms i"
  have bi: "b \<le> i" unfolding b_def by (rule block_start_le)
  let ?before = "take b ms" and ?block = "take (Suc i - b) (drop b ms)" and ?after = "drop (Suc i) ms"
  have "?block @ ?after = drop b ms"
    using bi append_take_drop_id [of "Suc i - b" "drop b ms"] by simp
  then have "ms = ?before @ ?block @ ?after" by simp
  moreover have "?block \<noteq> []" using newest bi by simp
  moreover have "RunPinFromTail ms = mID (hd ?block)"
    using i newest bi by (auto simp: RunPinFromTail_def b_def hd_drop_conv_nth)
  moreover have "\<forall>m \<in> set ?block. mRole m = ''user''"
  proof
    fix m assume "m \<in> set ?block"
    then obtain k where "k < length ?block" and "m = ?block ! k" by (metis in_set_conv_nth)
    then have "m = ms ! (b + k)" and "b + k \<le> i" using newest bi by auto
    then show "mRole m = ''user''"
      using newest block_start_user [of ms i "b + k"] by (cases "b + k = i") (auto simp: b_def)
  qed
  moreover have "\<forall>m \<in> set ?after. mRole m \<noteq> ''user''"
    using newest by (auto simp: in_set_conv_nth)
  moreover have "?before = [] \<or> mRole (last ?before) \<noteq> ''user''"
    using newest bi block_start_before [of ms i] by (cases "b = 0") (auto simp: b_def last_conv_nth min_def)
  ultimately show ?thesis by blast
qed

lemma run_pin_no_user:
  "\<not> (\<exists>m \<in> set ms. mRole m = ''user'') \<Longrightarrow> ms = [] \<or> RunPinFromTail ms = mID (last ms)"
proof -
  assume none: "\<not> (\<exists>m \<in> set ms. mRole m = ''user'')"
  then have "newest_user ms (length ms) = None"
    using newest_user_Some by (metis nth_mem option.exhaust)
  then show ?thesis by (auto simp: RunPinFromTail_def last_conv_nth)
qed

section \<open>The life cycle as a step relation\<close>

text \<open>The operations that open, close and hold a session, in any interleaving.\<close>

inductive life_step :: "session \<Rightarrow> session \<Rightarrow> bool" where
  close: "Close s = Inr t \<Longrightarrow> life_step s t"
| begin_submission: "BeginSubmission s = (t, True) \<Longrightarrow> life_step s t"
| begin_registry: "registry_BeginSubmission boundary reopen s = Inr (t, notes) \<Longrightarrow> life_step s t"
| reopen: "registry_Reopen boundary s = Inr (t, notes) \<Longrightarrow> life_step s t"
| end_submission: "0 < sSubmitting s \<Longrightarrow> life_step s (EndSubmission s)"
| set_run: "\<not> sClosed s \<Longrightarrow> life_step s (SetRun st s)"

inductive_cases life_stepE: "life_step s t"

text \<open>A closed session holds no submission and no run.\<close>

definition life_inv :: "session \<Rightarrow> bool" where
  "life_inv s \<longleftrightarrow> 0 \<le> sSubmitting s \<and> (sClosed s \<longrightarrow> sSubmitting s = 0 \<and> \<not> IsRunning s)"

lemma Close_Inr: "Close s = Inr t \<longleftrightarrow>
    \<not> sClosed s \<and> \<not> IsRunning s \<and> sSubmitting s \<le> 0 \<and> t = s\<lparr>sClosed := True\<rparr>"
  by (auto simp: Close_def)

lemma IsRunning_update [simp]:
  "IsRunning (s\<lparr>sClosed := b\<rparr>) = IsRunning s" "IsRunning (s\<lparr>sSubmitting := n\<rparr>) = IsRunning s"
  "IsRunning (ReopenNetworkBoundary c s) = IsRunning s"
  by (simp_all add: IsRunning_def ReopenNetworkBoundary_def)

lemma ReopenNetworkBoundary_sel [simp]:
  "sClosed (ReopenNetworkBoundary c s) = sClosed s" "sSubmitting (ReopenNetworkBoundary c s) = sSubmitting s"
  "sRun (ReopenNetworkBoundary c s) = sRun s" "sMessages (ReopenNetworkBoundary c s) = sMessages s"
  "sID (ReopenNetworkBoundary c s) = sID s" "sConnectionID (ReopenNetworkBoundary c s) = sConnectionID s"
  by (simp_all add: ReopenNetworkBoundary_def)

lemma life_step_inv: "life_inv s \<Longrightarrow> life_step s t \<Longrightarrow> life_inv t"
  by (elim life_stepE)
    (auto simp: life_inv_def Close_Inr BeginSubmission_def registry_BeginSubmission_def registry_Reopen_def
      EndSubmission_def SetRun_def Let_def split: if_splits)

interpretation life: invariant_of "\<lambda>s. sSubmitting s = 0 \<and> \<not> sClosed s" life_step life_inv
proof unfold_locales
  show "sSubmitting s = 0 \<and> \<not> sClosed s \<Longrightarrow> life_inv s" for s by (simp add: life_inv_def)
qed (rule life_step_inv)

section \<open>Tools\<close>

lemma mget_restrict_policy:
  "mget (restrict_policy p m) n = map_option (\<lambda>v. if n = ''powershell_session:full'' then v
     else v \<and> (case p of None \<Rightarrow> True | Some q \<Rightarrow> rpDefaultToolset q = [] \<or> n \<in> set (rpDefaultToolset q)))
     (mget m n)"
  by (auto simp: restrict_policy_def mget_map_values option.map_ident split: option.splits intro!: option.map_cong0)

lemma mget_restrict_role:
  "mget (restrict_role r m) n = (if r = ''d'' \<and> (n = ''shell'' \<or> n = ''run_script'') then Some False else mget m n)"
  by (auto simp: restrict_role_def)

lemma mget_or_map_option: "mget_or False m n = (mget m n = Some True)"
  by (auto simp: mget_or_def split: option.splits)

section \<open>Properties\<close>

text \<open>An idle, open chat and a message, for the witnesses.\<close>

definition idle_session :: "string \<Rightarrow> string \<Rightarrow> session" where
  "idle_session i conn = \<lparr>sID = i, sLabel = [], sAgentID = ''a'', sConnectionID = conn, sWorkspace = ''/w'',
     sRole = ''b'', sPlanID = [], sUnattended = False, sBoundaryHits = [], sWorkspaceMissing = False,
     sScratch = False, sRepoPolicy = None, sAgentName = [], sBConnection = [], sClosed = False, sOrigin = [],
     sScheduledFailure = [], sMessages = [], sRun = zero_run\<lparr>rsStatus := ''idle''\<rparr>, sToolsEnabled = [],
     sUntrustedInTurn = False, sGeneratedImages = 0, sToolCalls = [], sRunnable = True,
     sNotRunnableReason = [], sDegradedNotes = [], sPromptAddendum = [], sNetworkBoundary = [],
     sNetworkBoundarySet = False, sQueuedMessages = 0, sQueuedMessageIDs = [], sModelTurns = 0,
     sCompactionCount = 0, sCompactionTokenDelta = 0, sCompactionModelCalls = 0, sCompactionPrompt = 0,
     sCompactionCompletion = 0, sSubmitting = 0, sRunPinID = [], sPlanPage = False, sPlanAccept = False\<rparr>"

definition sample_message :: "string \<Rightarrow> string \<Rightarrow> int \<Rightarrow> message" where
  "sample_message i role tokens = zero_message\<lparr>mID := i, mRole := role, mTokens := tokens\<rparr>"

definition demo_chat :: session where
  "demo_chat = (idle_session ''s1'' ''k'')\<lparr>sMessages :=
     [sample_message ''a'' ''assistant'' 1, sample_message ''b'' ''user'' 1, sample_message ''c'' ''user'' 1]\<rparr>"

lemma demo_chat_messages:
  "sMessages demo_chat =
     [sample_message ''a'' ''assistant'' 1, sample_message ''b'' ''user'' 1, sample_message ''c'' ''user'' 1]"
  by (simp add: demo_chat_def)

lemma demo_chat_ids: "distinct (map mID (sMessages demo_chat))"
  by (simp add: demo_chat_messages sample_message_def)

text \<open>Delivering queued messages loses and duplicates nothing. With distinct message ids,
  \<open>MoveMessagesToEnd\<close> keeps every other message in its place and order, puts the wanted messages
  that exist at the end in the order the ids were queued, and returns exactly those; the
  conversation is a permutation of what it was and nothing else of the session changes.\<close>

theorem move_to_end_permutes:
  assumes "distinct (map mID (sMessages s))" and "distinct ids"
    and "MoveMessagesToEnd ids s = (s', moved)"
  shows "mset (sMessages s') = mset (sMessages s) \<and>
    sMessages s' = filter (\<lambda>m. mID m \<notin> set ids) (sMessages s) @ moved \<and>
    map mID moved = filter (\<lambda>i. i \<in> mID ` set (sMessages s)) ids \<and>
    s' = s\<lparr>sMessages := sMessages s'\<rparr>"
proof -
  have s': "s' = s\<lparr>sMessages := filter (\<lambda>m. mID m \<notin> set ids) (sMessages s) @ moved\<rparr>"
    and moved: "moved = by_ids (sMessages s) ids"
    using assms(3) MoveMessagesToEnd_eq [OF assms(1)] by auto
  have "mset (sMessages s') = mset (filter (\<lambda>m. mID m \<notin> set ids) (sMessages s)) + mset moved"
    using s' by simp
  also have "\<dots> = mset (sMessages s)"
    using mset_by_ids [OF assms(1,2)] by (simp add: moved flip: multiset_partition)
  finally show ?thesis using s' moved map_mID_by_ids by simp
qed

theorem move_to_end_permutes_witness:
  "map mID (snd (MoveMessagesToEnd [''c'', ''a''] demo_chat)) = [''c'', ''a''] \<and>
   map mID (sMessages (fst (MoveMessagesToEnd [''c'', ''a''] demo_chat))) = [''b'', ''c'', ''a'']"
  using move_to_end_permutes [OF demo_chat_ids, of "[''c'', ''a'']"
      "fst (MoveMessagesToEnd [''c'', ''a''] demo_chat)" "snd (MoveMessagesToEnd [''c'', ''a''] demo_chat)"]
  by (simp add: demo_chat_messages sample_message_def)

text \<open>Returning queued messages to the composer takes out of the conversation exactly the
  messages with the given ids: the rest keeps its order, what is removed comes back in the order
  asked for, and together they are the old conversation.\<close>

theorem remove_messages_exact:
  assumes "distinct (map mID (sMessages s))" and "distinct ids"
    and "RemoveMessages ids s = (s', removed)"
  shows "mset (sMessages s) = mset (sMessages s') + mset removed \<and>
    sMessages s' = filter (\<lambda>m. mID m \<notin> set ids) (sMessages s) \<and>
    map mID removed = filter (\<lambda>i. i \<in> mID ` set (sMessages s)) ids \<and>
    s' = s\<lparr>sMessages := sMessages s'\<rparr>"
proof -
  have s': "s' = s\<lparr>sMessages := filter (\<lambda>m. mID m \<notin> set ids) (sMessages s)\<rparr>"
    and removed: "removed = by_ids (sMessages s) ids"
    using assms(3) RemoveMessages_eq [OF assms(1)] by auto
  have "mset (sMessages s') + mset removed = mset (sMessages s)"
    using s' mset_by_ids [OF assms(1,2)] by (simp add: removed flip: multiset_partition)
  with s' removed map_mID_by_ids show ?thesis by simp
qed

theorem remove_messages_exact_witness:
  "map mID (snd (RemoveMessages [''c'', ''x''] demo_chat)) = [''c''] \<and>
   map mID (sMessages (fst (RemoveMessages [''c'', ''x''] demo_chat))) = [''a'', ''b'']"
  using remove_messages_exact [OF demo_chat_ids, of "[''c'', ''x'']"
      "fst (RemoveMessages [''c'', ''x''] demo_chat)" "snd (RemoveMessages [''c'', ''x''] demo_chat)"]
  by (simp add: demo_chat_messages sample_message_def)

text \<open>The run pin is the start of the newest block of user messages: when the conversation has a
  user message, it splits into what came before (ending in something other than a user message),
  a non-empty block of user messages whose first one is the pin, and a rest without user
  messages. Without any user message the pin is the last message, never the empty id of
  "nothing pinned".\<close>

theorem run_pin_starts_newest_block:
  "if \<exists>m \<in> set ms. mRole m = ''user''
   then \<exists>before block after. ms = before @ block @ after \<and> block \<noteq> [] \<and> RunPinFromTail ms = mID (hd block) \<and>
       (\<forall>m \<in> set block. mRole m = ''user'') \<and> (\<forall>m \<in> set after. mRole m \<noteq> ''user'') \<and>
       (before = [] \<or> mRole (last before) \<noteq> ''user'')
   else ms = [] \<or> RunPinFromTail ms = mID (last ms)"
  using run_pin_block run_pin_no_user by (cases "\<exists>m \<in> set ms. mRole m = ''user''") auto

theorem run_pin_starts_newest_block_witness:
  "\<exists>before block after. sMessages demo_chat = before @ block @ after \<and> block \<noteq> [] \<and>
     RunPinFromTail (sMessages demo_chat) = mID (hd block) \<and> (\<forall>m \<in> set block. mRole m = ''user'')"
proof -
  have "\<exists>m \<in> set (sMessages demo_chat). mRole m = ''user''"
    by (simp add: demo_chat_messages sample_message_def)
  then show ?thesis using run_pin_starts_newest_block [of "sMessages demo_chat"] by (simp only: if_True) blast
qed

text \<open>A closed chat holds nothing open: in every state reachable from a fresh session by closing,
  reopening, beginning and ending submissions (through the session or the registry, in any
  order) and setting the run state of an open chat, a closed session has no submission in flight
  and no run; hence \<open>Close\<close> cannot slip in between a submission and its run.\<close>

theorem closed_holds_nothing:
  assumes "reach (\<lambda>s. sSubmitting s = 0 \<and> \<not> sClosed s) life_step s"
  shows "0 \<le> sSubmitting s \<and> (sClosed s \<longrightarrow> sSubmitting s = 0 \<and> \<not> IsRunning s) \<and>
    (0 < sSubmitting s \<or> IsRunning s \<longrightarrow> (\<exists>e. Close s = Inl e))"
  using life.inv_reach [OF assms] by (auto simp: life_inv_def Close_def)

theorem closed_holds_nothing_witness:
  "\<exists>e. Close (fst (BeginSubmission demo_chat)) = Inl e"
proof -
  let ?t = "fst (BeginSubmission demo_chat)"
  have "reach (\<lambda>s. sSubmitting s = 0 \<and> \<not> sClosed s) life_step demo_chat"
    by (rule reach_init) (simp add: demo_chat_def idle_session_def)
  moreover have "life_step demo_chat ?t"
    by (rule begin_submission) (simp add: BeginSubmission_def demo_chat_def idle_session_def)
  ultimately have "reach (\<lambda>s. sSubmitting s = 0 \<and> \<not> sClosed s) life_step ?t"
    by (rule reach_step)
  from closed_holds_nothing [OF this] show ?thesis
    by (simp add: BeginSubmission_def demo_chat_def idle_session_def)
qed

text \<open>Rebinding an agent never widens a planner or a repository policy: after
  \<open>ApplyAgentConfig\<close> on a chat that has not run a model turn, a planner (role d) has neither the
  shell nor scripts, and under a repository policy with a toolset no tool outside that toolset is
  enabled; a chat that has run keeps the toolset it started with.\<close>

theorem apply_agent_config_bounded:
  assumes "ApplyAgentConfig agentID agent conn label s = (s', changed)"
  shows "(sModelTurns s \<noteq> 0 \<longrightarrow> sToolsEnabled s' = sToolsEnabled s) \<and>
    (sModelTurns s = 0 \<longrightarrow>
       (sRole s = ''d'' \<longrightarrow> \<not> ToolEnabled s' ''shell'' \<and> \<not> ToolEnabled s' ''run_script'') \<and>
       (\<forall>p name. sRepoPolicy s = Some p \<and> rpDefaultToolset p \<noteq> [] \<and> ToolEnabled s' name \<longrightarrow>
          name \<in> set (rpDefaultToolset p) \<or> name = ''powershell_session:full''))"
  using assms
  by (auto simp: ApplyAgentConfig_def Let_def ToolEnabled_def mget_or_map_option mget_restrict_policy
      mget_restrict_role split: if_splits option.splits)

theorem apply_agent_config_bounded_witness:
  "\<not> ToolEnabled (fst (ApplyAgentConfig ''a'' \<lparr>agName = ''x'', agToolset = [''shell'', ''search''],
      agPowerShell = [], agPrompt = []\<rparr> ''k'' ''K'' (demo_chat\<lparr>sRole := ''d''\<rparr>))) ''shell''"
  using apply_agent_config_bounded [of "''a''" "\<lparr>agName = ''x'', agToolset = [''shell'', ''search''],
      agPowerShell = [], agPrompt = []\<rparr>" "''k''" "''K''" "demo_chat\<lparr>sRole := ''d''\<rparr>",
      OF surjective_pairing]
  by (simp add: demo_chat_def idle_session_def)

end
