(* ===== verification/Requests.thy ===== *)
theory Requests
  imports Session
begin

text \<open>
  The conversation as a model sees it. \<open>internal/llm/message_list.go\<close> turns a history into the list of a
  request and checks it; \<open>run_phases.go\<close> (\<open>latestTodoOnly\<close>), \<open>attachments.go\<close> (\<open>runningTurnIDs\<close>,
  \<open>normalizeAdjacentAssistants\<close>), \<open>run.go\<close> (\<open>malformedToolTurnAction\<close>, \<open>guardModelToolCalls\<close>) and
  \<open>truncation.go\<close> prepare the history before and the tool calls after the request. Parameters: \<open>encoding/json\<close>
  (\<open>unmarshal\<close>) and \<open>fmt.Sprint\<close> of a value that is not a string (\<open>sprint\<close>).
\<close>

section \<open>Messages of a request\<close>

record llm_tool_call =
  lcID :: string
  lcType :: string
  lcName :: string
  lcArguments :: string

record llm_message =
  lRole :: string
  lContent :: val
  lReasoningContent :: string
  lReasoning :: string
  lToolCalls :: "llm_tool_call list"
  lToolCallID :: string
  lName :: string

definition zero_llm_message :: llm_message where
  "zero_llm_message = \<lparr>lRole = [], lContent = VNil, lReasoningContent = [], lReasoning = [], lToolCalls = [], lToolCallID = [], lName = []\<rparr>"

abbreviation RoleSystem :: string where "RoleSystem \<equiv> ''system''"
abbreviation RoleUser :: string where "RoleUser \<equiv> ''user''"
abbreviation RoleAssistant :: string where "RoleAssistant \<equiv> ''assistant''"
abbreviation RoleTool :: string where "RoleTool \<equiv> ''tool''"
abbreviation RoleHarness :: string where "RoleHarness \<equiv> ''harness''"

definition harnessNotePrefix :: string where
  "harnessNotePrefix = ''[harness note]'' @ [CHR 0x0A]"

text \<open>\<open>fmt.Sprint\<close>: a string is itself.\<close>

definition Sprint :: "(val \<Rightarrow> string) \<Rightarrow> val \<Rightarrow> string" where
  "Sprint sprint v = (case v of VStr s \<Rightarrow> s | _ \<Rightarrow> sprint v)"

section \<open>The checks on a list\<close>

datatype list_error =
    SystemFirst nat
  | ToolResultAfterCall nat
  | KnownRole nat string
  | UserTurn nat

definition open_calls :: "llm_message \<Rightarrow> (string, bool) gomap \<Rightarrow> (string, bool) gomap" where
  "open_calls m ids = fold (\<lambda>c ids. if lcID c \<noteq> [] then mput (lcID c) True ids else ids) (lToolCalls m) ids"

fun validate_from :: "nat \<Rightarrow> bool \<Rightarrow> (string, bool) gomap \<Rightarrow> llm_message list \<Rightarrow> list_error option" where
  "validate_from i seenUser callIDs [] = (if \<not> seenUser then Some (UserTurn i) else None)"
| "validate_from i seenUser callIDs (m # ms) =
     (if lRole m = RoleSystem then (if i \<noteq> 0 then Some (SystemFirst i) else validate_from (Suc i) seenUser callIDs ms)
      else if lRole m = RoleUser then validate_from (Suc i) True callIDs ms
      else if lRole m = RoleAssistant then validate_from (Suc i) seenUser (open_calls m callIDs) ms
      else if lRole m = RoleTool then
        (if lToolCallID m = [] \<or> \<not> mtrue callIDs (lToolCallID m) then Some (ToolResultAfterCall i)
         else validate_from (Suc i) seenUser (mdel (lToolCallID m) callIDs) ms)
      else Some (KnownRole i (lRole m)))"

definition ValidateMessageList :: "llm_message list \<Rightarrow> list_error option" where
  "ValidateMessageList ms = validate_from 0 False [] ms"

section \<open>Building a list\<close>

definition is_note :: "llm_message \<Rightarrow> bool" where
  "is_note m \<longleftrightarrow> lRole m = RoleHarness \<or> lRole m = RoleSystem"

definition as_note :: "(val \<Rightarrow> string) \<Rightarrow> llm_message \<Rightarrow> llm_message" where
  "as_note sprint m =
     (if is_note m then m\<lparr>lRole := RoleAssistant, lContent := VStr (harnessNotePrefix @ Sprint sprint (lContent m))\<rparr> else m)"

definition continue_note :: llm_message where
  "continue_note = zero_llm_message\<lparr>lRole := RoleUser, lContent := VStr (harnessNotePrefix @ ''Continue from the recorded context.'')\<rparr>"

text \<open>The loop over the history, with the list so far, the notes held back and whether a user turn was seen.\<close>

fun build_loop :: "(val \<Rightarrow> string) \<Rightarrow> llm_message list \<Rightarrow> llm_message list \<Rightarrow> bool \<Rightarrow> llm_message list \<Rightarrow>
    llm_message list \<times> llm_message list \<times> bool" where
  "build_loop sprint out pendingNotes seenUser [] = (out, pendingNotes, seenUser)"
| "build_loop sprint out pendingNotes seenUser (original # history) =
     (let m = as_note sprint original
      in if is_note original \<and> \<not> seenUser then build_loop sprint out (pendingNotes @ [m]) seenUser history
         else if lRole m = RoleUser \<and> \<not> seenUser then build_loop sprint (out @ [m] @ pendingNotes) [] True history
         else build_loop sprint (out @ [m]) pendingNotes seenUser history)"

definition BuildMessageList :: "(val \<Rightarrow> string) \<Rightarrow> string \<Rightarrow> llm_message list \<Rightarrow> list_error + llm_message list" where
  "BuildMessageList sprint system history =
     (let start = (if TrimSpace system \<noteq> [] then [zero_llm_message\<lparr>lRole := RoleSystem, lContent := VStr system\<rparr>] else []);
          (out, pendingNotes, seenUser) = build_loop sprint start [] False history;
          (out1, pendingNotes1) = (if \<not> seenUser then (out @ [continue_note] @ pendingNotes, []) else (out, pendingNotes));
          out2 = (if pendingNotes1 \<noteq> [] then out1 @ pendingNotes1 else out1)
      in case ValidateMessageList out2 of Some e \<Rightarrow> Inl e | None \<Rightarrow> Inr out2)"

section \<open>The history of a request\<close>

definition runningTurnIDs :: "message list \<Rightarrow> string \<Rightarrow> string list" where
  "runningTurnIDs records pin = (if pin = [] then [] else map mID (dropWhile (\<lambda>m. mID m \<noteq> pin) records))"

text \<open>The message and call of the newest \<open>todo\<close> call; the loop keeps the last one it meets.\<close>

definition latest_todo :: "message list \<Rightarrow> (nat \<times> nat) option" where
  "latest_todo records =
     fold (\<lambda>i best. fold (\<lambda>j best. if tcName (mToolCalls (records ! i) ! j) = ''todo'' then Some (i, j) else best)
         [0..<length (mToolCalls (records ! i))] best) [0..<length records] None"

definition blank_todos :: "(nat \<times> nat) \<Rightarrow> nat \<Rightarrow> message \<Rightarrow> message" where
  "blank_todos newest i m =
     m\<lparr>mToolCalls := map (\<lambda>(j, c). if tcName c = ''todo'' \<and> (i, j) \<noteq> newest then c\<lparr>tcArguments := ''{}''\<rparr> else c)
         (enumerate 0 (mToolCalls m))\<rparr>"

definition latestTodoOnly :: "message list \<Rightarrow> message list" where
  "latestTodoOnly records =
     (case latest_todo records of
        None \<Rightarrow> records
      | Some newest \<Rightarrow> map (\<lambda>(i, m). if mToolCalls m = [] then m else blank_todos newest i m) (enumerate 0 records))"

text \<open>\<open>normalizeAdjacentAssistants\<close>: the lists so far are kept in order, their last elements are folded into.\<close>

definition folds_into :: "llm_message \<Rightarrow> llm_message \<Rightarrow> llm_message option" where
  "folds_into earlier m =
     (if lRole m = RoleAssistant \<and> lRole earlier = RoleAssistant \<and> lToolCalls earlier = [] then
        (case (lContent earlier, lContent m) of
           (VStr a, VStr b) \<Rightarrow> Some (m\<lparr>lContent := VStr (TrimSpace (a @ [CHR 0x0A, CHR 0x0A] @ b))\<rparr>)
         | _ \<Rightarrow> None)
      else None)"

fun normalize_from :: "(llm_message \<times> message) list \<Rightarrow> nat \<Rightarrow> (llm_message \<times> message) list \<Rightarrow> (llm_message \<times> message) list \<times> nat" where
  "normalize_from out folds [] = (out, folds)"
| "normalize_from out folds ((m, r) # rest) =
     (case (if out = [] then None else folds_into (fst (last out)) m) of
        Some merged \<Rightarrow> normalize_from (butlast out @ [(merged, r)]) (Suc folds) rest
      | None \<Rightarrow> normalize_from (out @ [(m, r)]) folds rest)"

definition normalizeAdjacentAssistants ::
  "llm_message list \<Rightarrow> message list \<Rightarrow> llm_message list \<times> message list \<times> nat" where
  "normalizeAdjacentAssistants messages records =
     (if length messages \<noteq> length records then (messages, records, 0)
      else let (out, folds) = normalize_from [] 0 (zip messages records) in (map fst out, map snd out, folds))"

section \<open>Tool calls of an answer\<close>

definition malformedToolTurnAction :: "string \<Rightarrow> nat \<Rightarrow> bool \<Rightarrow> bool \<times> bool" where
  "malformedToolTurnAction finish calls retried =
     (if finish \<noteq> ''tool_calls'' \<or> calls \<noteq> 0 then (False, False) else (\<not> retried, retried))"

fun guard_calls :: "(string \<Rightarrow> bool) \<Rightarrow> string list \<Rightarrow> tool_call list \<Rightarrow> tool_call list \<times> string list" where
  "guard_calls offered seen [] = ([], [])"
| "guard_calls offered seen (c # cs) =
     (if \<not> offered (tcName c) then
        (let (kept, lines) = guard_calls offered seen cs
         in (kept, (''dropped tool call '' @ tcName c @ '': name was not offered'') # lines))
      else if nul_key (tcName c) (tcArguments c) \<in> set seen then
        (let (kept, lines) = guard_calls offered seen cs
         in (kept, (''collapsed duplicate '' @ tcName c @ '' tool call'') # lines))
      else (let (kept, lines) = guard_calls offered (nul_key (tcName c) (tcArguments c) # seen) cs in (c # kept, lines)))"

definition guardModelToolCalls :: "tool_call list \<Rightarrow> (string, bool) gomap \<Rightarrow> tool_call list \<times> string list" where
  "guardModelToolCalls calls offered = guard_calls (mtrue offered) [] calls"

definition firstToolName :: "tool_call list \<Rightarrow> string" where
  "firstToolName calls = (case calls of [] \<Rightarrow> [] | c # _ \<Rightarrow> tcName c)"

section \<open>Repairing the history\<close>

definition DecodeArgs :: "(string \<Rightarrow> string + (string \<times> val) list) \<Rightarrow> string \<Rightarrow> string + (string \<times> val) list" where
  "DecodeArgs unmarshal raw =
     (case unmarshal raw of Inl e \<Rightarrow> Inl (''invalid JSON arguments: '' @ e) | Inr args \<Rightarrow> Inr args)"

definition undecodable :: "(string \<Rightarrow> string + (string \<times> val) list) \<Rightarrow> tool_call \<Rightarrow> string option" where
  "undecodable unmarshal c = (case DecodeArgs unmarshal (tcArguments c) of Inl e \<Rightarrow> Some e | Inr _ \<Rightarrow> None)"

text \<open>The search from the end: the newest assistant message with a call that cannot be decoded, and the error
  of its first such call.\<close>

definition bad_error :: "(string \<Rightarrow> string + (string \<times> val) list) \<Rightarrow> message \<Rightarrow> string option" where
  "bad_error unmarshal m =
     (if mRole m \<noteq> ''assistant'' \<or> mToolCalls m = [] then None
      else case List.map_filter (undecodable unmarshal) (mToolCalls m) of [] \<Rightarrow> None | e # _ \<Rightarrow> Some e)"

fun newest_bad :: "(message \<Rightarrow> string option) \<Rightarrow> message list \<Rightarrow> nat \<Rightarrow> (nat \<times> string) option" where
  "newest_bad bad ms 0 = None"
| "newest_bad bad ms (Suc i) = (case bad (ms ! i) of Some e \<Rightarrow> Some (i, e) | None \<Rightarrow> newest_bad bad ms i)"

definition repair_keeps :: "nat \<Rightarrow> string list \<Rightarrow> nat \<times> message \<Rightarrow> bool" where
  "repair_keeps badIndex callIDs im =
     (case im of (i, m) \<Rightarrow>
        if i = badIndex then TrimSpace (mContent m) \<noteq> []
        else \<not> (mRole m = ''tool'' \<and> mToolCallID m \<in> set callIDs))"

text \<open>The result: whether a message was repaired, with the ids whose reasoning is kept and what is published.\<close>

definition repairMalformedToolCall ::
  "(string \<Rightarrow> string + (string \<times> val) list) \<Rightarrow> string \<Rightarrow> session \<times> string list \<Rightarrow> (session \<times> string list) \<times> bool \<times> bus_note list" where
  "repairMalformedToolCall unmarshal runID st =
     (case st of (s, currentReasoning) \<Rightarrow>
        (case newest_bad (bad_error unmarshal) (sMessages s) (length (sMessages s)) of
           None \<Rightarrow> (st, False, [])
         | Some (badIndex, badErr) \<Rightarrow>
             let bad = sMessages s ! badIndex;
                 callIDs = map tcID (mToolCalls bad);
                 numbered = enumerate 0 (sMessages s);
                 kept = map (\<lambda>(i, m). if i = badIndex then m\<lparr>mToolCalls := []\<rparr> else m) (filter (repair_keeps badIndex callIDs) numbered);
                 removed = map snd (filter (\<lambda>im. \<not> repair_keeps badIndex callIDs im) numbered);
                 prose = TrimSpace (mContent bad) \<noteq> []
             in ((ReplaceMessages kept s, if prose then mID bad # currentReasoning else currentReasoning), True,
                 (if prose then [New MessageUpdated (sID s) runID [(''id'', VStr (mID bad)),
                    (''patch'', VObj [(''tool_calls'', VCalls [])])]] else []) @
                 map (\<lambda>m. New MessageRemoved (sID s) runID [(''id'', VStr (mID m)), (''reason'', VStr ''unrenderable_tool_call'')]) removed @
                 [New Error (sID s) runID [(''where'', VStr ''tool_history''), (''message'', VStr badErr)],
                  New ModelRetry (sID s) runID [(''turn'', VInt (mTurn bad)), (''reason'', VStr ''malformed_tool_history''),
                    (''tool'', VStr (firstToolName (mToolCalls bad))), (''attempt'', VInt 1), (''max_attempts'', VInt 1)]])))"

section \<open>What a valid list is\<close>

text \<open>The rules without the loop: a call id is open in a list when an assistant message offers it and no later
  tool message answers it.\<close>

definition offers :: "llm_message \<Rightarrow> string \<Rightarrow> bool" where
  "offers m i \<longleftrightarrow> lRole m = RoleAssistant \<and> i \<in> lcID ` set (lToolCalls m)"

definition answers :: "llm_message \<Rightarrow> string \<Rightarrow> bool" where
  "answers m i \<longleftrightarrow> lRole m = RoleTool \<and> lToolCallID m = i"

definition open_in :: "llm_message list \<Rightarrow> string \<Rightarrow> bool" where
  "open_in ms i \<longleftrightarrow> (\<exists>j < length ms. offers (ms ! j) i \<and> (\<forall>k. j < k \<and> k < length ms \<longrightarrow> \<not> answers (ms ! k) i))"

definition message_ok :: "llm_message list \<Rightarrow> nat \<Rightarrow> bool" where
  "message_ok ms i \<longleftrightarrow> lRole (ms ! i) \<in> {RoleSystem, RoleUser, RoleAssistant, RoleTool} \<and>
     (lRole (ms ! i) = RoleSystem \<longrightarrow> i = 0) \<and>
     (lRole (ms ! i) = RoleTool \<longrightarrow> lToolCallID (ms ! i) \<noteq> [] \<and> open_in (take i ms) (lToolCallID (ms ! i)))"

definition well_formed_list :: "llm_message list \<Rightarrow> bool" where
  "well_formed_list ms \<longleftrightarrow> (\<forall>i < length ms. message_ok ms i) \<and> (\<exists>m \<in> set ms. lRole m = RoleUser)"

lemma open_in_Nil [simp]: "\<not> open_in [] i"
  by (simp add: open_in_def)

lemma open_in_snoc: "open_in (ms @ [m]) i \<longleftrightarrow> offers m i \<or> open_in ms i \<and> \<not> answers m i"
proof
  assume "open_in (ms @ [m]) i"
  then obtain j where j: "j < Suc (length ms)" "offers ((ms @ [m]) ! j) i"
    "\<And>k. j < k \<Longrightarrow> k < Suc (length ms) \<Longrightarrow> \<not> answers ((ms @ [m]) ! k) i"
    by (auto simp: open_in_def)
  show "offers m i \<or> open_in ms i \<and> \<not> answers m i"
  proof (cases "j = length ms")
    case False
    with j(1) have "j < length ms" by simp
    moreover have "\<not> answers m i" using j(3) [of "length ms"] \<open>j < length ms\<close> by simp
    moreover have "\<not> answers (ms ! k) i" if "j < k" "k < length ms" for k
      using j(3) [of k] that by (simp add: nth_append)
    ultimately show ?thesis using j(2) by (auto simp: open_in_def nth_append)
  qed (use j(2) in simp)
next
  assume R: "offers m i \<or> open_in ms i \<and> \<not> answers m i"
  show "open_in (ms @ [m]) i"
  proof (cases "offers m i")
    case True
    then show ?thesis by (auto simp: open_in_def intro!: exI [of _ "length ms"])
  next
    case False
    with R obtain j where "j < length ms" "offers (ms ! j) i" "\<forall>k. j < k \<and> k < length ms \<longrightarrow> \<not> answers (ms ! k) i" "\<not> answers m i"
      by (auto simp: open_in_def)
    then show ?thesis by (auto simp: open_in_def nth_append less_Suc_eq intro!: exI [of _ j])
  qed
qed

lemma open_calls_iff: "mtrue (open_calls m ids) i \<longleftrightarrow> mtrue ids i \<or> (i \<noteq> [] \<and> i \<in> lcID ` set (lToolCalls m))"
proof -
  have "mtrue (fold (\<lambda>c ids. if lcID c \<noteq> [] then mput (lcID c) True ids else ids) cs ids) i \<longleftrightarrow>
      mtrue ids i \<or> (i \<noteq> [] \<and> i \<in> lcID ` set cs)" for cs
    by (induction cs arbitrary: ids) auto
  then show ?thesis by (simp add: open_calls_def)
qed

lemma validate_from_iff:
  assumes "\<And>i. mtrue ids i \<longleftrightarrow> i \<noteq> [] \<and> open_in pre i"
  shows "validate_from (length pre) su ids post = None \<longleftrightarrow>
    (\<forall>i. length pre \<le> i \<and> i < length (pre @ post) \<longrightarrow> message_ok (pre @ post) i) \<and> (su \<or> (\<exists>m \<in> set post. lRole m = RoleUser))"
  using assms
proof (induction post arbitrary: pre su ids)
  case Nil
  show ?case by (simp, linarith)
next
  case (Cons m post)
  let ?all = "pre @ m # post"
  let ?ids = "if lRole m = RoleAssistant then open_calls m ids else if lRole m = RoleTool then mdel (lToolCallID m) ids else ids"
  have here: "message_ok ?all (length pre) \<longleftrightarrow> lRole m \<in> {RoleSystem, RoleUser, RoleAssistant, RoleTool} \<and>
      (lRole m = RoleSystem \<longrightarrow> pre = []) \<and> (lRole m = RoleTool \<longrightarrow> lToolCallID m \<noteq> [] \<and> mtrue ids (lToolCallID m))"
    using Cons.prems by (auto simp: message_ok_def)
  have split: "(\<forall>i. length pre \<le> i \<and> i < length ?all \<longrightarrow> message_ok ?all i) \<longleftrightarrow>
      message_ok ?all (length pre) \<and> (\<forall>i. length (pre @ [m]) \<le> i \<and> i < length ?all \<longrightarrow> message_ok ?all i)"
    by (auto simp: le_less_Suc_eq dest: le_neq_implies_less)
  have "mtrue ?ids i \<longleftrightarrow> i \<noteq> [] \<and> open_in (pre @ [m]) i" for i
    using Cons.prems [of i] by (auto simp: open_in_snoc offers_def answers_def open_calls_iff)
  from Cons.IH [of ?ids "pre @ [m]", OF this]
  have ih: "validate_from (Suc (length pre)) su' ?ids post = None \<longleftrightarrow>
      (\<forall>i. length (pre @ [m]) \<le> i \<and> i < length ?all \<longrightarrow> message_ok ?all i) \<and> (su' \<or> (\<exists>m \<in> set post. lRole m = RoleUser))" for su'
    by simp
  consider "lRole m = RoleSystem" | "lRole m = RoleUser" | "lRole m = RoleAssistant" | "lRole m = RoleTool"
    | "lRole m \<notin> {RoleSystem, RoleUser, RoleAssistant, RoleTool}" by blast
  then show ?case unfolding split by cases (use here ih in auto)
qed

lemma validate_iff: "ValidateMessageList ms = None \<longleftrightarrow> well_formed_list ms"
  using validate_from_iff [of "[]" "[]" False ms] by (simp add: ValidateMessageList_def well_formed_list_def)

section \<open>The list without the loop\<close>

definition message_list_of :: "(val \<Rightarrow> string) \<Rightarrow> string \<Rightarrow> llm_message list \<Rightarrow> llm_message list" where
  "message_list_of sprint system history =
     (let before = takeWhile (\<lambda>m. lRole m \<noteq> RoleUser) history; from_user = dropWhile (\<lambda>m. lRole m \<noteq> RoleUser) history
      in (if TrimSpace system \<noteq> [] then [zero_llm_message\<lparr>lRole := RoleSystem, lContent := VStr system\<rparr>] else []) @
         filter (\<lambda>m. \<not> is_note m) before @
         [case from_user of [] \<Rightarrow> continue_note | u # _ \<Rightarrow> u] @
         map (as_note sprint) (filter is_note before) @ map (as_note sprint) (tl from_user))"

lemma build_loop_seen: "build_loop sprint out p True h = (out @ map (as_note sprint) h, p, True)"
  by (induction h arbitrary: out) (simp_all add: Let_def)

lemma build_loop_unseen:
  "build_loop sprint out p False h =
     (let before = takeWhile (\<lambda>m. lRole m \<noteq> RoleUser) h; from_user = dropWhile (\<lambda>m. lRole m \<noteq> RoleUser) h
      in case from_user of
           [] \<Rightarrow> (out @ filter (\<lambda>m. \<not> is_note m) before, p @ map (as_note sprint) (filter is_note before), False)
         | u # rest \<Rightarrow> (out @ filter (\<lambda>m. \<not> is_note m) before @ [u] @ p @ map (as_note sprint) (filter is_note before) @
              map (as_note sprint) rest, [], True))"
proof (induction h arbitrary: out p)
  case (Cons m h)
  consider (nt) "is_note m" | (user) "\<not> is_note m" "lRole m = RoleUser" | (other) "\<not> is_note m" "lRole m \<noteq> RoleUser" by blast
  then show ?case
  proof cases
    case nt
    then have "lRole m \<noteq> RoleUser" by (auto simp: is_note_def)
    with nt Cons show ?thesis
      by (cases "dropWhile (\<lambda>m. lRole m \<noteq> RoleUser) h") (simp_all add: Let_def del: dropWhile_eq_Nil_conv)
  next
    case user
    then show ?thesis by (simp add: Let_def build_loop_seen as_note_def)
  next
    case other
    with Cons show ?thesis
      by (cases "dropWhile (\<lambda>m. lRole m \<noteq> RoleUser) h") (simp_all add: Let_def as_note_def del: dropWhile_eq_Nil_conv)
  qed
qed simp

lemma BuildMessageList_eq:
  "BuildMessageList sprint system history =
     (case ValidateMessageList (message_list_of sprint system history) of Some e \<Rightarrow> Inl e | None \<Rightarrow> Inr (message_list_of sprint system history))"
proof (cases "dropWhile (\<lambda>m. lRole m \<noteq> RoleUser) history")
  case Nil
  then show ?thesis by (simp only: BuildMessageList_def message_list_of_def build_loop_unseen Let_def list.case prod.case list.sel) (simp del: dropWhile_eq_Nil_conv split: option.split)
next
  case (Cons u rest)
  then show ?thesis by (simp only: BuildMessageList_def message_list_of_def build_loop_unseen Let_def list.case prod.case list.sel) (simp del: dropWhile_eq_Nil_conv split: option.split)
qed

text \<open>C21. \<open>BuildMessageList\<close> succeeds exactly on the histories whose request obeys the rules, and then returns
  this list: the system prompt if there is one, the messages before the first user turn without the notes, the
  first user turn or a request to continue, the held-back notes, and the rest in order with every harness note
  attributed to the assistant. A valid list has the system message first, known roles, a user turn, and every
  tool result answers a call that an earlier assistant message made and no tool result in between answered.\<close>

theorem message_list_rules:
  "case BuildMessageList sprint system history of
     Inr out \<Rightarrow> out = message_list_of sprint system history \<and> well_formed_list out
   | Inl e \<Rightarrow> \<not> well_formed_list (message_list_of sprint system history)"
  using validate_iff [of "message_list_of sprint system history"]
  by (cases "ValidateMessageList (message_list_of sprint system history)") (simp_all add: BuildMessageList_eq)

section \<open>Repair\<close>

definition bad_messages :: "(string \<Rightarrow> string + (string \<times> val) list) \<Rightarrow> message list \<Rightarrow> nat" where
  "bad_messages unmarshal ms = length (filter (\<lambda>m. bad_error unmarshal m \<noteq> None) ms)"

lemma newest_bad_None: "newest_bad bad ms n = None \<longleftrightarrow> (\<forall>i < n. bad (ms ! i) = None)"
  by (induction n) (auto simp: less_Suc_eq split: option.split)

lemma newest_bad_Some:
  "newest_bad bad ms n = Some (i, e) \<Longrightarrow> i < n \<and> bad (ms ! i) = Some e \<and> (\<forall>j. i < j \<and> j < n \<longrightarrow> bad (ms ! j) = None)"
proof (induction n)
  case (Suc n)
  show ?case
  proof (cases "bad (ms ! n)")
    case None
    with Suc have "i < n \<and> bad (ms ! i) = Some e \<and> (\<forall>j. i < j \<and> j < n \<longrightarrow> bad (ms ! j) = None)" by simp
    with None show ?thesis by (auto simp: less_Suc_eq)
  qed (use Suc in auto)
qed simp

lemma bad_error_cleared [simp]: "bad_error u (m\<lparr>mToolCalls := []\<rparr>) = None"
  by (simp add: bad_error_def)

lemma bad_error_tool: "mRole m = ''tool'' \<Longrightarrow> bad_error u m = None"
  by (simp add: bad_error_def)

text \<open>Splitting the numbered list at the repaired message.\<close>

definition answered_by :: "string list \<Rightarrow> message \<Rightarrow> bool" where
  "answered_by callIDs m \<longleftrightarrow> mRole m = ''tool'' \<and> mToolCallID m \<in> set callIDs"

lemma repair_split_before:
  "n + length xs \<le> b \<Longrightarrow>
   map (\<lambda>(i, m). if i = b then m\<lparr>mToolCalls := []\<rparr> else m) (filter (repair_keeps b ids) (enumerate n xs)) = filter (\<lambda>m. \<not> answered_by ids m) xs"
  by (induction xs arbitrary: n) (auto simp: repair_keeps_def answered_by_def)

lemma repair_split_after:
  "b < n \<Longrightarrow>
   map (\<lambda>(i, m). if i = b then m\<lparr>mToolCalls := []\<rparr> else m) (filter (repair_keeps b ids) (enumerate n xs)) = filter (\<lambda>m. \<not> answered_by ids m) xs"
  by (induction xs arbitrary: n) (auto simp: repair_keeps_def answered_by_def)

lemma repair_kept:
  assumes "b < length ms"
  shows "map (\<lambda>(i, m). if i = b then m\<lparr>mToolCalls := []\<rparr> else m) (filter (repair_keeps b ids) (enumerate 0 ms)) =
    filter (\<lambda>m. \<not> answered_by ids m) (take b ms) @
    (if TrimSpace (mContent (ms ! b)) \<noteq> [] then [(ms ! b)\<lparr>mToolCalls := []\<rparr>] else []) @
    filter (\<lambda>m. \<not> answered_by ids m) (drop (Suc b) ms)"
proof -
  have "enumerate 0 ms = enumerate 0 (take b ms) @ (b, ms ! b) # enumerate (Suc b) (drop (Suc b) ms)"
    using assms by (subst id_take_nth_drop [OF assms]) (simp add: enumerate_append_eq)
  then show ?thesis using assms
    by (simp add: repair_split_before repair_split_after) (simp add: repair_keeps_def)
qed

lemma bad_messages_simps:
  "bad_messages u [] = 0" "bad_messages u (xs @ ys) = bad_messages u xs + bad_messages u ys"
  "bad_error u m = None \<Longrightarrow> bad_messages u (m # ms) = bad_messages u ms"
  by (simp_all add: bad_messages_def)

text \<open>A repair takes the newest assistant message with undecodable arguments out of the tool protocol: its
  calls are gone and with them exactly the tool results that answered them, its prose stays, everything else stays
  in order, and the number of such messages falls by one; so repeated repairs end after as many steps as there are
  bad messages. Without a bad message nothing changes and nothing is published.\<close>

theorem repair_removes_newest_bad:
  "case repairMalformedToolCall unmarshal runID (s, cur) of
     (st', False, evs) \<Rightarrow> st' = (s, cur) \<and> evs = [] \<and> bad_messages unmarshal (sMessages s) = 0
   | ((s', cur'), True, evs) \<Rightarrow>
       (\<exists>b < length (sMessages s).
          bad_error unmarshal (sMessages s ! b) \<noteq> None \<and>
          sMessages s' =
            filter (\<lambda>m. \<not> answered_by (map tcID (mToolCalls (sMessages s ! b))) m) (take b (sMessages s)) @
            (if TrimSpace (mContent (sMessages s ! b)) \<noteq> [] then [(sMessages s ! b)\<lparr>mToolCalls := []\<rparr>] else []) @
            filter (\<lambda>m. \<not> answered_by (map tcID (mToolCalls (sMessages s ! b))) m) (drop (Suc b) (sMessages s))) \<and>
       Suc (bad_messages unmarshal (sMessages s')) = bad_messages unmarshal (sMessages s)"
proof (cases "newest_bad (bad_error unmarshal) (sMessages s) (length (sMessages s))")
  case None
  then have "\<forall>m \<in> set (sMessages s). bad_error unmarshal m = None"
    unfolding newest_bad_None by (metis in_set_conv_nth)
  with None show ?thesis by (simp add: repairMalformedToolCall_def bad_messages_def)
next
  case (Some p)
  then obtain b e where p: "p = (b, e)" by force
  note b = newest_bad_Some [OF Some [unfolded p]]
  let ?ms = "sMessages s"
  let ?ids = "map tcID (mToolCalls (?ms ! b))"
  have keep: "bad_messages unmarshal (filter (\<lambda>m. \<not> answered_by ?ids m) xs) = bad_messages unmarshal xs" for xs
    unfolding bad_messages_def filter_filter
    by (rule arg_cong [where f = length], rule filter_cong) (auto simp: answered_by_def bad_error_tool)
  have "bad_messages unmarshal ?ms = bad_messages unmarshal (take b ?ms @ ?ms ! b # drop (Suc b) ?ms)"
    using b by (simp add: id_take_nth_drop [symmetric])
  also have "\<dots> = Suc (bad_messages unmarshal (take b ?ms) + bad_messages unmarshal (drop (Suc b) ?ms))"
    using b by (simp add: bad_messages_def)
  finally have n: "bad_messages unmarshal ?ms = Suc (bad_messages unmarshal (take b ?ms) + bad_messages unmarshal (drop (Suc b) ?ms))" .
  show ?thesis using b n Some p
    by (auto simp: repairMalformedToolCall_def Let_def ReplaceMessages_def repair_kept bad_messages_simps keep intro!: exI [of _ b])
qed
end
