(* ===== verification/Tool_Results.thy ===== *)
theory Tool_Results
  imports Requests "HOL-Library.Signed_Division"
begin

text \<open>
  What becomes of a tool result before it enters the conversation: cutting it to the room that is left
  (\<open>internal/agent/tool_window.go\<close>) with the full text saved in the chat's two result files, its error class
  (\<open>error_class.go\<close>), the event that records it (\<open>run.go\<close>), and the redaction of \<open>call_service\<close> arguments
  (\<open>tool_redaction.go\<close>). Parameters: the token counter, \<open>encoding/json\<close>, case folding, and what the file system answers.
\<close>

section \<open>Text\<close>

text \<open>\<open>strings.ToValidUTF8(s, "")\<close>: an invalid byte decodes to the error rune with width one.\<close>

definition ToValidUTF8 :: "string \<Rightarrow> string" where
  "ToValidUTF8 s = concat (map snd (filter (\<lambda>(r, b). \<not> (r = rune_error \<and> length b = 1)) (runes s)))"

definition newlines :: string where
  "newlines = [CHR 0x0A, CHR 0x0A]"

definition ellipsis_rune :: string where
  "ellipsis_rune = [CHR 0xE2, CHR 0x80, CHR 0xA6]"

definition preview :: "string \<Rightarrow> string" where
  "preview s =
     (let v = replace_all [CHR 0x0D] [] s in if rune_count v > 500 then take_runes 500 v @ ellipsis_rune else v)"

section \<open>Cutting a result\<close>

text \<open>The closure \<open>build\<close>: two thirds of the kept bytes from the front, the rest from the back.\<close>

definition cut_build :: "string \<Rightarrow> string \<Rightarrow> nat \<Rightarrow> string" where
  "cut_build content cut_note keep =
     ToValidUTF8 (take (keep * 2 div 3) content) @ newlines @ cut_note @ newlines @
     ToValidUTF8 (drop (length content - (keep - keep * 2 div 3)) content)"

function cut_search :: "(nat \<Rightarrow> string) \<Rightarrow> (string \<Rightarrow> int) \<Rightarrow> int \<Rightarrow> int \<Rightarrow> int \<Rightarrow> string \<Rightarrow> string" where
  "cut_search build tokens limit low high best =
     (if low \<le> high then
        let keep = low + (high - low) div 2; candidate = build (nat keep)
        in if tokens candidate \<le> limit then cut_search build tokens limit (keep + 1) high candidate
           else cut_search build tokens limit low (keep - 1) best
      else best)"
  by auto
termination
  by (relation "measure (\<lambda>(build, tokens, limit, low, high, best). nat (high - low + 1))") auto

declare cut_search.simps [simp del]

definition cutResultToTokens :: "string \<Rightarrow> string \<Rightarrow> int \<Rightarrow> (string \<Rightarrow> int) \<Rightarrow> string" where
  "cutResultToTokens content cut_note limit tokens =
     cut_search (cut_build content cut_note) tokens limit 0 (int (length content)) cut_note"

section \<open>Saved results\<close>

definition savedToolResultDir :: string where
  "savedToolResultDir = ''.agentb-tool-results''"

definition savedToolResultSegmentBytes :: nat where
  "savedToolResultSegmentBytes = 64 * 1024 * 1024"

text \<open>The two result files of a chat: the bytes and the modification time, \<open>None\<close> for a file that does
  not exist. \<open>now\<close> is the time of the write; \<open>failure\<close> is the first error of creating the directory, opening,
  writing or closing, and a failed call is taken to leave the files as they were.\<close>

record result_files =
  rfLeft :: "(string \<times> int) option"
  rfRight :: "(string \<times> int) option"

definition rf_get :: "bool \<Rightarrow> result_files \<Rightarrow> (string \<times> int) option" where
  "rf_get right fs = (if right then rfRight fs else rfLeft fs)"

definition rf_put :: "bool \<Rightarrow> string \<times> int \<Rightarrow> result_files \<Rightarrow> result_files" where
  "rf_put right f fs = (if right then fs\<lparr>rfRight := Some f\<rparr> else fs\<lparr>rfLeft := Some f\<rparr>)"

definition rf_path :: "bool \<Rightarrow> string" where
  "rf_path right = savedToolResultDir @ (if right then ''/results-2.txt'' else ''/results-1.txt'')"

definition right_is_active :: "result_files \<Rightarrow> bool" where
  "right_is_active fs =
     (case rfRight fs of
        None \<Rightarrow> False
      | Some (_, t) \<Rightarrow> (case rfLeft fs of None \<Rightarrow> True | Some (_, t') \<Rightarrow> t > t'))"

definition saveToolResult ::
  "string option \<Rightarrow> int \<Rightarrow> string \<Rightarrow> string \<Rightarrow> result_files \<Rightarrow> result_files \<times> (string + string \<times> nat)" where
  "saveToolResult failure now workspace content fs =
     (if workspace = [] then (fs, Inl ''chat scratch is unavailable'')
      else let active = right_is_active fs;
               old = (case rf_get active fs of None \<Rightarrow> [] | Some (bytes, _) \<Rightarrow> bytes);
               rotate = length old > 0 \<and> length old + length content > savedToolResultSegmentBytes;
               target = (if rotate then \<not> active else active);
               kept = (if rotate then [] else old)
           in case failure of
                Some e \<Rightarrow> (fs, Inl e)
              | None \<Rightarrow> (rf_put target (kept @ content, now) fs, Inr (rf_path target, length kept + 1)))"

section \<open>Fitting a result\<close>

definition mput_all :: "(string \<times> val) list \<Rightarrow> (string, val) gomap \<Rightarrow> (string, val) gomap" where
  "mput_all added m = fold (\<lambda>(k, v) m. mput k v m) added m"

text \<open>\<open>metadata\<close> is the clone the code makes. The error text of a failed save is the one that \<open>saveToolResult\<close> returned.\<close>

definition fitWindowResult ::
  "(string \<Rightarrow> int) \<Rightarrow> string option \<Rightarrow> int \<Rightarrow> string \<Rightarrow> string \<Rightarrow> bool \<Rightarrow> (string, val) gomap \<Rightarrow> int \<Rightarrow> int \<Rightarrow> result_files \<Rightarrow>
   result_files \<times> string \<times> bool \<times> (string, val) gomap \<times> int" where
  "fitWindowResult tokens failure now workspace content ok metadata resultTokens availableTokens fs =
     (if availableTokens < 0 \<or> resultTokens \<le> availableTokens then (fs, content, ok, metadata, resultTokens)
      else let (fs1, saved) = saveToolResult failure now workspace content fs;
               size = Itoa (int (length content));
               cut_note = (case saved of
                   Inr (path, offset) \<Rightarrow> ''[tool result cut: '' @ size @ '' bytes; full output saved at '' @ path @ ''; read_file path='' @ path @
                     '' offset='' @ Itoa (int offset) @ '' to page the omitted middle]''
                 | Inl e \<Rightarrow> ''[tool result cut: '' @ size @ '' bytes; saving the full output failed: '' @ e @ '']'');
               cut = cutResultToTokens content cut_note availableTokens tokens;
               bounded = mput_all ([(''result_too_large'', VBool True), (''original_result_tokens'', VInt resultTokens),
                   (''result_token_limit'', VInt availableTokens)] @
                 (case saved of
                    Inr (path, offset) \<Rightarrow> [(''saved_path'', VStr path), (''saved_offset'', VInt (int offset)), (''saved_bytes'', VInt (int (length content)))]
                  | Inl _ \<Rightarrow> [])) metadata
           in (fs1, cut, ok, bounded, tokens cut))"

text \<open>\<open>integerArgument\<close> reads an argument as an integer, a JSON number converted by \<open>to_int\<close>.\<close>

definition integerArgument :: "(val \<Rightarrow> int option) \<Rightarrow> val option \<Rightarrow> int \<Rightarrow> int" where
  "integerArgument to_int v fallback = (case v of None \<Rightarrow> fallback | Some x \<Rightarrow> (case to_int x of Some n \<Rightarrow> n | None \<Rightarrow> fallback))"

definition byteCapResult ::
  "(val \<Rightarrow> int option) \<Rightarrow> int \<Rightarrow> int \<Rightarrow> string \<Rightarrow> (string, val) gomap \<Rightarrow> string \<Rightarrow> bool \<Rightarrow> (string, val) gomap \<Rightarrow> int \<Rightarrow>
   string \<times> bool \<times> (string, val) gomap" where
  "byteCapResult to_int readDefault fetchDefault name args content ok metadata limit =
     (let capBytes = limit sdiv 4; size = int (length content)
      in if limit \<le> 0 \<or> size \<le> capBytes then (content, ok, metadata)
         else let capped = mput_all [(''result_too_large'', VBool True), (''original_result_bytes'', VInt size),
                    (''result_byte_limit'', VInt capBytes)] metadata;
                  windowed = ok \<and> (name = ''read_file'' \<or> name = ''fetch_url'' \<or> name = ''call_service'')
              in if windowed \<and> mget args ''windows'' \<noteq> None then
                   (''error: read_file returned a windows batch of '' @ Itoa size @ '' bytes, more than a quarter of this server's '' @ Itoa limit @
                    ''-byte request limit. Retry read_file with fewer or smaller windows.'', False,
                    mput ''retry_windows'' (VStr ''fewer_or_smaller'') capped)
                 else if windowed then
                   let requested = integerArgument to_int (mget args ''limit'') (if name = ''fetch_url'' then fetchDefault else readDefault);
                       retryLimit = max 1 (wrap64 (requested * capBytes) sdiv size);
                       offset = integerArgument to_int (mget args ''offset'') 1
                   in (''error: '' @ name @ '' returned '' @ Itoa size @ '' bytes, more than a quarter of this server's '' @ Itoa limit @
                       ''-byte request limit. Retry '' @ name @ '' with the same offset='' @ Itoa offset @ '' and limit no greater than '' @ Itoa retryLimit @
                       ''. Do not advance to next_offset until this window is read.'', False,
                       mput_all [(''retry_offset'', VInt offset), (''retry_limit'', VInt retryLimit)] capped)
                 else let keep = nat (max 0 (capBytes - 200))
                      in (ToValidUTF8 (take (keep * 2 div 3) content) @ newlines @ ''[tool result cut to fit the server's '' @ Itoa limit @
                          ''-byte request limit]'' @ newlines @ ToValidUTF8 (drop (length content - (keep - keep * 2 div 3)) content), ok, capped))"


section \<open>Classes and events of results\<close>

definition classPatterns :: "(string \<times> string list) list" where
  "classPatterns =
    [(''exit_nonzero'', [''command failed'' @ [CHR 0x0A] @ ''exit='']),
     (''denied'', [''refused'', ''not allowed'', ''outside the workspace'', ''denied'', ''blocked'', ''permission'', ''unauthorized'', ''forbidden'',
        ''guard'', ''401'', ''403'', ''canceled'', ''cancelled'']),
     (''not_found'', [''no such file'', ''no such host'', ''cannot find'', ''not found'', ''does not exist'', ''connection refused'', ''404'', ''unavailable'']),
     (''timeout'', [''timeout'', ''timed out'', ''deadline exceeded'']),
     (''too_large'', [''too large'', ''result exceeds'', ''limit reached'', ''max bytes'']),
     (''invalid_args'', [''is required'', ''must be'', ''invalid argument'', ''unknown tool'', ''bad request'', ''note too long'', ''not one of'',
        ''invalid character'', ''unmarshal'', ''malformed'', ''decode'', ''parse'', ''not configured'', ''no connection''])]"

text \<open>\<open>to_lower\<close> is \<open>strings.ToLower\<close>.\<close>

definition ToolErrorClass :: "(string \<Rightarrow> string) \<Rightarrow> string \<Rightarrow> string" where
  "ToolErrorClass to_lower content =
     (case find (\<lambda>(c, needles). list_ex (Contains (to_lower content)) needles) classPatterns of
        Some (c, _) \<Rightarrow> c | None \<Rightarrow> ''internal'')"

definition mergeResultMetadata :: "(string, val) gomap \<Rightarrow> (string, val) gomap \<Rightarrow> (string, val) gomap" where
  "mergeResultMetadata current added = mput_all added current"

definition toolResultEventData ::
  "(string \<Rightarrow> string) \<Rightarrow> int \<Rightarrow> string \<Rightarrow> string \<Rightarrow> string \<Rightarrow> bool \<Rightarrow> bool \<Rightarrow> bool \<Rightarrow> int \<Rightarrow> int \<Rightarrow> (string, val) gomap \<Rightarrow> (string, val) gomap" where
  "toolResultEventData to_lower turn callID name content ok operatorContext untrusted ms tokens metadata =
     mput_all metadata
       ([(''turn'', VInt turn), (''call_id'', VStr callID), (''name'', VStr name), (''ok'', VBool ok),
         (''operator_context'', VBool operatorContext), (''untrusted'', VBool untrusted), (''ms'', VInt ms),
         (''bytes'', VInt (int (length content))), (''tokens'', VInt tokens), (''preview'', VStr (preview content))] @
        (if \<not> ok then [(''class'', VStr (ToolErrorClass to_lower content))] else []))"

section \<open>Redaction\<close>

definition redactedToolValue :: string where
  "redactedToolValue = ''[redacted]''"

definition sensitiveServiceHeader :: "(string \<Rightarrow> string \<Rightarrow> bool) \<Rightarrow> string \<Rightarrow> bool" where
  "sensitiveServiceHeader EqualFold name \<longleftrightarrow>
     EqualFold (TrimSpace name) ''Authorization'' \<or> EqualFold (TrimSpace name) ''Proxy-Authorization''"

text \<open>\<open>config.ValidateServiceAuth\<close> with its two name patterns, \<open>^[a-z0-9][a-z0-9-]{0,63}$\<close> and
  \<open>^[A-Za-z_][A-Za-z0-9_]*$\<close>.\<close>

definition lower_or_digit :: "char \<Rightarrow> bool" where
  "lower_or_digit c \<longleftrightarrow> in_range 97 122 c \<or> is_digit c"

definition storedCredentialName :: "string \<Rightarrow> bool" where
  "storedCredentialName s \<longleftrightarrow> s \<noteq> [] \<and> lower_or_digit (hd s) \<and> list_all (\<lambda>c. lower_or_digit c \<or> c = CHR ''-'') (tl s) \<and> length (tl s) \<le> 63"

definition env_letter :: "char \<Rightarrow> bool" where
  "env_letter c \<longleftrightarrow> in_range 97 122 c \<or> in_range 65 90 c \<or> c = CHR ''_''"

definition serviceEnvironmentName :: "string \<Rightarrow> bool" where
  "serviceEnvironmentName s \<longleftrightarrow> s \<noteq> [] \<and> env_letter (hd s) \<and> list_all (\<lambda>c. env_letter c \<or> is_digit c) (tl s)"

definition ValidateServiceAuth :: "string \<Rightarrow> string option" where
  "ValidateServiceAuth auth =
     (let v = TrimSpace auth; rest = (\<lambda>p. TrimSpace (drop (length p) v))
      in if v = ''none'' then None
         else if HasPrefix v ''stored:'' then
           (if storedCredentialName (rest ''stored:'') then None else Some ''stored requires a credential name of lower-case letters, digits and hyphens'')
         else if HasPrefix v ''entra:'' then
           (if storedCredentialName (rest ''entra:'') then None else Some ''entra requires a credential name of lower-case letters, digits and hyphens'')
         else if HasPrefix v ''google:'' then
           (if storedCredentialName (rest ''google:'') then None else Some ''google requires a credential name of lower-case letters, digits and hyphens'')
         else if HasPrefix v ''static_bearer:'' then
           (if rest ''static_bearer:'' = [] \<or> \<not> serviceEnvironmentName (rest ''static_bearer:'')
            then Some ''static_bearer requires an environment variable name'' else None)
         else if HasPrefix v ''exec:'' \<and> rest ''exec:'' \<noteq> [] then None
         else Some ''must be none, stored:<name>, entra:<name>, google:<name>, or exec:<argv>'')"

definition redact_headers :: "(string \<Rightarrow> string \<Rightarrow> bool) \<Rightarrow> (string, val) gomap \<Rightarrow> (string, val) gomap" where
  "redact_headers EqualFold hs = map (\<lambda>(k, v). (k, if sensitiveServiceHeader EqualFold k then VStr redactedToolValue else v)) hs"

definition redact_entry :: "(string, val) gomap \<Rightarrow> (string, val) gomap" where
  "redact_entry entry =
     (case mget entry ''auth'' of
        Some (VStr auth) \<Rightarrow> if ValidateServiceAuth auth = None then entry
          else mput ''auth'' (VStr ''[redacted: use an environment variable or credential helper]'') entry
      | _ \<Rightarrow> entry)"

definition sanitizedToolArguments ::
  "(string \<Rightarrow> string \<Rightarrow> bool) \<Rightarrow> string \<Rightarrow> (string, val) gomap \<Rightarrow> (string, val) gomap" where
  "sanitizedToolArguments EqualFold name args =
     (if name \<noteq> ''call_service'' then args
      else let args1 = (case mget args ''headers'' of Some (VObj hs) \<Rightarrow> mput ''headers'' (VObj (redact_headers EqualFold hs)) args | _ \<Rightarrow> args)
           in case mget args1 ''connector'' of
                Some (VObj con) \<Rightarrow>
                  (case mget con ''entry'' of
                     Some (VObj entry) \<Rightarrow> mput ''connector'' (VObj (mput ''entry'' (VObj (redact_entry entry)) con)) args1
                   | _ \<Rightarrow> args1)
              | _ \<Rightarrow> args1)"

text \<open>\<open>marshal\<close> is \<open>json.Marshal\<close>.\<close>

definition sanitizedToolCalls ::
  "(string \<Rightarrow> string + (string, val) gomap) \<Rightarrow> ((string, val) gomap \<Rightarrow> string option) \<Rightarrow> (string \<Rightarrow> string \<Rightarrow> bool) \<Rightarrow>
   tool_call list \<Rightarrow> tool_call list" where
  "sanitizedToolCalls unmarshal marshal EqualFold calls =
     map (\<lambda>c. if tcName c \<noteq> ''call_service'' then c
          else c\<lparr>tcArguments := (case unmarshal (tcArguments c) of
                Inl _ \<Rightarrow> ''{\"redacted\":\"invalid call_service arguments\"}''
              | Inr args \<Rightarrow> (case marshal (sanitizedToolArguments EqualFold (tcName c) args) of
                  None \<Rightarrow> ''{\"redacted\":\"unavailable\"}''
                | Some encoded \<Rightarrow> encoded))\<rparr>) calls"

definition durableModelDeltaText :: "string \<Rightarrow> string \<Rightarrow> string" where
  "durableModelDeltaText kind v = (if kind = ''tool_call'' then [] else v)"

section \<open>Properties\<close>

lemma cut_search_result:
  "cut_search build tokens limit low high best = best \<or>
   (\<exists>k. low \<le> k \<and> k \<le> high \<and> cut_search build tokens limit low high best = build (nat k) \<and> tokens (build (nat k)) \<le> limit)"
proof (induction build tokens limit low high best rule: cut_search.induct)
  case (1 build tokens limit low high best)
  let ?keep = "low + (high - low) div 2"
  show ?case
  proof (cases "low \<le> high")
    case True
    then have k: "low \<le> ?keep" "?keep \<le> high" by auto
    show ?thesis
    proof (cases "tokens (build (nat ?keep)) \<le> limit")
      case True
      have step: "cut_search build tokens limit low high best = cut_search build tokens limit (?keep + 1) high (build (nat ?keep))"
        using \<open>low \<le> high\<close> True by (subst cut_search.simps) (simp add: Let_def)
      have "cut_search build tokens limit (?keep + 1) high (build (nat ?keep)) = build (nat ?keep) \<or>
          (\<exists>k. ?keep + 1 \<le> k \<and> k \<le> high \<and> cut_search build tokens limit (?keep + 1) high (build (nat ?keep)) = build (nat k) \<and>
            tokens (build (nat k)) \<le> limit)"
        using "1.IH"(1) [OF \<open>low \<le> high\<close> refl refl True] by simp
      then show ?thesis unfolding step using k True by (meson add1_zle_eq order_less_imp_le order_trans)
    next
      case False
      have step: "cut_search build tokens limit low high best = cut_search build tokens limit low (?keep - 1) best"
        using \<open>low \<le> high\<close> False by (subst cut_search.simps) (simp add: Let_def)
      have "cut_search build tokens limit low (?keep - 1) best = best \<or>
          (\<exists>k. low \<le> k \<and> k \<le> ?keep - 1 \<and> cut_search build tokens limit low (?keep - 1) best = build (nat k) \<and>
            tokens (build (nat k)) \<le> limit)"
        using "1.IH"(2) [OF \<open>low \<le> high\<close> refl refl False] by simp
      then show ?thesis unfolding step using k by (meson zle_diff1_eq order_less_imp_le order_trans)
    qed
  qed (simp add: cut_search.simps)
qed

lemma cut_search_largest:
  "(\<And>k. low \<le> k \<Longrightarrow> k \<le> high \<Longrightarrow> (tokens (build (nat k)) \<le> limit) = (k \<le> K)) \<Longrightarrow> low - 1 \<le> K \<Longrightarrow> K \<le> high \<Longrightarrow>
   cut_search build tokens limit low high best = (if low \<le> K then build (nat K) else best)"
proof (induction build tokens limit low high best rule: cut_search.induct)
  case (1 build tokens limit low high best)
  let ?keep = "low + (high - low) div 2"
  show ?case
  proof (cases "low \<le> high")
    case True
    then have k: "low \<le> ?keep" "?keep \<le> high" by auto
    show ?thesis
    proof (cases "tokens (build (nat ?keep)) \<le> limit")
      case True
      then have K: "?keep \<le> K" using "1.prems"(1) k by blast
      have step: "cut_search build tokens limit low high best = cut_search build tokens limit (?keep + 1) high (build (nat ?keep))"
        using \<open>low \<le> high\<close> True by (subst cut_search.simps) (simp add: Let_def)
      have "cut_search build tokens limit (?keep + 1) high (build (nat ?keep)) =
          (if ?keep + 1 \<le> K then build (nat K) else build (nat ?keep))"
        by (rule "1.IH"(1) [OF \<open>low \<le> high\<close> refl refl True]) (use "1.prems" k K in auto)
      moreover have "(if ?keep + 1 \<le> K then build (nat K) else build (nat ?keep)) = build (nat K)"
        using K by (cases "K = ?keep") auto
      moreover have "low \<le> K" using k(1) K by linarith
      ultimately show ?thesis unfolding step by simp
    next
      case False
      then have K: "K < ?keep" using "1.prems"(1) k by (meson not_le)
      have step: "cut_search build tokens limit low high best = cut_search build tokens limit low (?keep - 1) best"
        using \<open>low \<le> high\<close> False by (subst cut_search.simps) (simp add: Let_def)
      show ?thesis unfolding step
        by (rule "1.IH"(2) [OF \<open>low \<le> high\<close> refl refl False]) (use "1.prems" k K in auto)
    qed
  qed (use "1.prems" in \<open>simp add: cut_search.simps\<close>)
qed


lemma ascii_valid: "list_all (\<lambda>c. byte c < 128) s \<Longrightarrow> ToValidUTF8 s = s"
  by (induction s) (simp_all add: ToValidUTF8_def decode_rune_def Let_def rune_error_def)

lemma ascii_cut_length:
  assumes "list_all (\<lambda>c. byte c < 128) content" "k \<le> length content"
  shows "length (cut_build content cut_note k) = k + length cut_note + 4"
proof -
  have "list_all (\<lambda>c. byte c < 128) (take n content)" "list_all (\<lambda>c. byte c < 128) (drop n content)" for n
    using assms(1) by (auto simp: list_all_iff dest: in_set_takeD in_set_dropD)
  then show ?thesis using assms(2) by (simp add: cut_build_def newlines_def ascii_valid)
qed


text \<open>A saved result can be read back. The path and the offset that the note gives the model name the place in
  the result file where exactly the full result stands, at its end; the other result file is as it was, a file
  grows beyond the segment size only when it holds this result alone, and a failed save changes nothing.\<close>

theorem saved_result_round_trip:
  "case saveToolResult failure now workspace content fs of
     (fs', Inl e) \<Rightarrow> fs' = fs
   | (fs', Inr (path, offset)) \<Rightarrow>
       (\<exists>right bytes t. path = rf_path right \<and> rf_get right fs' = Some (bytes, t) \<and> rf_get (\<not> right) fs' = rf_get (\<not> right) fs \<and>
          drop (offset - 1) bytes = content \<and> 0 < offset \<and>
          (length bytes \<le> savedToolResultSegmentBytes \<or> bytes = content))"
proof (cases "workspace = [] \<or> failure \<noteq> None")
  case True
  then show ?thesis by (auto simp: saveToolResult_def Let_def)
next
  case False
  let ?active = "right_is_active fs"
  let ?old = "case rf_get ?active fs of None \<Rightarrow> [] | Some (bytes, _) \<Rightarrow> bytes"
  let ?rotate = "length ?old > 0 \<and> length ?old + length content > savedToolResultSegmentBytes"
  let ?target = "if ?rotate then \<not> ?active else ?active"
  let ?kept = "if ?rotate then [] else ?old"
  have "saveToolResult failure now workspace content fs =
      (rf_put ?target (?kept @ content, now) fs, Inr (rf_path ?target, length ?kept + 1))"
    using False by (simp add: saveToolResult_def Let_def)
  moreover have "rf_get ?target (rf_put ?target f fs) = Some f" "rf_get (\<not> ?target) (rf_put ?target f fs) = rf_get (\<not> ?target) fs" for f
    by (simp_all add: rf_get_def rf_put_def)
  moreover have "length (?kept @ content) \<le> savedToolResultSegmentBytes \<or> ?kept @ content = content" by auto
  ultimately show ?thesis
    by (simp only: prod.case sum.case) (intro exI [of _ ?target] exI [of _ "?kept @ content"] exI [of _ now]; simp)
qed
end
