(* ===== verification/Guards.thy ===== *)
theory Guards
  imports Events Go_Strings
begin

text \<open>
  Repeat detection of a run (\<open>internal/agent/guards.go\<close>): \<open>runGuards\<close> with its window of recent
  calls and one streak per loop key. Three things are parameters: \<open>digest\<close> (SHA-256 in hex),
  \<open>marshal\<close> (\<open>encoding/json\<close> on the arguments) and the key function of \<open>withLoopKey\<close>. The map of
  pointers to streaks is a map of streaks that is stored back after an update, since no streak is
  shared between keys.
\<close>

definition loopSteerAt :: int where "loopSteerAt = 3"
definition loopCycleAt :: int where "loopCycleAt = 6"

record guard_pair =
  gpArgsHash :: string
  gpResultHash :: string
  gpCallID :: string

record loop_streak =
  lsResultHash :: string
  lsFirstCallID :: string
  lsCount :: int
  lsSteered :: bool

type_synonym args = "(string \<times> val) list"

record run_guards =
  rgWindow :: int
  rgRecent :: "guard_pair list"
  rgKey :: "(string \<Rightarrow> args \<Rightarrow> string) option"
  rgStreaks :: "(string, loop_streak) gomap"

definition newRunGuards :: "int \<Rightarrow> run_guards" where
  "newRunGuards window = \<lparr>rgWindow = window, rgRecent = [], rgKey = None, rgStreaks = []\<rparr>"

definition withLoopKey :: "(string \<Rightarrow> args \<Rightarrow> string) \<Rightarrow> run_guards \<Rightarrow> run_guards" where
  "withLoopKey key g = g\<lparr>rgKey := Some key, rgStreaks := []\<rparr>"

text \<open>\<open>strings.FieldsFunc\<close> on the path separators (both ASCII, so bytes are as good as runes).\<close>

fun path_parts :: "string \<Rightarrow> string \<Rightarrow> string list" where
  "path_parts part [] = (if part = [] then [] else [rev part])"
| "path_parts part (c # s) =
     (if c = CHR ''/'' \<or> c = CHR 0x5C then (if part = [] then path_parts [] s else rev part # path_parts [] s)
      else path_parts (c # part) s)"

definition ellipsis :: string where
  "ellipsis = [CHR 0xE2, CHR 0x80, CHR 0xA6]"

definition shortLoopKey :: "string \<Rightarrow> string" where
  "shortLoopKey value =
     (let parts = path_parts [] value
      in if length parts > 4 then ellipsis @ ''/'' @ join ''/'' (drop (length parts - 4) parts)
         else if rune_count value > 60 then take_runes 57 value @ ellipsis
         else value)"

definition steerLine :: "string \<Rightarrow> string \<Rightarrow> string" where
  "steerLine tool value = tool @ '' on '' @ shortLoopKey value @ '' has given the same result '' @ Itoa loopSteerAt @
     '' times; say what you need from the user, or finish.''"

text \<open>The loop over \<open>recent\<close> from the newest entry back: how many equal the call, and the oldest of those.\<close>

fun same_run :: "string \<Rightarrow> string \<Rightarrow> guard_pair list \<Rightarrow> int \<Rightarrow> string \<Rightarrow> int \<times> string" where
  "same_run ah rh [] n prior = (n, prior)"
| "same_run ah rh (p # ps) n prior =
     (if gpArgsHash p \<noteq> ah \<or> gpResultHash p \<noteq> rh then (n, prior)
      else same_run ah rh ps (n + 1) (gpCallID p))"

definition zero_streak :: loop_streak where
  "zero_streak = \<lparr>lsResultHash = [], lsFirstCallID = [], lsCount = 0, lsSteered = False\<rparr>"

definition count_streak :: "string \<Rightarrow> string \<Rightarrow> loop_streak \<Rightarrow> loop_streak" where
  "count_streak callID resultHash st =
     (let st1 = (if lsResultHash st \<noteq> resultHash
                 then st\<lparr>lsResultHash := resultHash, lsFirstCallID := callID, lsCount := 0\<rparr> else st)
      in st1\<lparr>lsCount := lsCount st1 + 1\<rparr>)"

record observed =
  obReason :: string
  obDetail :: string
  obPrior :: string

definition nothing :: observed where
  "nothing = \<lparr>obReason = [], obDetail = [], obPrior = []\<rparr>"

text \<open>The last part of \<open>Observe\<close>: the streak of the call's loop key.\<close>

definition observe_key ::
  "string \<Rightarrow> string \<Rightarrow> string \<Rightarrow> string \<Rightarrow> (string, loop_streak) gomap \<Rightarrow> (string, loop_streak) gomap \<times> observed" where
  "observe_key callID name value resultHash streaks =
     (let slot = nul_key name value;
          streak = count_streak callID resultHash
            (case mget streaks slot of None \<Rightarrow> zero_streak | Some st \<Rightarrow> st)
      in if lsCount streak \<ge> loopCycleAt
         then (mput slot streak streaks,
               \<lparr>obReason = ''cycle'',
                obDetail = name @ '' on '' @ shortLoopKey value @ '' gave the same result '' @
                  Itoa (lsCount streak) @ '' times'',
                obPrior = lsFirstCallID streak\<rparr>)
         else if lsCount streak = loopSteerAt \<and> \<not> lsSteered streak
         then (mput slot (streak\<lparr>lsSteered := True\<rparr>) streaks,
               \<lparr>obReason = ''steer'', obDetail = steerLine name value, obPrior = []\<rparr>)
         else (mput slot streak streaks, nothing))"

definition Observe ::
  "(string \<Rightarrow> string) \<Rightarrow> (args \<Rightarrow> string) \<Rightarrow> string \<Rightarrow> string \<Rightarrow> args \<Rightarrow> string \<Rightarrow> run_guards \<Rightarrow> run_guards \<times> observed" where
  "Observe digest marshal callID name args result g =
     (let argsJSON = marshal args;
          argsHash = digest (name @ argsJSON);
          resultHash = digest result
      in if rgWindow g \<le> 0 then (g, nothing)
         else
           let (consecutive, prior) = same_run argsHash resultHash (rev (rgRecent g)) 0 [];
               recent = rgRecent g @ [\<lparr>gpArgsHash = argsHash, gpResultHash = resultHash, gpCallID = callID\<rparr>];
               recent1 = (if int (length recent) > rgWindow g
                          then drop (length recent - nat (rgWindow g)) recent else recent);
               g1 = g\<lparr>rgRecent := recent1\<rparr>
           in if consecutive + 1 \<ge> rgWindow g
              then (g1, \<lparr>obReason = ''cycle'',
                      obDetail = name @ '' repeated with identical arguments and identical result'', obPrior = prior\<rparr>)
              else
                (case rgKey g of
                   None \<Rightarrow> (g1, nothing)
                 | Some key \<Rightarrow>
                     let value = (if key name args = [] then argsJSON else key name args);
                         (streaks, ob) = observe_key callID name value resultHash (rgStreaks g)
                     in (g1\<lparr>rgStreaks := streaks\<rparr>, ob)))"

definition ResetCycle :: "run_guards \<Rightarrow> run_guards" where
  "ResetCycle g = g\<lparr>rgRecent := [], rgStreaks := map (\<lambda>(k, st). (k, st\<lparr>lsCount := 0\<rparr>)) (rgStreaks g)\<rparr>"

section \<open>Histories\<close>

text \<open>What a run does with its guards: calls it reports, and the reset after an answered cycle card.\<close>

datatype guard_op =
    Call string string args string
  | Reset

fun guard_run ::
  "(string \<Rightarrow> string) \<Rightarrow> (args \<Rightarrow> string) \<Rightarrow> run_guards \<Rightarrow> guard_op list \<Rightarrow> run_guards \<times> observed list" where
  "guard_run digest marshal g [] = (g, [])"
| "guard_run digest marshal g (Call i name args result # ops) =
     (let (g1, ob) = Observe digest marshal i name args result g;
          (g2, obs) = guard_run digest marshal g1 ops
      in (g2, ob # obs))"
| "guard_run digest marshal g (Reset # ops) =
     (let (g2, obs) = guard_run digest marshal (ResetCycle g) ops in (g2, nothing # obs))"

text \<open>The pairs of hashes of the calls since the last reset, and whether the newest \<open>n\<close> are all the same.\<close>

fun call_pairs ::
  "(string \<Rightarrow> string) \<Rightarrow> (args \<Rightarrow> string) \<Rightarrow> (string \<times> string) list \<Rightarrow> guard_op list \<Rightarrow> (string \<times> string) list" where
  "call_pairs digest marshal h [] = h"
| "call_pairs digest marshal h (Call i name args result # ops) =
     call_pairs digest marshal (h @ [(digest (name @ marshal args), digest result)]) ops"
| "call_pairs digest marshal h (Reset # ops) = call_pairs digest marshal [] ops"

definition ends_with_repeats :: "nat \<Rightarrow> 'a list \<Rightarrow> bool" where
  "ends_with_repeats n xs \<longleftrightarrow> n \<le> length xs \<and> (\<forall>x \<in> set (drop (length xs - n) xs). x = last xs)"

definition pair_of :: "guard_pair \<Rightarrow> string \<times> string" where
  "pair_of p = (gpArgsHash p, gpResultHash p)"

lemma same_run_count:
  "fst (same_run ah rh ps n prior) = n + int (length (takeWhile (\<lambda>p. pair_of p = (ah, rh)) ps))"
  by (induction ah rh ps n prior rule: same_run.induct) (auto simp: pair_of_def)

text \<open>The window holds the newest entries of the history.\<close>

definition window_of :: "run_guards \<Rightarrow> (string \<times> string) list \<Rightarrow> bool" where
  "window_of g h \<longleftrightarrow> map pair_of (rgRecent g) = drop (length h - nat (rgWindow g)) h"

lemma drop_snoc_window:
  assumes "0 < w" "r = drop (length h - w) h"
  shows "(if length (r @ [x]) > w then drop (length (r @ [x]) - w) (r @ [x]) else r @ [x]) =
         drop (Suc (length h) - w) (h @ [x])"
  using assms by (auto simp: Suc_diff_le drop_Suc)

lemma Observe_window:
  assumes "0 < rgWindow g" "window_of g h" "Observe digest marshal i name args result g = (g', ob)"
  shows "rgWindow g' = rgWindow g \<and> rgKey g' = rgKey g \<and>
    window_of g' (h @ [(digest (name @ marshal args), digest result)])"
proof -
  let ?w = "nat (rgWindow g)" and ?p = "\<lparr>gpArgsHash = digest (name @ marshal args), gpResultHash = digest result, gpCallID = i\<rparr>"
  let ?recent = "rgRecent g @ [?p]"
  have g': "rgRecent g' = (if length ?recent > ?w then drop (length ?recent - ?w) ?recent else ?recent)"
    "rgWindow g' = rgWindow g" "rgKey g' = rgKey g"
    using assms(1,3) by (auto simp: Observe_def Let_def split_beta split: if_splits option.splits)
  have "map pair_of (rgRecent g') =
      (let r = map pair_of (rgRecent g); x = (digest (name @ marshal args), digest result)
       in if length (r @ [x]) > ?w then drop (length (r @ [x]) - ?w) (r @ [x]) else r @ [x])"
    unfolding g'(1) using assms(1) by (simp add: Let_def pair_of_def flip: drop_map)
  also have "\<dots> = drop (Suc (length h) - ?w) (h @ [(digest (name @ marshal args), digest result)])"
    unfolding Let_def by (rule drop_snoc_window) (use assms in \<open>auto simp: window_of_def\<close>)
  finally show ?thesis using g' by (simp add: window_of_def)
qed

lemma takeWhile_ge_iff: "k \<le> length (takeWhile P xs) \<longleftrightarrow> k \<le> length xs \<and> (\<forall>y \<in> set (take k xs). P y)"
proof (induction xs arbitrary: k)
  case (Cons x xs)
  then show ?case by (cases k) auto
qed simp

lemma repeats_iff:
  assumes "0 < w"
  shows "w \<le> Suc (length (takeWhile (\<lambda>y. y = x) (rev (drop (length h - w) h)))) \<longleftrightarrow> ends_with_repeats w (h @ [x])"
proof -
  let ?r = "drop (length h - w) h"
  have "w \<le> Suc (length (takeWhile (\<lambda>y. y = x) (rev ?r))) \<longleftrightarrow>
      w - 1 \<le> length ?r \<and> (\<forall>y \<in> set (take (w - 1) (rev ?r)). y = x)"
    using takeWhile_ge_iff [of "w - 1" "\<lambda>y. y = x" "rev ?r"] assms by auto
  also have "\<dots> \<longleftrightarrow> w - 1 \<le> length h \<and> (\<forall>y \<in> set (drop (Suc (length h) - w) h). y = x)"
  proof (cases "w - 1 \<le> length h")
    case True
    then have "take (w - 1) (rev ?r) = rev (drop (Suc (length h) - w) h)"
      using assms by (cases "w \<le> length h") (auto simp: take_rev Suc_diff_le)
    then show ?thesis using True by auto
  qed (use assms in auto)
  also have "\<dots> \<longleftrightarrow> ends_with_repeats w (h @ [x])"
    using assms by (auto simp: ends_with_repeats_def le_Suc_eq)
  finally show ?thesis .
qed

lemma Observe_cycle:
  assumes "0 < rgWindow g" "window_of g h" "rgKey g = None"
  shows "obReason (snd (Observe digest marshal i name args result g)) =
    (if ends_with_repeats (nat (rgWindow g)) (h @ [(digest (name @ marshal args), digest result)])
     then ''cycle'' else [])"
proof -
  let ?x = "(digest (name @ marshal args), digest result)" and ?w = "nat (rgWindow g)"
  have "fst (same_run (fst ?x) (snd ?x) (rev (rgRecent g)) 0 []) + 1 \<ge> rgWindow g \<longleftrightarrow>
      ?w \<le> Suc (length (takeWhile (\<lambda>y. y = ?x) (rev (map pair_of (rgRecent g)))))"
    using assms(1) by (simp add: same_run_count takeWhile_map comp_def nat_le_iff rev_map add.commute)
  also have "\<dots> \<longleftrightarrow> ends_with_repeats ?w (h @ [?x])"
    using assms(1,2) repeats_iff [of ?w ?x h] by (simp add: window_of_def)
  finally show ?thesis using assms(1,3) by (simp add: Observe_def Let_def split_beta nothing_def)
qed

lemma ResetCycle_window: "window_of (ResetCycle g) []"
  by (simp add: window_of_def ResetCycle_def)

lemma guard_run_snoc_call:
  "guard_run digest marshal g (ops @ [Call i name args result]) =
     (let (g1, obs) = guard_run digest marshal g ops; (g2, ob) = Observe digest marshal i name args result g1
      in (g2, obs @ [ob]))"
  by (induction digest marshal g ops rule: guard_run.induct) (auto simp: Let_def split: prod.splits)

lemma guard_run_window:
  assumes "guard_run digest marshal g ops = (g', obs)" "0 < rgWindow g" "window_of g h"
  shows "rgWindow g' = rgWindow g \<and> rgKey g' = rgKey g \<and> window_of g' (call_pairs digest marshal h ops)"
  using assms
proof (induction digest marshal g ops arbitrary: h g' obs rule: guard_run.induct)
  case (2 digest marshal g i name args result ops)
  obtain g1 ob where o: "Observe digest marshal i name args result g = (g1, ob)" by fastforce
  note w = Observe_window [OF 2(3) 2(4) o]
  obtain obs2 where "guard_run digest marshal g1 ops = (g', obs2)"
    using 2(2) o by (auto simp: Let_def split: prod.splits)
  from 2(1) [OF o [symmetric] refl this] w 2(3) show ?case by auto
next
  case (3 digest marshal g ops)
  obtain obs2 where "guard_run digest marshal (ResetCycle g) ops = (g', obs2)"
    using 3(2) by (auto simp: Let_def split: prod.splits)
  from 3(1) [OF this] 3(3) ResetCycle_window [of g] show ?case by (simp add: ResetCycle_def)
qed simp

section \<open>One steer per loop key\<close>

definition slot_of :: "(string \<Rightarrow> args \<Rightarrow> string) \<Rightarrow> (args \<Rightarrow> string) \<Rightarrow> guard_op \<Rightarrow> string option" where
  "slot_of key marshal op = (case op of Reset \<Rightarrow> None
     | Call i name args result \<Rightarrow>
         Some (nul_key name (if key name args = [] then marshal args else key name args)))"

definition steered_at :: "run_guards \<Rightarrow> string \<Rightarrow> bool" where
  "steered_at g slot = (case mget (rgStreaks g) slot of None \<Rightarrow> False | Some st \<Rightarrow> lsSteered st)"

lemma count_streak_steered [simp]: "lsSteered (count_streak i r st) = lsSteered st"
  by (simp add: count_streak_def Let_def)

lemma Observe_steers:
  assumes "Observe digest marshal i name args result g = (g', ob)" "rgKey g = Some key"
    and "slot_of key marshal (Call i name args result) = Some slot"
  shows "rgKey g' = Some key \<and> (\<forall>k. steered_at g k \<longrightarrow> steered_at g' k) \<and>
    (obReason ob = ''steer'' \<longrightarrow> \<not> steered_at g slot \<and> steered_at g' slot)"
proof -
  have key: "(\<forall>k. steered k streaks \<longrightarrow> steered k streaks') \<and>
      (obReason ob = ''steer'' \<longrightarrow> \<not> steered (nul_key name vl) streaks \<and> steered (nul_key name vl) streaks')"
    if "observe_key i name vl rh streaks = (streaks', ob)"
      "steered = (\<lambda>k m. case mget m k of None \<Rightarrow> False | Some st \<Rightarrow> lsSteered st)" for vl rh streaks streaks' steered
    using that
    by (cases "mget streaks (nul_key name vl)")
       (auto simp: observe_key_def Let_def nothing_def zero_streak_def split: if_splits)
  consider "rgWindow g \<le> 0" "g' = g" "ob = nothing"
    | r where "g' = g\<lparr>rgRecent := r\<rparr>" "obReason ob = ''cycle''"
    | r vl rh streaks' where "slot = nul_key name vl" "g' = g\<lparr>rgRecent := r, rgStreaks := streaks'\<rparr>"
      "observe_key i name vl rh (rgStreaks g) = (streaks', ob)"
    using assms by (auto simp: Observe_def Let_def slot_of_def split_beta split: if_splits)
  then show ?thesis
  proof cases
    case (3 r vl rh streaks')
    from key [OF 3(3) refl] 3(1,2) show ?thesis using assms(2) by (simp add: steered_at_def)
  qed (use assms(2) in \<open>auto simp: steered_at_def nothing_def\<close>)
qed

lemma ResetCycle_steered: "steered_at (ResetCycle g) k = steered_at g k"
  by (auto simp: steered_at_def ResetCycle_def mget_map_values split: option.split)

definition steers :: "(string \<Rightarrow> args \<Rightarrow> string) \<Rightarrow> (args \<Rightarrow> string) \<Rightarrow> string \<Rightarrow> (guard_op \<times> observed) list \<Rightarrow> nat" where
  "steers key marshal slot xs =
     length (filter (\<lambda>(op, ob). slot_of key marshal op = Some slot \<and> obReason ob = ''steer'') xs)"

lemma guard_run_steers:
  assumes "guard_run digest marshal g ops = (g', obs)" "rgKey g = Some key"
  shows "steers key marshal slot (zip ops obs) \<le> (if steered_at g slot then 0 else 1)"
  using assms
proof (induction digest marshal g ops arbitrary: g' obs rule: guard_run.induct)
  case (2 digest marshal g i name args result ops)
  obtain g1 ob where o: "Observe digest marshal i name args result g = (g1, ob)" by fastforce
  obtain obs2 where r: "guard_run digest marshal g1 ops = (g', obs2)" "obs = ob # obs2"
    using 2(2) o by (auto simp: Let_def split: prod.splits)
  obtain sl where sl: "slot_of key marshal (Call i name args result) = Some sl"
    by (simp add: slot_of_def)
  note st = Observe_steers [OF o 2(3) sl]
  from 2(1) [OF o [symmetric] refl r(1)] st
  have "steers key marshal slot (zip ops obs2) \<le> (if steered_at g1 slot then 0 else 1)" by blast
  then show ?case using st sl r(2)
    by (cases "steered_at g slot"; cases "sl = slot \<and> obReason ob = ''steer''") (auto simp: steers_def split: if_splits)
next
  case (3 digest marshal g ops)
  obtain obs2 where r: "guard_run digest marshal (ResetCycle g) ops = (g', obs2)" "obs = nothing # obs2"
    using 3(2) by (auto simp: Let_def split: prod.splits)
  from 3(1) [OF r(1)] 3(3) have "steers key marshal slot (zip ops obs2) \<le> (if steered_at (ResetCycle g) slot then 0 else 1)"
    by (simp add: ResetCycle_def)
  then show ?case using r(2) by (simp add: ResetCycle_steered steers_def slot_of_def)
qed (simp add: steers_def)

section \<open>Properties\<close>

text \<open>The window guard stops a run exactly when the newest calls repeat: for guards without a loop
  key, whatever was observed and reset before, a call is reported as a cycle if and only if the
  window is positive and the newest \<open>window\<close> calls since the last reset, this one included, all
  have the same argument and result hashes; otherwise nothing is reported.\<close>

theorem observe_cycle_iff_repeats:
  "obReason (last (snd (guard_run digest marshal (newRunGuards window) (ops @ [Call i name args result])))) =
     (if 0 < window \<and> ends_with_repeats (nat window) (call_pairs digest marshal [] (ops @ [Call i name args result]))
      then ''cycle'' else [])"
proof (cases "0 < window")
  case True
  obtain g obs where r: "guard_run digest marshal (newRunGuards window) ops = (g, obs)" by fastforce
  have "window_of (newRunGuards window) []" by (simp add: window_of_def newRunGuards_def)
  from guard_run_window [OF r _ this] True
  have g: "rgWindow g = window" "rgKey g = None" "window_of g (call_pairs digest marshal [] ops)"
    by (simp_all add: newRunGuards_def)
  have pairs: "call_pairs digest marshal h (ops @ [Call i name args result]) =
      call_pairs digest marshal h ops @ [(digest (name @ marshal args), digest result)]" for h
    by (induction digest marshal h ops rule: call_pairs.induct) simp_all
  show ?thesis using Observe_cycle [of g] g True by (simp add: guard_run_snoc_call r Let_def split_beta pairs)
next
  case False
  have "rgWindow (fst (guard_run digest marshal g ops)) \<le> 0" if "rgWindow g \<le> 0" for g
    using that
  proof (induction digest marshal g ops rule: guard_run.induct)
    case (2 digest marshal g i name args result ops)
    then show ?case by (auto simp: Let_def Observe_def split: prod.splits)
  qed (auto simp: Let_def ResetCycle_def split: prod.splits)
  with False show ?thesis
    by (simp add: guard_run_snoc_call Let_def split_beta Observe_def newRunGuards_def nothing_def)
qed

text \<open>A model is steered at most once per loop key in a run: over any sequence of calls and resets
  the line "has given the same result" is given at most once for one tool and key, also after the
  result changed and after an answered cycle card.\<close>

theorem steered_at_most_once:
  "steers key marshal slot (zip ops (snd (guard_run digest marshal (withLoopKey key (newRunGuards window)) ops))) \<le> 1"
proof -
  obtain g' obs where r: "guard_run digest marshal (withLoopKey key (newRunGuards window)) ops = (g', obs)" by fastforce
  have "rgKey (withLoopKey key (newRunGuards window)) = Some key" by (simp add: withLoopKey_def)
  from guard_run_steers [OF r this, of slot] show ?thesis unfolding r by (simp split: if_splits)
qed

end
