(* ===== verification/Flights.thy ===== *)
theory Flights
  imports Session
begin

text \<open>
  What is in flight when a run is stopped (\<open>internal/agent/abort.go\<close>): the flight book of the runner
  with one state per chat, the deltas and tool calls noted in it, and the abort record a stopped run
  leaves. Parameters: \<open>partial_path\<close> reads the path out of half-received JSON arguments (a regular
  expression and \<open>strconv.Unquote\<close>), \<open>encode\<close> is \<open>json.MarshalIndent\<close>, \<open>token_count\<close> the float64
  ceiling of runes over 3.6, and the message id comes from the runner's id source.
\<close>

definition harnessAbortRecordPrefix :: string where
  "harnessAbortRecordPrefix =
     ''[HARNESS ABORT RECORD '' @ [CHR 0xE2, CHR 0x80, CHR 0x94] @
     '' verify every possibly-written path before trusting it]''"

record flight_state =
  fRunID :: string
  fTurn :: int
  fStage :: string
  fToolName :: string
  fToolArguments :: string
  fPartialReasoning :: string
  fPartialContent :: string
  fPartialToolArguments :: "(int, string) gomap"
  fPartialToolNames :: "(int, string) gomap"
  fPartialToolOutput :: string
  fPossiblePaths :: "string list"
  fPathsComplete :: bool

definition zero_flight :: flight_state where
  "zero_flight = \<lparr>fRunID = [], fTurn = 0, fStage = [], fToolName = [], fToolArguments = [], fPartialReasoning = [],
     fPartialContent = [], fPartialToolArguments = [], fPartialToolNames = [], fPartialToolOutput = [],
     fPossiblePaths = [], fPathsComplete = False\<rparr>"

record flight_book =
  fbActive :: "(string, flight_state) gomap"
  fbRecorded :: "(string, bool) gomap"

definition newFlightBook :: flight_book where
  "newFlightBook = \<lparr>fbActive = [], fbRecorded = []\<rparr>"

definition flightKey :: "string \<Rightarrow> string \<Rightarrow> string" where
  "flightKey sid runID = nul_key sid runID"

definition beginFlight :: "string \<Rightarrow> string \<Rightarrow> flight_book \<Rightarrow> flight_book" where
  "beginFlight sid runID b =
     b\<lparr>fbActive := mput sid (zero_flight\<lparr>fRunID := runID, fStage := ''starting'', fPathsComplete := True\<rparr>) (fbActive b),
       fbRecorded := mdel (flightKey sid runID) (fbRecorded b)\<rparr>"

definition endFlight :: "string \<Rightarrow> string \<Rightarrow> flight_book \<Rightarrow> flight_book" where
  "endFlight sid runID b =
     b\<lparr>fbActive := (case mget (fbActive b) sid of
          Some st \<Rightarrow> if fRunID st = runID then mdel sid (fbActive b) else fbActive b
        | None \<Rightarrow> fbActive b),
       fbRecorded := mdel (flightKey sid runID) (fbRecorded b)\<rparr>"

text \<open>The guard every update shares: the chat's flight must still be the flight of this run.\<close>

definition update_flight :: "string \<Rightarrow> string \<Rightarrow> (flight_state \<Rightarrow> flight_state) \<Rightarrow> flight_book \<Rightarrow> flight_book" where
  "update_flight sid runID f b =
     (case mget (fbActive b) sid of
        Some st \<Rightarrow> if fRunID st = runID then b\<lparr>fbActive := mput sid (f st) (fbActive b)\<rparr> else b
      | None \<Rightarrow> b)"

definition setFlightStage :: "string \<Rightarrow> string \<Rightarrow> int \<Rightarrow> string \<Rightarrow> flight_book \<Rightarrow> flight_book" where
  "setFlightStage sid runID turn stage = update_flight sid runID (\<lambda>st.
     let st1 = st\<lparr>fTurn := turn, fStage := stage\<rparr>;
         st2 = (if stage = ''assemble''
                then st1\<lparr>fPartialReasoning := [], fPartialContent := [], fPartialToolArguments := [], fPartialToolNames := []\<rparr>
                else st1)
     in if stage \<noteq> ''execute''
        then st2\<lparr>fToolName := [], fToolArguments := [], fPartialToolOutput := [], fPossiblePaths := [], fPathsComplete := True\<rparr>
        else st2)"

record delta =
  dKind :: string
  dIndex :: int
  dCallID :: string
  dName :: string
  dText :: string
  dTotal :: int
  dCache :: int
  dProcessed :: int

definition redacted :: string where
  "redacted = ''[redacted: call_service arguments are not durable until complete]''"

definition add_delta :: "delta \<Rightarrow> flight_state \<Rightarrow> flight_state" where
  "add_delta d st =
     (if dKind d = ''reasoning'' then st\<lparr>fPartialReasoning := fPartialReasoning st @ dText d\<rparr>
      else if dKind d = ''content'' then st\<lparr>fPartialContent := fPartialContent st @ dText d\<rparr>
      else if dKind d = ''tool_call'' then
        let names = (if dName d \<noteq> [] then mput (dIndex d) (dName d) (fPartialToolNames st) else fPartialToolNames st);
            old = mget_or [] (fPartialToolArguments st) (dIndex d)
        in st\<lparr>fPartialToolNames := names,
              fPartialToolArguments := mput (dIndex d)
                (if mget_or [] names (dIndex d) = ''call_service'' then redacted else old @ dText d)
                (fPartialToolArguments st)\<rparr>
      else st)"

definition addFlightDelta :: "string \<Rightarrow> string \<Rightarrow> delta \<Rightarrow> flight_book \<Rightarrow> flight_book" where
  "addFlightDelta sid runID d = update_flight sid runID (add_delta d)"

definition possibleWrittenPaths :: "string \<Rightarrow> (string \<times> val) list \<Rightarrow> string list \<times> bool" where
  "possibleWrittenPaths name args =
     (if name = ''write_file'' \<or> name = ''edit_file'' then
        (let path = str_of (mget args ''path'') in if path \<noteq> [] then ([path], True) else ([], False))
      else if name = ''shell'' \<or> name = ''run_script''
      then ([''unknown: command or script may write arbitrary paths''], False)
      else ([], True))"

definition setFlightTool :: "string \<Rightarrow> string \<Rightarrow> int \<Rightarrow> tool_call \<Rightarrow> (string \<times> val) list \<Rightarrow> flight_book \<Rightarrow> flight_book" where
  "setFlightTool sid runID turn call args = update_flight sid runID (\<lambda>st.
     st\<lparr>fTurn := turn, fStage := ''execute'', fToolName := tcName call, fToolArguments := tcArguments call,
        fPartialToolOutput := [], fPossiblePaths := fst (possibleWrittenPaths (tcName call) args),
        fPathsComplete := snd (possibleWrittenPaths (tcName call) args)\<rparr>)"

definition setFlightToolOutput :: "string \<Rightarrow> string \<Rightarrow> string \<Rightarrow> flight_book \<Rightarrow> flight_book" where
  "setFlightToolOutput sid runID output = update_flight sid runID (\<lambda>st. st\<lparr>fPartialToolOutput := output\<rparr>)"

record partial_call =
  pcIndex :: int
  pcName :: string
  pcArguments :: string

fun partial_paths_from :: "(string \<Rightarrow> string option) \<Rightarrow> string list \<Rightarrow> bool \<Rightarrow> partial_call list \<Rightarrow> string list \<times> bool" where
  "partial_paths_from partial_path paths complete [] = (paths, complete)"
| "partial_paths_from partial_path paths complete (c # cs) =
     (if pcName c = ''write_file'' \<or> pcName c = ''edit_file'' then
        (case partial_path (pcArguments c) of
           None \<Rightarrow> partial_paths_from partial_path paths False cs
         | Some p \<Rightarrow> partial_paths_from partial_path (paths @ [p]) complete cs)
      else if pcName c = ''shell'' \<or> pcName c = ''run_script'' then
        partial_paths_from partial_path (paths @ [''unknown: command or script may write arbitrary paths'']) False cs
      else partial_paths_from partial_path paths complete cs)"

definition possiblePartialPaths :: "(string \<Rightarrow> string option) \<Rightarrow> partial_call list \<Rightarrow> string list \<times> bool" where
  "possiblePartialPaths partial_path cs = partial_paths_from partial_path [] True cs"

definition abortReason :: "string \<Rightarrow> string \<Rightarrow> flight_book \<Rightarrow> string" where
  "abortReason sid runID b =
     (case mget (fbActive b) sid of
        None \<Rightarrow> ''aborted_mid_run''
      | Some st \<Rightarrow>
          if fRunID st \<noteq> runID then ''aborted_mid_run''
          else if fStage st = ''execute'' \<and> fToolName st \<noteq> [] then ''aborted_mid_tool''
          else if fStage st = ''call_model'' then ''aborted_mid_model''
          else ''aborted_mid_run'')"

definition partial_calls :: "flight_state \<Rightarrow> partial_call list" where
  "partial_calls st = map (\<lambda>i. \<lparr>pcIndex = i, pcName = mget_or [] (fPartialToolNames st) i,
     pcArguments = mget_or [] (fPartialToolArguments st) i\<rparr>) (sort (keys (fPartialToolArguments st)))"

definition abort_data :: "(string \<Rightarrow> string option) \<Rightarrow> string \<Rightarrow> string \<Rightarrow> flight_state \<Rightarrow> (string \<times> val) list" where
  "abort_data partial_path reason detail st =
     (let calls = partial_calls st;
          (paths, complete) = (if fPossiblePaths st = [] \<and> calls \<noteq> [] then possiblePartialPaths partial_path calls
                               else (fPossiblePaths st, fPathsComplete st))
      in [(''reason'', VStr reason), (''detail'', VStr detail), (''turn'', VInt (fTurn st)), (''stage'', VStr (fStage st)),
          (''tool_in_flight'', VObj [(''name'', VStr (fToolName st)), (''arguments'', VStr (fToolArguments st))]),
          (''partial_output'', VObj [(''reasoning'', VStr (fPartialReasoning st)), (''content'', VStr (fPartialContent st)),
             (''tool_calls'', VList (map (\<lambda>c. VObj [(''index'', VInt (pcIndex c)), (''name'', VStr (pcName c)),
                (''arguments'', VStr (pcArguments c))]) calls)),
             (''tool_result'', VStr (fPartialToolOutput st))]),
          (''possibly_written_paths'', vstrs paths), (''paths_complete'', VBool complete),
          (''unverified'', VBool (paths \<noteq> []))])"

definition recordAbort ::
  "(string \<Rightarrow> string option) \<Rightarrow> (val \<Rightarrow> string) \<Rightarrow> (nat \<Rightarrow> int) \<Rightarrow> string \<Rightarrow> string \<Rightarrow> string \<Rightarrow> string \<Rightarrow>
   flight_book \<times> session \<Rightarrow> (flight_book \<times> session) \<times> string \<times> bus_note list" where
  "recordAbort partial_path encode token_count mid runID reason detail st =
     (case st of (b, s) \<Rightarrow>
        let key = flightKey (sID s) runID
        in if mtrue (fbRecorded b) key then ((b, s), detail, [])
           else let fl = (case mget (fbActive b) (sID s) of None \<Rightarrow> zero_flight | Some f \<Rightarrow> f);
                    data = abort_data partial_path reason detail fl;
                    content = harnessAbortRecordPrefix @ [CHR 0x0A] @ encode (VObj data);
                    m = zero_message\<lparr>mID := mid, mRole := ''harness'', mContent := content, mCategory := ''history'',
                          mTokens := token_count (rune_count content), mEstimated := True, mTurn := fTurn fl\<rparr>
                in ((b\<lparr>fbRecorded := mput key True (fbRecorded b)\<rparr>, Append m s), detail,
                    [New RunAborted (sID s) runID data, New MessageAppended (sID s) runID [(''message'', VMsg m)]]))"

definition isHarnessAbortRecord :: "message \<Rightarrow> bool" where
  "isHarnessAbortRecord m \<longleftrightarrow> mCategory m = ''history'' \<and> HasPrefix (mContent m) (harnessAbortRecordPrefix @ [CHR 0x0A])"

definition stopped ::
  "(string \<Rightarrow> string option) \<Rightarrow> (val \<Rightarrow> string) \<Rightarrow> (nat \<Rightarrow> int) \<Rightarrow> string \<Rightarrow> string \<Rightarrow> int \<Rightarrow> string \<Rightarrow>
   flight_book \<times> session \<Rightarrow> (flight_book \<times> session) \<times> (string \<times> string \<times> int) \<times> bus_note list" where
  "stopped partial_path encode token_count mid runID turn detail st =
     (let reason = abortReason (sID (snd st)) runID (fst st);
          detail1 = (if TrimSpace detail = [] then ''cancellation requested'' else detail);
          (st1, d, evs) = recordAbort partial_path encode token_count mid runID reason detail1 st
      in (st1, (reason, d, turn), evs))"

definition abortDetail :: "bool \<Rightarrow> string" where
  "abortDetail boundExceeded =
     (if boundExceeded then ''run terminated after cancellation did not yield within 2s; late completion fenced''
      else ''cancellation requested'')"

section \<open>Histories\<close>

datatype flight_op =
    FBegin string string
  | FEnd string string
  | FStage string string int string
  | FDelta string string delta
  | FTool string string int tool_call "(string \<times> val) list"
  | FOutput string string string
  | FStopped string string int string

fun book_op :: "flight_op \<Rightarrow> flight_book \<Rightarrow> flight_book" where
  "book_op (FBegin s r) b = beginFlight s r b"
| "book_op (FEnd s r) b = endFlight s r b"
| "book_op (FStage s r turn stage) b = setFlightStage s r turn stage b"
| "book_op (FDelta s r d) b = addFlightDelta s r d b"
| "book_op (FTool s r turn call args) b = setFlightTool s r turn call args b"
| "book_op (FOutput s r out) b = setFlightToolOutput s r out b"
| "book_op (FStopped mid r turn detail) b = b"

text \<open>A history of one chat's flights: \<open>FStopped\<close> is a \<open>stopped\<close> of that chat, everything else may
  name any chat.\<close>

fun flight_run ::
  "(string \<Rightarrow> string option) \<Rightarrow> (val \<Rightarrow> string) \<Rightarrow> (nat \<Rightarrow> int) \<Rightarrow> flight_op list \<Rightarrow> flight_book \<times> session \<Rightarrow>
   (flight_book \<times> session) \<times> bus_note list" where
  "flight_run pp en tk [] st = (st, [])"
| "flight_run pp en tk (op # ops) st =
     (let (st1, evs) = (case op of
            FStopped mid r turn detail \<Rightarrow> (case stopped pp en tk mid r turn detail st of (st1, _, evs) \<Rightarrow> (st1, evs))
          | _ \<Rightarrow> ((book_op op (fst st), snd st), []));
          (st2, evs2) = flight_run pp en tk ops st1
      in (st2, evs @ evs2))"

definition aborts :: "string \<Rightarrow> bus_note list \<Rightarrow> nat" where
  "aborts runID evs = length (filter (\<lambda>e. nType e = RunAborted \<and> nRun e = runID) evs)"

lemma aborts_append [simp]: "aborts r (xs @ ys) = aborts r xs + aborts r ys"
  by (simp add: aborts_def)

text \<open>Operations that do not open or close the flight of a run.\<close>

fun inside_flight :: "string \<Rightarrow> string \<Rightarrow> flight_op \<Rightarrow> bool" where
  "inside_flight s r (FBegin s' r') = (nul_free s' \<and> (s', r') \<noteq> (s, r))"
| "inside_flight s r (FEnd s' r') = (nul_free s' \<and> (s', r') \<noteq> (s, r))"
| "inside_flight s r op = True"

lemma update_flight_recorded [simp]: "fbRecorded (update_flight s r f b) = fbRecorded b"
  by (simp add: update_flight_def split: option.split)

lemma book_op_recorded:
  "nul_free s \<Longrightarrow> inside_flight s r op \<Longrightarrow>
   mget (fbRecorded (book_op op b)) (flightKey s r) = mget (fbRecorded b) (flightKey s r)"
  by (cases op) (auto simp: beginFlight_def endFlight_def setFlightStage_def addFlightDelta_def setFlightTool_def
      setFlightToolOutput_def flightKey_def nul_key_inj)

lemma stopped_effect:
  assumes "stopped pp en tk mid r' turn detail (b, s) = (st', res, evs)" "nul_free (sID s)"
  shows "sID (snd st') = sID s \<and> fbActive (fst st') = fbActive b \<and>
    (mtrue (fbRecorded b) (flightKey (sID s) r) \<longrightarrow> mtrue (fbRecorded (fst st')) (flightKey (sID s) r) \<and> aborts r evs = 0) \<and>
    aborts r evs \<le> 1 \<and> (aborts r evs = 1 \<longrightarrow> mtrue (fbRecorded (fst st')) (flightKey (sID s) r))"
  using assms
  by (auto simp: stopped_def recordAbort_def Let_def aborts_def Append_def flightKey_def nul_key_inj
      split: if_splits prod.splits)

lemma flight_run_aborts:
  assumes "flight_run pp en tk ops st = (st', evs)" "nul_free (sID (snd st))" "list_all (inside_flight (sID (snd st)) r) ops"
  shows "aborts r evs \<le> (if mtrue (fbRecorded (fst st)) (flightKey (sID (snd st)) r) then 0 else 1)"
  using assms
proof (induction pp en tk ops st arbitrary: st' evs rule: flight_run.induct)
  case (2 pp en tk op ops st)
  obtain b s where st: "st = (b, s)" by fastforce
  show ?case
  proof (cases "\<exists>mid r' turn detail. op = FStopped mid r' turn detail")
    case True
    then obtain mid r' turn detail where op: "op = FStopped mid r' turn detail" by blast
    obtain st1 res evs1 where s1: "stopped pp en tk mid r' turn detail st = (st1, res, evs1)" by (metis prod_cases3)
    obtain evs2 where r2: "flight_run pp en tk ops st1 = (st', evs2)" "evs = evs1 @ evs2"
      using 2(2) s1 op by (auto simp: Let_def split: prod.splits)
    note eff = stopped_effect [OF s1 [unfolded st], of r]
    have "aborts r evs2 \<le> (if mtrue (fbRecorded (fst st1)) (flightKey (sID (snd st1)) r) then 0 else 1)"
      by (rule 2(1) [of "(st1, evs1)" st1 evs1, OF _ _ r2(1)]) (use 2(3,4) op s1 eff st in auto)
    then show ?thesis using eff 2(3) st r2(2) by (auto split: if_splits)
  next
    case False
    let ?st1 = "(book_op op b, s)"
    obtain evs2 where r2: "flight_run pp en tk ops ?st1 = (st', evs2)" "evs = evs2"
      using 2(2) False st by (cases op) (auto simp: Let_def split: prod.splits)
    have "aborts r evs2 \<le> (if mtrue (fbRecorded (fst ?st1)) (flightKey (sID (snd ?st1)) r) then 0 else 1)"
      by (rule 2(1) [of "(?st1, [])" ?st1 "[]", OF _ _ r2(1)]) (use 2(3,4) False st in \<open>auto split: flight_op.split\<close>)
    moreover have "mtrue (fbRecorded (book_op op b)) (flightKey (sID s) r) = mtrue (fbRecorded b) (flightKey (sID s) r)"
      unfolding mget_or_def using book_op_recorded [of "sID s" r op b] 2(3,4) st by simp
    ultimately show ?thesis using r2(2) st by simp
  qed
qed (simp add: aborts_def)

section \<open>Redaction\<close>

definition redaction_inv :: "flight_state \<Rightarrow> bool" where
  "redaction_inv st \<longleftrightarrow> (\<forall>i. mget_or [] (fPartialToolNames st) i = ''call_service'' \<longrightarrow>
     mget_or [] (fPartialToolArguments st) i = redacted)"

definition book_redacted :: "flight_book \<Rightarrow> bool" where
  "book_redacted b \<longleftrightarrow> (\<forall>s st. mget (fbActive b) s = Some st \<longrightarrow> redaction_inv st)"

lemma add_delta_redaction: "redaction_inv st \<Longrightarrow> redaction_inv (add_delta d st)"
  by (auto simp: redaction_inv_def add_delta_def Let_def)

lemma update_flight_redacted:
  "book_redacted b \<Longrightarrow> (\<And>st. redaction_inv st \<Longrightarrow> redaction_inv (f st)) \<Longrightarrow> book_redacted (update_flight s r f b)"
  by (auto simp: book_redacted_def update_flight_def split: option.split)

lemma redaction_simps:
  "redaction_inv (st\<lparr>fTurn := a\<rparr>) = redaction_inv st" "redaction_inv (st\<lparr>fStage := b\<rparr>) = redaction_inv st"
  "redaction_inv (st\<lparr>fToolName := b\<rparr>) = redaction_inv st" "redaction_inv (st\<lparr>fToolArguments := b\<rparr>) = redaction_inv st"
  "redaction_inv (st\<lparr>fPartialToolOutput := b\<rparr>) = redaction_inv st" "redaction_inv (st\<lparr>fPossiblePaths := c\<rparr>) = redaction_inv st"
  "redaction_inv (st\<lparr>fPathsComplete := d\<rparr>) = redaction_inv st"
  "redaction_inv (st\<lparr>fPartialToolArguments := [], fPartialToolNames := []\<rparr>)"
  by (simp_all add: redaction_inv_def)

lemma book_op_redacted: "book_redacted b \<Longrightarrow> book_redacted (book_op op b)"
proof (cases op)
  case (FBegin s r)
  assume "book_redacted b"
  with FBegin show ?thesis by (auto simp: book_redacted_def beginFlight_def redaction_inv_def zero_flight_def)
next
  case (FEnd s r)
  assume "book_redacted b"
  with FEnd show ?thesis by (auto simp: book_redacted_def endFlight_def split: option.splits if_splits)
next
  case (FDelta s r d)
  assume "book_redacted b"
  with FDelta show ?thesis by (auto simp: addFlightDelta_def intro: update_flight_redacted add_delta_redaction)
qed (auto simp: setFlightStage_def setFlightTool_def setFlightToolOutput_def Let_def
      intro!: update_flight_redacted simp: redaction_inv_def)

section \<open>Properties\<close>

text \<open>A run leaves at most one abort record: over any history of flights of all chats in which the
  run's own flight is neither begun nor ended, however often the run is stopped, \<open>run.aborted\<close> is
  published at most once for it, and not at all when it was recorded before.\<close>

theorem one_abort_record_per_flight:
  assumes "nul_free (sID s)" and "list_all (inside_flight (sID s) runID) ops"
    and "flight_run partial_path encode token_count ops (b, s) = (st', evs)"
  shows "aborts runID evs \<le> (if mtrue (fbRecorded b) (flightKey (sID s) runID) then 0 else 1)"
  using flight_run_aborts [OF assms(3), of runID] assms(1,2) by simp

theorem one_abort_record_per_flight_witness:
  "aborts ''r'' (snd (flight_run (\<lambda>_. None) (\<lambda>_. []) int
     [FStopped ''m1'' ''r'' 1 [], FEnd ''s1'' ''q'', FStopped ''m2'' ''r'' 1 []] (newFlightBook, demo_chat))) \<le> 1"
proof -
  let ?ops = "[FStopped ''m1'' ''r'' 1 [], FEnd ''s1'' ''q'', FStopped ''m2'' ''r'' 1 []]"
  have s: "sID demo_chat = ''s1''" by (simp add: demo_chat_def idle_session_def)
  have n: "nul_free (sID demo_chat)" by (simp add: s nul_free_def char_of_def)
  have w: "list_all (inside_flight (sID demo_chat) ''r'') ?ops" using n s by simp
  show ?thesis
    using one_abort_record_per_flight [OF n w surjective_pairing, of "\<lambda>_. None" "\<lambda>_. []" int newFlightBook]
    by (simp split: if_splits)
qed

text \<open>Half-received arguments of \<open>call_service\<close> never reach the abort record: after any history,
  every partial call that the record of a flight would list under that name carries only the
  redaction notice, in whatever order names and text arrived.\<close>

theorem service_arguments_redacted:
  assumes "mget (fbActive (fold book_op ops newFlightBook)) sid = Some st"
    and "c \<in> set (partial_calls st)" and "pcName c = ''call_service''"
  shows "pcArguments c = redacted"
proof -
  have "book_redacted b \<Longrightarrow> book_redacted (fold book_op ops b)" for b
    by (induction ops arbitrary: b) (simp_all add: book_op_redacted)
  moreover have "book_redacted newFlightBook" by (simp add: book_redacted_def newFlightBook_def)
  ultimately have "redaction_inv st" using assms(1) by (auto simp: book_redacted_def)
  with assms(2,3) show ?thesis by (auto simp: redaction_inv_def partial_calls_def)
qed

definition demo_delta :: "string \<Rightarrow> string \<Rightarrow> delta" where
  "demo_delta name body = \<lparr>dKind = ''tool_call'', dIndex = 0, dCallID = [], dName = name, dText = body, dTotal = 0,
     dCache = 0, dProcessed = 0\<rparr>"

theorem service_arguments_redacted_witness:
  "\<exists>st c. mget (fbActive (fold book_op [FBegin ''s'' ''r'', FDelta ''s'' ''r'' (demo_delta [] ''key''),
       FDelta ''s'' ''r'' (demo_delta ''call_service'' [])] newFlightBook)) ''s'' = Some st \<and>
     c \<in> set (partial_calls st) \<and> pcArguments c = redacted"
proof -
  let ?ops = "[FBegin ''s'' ''r'', FDelta ''s'' ''r'' (demo_delta [] ''key''),
       FDelta ''s'' ''r'' (demo_delta ''call_service'' [])]"
  obtain st where st: "mget (fbActive (fold book_op ?ops newFlightBook)) ''s'' = Some st"
    and c: "\<lparr>pcIndex = 0, pcName = ''call_service'', pcArguments = mget_or [] (fPartialToolArguments st) 0\<rparr> \<in> set (partial_calls st)"
    by (simp add: beginFlight_def addFlightDelta_def update_flight_def add_delta_def demo_delta_def newFlightBook_def
        zero_flight_def partial_calls_def Let_def mget_or_def)
  from service_arguments_redacted [OF st c] st c show ?thesis by force
qed

end
