(* ===== verification/Compaction.thy ===== *)
theory Compaction
  imports Session
begin

text \<open>
  Request-context replacement (\<open>internal/context\<close>): the one rule that decides when older
  messages are stubbed or summarised (\<open>one_rule.go\<close>) and the restore-time stubs, the id repair
  and the settled design chat (\<open>compact.go\<close>). Sets of message indices (\<open>map[int]bool\<close>) are lists
  of indices. Three things the code takes from elsewhere are parameters: the model call that writes
  a summary, the case folding, and the two products in float64 arithmetic
  (\<open>int(pct*float64(n))\<close>).
\<close>

section \<open>Token arithmetic\<close>

definition estimateTokens :: "string \<Rightarrow> int" where
  "estimateTokens text = (int (rune_count text) * 10 + 35) div 36"

fun tokenSum :: "message list \<Rightarrow> int" where
  "tokenSum [] = 0"
| "tokenSum (m # ms) = mTokens m + tokenSum ms"

fun messageIDs :: "message list \<Rightarrow> string list" where
  "messageIDs [] = []"
| "messageIDs (m # ms) = (if mID m \<noteq> [] then mID m # messageIDs ms else messageIDs ms)"

section \<open>What is kept\<close>

fun index_of_id :: "string \<Rightarrow> message list \<Rightarrow> nat option" where
  "index_of_id pin [] = None"
| "index_of_id pin (m # ms) = (if mID m = pin then Some 0 else map_option Suc (index_of_id pin ms))"

definition pinIndex :: "message list \<Rightarrow> string \<Rightarrow> nat" where
  "pinIndex ms pin =
     (if pin = [] then length ms else case index_of_id pin ms of Some i \<Rightarrow> i | None \<Rightarrow> 0)"

text \<open>The inner loop of \<open>oneRuleKeep\<close>: a span of work runs up to the next user or assistant message.\<close>

function span_end :: "message list \<Rightarrow> nat \<Rightarrow> nat" where
  "span_end ms i =
     (if i < length ms \<and> mRole (ms ! i) \<noteq> ''user'' \<and> mRole (ms ! i) \<noteq> ''assistant''
      then span_end ms (Suc i) else i)"
  by pat_completeness auto
termination
  by (relation "measure (\<lambda>(ms, i). length ms - i)") auto

declare span_end.simps [simp del]

lemma span_end_ge: "i \<le> span_end ms i"
  by (induction ms i rule: span_end.induct) (subst span_end.simps, auto)

lemma span_end_le: "i \<le> length ms \<Longrightarrow> span_end ms i \<le> length ms"
  by (induction ms i rule: span_end.induct) (subst span_end.simps, auto)

function work_spans :: "message list \<Rightarrow> nat \<Rightarrow> (nat \<times> nat) list" where
  "work_spans ms i =
     (if i < length ms then
        (if mRole (ms ! i) = ''user'' then work_spans ms (Suc i)
         else (i, span_end ms (Suc i)) # work_spans ms (span_end ms (Suc i)))
      else [])"
  by pat_completeness auto
termination
proof (relation "measure (\<lambda>(ms, i). length ms - i)", goal_cases)
  case (3 ms i)
  then show ?case using span_end_ge [of "Suc i" ms] by auto
qed auto

declare work_spans.simps [simp del]

definition span_cost :: "message list \<Rightarrow> nat \<times> nat \<Rightarrow> int" where
  "span_cost ms p = tokenSum (take (snd p - fst p) (drop (fst p) ms))"

text \<open>
  The loop over the spans from the newest to the oldest, here on the reversed list: the first one
  it meets is kept whatever it costs, an older one when it still fits.
\<close>

fun keep_spans :: "message list \<Rightarrow> int \<Rightarrow> bool \<Rightarrow> int \<Rightarrow> (nat \<times> nat) list \<Rightarrow> (nat \<times> nat) list" where
  "keep_spans ms allowance newest spent [] = []"
| "keep_spans ms allowance newest spent (p # ps) =
     (if newest \<or> spent + span_cost ms p \<le> allowance
      then p # keep_spans ms allowance False (spent + span_cost ms p) ps
      else keep_spans ms allowance False spent ps)"

definition oneRuleKeep :: "message list \<Rightarrow> string \<Rightarrow> int \<Rightarrow> nat list" where
  "oneRuleKeep ms pin allowance =
     (let start = pinIndex ms pin;
          users = filter (\<lambda>i. mRole (ms ! i) = ''user'') [start..<length ms];
          parts = keep_spans ms allowance True 0 (rev (work_spans ms start))
      in users @ concat (map (\<lambda>p. [fst p..<snd p]) parts))"

definition splitOneRule :: "message list \<Rightarrow> nat list \<Rightarrow> message list \<times> message list" where
  "splitOneRule ms keep =
     (map (\<lambda>i. ms ! i) (filter (\<lambda>i. i \<notin> set keep) [0..<length ms]),
      map (\<lambda>i. ms ! i) (filter (\<lambda>i. i \<in> set keep) [0..<length ms]))"

definition newestOneRule :: "message list \<Rightarrow> string \<Rightarrow> message list" where
  "newestOneRule ms pin = snd (splitOneRule ms (oneRuleKeep ms pin 0))"

definition indexSet :: "string list \<Rightarrow> message list \<Rightarrow> nat list" where
  "indexSet ids ms = filter (\<lambda>i. mID (ms ! i) \<in> set ids) [0..<length ms]"

section \<open>Pruning older results\<close>

definition is_prunable :: "message \<Rightarrow> bool" where
  "is_prunable m \<longleftrightarrow> mRole m = ''tool'' \<and> \<not> mElided m \<and>
     (mCategory m = ''files'' \<or> mCategory m = ''results'' \<or> mCategory m = ''fetched'')"

definition prunable :: "message list \<Rightarrow> message list" where
  "prunable ms = filter is_prunable ms"

definition PruneStub :: "message \<Rightarrow> string" where
  "PruneStub m =
     (let name = (if mName m = [] then ''tool'' else mName m)
      in ''['' @ name @ '' result removed at compaction, '' @ Itoa (mTokens m) @ '' tokens; recall reads it]'')"

definition stubbed :: "message \<Rightarrow> message" where
  "stubbed m = m\<lparr>mContent := PruneStub m, mTokens := estimateTokens (PruneStub m),
     mEstimated := True, mElided := True\<rparr>"

record one_rule_prune =
  prIDs :: "string list"
  prTokens :: int
  prSaved :: int

fun prune_from :: "nat \<Rightarrow> nat list \<Rightarrow> message list \<Rightarrow> message list \<times> one_rule_prune" where
  "prune_from i keep [] = ([], \<lparr>prIDs = [], prTokens = 0, prSaved = 0\<rparr>)"
| "prune_from i keep (m # ms) =
     (let (out, pr) = prune_from (Suc i) keep ms
      in if i \<in> set keep \<or> \<not> is_prunable m then (m # out, pr)
         else (stubbed m # out,
               \<lparr>prIDs = mID m # prIDs pr, prTokens = mTokens m + prTokens pr,
                prSaved = mTokens m - mTokens (stubbed m) + prSaved pr\<rparr>))"

definition pruneOlder :: "message list \<Rightarrow> nat list \<Rightarrow> message list \<times> one_rule_prune" where
  "pruneOlder ms keep = prune_from 0 keep ms"

section \<open>The summary\<close>

definition HandOffInstruction :: string where
  "HandOffInstruction = ''Write a compact hand-off using exactly these headings:'' @ [CHR 0x0A] @ ''DONE:'' @ [CHR 0x0A] @
     ''NEXT:'' @ [CHR 0x0A] @ ''FILES CHANGED:'' @ [CHR 0x0A] @ ''OPEN QUESTIONS:''"

definition PrunedPrefix :: string where
  "PrunedPrefix = ''Compacted: ''"

definition fallbackHandOff :: "string \<Rightarrow> string" where
  "fallbackHandOff reason =
     ''Earlier work was put aside without a summary because of '' @ reason @ ''; the record can be searched with recall.''"

type_synonym summarizer = "message list \<Rightarrow> int \<Rightarrow> string + string"

definition oneRuleSummary ::
  "(string \<Rightarrow> string) \<Rightarrow> message list \<Rightarrow> int \<Rightarrow> summarizer option \<Rightarrow> string \<times> string" where
  "oneRuleSummary ToLower request limit summarize =
     (case summarize of
        None \<Rightarrow> (fallbackHandOff ''error'', ''error'')
      | Some f \<Rightarrow>
          (case f request limit of
             Inl err \<Rightarrow>
               (let reason = (if Contains (ToLower err) ''refus'' then ''refusal'' else ''error'')
                in (fallbackHandOff reason, reason))
           | Inr text \<Rightarrow>
               if TrimSpace text = [] then (fallbackHandOff ''empty'', ''empty'')
               else (''Fresh-context hand-off:'' @ [CHR 0x0A] @ TrimSpace text, [])))"

definition does_not_fit :: "string \<Rightarrow> int \<Rightarrow> int \<Rightarrow> string" where
  "does_not_fit what tokens window =
     what @ '' is '' @ Itoa tokens @ '' tokens and does not fit the '' @ Itoa window @ ''-token window''"

definition oneRuleTooBig :: "message list \<Rightarrow> int \<Rightarrow> int \<Rightarrow> int \<Rightarrow> string" where
  "oneRuleTooBig kept fixed window used =
     (let room = window - fixed
      in case find (\<lambda>m. mRole m = ''user'' \<and> mTokens m \<ge> room) kept of
           Some m \<Rightarrow> does_not_fit ''task message'' (mTokens m) window
         | None \<Rightarrow>
             (case find (\<lambda>m. mRole m = ''tool'' \<and> mTokens m \<ge> room) (rev kept) of
                Some m \<Rightarrow> does_not_fit ''newest result'' (mTokens m) window
              | None \<Rightarrow> does_not_fit ''newest work'' used window))"

section \<open>The one rule\<close>

text \<open>\<open>CompactionSummaryData\<close>; the token counts of the call (\<open>ModelUsage\<close>) are passed through.\<close>

record compaction_source =
  csRole :: string
  csConnectionID :: string
  csModel :: string
  csOutcome :: string
  csReason :: string
  csFallbackReason :: string
  csDispatched :: bool
  csEstimatedPromptTokens :: int
  csEstimated :: bool
  csNCtx :: int
  csUsage :: val
  csDurationMS :: int
  csTrigger :: string
  csCarriedBytes :: int
  csCarriedDropped :: int
  csCarriedDroppedBytes :: int

definition source_fields :: "compaction_source \<Rightarrow> (string \<times> val) list" where
  "source_fields c =
     [(''role'', VStr (csRole c)), (''connection_id'', VStr (csConnectionID c)), (''model'', VStr (csModel c)),
      (''outcome'', VStr (csOutcome c)), (''reason'', VStr (csReason c)),
      (''fallback_reason'', VStr (csFallbackReason c)), (''dispatched'', VBool (csDispatched c)),
      (''estimated_prompt_tokens'', VInt (csEstimatedPromptTokens c)), (''estimated'', VBool (csEstimated c)),
      (''n_ctx'', VInt (csNCtx c)), (''usage'', csUsage c), (''duration_ms'', VInt (csDurationMS c)),
      (''trigger'', VStr (csTrigger c)), (''carried_bytes'', VInt (csCarriedBytes c)),
      (''carried_dropped'', VInt (csCarriedDropped c)), (''carried_dropped_bytes'', VInt (csCarriedDroppedBytes c))]"

definition threshold_source :: "int \<Rightarrow> compaction_source" where
  "threshold_source before =
     \<lparr>csRole = [], csConnectionID = [], csModel = [], csOutcome = ''accepted'', csReason = [],
      csFallbackReason = [], csDispatched = False, csEstimatedPromptTokens = before, csEstimated = True,
      csNCtx = 0, csUsage = VObj [], csDurationMS = 0, csTrigger = ''threshold'', csCarriedBytes = 0,
      csCarriedDropped = 0, csCarriedDroppedBytes = 0\<rparr>"

text \<open>\<open>inSummaryOf\<close> and \<open>inThreePct\<close> stand for \<open>int(in.SummaryPct*float64(n))\<close> and
  \<open>int(.03*float64(n))\<close>.\<close>

record one_rule_input =
  inUsed :: int
  inWindow :: int
  inFixed :: int
  inSummaryOf :: "int \<Rightarrow> int"
  inThreePct :: "int \<Rightarrow> int"
  inPin :: string
  inHandOffID :: string
  inRefusalSentence :: string
  inRefusalAttempt :: int
  inSummarize :: "summarizer option"
  inSource :: "compaction_source option"
  inToLower :: "string \<Rightarrow> string"

record one_rule_result =
  orTriggered :: bool
  orChanged :: bool
  orRetry :: bool
  orStop :: string
  orBeforeChangeable :: int
  orAfterChangeable :: int
  orHandOffTokens :: int
  orHandOffRequestTokens :: int
  orCrossingTokens :: int
  orKeptIDs :: "string list"

definition publishOneRule ::
  "bool \<Rightarrow> string \<Rightarrow> string \<Rightarrow> one_rule_input \<Rightarrow> one_rule_result \<Rightarrow> string \<Rightarrow> one_rule_prune \<Rightarrow>
   string list \<Rightarrow> message \<Rightarrow> bus_note list" where
  "publishOneRule bus sid runID inp result reason prune affected handoff =
     (if \<not> bus then []
      else let kind = (if prIDs prune \<noteq> []
                       then (if HasPrefix (mContent handoff) PrunedPrefix then ''prune'' else ''prune+fresh'')
                       else ''fresh'');
               src0 = (case inSource inp of None \<Rightarrow> threshold_source (orBeforeChangeable result) | Some c \<Rightarrow> c);
               src = (if reason \<noteq> [] then src0\<lparr>csOutcome := reason, csReason := reason, csFallbackReason := reason\<rparr>
                      else src0)
           in (if kind \<noteq> ''prune''
               then [New CompactionSummary sid runID (source_fields src)]
               else []) @
              [New Compaction sid runID
                 [(''kind'', VStr kind), (''pruned_results'', VInt (int (length (prIDs prune)))),
                  (''pruned_tokens'', VInt (prTokens prune)), (''trigger'', VStr (csTrigger src)),
                  (''before'', VInt (orBeforeChangeable result)), (''after'', VInt (orAfterChangeable result)),
                  (''affected_ids'', vstrs affected), (''summary_message_id'', VStr (mID handoff)),
                  (''role'', VStr (csRole src)), (''connection_id'', VStr (csConnectionID src)),
                  (''model'', VStr (csModel src)), (''fallback_reason'', VStr (csFallbackReason src)),
                  (''usage'', csUsage src)],
               New MessageAppended sid runID [(''message'', VMsg handoff)]])"

definition harness_summary :: "string \<Rightarrow> string \<Rightarrow> message" where
  "harness_summary i content =
     zero_message\<lparr>mID := i, mRole := ''harness'', mCategory := ''summary'', mContent := content,
       mTokens := estimateTokens content, mEstimated := True\<rparr>"

definition compaction_line :: "one_rule_input \<Rightarrow> int" where
  "compaction_line inp = inFixed inp + inSummaryOf inp (max 0 (inWindow inp - inFixed inp))"

text \<open>Whether the older results are at least \<open>PruneShare\<close> (one half, exact in float64) of the
  changeable context.\<close>

definition prune_first :: "one_rule_input \<Rightarrow> message list \<Rightarrow> bool" where
  "prune_first inp older =
     (let changeable = inUsed inp - inFixed inp
      in changeable > 0 \<and> 2 * tokenSum (prunable older) \<ge> changeable)"

text \<open>The prune-only ending of \<open>Compact\<close>: a note in front of the pruned messages.\<close>

definition finish_pruned ::
  "bool \<Rightarrow> string \<Rightarrow> one_rule_input \<Rightarrow> string \<Rightarrow> one_rule_result \<Rightarrow> message list \<Rightarrow> one_rule_prune \<Rightarrow> session \<Rightarrow>
   session \<times> one_rule_result \<times> bus_note list" where
  "finish_pruned bus runID inp handoffID result ms prune s =
     (let note = harness_summary handoffID (PrunedPrefix @ Itoa (int (length (prIDs prune))) @ '' results, '' @
                   Itoa (prTokens prune) @ '' tokens removed; nothing summarized'');
          result1 = result\<lparr>orHandOffTokens := mTokens note, orKeptIDs := messageIDs ms,
                     orAfterChangeable := tokenSum (note # ms), orChanged := True,
                     orRetry := inRefusalSentence inp \<noteq> []\<rparr>;
          s1 = RecordCompaction (orAfterChangeable result1 - orBeforeChangeable result1)
                 (ReplaceMessages (note # ms) s)
      in (s1, result1, publishOneRule bus (sID s) runID inp result1 [] prune (prIDs prune) note))"

text \<open>The summary ending of \<open>Compact\<close>: a hand-off in front of what is kept, and, when even that
  does not fit, only the newest work and the reason to stop.\<close>

definition finish_summary ::
  "bool \<Rightarrow> string \<Rightarrow> one_rule_input \<Rightarrow> string \<Rightarrow> one_rule_result \<Rightarrow> message list \<Rightarrow> message list \<Rightarrow> message list \<Rightarrow>
   one_rule_prune \<Rightarrow> session \<Rightarrow> session \<times> one_rule_result \<times> bus_note list" where
  "finish_summary bus runID inp handoffID result ms older kept prune s =
     (let room = inWindow inp - inFixed inp;
          request = older @ [zero_message\<lparr>mRole := ''user'', mContent := HandOffInstruction\<rparr>];
          maxSummary = max 500 (inThreePct inp (max 0 room));
          (text, reason) = oneRuleSummary (inToLower inp) request maxSummary (inSummarize inp);
          handoff = harness_summary handoffID text;
          result1 = result\<lparr>orHandOffRequestTokens := tokenSum older + estimateTokens HandOffInstruction,
                     orHandOffTokens := mTokens handoff, orKeptIDs := messageIDs kept,
                     orAfterChangeable := mTokens handoff + tokenSum kept, orChanged := True,
                     orRetry := inRefusalSentence inp \<noteq> []\<rparr>;
          s1 = RecordCompaction (orAfterChangeable result1 - orBeforeChangeable result1)
                 (ReplaceMessages (handoff # kept) s);
          newest = newestOneRule ms (inPin inp);
          after2 = mTokens handoff + tokenSum newest;
          (s2, result2) =
            (if orAfterChangeable result1 > room
             then (RecordCompactionDelta (after2 - orAfterChangeable result1) (ReplaceMessages (handoff # newest) s1),
                   result1\<lparr>orAfterChangeable := after2, orKeptIDs := messageIDs newest,
                     orStop := oneRuleTooBig newest (inFixed inp) (inWindow inp) after2\<rparr>)
             else (s1, result1));
          removed = fst (splitOneRule ms (indexSet (orKeptIDs result2) ms))
      in (s2, result2, publishOneRule bus (sID s) runID inp result2 reason prune (messageIDs removed) handoff))"

definition Compact ::
  "bool \<Rightarrow> string \<Rightarrow> one_rule_input \<Rightarrow> session \<Rightarrow> session \<times> one_rule_result \<times> bus_note list" where
  "Compact bus runID inp s =
     (let result = \<lparr>orTriggered = False, orChanged = False, orRetry = False, orStop = [],
             orBeforeChangeable = tokenSum (sMessages s), orAfterChangeable = 0, orHandOffTokens = 0,
             orHandOffRequestTokens = 0, orCrossingTokens = inUsed inp, orKeptIDs = []\<rparr>
      in if inRefusalAttempt inp \<ge> 2
         then (s, result\<lparr>orTriggered := True, orStop := inRefusalSentence inp\<rparr>, [])
         else if inRefusalSentence inp = [] \<and> inUsed inp < compaction_line inp then (s, result, [])
         else if inFixed inp \<ge> inWindow inp
         then (s, result\<lparr>orTriggered := True,
                 orStop := does_not_fit ''fixed prompt'' (inFixed inp) (inWindow inp)\<rparr>, [])
         else let result1 = result\<lparr>orTriggered := True\<rparr>;
                  ms = sMessages s;
                  keep = oneRuleKeep ms (inPin inp) (max 0 (inWindow inp - inFixed inp) div 4);
                  (older, kept) = splitOneRule ms keep;
                  handoffID = (if inHandOffID inp = [] then runID @ ''-handoff'' else inHandOffID inp)
              in if prune_first inp older
                 then let (ms2, prune) = pruneOlder ms keep;
                          (older2, kept2) = splitOneRule ms2 keep
                      in if inUsed inp - prSaved prune < compaction_line inp
                         then finish_pruned bus runID inp handoffID result1 ms2 prune s
                         else finish_summary bus runID inp handoffID result1 ms2 older2 kept2 prune s
                 else finish_summary bus runID inp handoffID result1 ms older kept
                        \<lparr>prIDs = [], prTokens = 0, prSaved = 0\<rparr> s)"

section \<open>Restored chats\<close>

text \<open>\<open>idNumber\<close>: the decimal suffix of an id, at most 15 digits after a dash.\<close>

definition idNumber :: "string \<Rightarrow> int option" where
  "idNumber i =
     (let digits = rev (takeWhile is_digit (rev i));
          rest = rev (dropWhile is_digit (rev i))
      in if digits = [] \<or> rest = [] \<or> last rest \<noteq> CHR ''-'' \<or> length digits > 15 then None
         else Some (digits_value 0 digits))"

definition callFor :: "message list \<Rightarrow> string \<Rightarrow> tool_call option" where
  "callFor ms i = find (\<lambda>c. tcID c = i) (concat (map mToolCalls ms))"

fun clearReasoningForCall :: "string \<Rightarrow> message list \<Rightarrow> message list" where
  "clearReasoningForCall callID [] = []"
| "clearReasoningForCall callID (m # ms) =
     (if callID \<in> tcID ` set (mToolCalls m) then m\<lparr>mReasoning := []\<rparr> # ms
      else m # clearReasoningForCall callID ms)"

text \<open>\<open>keyArgs\<close> renders decoded JSON arguments for a reader: it is the parameter \<open>keyArgs\<close>, and so
  is the counter, whose result every caller stores beside the text.\<close>

definition elide :: "(string \<Rightarrow> string \<Rightarrow> string) \<Rightarrow> (string \<Rightarrow> int \<times> bool) \<Rightarrow> string \<Rightarrow> message \<Rightarrow> message" where
  "elide keyArgs count_of rawArgs m =
     (let stub = ''[elided: '' @ mName m @ '' '' @ keyArgs (mName m) rawArgs @ '', '' @ Itoa (mTokens m) @ '' tokens]''
      in m\<lparr>mContent := stub, mElided := True, mTokens := fst (count_of stub), mEstimated := snd (count_of stub)\<rparr>)"

definition older_than :: "message list \<Rightarrow> string \<Rightarrow> nat \<Rightarrow> bool" where
  "older_than ms anchor i =
     (case idNumber anchor of
        Some limit \<Rightarrow> (case idNumber (mID (ms ! i)) of Some v \<Rightarrow> v < limit | None \<Rightarrow> False)
      | None \<Rightarrow> (case newest_user ms (length ms) of Some u \<Rightarrow> i < u | None \<Rightarrow> False))"

definition stub_result :: "(string \<Rightarrow> string \<Rightarrow> string) \<Rightarrow> (nat \<Rightarrow> bool) \<Rightarrow> nat \<Rightarrow> message list \<Rightarrow> message list" where
  "stub_result keyArgs older i out =
     (let item = out ! i;
          raw = (case callFor out (mToolCallID item) of Some c \<Rightarrow> tcArguments c | None \<Rightarrow> [])
      in if \<not> older i \<or> \<not> is_prunable item then out
         else clearReasoningForCall (mToolCallID item)
                (out[i := elide keyArgs (\<lambda>text. (estimateTokens text, True)) raw item]))"

definition StubResultsBefore :: "(string \<Rightarrow> string \<Rightarrow> string) \<Rightarrow> message list \<Rightarrow> string \<Rightarrow> message list" where
  "StubResultsBefore keyArgs ms anchor =
     fold (stub_result keyArgs (older_than ms anchor)) [0..<length ms] ms"

definition StubOlderResults :: "(string \<Rightarrow> string \<Rightarrow> string) \<Rightarrow> message list \<Rightarrow> message list" where
  "StubOlderResults keyArgs ms = StubResultsBefore keyArgs ms []"

record remint =
  rmIndex :: nat
  rmFrom :: string
  rmTo :: string

fun remint_from :: "nat \<Rightarrow> string list \<Rightarrow> int \<Rightarrow> message list \<Rightarrow> message list \<times> remint list \<times> int" where
  "remint_from index seen floor [] = ([], [], floor)"
| "remint_from index seen floor (m # ms) =
     (if mID m = [] then
        (case remint_from (Suc index) seen floor ms of (out, ch, fl) \<Rightarrow> (m # out, ch, fl))
      else if mID m \<notin> set seen then
        (case remint_from (Suc index) (mID m # seen) floor ms of (out, ch, fl) \<Rightarrow> (m # out, ch, fl))
      else
        (case remint_from (Suc index) ((''m-'' @ Itoa (floor + 1)) # seen) (floor + 1) ms of
           (out, ch, fl) \<Rightarrow>
             (m\<lparr>mID := ''m-'' @ Itoa (floor + 1)\<rparr> # out,
              \<lparr>rmIndex = index, rmFrom = mID m, rmTo = ''m-'' @ Itoa (floor + 1)\<rparr> # ch, fl)))"

definition RemintDuplicateIDs :: "message list \<Rightarrow> int \<Rightarrow> message list \<times> remint list \<times> int" where
  "RemintDuplicateIDs ms floor = remint_from 0 [] floor ms"

section \<open>The settled design chat\<close>

definition settled :: "string \<Rightarrow> (string \<Rightarrow> int \<times> bool) \<Rightarrow> message \<Rightarrow> message" where
  "settled pointer count_of m =
     m\<lparr>mContent := pointer, mToolCalls := [], mReasoning := [], mElided := True,
       mTokens := fst (count_of pointer), mEstimated := snd (count_of pointer)\<rparr>"

definition settles :: "string list \<Rightarrow> message \<Rightarrow> bool" where
  "settles wanted m \<longleftrightarrow> mID m \<in> set wanted \<and> \<not> mElided m \<and> (mRole m = ''user'' \<or> mRole m = ''assistant'')"

definition Settle ::
  "bool \<Rightarrow> string \<Rightarrow> string \<Rightarrow> string list \<Rightarrow> (string \<Rightarrow> int \<times> bool) \<Rightarrow> session \<Rightarrow> session \<times> bool \<times> bus_note list" where
  "Settle bus runID pointer ids count_of s =
     (let wanted = filter (\<lambda>i. TrimSpace i \<noteq> []) ids;
          ms = sMessages s;
          affected = filter (settles wanted) ms;
          ms2 = map (\<lambda>m. if settles wanted m then settled pointer count_of m else m) ms;
          updates = map (\<lambda>m. New MessageUpdated (sID s) runID
                      [(''id'', VStr (mID m)), (''patch'', VObj [(''content'', VStr pointer),
                        (''tokens'', VInt (fst (count_of pointer))), (''elided'', VBool True)])]) affected;
          compacted = New Compaction (sID s) runID
                        [(''kind'', VStr ''settled''), (''trigger'', VStr ''settle''),
                         (''before'', VInt (tokenSum ms)), (''after'', VInt (tokenSum ms2)),
                         (''affected_ids'', vstrs (map mID affected))]
      in if wanted = [] then (s, False, [])
         else if affected = [] then (s, False, [])
         else (RecordCompaction (tokenSum ms2 - tokenSum ms) (ReplaceMessages ms2 s), True,
               if bus then updates @ [compacted] else []))"


section \<open>Spans of work\<close>

abbreviation span_range :: "nat \<times> nat \<Rightarrow> nat list" where
  "span_range p \<equiv> [fst p..<snd p]"

lemma tokenSum_append [simp]: "tokenSum (xs @ ys) = tokenSum xs + tokenSum ys"
  by (induction xs) simp_all

lemma tokenSum_map: "tokenSum xs = sum_list (map mTokens xs)"
  by (induction xs) simp_all

lemma pinIndex_le: "pinIndex ms pin \<le> length ms"
proof -
  have "index_of_id pin ms = Some i \<Longrightarrow> i \<le> length ms" for i
    by (induction ms arbitrary: i) (auto split: if_splits)
  then show ?thesis by (auto simp: pinIndex_def split: option.split)
qed

lemma span_end_inside:
  "i \<le> j \<Longrightarrow> j < span_end ms i \<Longrightarrow> mRole (ms ! j) \<noteq> ''user'' \<and> mRole (ms ! j) \<noteq> ''assistant''"
proof (induction ms i rule: span_end.induct)
  case (1 ms i)
  then show ?case
  proof (cases "i < length ms \<and> mRole (ms ! i) \<noteq> ''user'' \<and> mRole (ms ! i) \<noteq> ''assistant''")
    case True
    then have "span_end ms i = span_end ms (Suc i)" by (subst span_end.simps) simp
    with 1 True show ?thesis by (cases "j = i") simp_all
  next
    case False
    then have "span_end ms i = i" by (subst span_end.simps) auto
    with 1 show ?thesis by auto
  qed
qed

lemma span_end_stops:
  "span_end ms i < length ms \<Longrightarrow>
   mRole (ms ! span_end ms i) = ''user'' \<or> mRole (ms ! span_end ms i) = ''assistant''"
proof (induction ms i rule: span_end.induct)
  case (1 ms i)
  then show ?case
  proof (cases "i < length ms \<and> mRole (ms ! i) \<noteq> ''user'' \<and> mRole (ms ! i) \<noteq> ''assistant''")
    case True
    then have "span_end ms i = span_end ms (Suc i)" by (subst span_end.simps) simp
    with 1 True show ?thesis by simp
  next
    case False
    then have "span_end ms i = i" by (subst span_end.simps) auto
    with 1 False show ?thesis by auto
  qed
qed

text \<open>The spans cut the work after the pin into consecutive pieces: nothing is lost and nothing is
  counted twice.\<close>

lemma work_spans_cover:
  "concat (map span_range (work_spans ms i)) = filter (\<lambda>j. mRole (ms ! j) \<noteq> ''user'') [i..<length ms]"
proof (induction ms i rule: work_spans.induct)
  case (1 ms i)
  let ?e = "span_end ms (Suc i)"
  consider "i \<ge> length ms" | "i < length ms" "mRole (ms ! i) = ''user''"
    | "i < length ms" "mRole (ms ! i) \<noteq> ''user''" by linarith
  then show ?case
  proof cases
    case 3
    have e: "Suc i \<le> ?e" "?e \<le> length ms" using 3 span_end_ge span_end_le [of "Suc i" ms] by auto
    then have "[i..<length ms] = [i..<?e] @ [?e..<length ms]"
      by (metis Suc_leD upt_add_eq_append le_Suc_ex)
    moreover have "filter (\<lambda>j. mRole (ms ! j) \<noteq> ''user'') [i..<?e] = [i..<?e]"
    proof (intro filter_True ballI)
      fix j assume "j \<in> set [i..<?e]"
      then show "mRole (ms ! j) \<noteq> ''user''"
        using 3 span_end_inside [of "Suc i" j ms] by (cases "j = i") auto
    qed
    ultimately show ?thesis using 1(2) 3 by (simp add: work_spans.simps [of ms i])
  qed (use 1 in \<open>simp_all add: work_spans.simps [of ms i] upt_conv_Cons\<close>)
qed

lemma work_spans_end:
  "p \<in> set (work_spans ms i) \<Longrightarrow>
   i \<le> fst p \<and> fst p < snd p \<and> snd p \<le> length ms \<and>
   (\<forall>j. fst p < j \<longrightarrow> j < snd p \<longrightarrow> mRole (ms ! j) \<noteq> ''assistant'') \<and>
   (snd p < length ms \<longrightarrow> mRole (ms ! snd p) = ''user'' \<or> mRole (ms ! snd p) = ''assistant'')"
proof (induction ms i rule: work_spans.induct)
  case (1 ms i)
  let ?e = "span_end ms (Suc i)"
  show ?case
  proof (cases "i < length ms \<and> mRole (ms ! i) \<noteq> ''user''")
    case True
    then have e: "Suc i \<le> ?e" "?e \<le> length ms" using span_end_ge span_end_le [of "Suc i" ms] by auto
    from True 1(3) consider "p = (i, ?e)" | "p \<in> set (work_spans ms ?e)"
      by (auto simp: work_spans.simps [of ms i])
    then show ?thesis
    proof cases
      case 1
      then show ?thesis using e span_end_inside [of "Suc i" _ ms] span_end_stops [of ms "Suc i"]
        by (auto simp: Suc_le_eq)
    next
      case 2
      then show ?thesis using 1(2) True e by (meson Suc_leD le_trans)
    qed
  next
    case False
    with 1(1,3) show ?thesis by (auto simp: work_spans.simps [of ms i] split: if_splits)
  qed
qed

lemma work_spans_disjoint:
  "sorted_wrt (\<lambda>p q. snd p \<le> fst q) (work_spans ms i)"
proof (induction ms i rule: work_spans.induct)
  case (1 ms i)
  then show ?case
    by (auto simp: work_spans.simps [of ms i] dest: work_spans_end)
qed

lemma keep_spans_subseq: "set (keep_spans ms a newest spent ps) \<subseteq> set ps"
  by (induction ms a newest spent ps rule: keep_spans.induct) auto

lemma keep_spans_distinct:
  "distinct (concat (map span_range ps)) \<Longrightarrow> distinct (concat (map span_range (keep_spans ms a newest spent ps)))"
proof (induction ms a newest spent ps rule: keep_spans.induct)
  case (2 ms a newest spent p ps)
  then show ?case
    using keep_spans_subseq [of ms a False "spent + span_cost ms p" ps]
      keep_spans_subseq [of ms a False spent ps] by fastforce
qed simp

lemma keep_spans_cost_rest:
  "spent + sum_list (map (span_cost ms) (keep_spans ms a False spent ps)) \<le> max a spent"
proof (induction ps arbitrary: spent)
  case (Cons p ps)
  show ?case using Cons.IH [of "spent + span_cost ms p"] Cons.IH [of spent] by auto
qed simp

lemma keep_spans_cost:
  "ps \<noteq> [] \<Longrightarrow> sum_list (map (span_cost ms) (keep_spans ms a True 0 ps)) \<le> max a (span_cost ms (hd ps))"
  using keep_spans_cost_rest [of "span_cost ms (hd ps)" ms a "tl ps"] by (cases ps) auto

lemma tokenSum_slice:
  "i + n \<le> length ms \<Longrightarrow> tokenSum (take n (drop i ms)) = sum_list (map (\<lambda>j. mTokens (ms ! j)) [i..<i + n])"
proof (induction n)
  case (Suc n)
  then have "take (Suc n) (drop i ms) = take n (drop i ms) @ [ms ! (i + n)]"
    by (simp add: take_Suc_conv_app_nth)
  with Suc show ?case by simp
qed simp

lemma span_cost_sum:
  "fst p \<le> snd p \<Longrightarrow> snd p \<le> length ms \<Longrightarrow>
   span_cost ms p = sum_list (map (\<lambda>i. mTokens (ms ! i)) (span_range p))"
  using tokenSum_slice [of "fst p" "snd p - fst p" ms] by (simp add: span_cost_def)

abbreviation kept_spans :: "message list \<Rightarrow> string \<Rightarrow> int \<Rightarrow> (nat \<times> nat) list" where
  "kept_spans ms pin a \<equiv> keep_spans ms a True 0 (rev (work_spans ms (pinIndex ms pin)))"

lemma oneRuleKeep_set:
  "set (oneRuleKeep ms pin a) =
     {i. pinIndex ms pin \<le> i \<and> i < length ms \<and> mRole (ms ! i) = ''user''} \<union>
     set (concat (map span_range (kept_spans ms pin a)))"
  by (auto simp: oneRuleKeep_def Let_def)

lemma in_spans: "i \<in> set (concat (map span_range ps)) \<longleftrightarrow> (\<exists>p \<in> set ps. fst p \<le> i \<and> i < snd p)"
  by auto

lemma kept_span:
  assumes "p \<in> set (keep_spans ms a b c (rev (work_spans ms st)))"
  shows "p \<in> set (work_spans ms st)"
  using assms keep_spans_subseq by fastforce

lemma span_not_user:
  "p \<in> set (work_spans ms st) \<Longrightarrow> fst p \<le> i \<Longrightarrow> i < snd p \<Longrightarrow> st \<le> i \<and> i < length ms \<and> mRole (ms ! i) \<noteq> ''user''"
proof -
  assume p: "p \<in> set (work_spans ms st)" "fst p \<le> i" "i < snd p"
  then have "i \<in> set (concat (map span_range (work_spans ms st)))" by auto
  then show ?thesis unfolding work_spans_cover by auto
qed

lemma span_of:
  assumes "st \<le> i" "i < length ms" "mRole (ms ! i) \<noteq> ''user''"
  obtains p where "p \<in> set (work_spans ms st)" "fst p \<le> i" "i < snd p"
proof -
  have "i \<in> set (concat (map span_range (work_spans ms st)))" unfolding work_spans_cover using assms by auto
  then show thesis using that by auto
qed

lemma spans_apart:
  assumes "p \<in> set (work_spans ms st)" "q \<in> set (work_spans ms st)" "fst p < fst q"
  shows "snd p \<le> fst q"
proof -
  obtain i j where ij: "i < length (work_spans ms st)" "j < length (work_spans ms st)"
    "p = work_spans ms st ! i" "q = work_spans ms st ! j" using assms by (metis in_set_conv_nth)
  have nth: "snd (work_spans ms st ! k) \<le> fst (work_spans ms st ! l)" if "k < l" "l < length (work_spans ms st)" for k l
    using work_spans_disjoint [of ms st] that by (simp add: sorted_wrt_iff_nth_less)
  have "i < j"
  proof (rule ccontr)
    assume "\<not> i < j"
    then have "snd q \<le> fst p \<or> p = q" using nth [of j i] ij by (cases "i = j") auto
    moreover have "fst q < snd q" using work_spans_end [OF assms(2)] by simp
    ultimately show False using assms(3) by auto
  qed
  then show ?thesis using nth ij by auto
qed

lemma keep_with_result:
  assumes st: "pinIndex ms pin \<le> i" and len: "Suc i < length ms"
    and nu: "mRole (ms ! i) \<noteq> ''user''"
    and nx: "mRole (ms ! Suc i) \<noteq> ''user''" "mRole (ms ! Suc i) \<noteq> ''assistant''"
  shows "i \<in> set (oneRuleKeep ms pin a) \<longleftrightarrow> Suc i \<in> set (oneRuleKeep ms pin a)"
proof -
  let ?W = "work_spans ms (pinIndex ms pin)"
  let ?K = "set (keep_spans ms a True 0 (rev ?W))"
  obtain p where p: "p \<in> set ?W" "fst p \<le> i" "i < snd p" using span_of st len nu by (metis Suc_lessD)
  have pe: "Suc i < snd p" using work_spans_end [OF p(1)] p nx len by (metis Suc_lessI)
  have same: "q = p" if "q \<in> set ?W" "fst q \<le> j" "j < snd q" "fst p \<le> j" "j < snd p" for q j
  proof -
    have "fst q = fst p" using spans_apart [OF p(1) that(1)] spans_apart [OF that(1) p(1)] that by fastforce
    moreover have "distinct (map fst ?W)"
    proof -
      have "sorted_wrt (<) (map fst ?W)"
        unfolding sorted_wrt_map
        by (rule sorted_wrt_mono_rel [OF _ work_spans_disjoint]) (use work_spans_end in fastforce)
      then show ?thesis using strict_sorted_iff by blast
    qed
    ultimately show ?thesis using p(1) that(1) by (metis distinct_map inj_onD)
  qed
  have "j \<in> set (oneRuleKeep ms pin a) \<longleftrightarrow> p \<in> ?K"
    if "fst p \<le> j" "j < snd p" "mRole (ms ! j) \<noteq> ''user''" for j
    using that same [OF kept_span] unfolding oneRuleKeep_set Un_iff in_spans by blast
  from this [of i] this [of "Suc i"] have "i \<in> set (oneRuleKeep ms pin a) \<longleftrightarrow> p \<in> ?K"
    "Suc i \<in> set (oneRuleKeep ms pin a) \<longleftrightarrow> p \<in> ?K" using p pe nu nx by auto
  then show ?thesis by simp
qed

lemma sum_list_concat_map:
  fixes f :: "'a \<Rightarrow> int"
  shows "sum_list (map f (concat (map g ps))) = sum_list (map (\<lambda>p. sum_list (map f (g p))) ps)"
  by (induction ps) simp_all

lemma distinct_concat_rev: "distinct (concat (rev xss)) = distinct (concat xss)"
  by (induction xss) auto

lemma kept_work_cost:
  fixes a :: int
  assumes W: "W = work_spans ms (pinIndex ms pin)"
  shows "tokenSum (filter (\<lambda>m. mRole m \<noteq> ''user'') (snd (splitOneRule ms (oneRuleKeep ms pin a)))) =
         sum_list (map (span_cost ms) (keep_spans ms a True 0 (rev W)))"
proof -
  let ?K = "keep_spans ms a True 0 (rev W)" and ?f = "\<lambda>i. mTokens (ms ! i)"
  have nonuser: "(i < length ms \<and> i \<in> set (oneRuleKeep ms pin a) \<and> mRole (ms ! i) \<noteq> ''user'')
      = (i \<in> set (concat (map span_range ?K)))" for i
    using span_not_user [OF kept_span] unfolding oneRuleKeep_set W Un_iff in_spans by blast
  have "tokenSum (filter (\<lambda>m. mRole m \<noteq> ''user'') (snd (splitOneRule ms (oneRuleKeep ms pin a)))) =
    sum_list (map ?f (filter (\<lambda>i. i \<in> set (oneRuleKeep ms pin a) \<and> mRole (ms ! i) \<noteq> ''user'') [0..<length ms]))"
    by (simp add: splitOneRule_def tokenSum_map filter_map comp_def conj_commute)
  also have "\<dots> = sum ?f {i. i < length ms \<and> i \<in> set (oneRuleKeep ms pin a) \<and> mRole (ms ! i) \<noteq> ''user''}"
    by (subst sum_list_distinct_conv_sum_set) (auto intro: sum.cong)
  also have "\<dots> = sum ?f (set (concat (map span_range ?K)))"
    unfolding nonuser by (simp only: Collect_mem_eq)
  also have "\<dots> = sum_list (map ?f (concat (map span_range ?K)))"
  proof -
    have "distinct (concat (map span_range W))" unfolding W work_spans_cover by simp
    then have "distinct (concat (map span_range (rev W)))"
      by (simp only: rev_map [symmetric] distinct_concat_rev)
    then show ?thesis by (intro sum_list_distinct_conv_sum_set [symmetric] keep_spans_distinct)
  qed
  also have "\<dots> = sum_list (map (span_cost ms) ?K)"
  proof -
    have "\<forall>p \<in> set ?K. span_cost ms p = sum_list (map ?f (span_range p))"
      using kept_span work_spans_end unfolding W by (intro ballI span_cost_sum) (meson less_imp_le)+
    then show ?thesis by (simp add: sum_list_concat_map cong: map_cong)
  qed
  finally show ?thesis .
qed

section \<open>Pruning\<close>

lemma prune_from_length [simp]: "length (fst (prune_from i keep ms)) = length ms"
  by (induction i keep ms rule: prune_from.induct) (auto simp: Let_def split: prod.splits)

lemma prune_from_nth:
  "j < length ms \<Longrightarrow> fst (prune_from i keep ms) ! j =
     (if i + j \<in> set keep \<or> \<not> is_prunable (ms ! j) then ms ! j else stubbed (ms ! j))"
proof (induction i keep ms arbitrary: j rule: prune_from.induct)
  case (2 i keep m ms)
  then show ?case by (cases j) (auto simp: Let_def split: prod.splits)
qed simp

lemma prune_from_saved:
  "prSaved (snd (prune_from i keep ms)) = tokenSum ms - tokenSum (fst (prune_from i keep ms))"
  by (induction i keep ms rule: prune_from.induct) (auto simp: Let_def split: prod.splits)

lemma prune_from_ids:
  "map mID (fst (prune_from i keep ms)) = map mID ms \<and> map mRole (fst (prune_from i keep ms)) = map mRole ms"
  by (induction i keep ms rule: prune_from.induct) (auto simp: Let_def stubbed_def split: prod.splits)

lemma pruneOlder_nth:
  "j < length ms \<Longrightarrow> fst (pruneOlder ms keep) ! j =
     (if j \<in> set keep \<or> \<not> is_prunable (ms ! j) then ms ! j else stubbed (ms ! j))"
  by (simp add: pruneOlder_def prune_from_nth)

lemma pruneOlder_length [simp]: "length (fst (pruneOlder ms keep)) = length ms"
  by (simp add: pruneOlder_def)

lemma pruneOlder_role [simp]: "j < length ms \<Longrightarrow> mRole (fst (pruneOlder ms keep) ! j) = mRole (ms ! j)"
  by (simp add: pruneOlder_nth stubbed_def)

lemma index_of_id_map: "map mID xs = map mID ys \<Longrightarrow> index_of_id pin xs = index_of_id pin ys"
proof (induction xs arbitrary: ys)
  case (Cons x xs)
  then show ?case by (cases ys) auto
qed simp

lemma pruneOlder_pin [simp]: "pinIndex (fst (pruneOlder ms keep)) pin = pinIndex ms pin"
  using prune_from_ids [of 0 keep ms] index_of_id_map [of "fst (pruneOlder ms keep)" ms]
  by (simp add: pinIndex_def) (simp add: pruneOlder_def)

section \<open>What a compaction leaves\<close>

lemma splitOneRule_kept: "set (snd (splitOneRule ms keep)) = {ms ! i | i. i < length ms \<and> i \<in> set keep}"
  by (auto simp: splitOneRule_def)

lemma keep_user:
  "pinIndex ms pin \<le> i \<Longrightarrow> i < length ms \<Longrightarrow> mRole (ms ! i) = ''user'' \<Longrightarrow> i \<in> set (oneRuleKeep ms pin a)"
  by (simp add: oneRuleKeep_set)

lemma finish_pruned_result:
  assumes "finish_pruned bus runID inp hid result ms prune s = (s', r, evs)"
  shows "orChanged r" "orStop r = orStop result" "orBeforeChangeable r = orBeforeChangeable result"
    "\<exists>text. sMessages s' = harness_summary hid text # ms \<and> orHandOffTokens r = estimateTokens text"
    "orAfterChangeable r = tokenSum (sMessages s')"
    "orAfterChangeable r = orHandOffTokens r + tokenSum ms"
    "sCompactionCount s' = sCompactionCount s + 1"
    "sCompactionTokenDelta s' = sCompactionTokenDelta s + (orAfterChangeable r - orBeforeChangeable r)"
  using assms
  by (auto simp: finish_pruned_def Let_def RecordCompaction_def ReplaceMessages_def harness_summary_def)

lemma does_not_fit_nonempty [simp]: "does_not_fit what n w \<noteq> []"
  by (simp add: does_not_fit_def)

lemma oneRuleTooBig_nonempty [simp]: "oneRuleTooBig kept f w u \<noteq> []"
  by (simp add: oneRuleTooBig_def Let_def split: option.split)

lemma finish_summary_result:
  assumes "finish_summary bus runID inp hid result ms older kept prune s = (s', r, evs)"
    and "orStop result = []"
  shows "orChanged r \<and> orBeforeChangeable r = orBeforeChangeable result \<and>
    (\<exists>text. sMessages s' = harness_summary hid text #
       (if orStop r = [] then kept else newestOneRule ms (inPin inp))) \<and>
    orAfterChangeable r = tokenSum (sMessages s') \<and>
    (orStop r = [] \<longrightarrow> orAfterChangeable r \<le> inWindow inp - inFixed inp) \<and>
    sCompactionCount s' = sCompactionCount s + 1 \<and>
    sCompactionTokenDelta s' = sCompactionTokenDelta s + (orAfterChangeable r - orBeforeChangeable r)"
proof -
  obtain body reason where sm: "oneRuleSummary (inToLower inp)
      (older @ [zero_message\<lparr>mRole := ''user'', mContent := HandOffInstruction\<rparr>])
      (max 500 (inThreePct inp (max 0 (inWindow inp - inFixed inp)))) (inSummarize inp) = (body, reason)"
    by fastforce
  have ht: "mTokens (harness_summary hid body) = estimateTokens body" by (simp add: harness_summary_def)
  show ?thesis
  proof (cases "estimateTokens body + tokenSum kept > inWindow inp - inFixed inp")
    case True
    with assms sm ht show ?thesis
      by (auto simp: finish_summary_def Let_def RecordCompaction_def RecordCompactionDelta_def ReplaceMessages_def)
  next
    case False
    with assms sm ht show ?thesis
      by (auto simp: finish_summary_def Let_def RecordCompaction_def RecordCompactionDelta_def ReplaceMessages_def)
  qed
qed

text \<open>The four ways out of \<open>Compact\<close>.\<close>

lemma Compact_cases:
  assumes "Compact bus runID inp s = (s', r, evs)"
  obtains (untouched) "s' = s" "evs = []" "\<not> orChanged r" "orBeforeChangeable r = tokenSum (sMessages s)"
      "inRefusalAttempt inp \<ge> 2 \<or> inRefusalSentence inp = [] \<and> inUsed inp < compaction_line inp \<or>
       inFixed inp \<ge> inWindow inp"
    | (pruned) ms prune result hid where
      "(ms, prune) = pruneOlder (sMessages s)
         (oneRuleKeep (sMessages s) (inPin inp) (max 0 (inWindow inp - inFixed inp) div 4))"
      "inUsed inp - prSaved prune < compaction_line inp"
      "finish_pruned bus runID inp hid result ms prune s = (s', r, evs)"
      "orStop result = []" "orBeforeChangeable result = tokenSum (sMessages s)" "inFixed inp < inWindow inp"
    | (summarised) ms prune result hid where
      "(ms, prune) = pruneOlder (sMessages s)
         (oneRuleKeep (sMessages s) (inPin inp) (max 0 (inWindow inp - inFixed inp) div 4)) \<or> ms = sMessages s"
      "finish_summary bus runID inp hid result ms
         (fst (splitOneRule ms (oneRuleKeep (sMessages s) (inPin inp) (max 0 (inWindow inp - inFixed inp) div 4))))
         (snd (splitOneRule ms (oneRuleKeep (sMessages s) (inPin inp) (max 0 (inWindow inp - inFixed inp) div 4))))
         prune s = (s', r, evs)"
      "orStop result = []" "orBeforeChangeable result = tokenSum (sMessages s)" "inFixed inp < inWindow inp"
proof -
  let ?keep = "oneRuleKeep (sMessages s) (inPin inp) (max 0 (inWindow inp - inFixed inp) div 4)"
  let ?hid = "if inHandOffID inp = [] then runID @ ''-handoff'' else inHandOffID inp"
  let ?res = "\<lparr>orTriggered = True, orChanged = False, orRetry = False, orStop = [],
             orBeforeChangeable = tokenSum (sMessages s), orAfterChangeable = 0, orHandOffTokens = 0,
             orHandOffRequestTokens = 0, orCrossingTokens = inUsed inp, orKeptIDs = []\<rparr>"
  let ?p = "pruneOlder (sMessages s) ?keep"
  consider "inRefusalAttempt inp \<ge> 2 \<or> inRefusalSentence inp = [] \<and> inUsed inp < compaction_line inp \<or>
       inFixed inp \<ge> inWindow inp"
    | "\<not> inRefusalAttempt inp \<ge> 2" "\<not> (inRefusalSentence inp = [] \<and> inUsed inp < compaction_line inp)"
      "inFixed inp < inWindow inp"
    by linarith
  then show thesis
  proof cases
    case 1
    with assms show thesis by (intro untouched) (auto simp: Compact_def Let_def split: if_splits)
  next
    case 2
    consider (p) "prune_first inp (fst (splitOneRule (sMessages s) ?keep))"
        "inUsed inp - prSaved (snd ?p) < compaction_line inp"
      | (ps) "prune_first inp (fst (splitOneRule (sMessages s) ?keep))"
        "\<not> inUsed inp - prSaved (snd ?p) < compaction_line inp"
      | (sm) "\<not> prune_first inp (fst (splitOneRule (sMessages s) ?keep))" by blast
    then show thesis
    proof cases
      case p
      with 2 assms have "finish_pruned bus runID inp ?hid ?res (fst ?p) (snd ?p) s = (s', r, evs)"
        by (cases "inRefusalSentence inp = []") (simp_all add: Compact_def Let_def split_beta)
      then show thesis using p 2 by (intro pruned [of "fst ?p" "snd ?p" ?hid ?res]) simp_all
    next
      case ps
      with 2 assms have "finish_summary bus runID inp ?hid ?res (fst ?p) (fst (splitOneRule (fst ?p) ?keep))
          (snd (splitOneRule (fst ?p) ?keep)) (snd ?p) s = (s', r, evs)"
        by (cases "inRefusalSentence inp = []") (simp_all add: Compact_def Let_def split_beta)
      then show thesis using 2 by (intro summarised [of "fst ?p" "snd ?p" ?hid ?res]) simp_all
    next
      case sm
      with 2 assms have "finish_summary bus runID inp ?hid ?res (sMessages s) (fst (splitOneRule (sMessages s) ?keep))
          (snd (splitOneRule (sMessages s) ?keep)) \<lparr>prIDs = [], prTokens = 0, prSaved = 0\<rparr> s = (s', r, evs)"
        by (cases "inRefusalSentence inp = []") (simp_all add: Compact_def Let_def split_beta)
      then show thesis using 2
        by (intro summarised [of "sMessages s" "\<lparr>prIDs = [], prTokens = 0, prSaved = 0\<rparr>" ?hid ?res]) simp_all
    qed
  qed
qed

lemma user_kept:
  assumes "ms = sMessages s \<or> (\<exists>keep. ms = fst (pruneOlder (sMessages s) keep))"
    and "pinIndex (sMessages s) pin \<le> i" "i < length (sMessages s)" "mRole (sMessages s ! i) = ''user''"
  shows "sMessages s ! i \<in> set ms" "sMessages s ! i \<in> set (newestOneRule ms pin)"
    "i \<in> set keep \<Longrightarrow> sMessages s ! i \<in> set (snd (splitOneRule ms keep))"
proof -
  have same: "ms ! i = sMessages s ! i" "length ms = length (sMessages s)" "pinIndex ms pin = pinIndex (sMessages s) pin"
    using assms by (auto simp: pruneOlder_nth is_prunable_def)
  then show "sMessages s ! i \<in> set ms" using assms(3) by (metis nth_mem)
  have "i \<in> set (oneRuleKeep ms pin 0)" using assms same by (intro keep_user) auto
  then show "sMessages s ! i \<in> set (newestOneRule ms pin)"
    using same assms(3) unfolding newestOneRule_def splitOneRule_kept by (smt (verit) mem_Collect_eq)
  show "i \<in> set keep \<Longrightarrow> sMessages s ! i \<in> set (snd (splitOneRule ms keep))"
    using same assms(3) unfolding splitOneRule_kept by (smt (verit) mem_Collect_eq)
qed

section \<open>Reminted ids\<close>

abbreviation minted :: "int \<Rightarrow> string" where
  "minted k \<equiv> ''m-'' @ Itoa k"

lemma messageIDs_filter: "messageIDs ms = filter (\<lambda>i. i \<noteq> []) (map mID ms)"
  by (induction ms) auto

lemma remint_from_floor:
  "remint_from index seen floor ms = (out, ch, fl) \<Longrightarrow> fl = floor + int (length ch) \<and> length out = length ms"
  by (induction index seen floor ms arbitrary: out ch fl rule: remint_from.induct)
     (auto split: if_splits prod.splits)

lemma remint_from_fresh:
  assumes "remint_from index seen floor ms = (out, ch, fl)"
    and "\<forall>i \<in> set seen \<union> mID ` set ms. \<forall>k > floor. i \<noteq> minted k"
  shows "distinct (messageIDs out) \<and> set (messageIDs out) \<inter> set seen = {} \<and>
    (\<forall>i \<in> set (messageIDs out). i \<in> mID ` set ms \<or> (\<exists>k > floor. i = minted k))"
  using assms
proof (induction index seen floor ms arbitrary: out ch fl rule: remint_from.induct)
  case (2 index seen floor m ms)
  consider (blank) "mID m = []" | (new) "mID m \<noteq> []" "mID m \<notin> set seen" | (dup) "mID m \<noteq> []" "mID m \<in> set seen"
    by blast
  then show ?case
  proof cases
    case blank
    then obtain out' where "remint_from (Suc index) seen floor ms = (out', ch, fl)" "out = m # out'"
      using 2(4) by (auto split: prod.splits)
    with 2(1,5) blank show ?thesis by fastforce
  next
    case new
    then obtain out' where r: "remint_from (Suc index) (mID m # seen) floor ms = (out', ch, fl)" "out = m # out'"
      using 2(4) by (auto split: prod.splits)
    have "distinct (messageIDs out') \<and> set (messageIDs out') \<inter> set (mID m # seen) = {} \<and>
        (\<forall>i \<in> set (messageIDs out'). i \<in> mID ` set ms \<or> (\<exists>k > floor. i = minted k))"
      by (rule 2(2) [OF _ _ r(1)]) (use new 2(5) in auto)
    with r new show ?thesis by auto
  next
    case dup
    let ?to = "minted (floor + 1)"
    obtain out' ch' where r: "remint_from (Suc index) (?to # seen) (floor + 1) ms = (out', ch', fl)"
        "out = m\<lparr>mID := ?to\<rparr> # out'"
      using 2(4) dup by (auto split: prod.splits)
    have fresh: "\<forall>i \<in> set (?to # seen) \<union> mID ` set ms. \<forall>k > floor + 1. i \<noteq> minted k"
      using 2(5) by (auto simp: Itoa_inj)
    have "distinct (messageIDs out') \<and> set (messageIDs out') \<inter> set (?to # seen) = {} \<and>
        (\<forall>i \<in> set (messageIDs out'). i \<in> mID ` set ms \<or> (\<exists>k > floor + 1. i = minted k))"
      by (rule 2(3) [OF _ _ r(1) fresh]) (use dup in auto)
    moreover have "?to \<notin> set seen" using 2(5) by force
    moreover have "\<exists>k > floor. i = minted k" if "\<exists>k > floor + 1. i = minted k" for i
      using that by (metis add_strict_increasing2 less_add_one less_trans zero_le_one)
    moreover have "\<exists>k > floor. ?to = minted k" by (rule exI [of _ "floor + 1"]) simp
    moreover have "messageIDs out = ?to # messageIDs out'" using r(2) by simp
    ultimately show ?thesis by (simp only: distinct.simps set_simps) blast
  qed
qed simp

lemma remint_from_first:
  "remint_from index seen floor ms = (out, ch, fl) \<Longrightarrow> j < length ms \<Longrightarrow>
   mID (ms ! j) \<notin> set seen \<Longrightarrow> mID (ms ! j) \<notin> mID ` set (take j ms) \<Longrightarrow>
   \<forall>k > floor. mID (ms ! j) \<noteq> minted k \<Longrightarrow> out ! j = ms ! j"
proof (induction index seen floor ms arbitrary: out ch fl j rule: remint_from.induct)
  case (2 index seen floor m ms)
  show ?case
  proof (cases j)
    case 0
    then show ?thesis using 2(4,6) by (auto split: if_splits prod.splits)
  next
    case (Suc i)
    consider (blank) "mID m = []" | (new) "mID m \<noteq> []" "mID m \<notin> set seen" | (dup) "mID m \<noteq> []" "mID m \<in> set seen"
      by blast
    then show ?thesis
    proof cases
      case blank
      then show ?thesis using 2(1) [OF blank] 2(4-8) Suc by (auto split: prod.splits)
    next
      case new
      then show ?thesis using 2(2) [OF new] 2(4-8) Suc by (auto split: prod.splits)
    next
      case dup
      then show ?thesis using 2(3) [OF dup(1)] 2(4-8) Suc by (auto split: prod.splits)
    qed
  qed
qed simp

section \<open>Stubs of a restored chat\<close>

lemma clearReasoning_length [simp]: "length (clearReasoningForCall c ms) = length ms"
  by (induction ms) auto

lemma clearReasoning_nth:
  "j < length ms \<Longrightarrow> (clearReasoningForCall c ms ! j)\<lparr>mReasoning := []\<rparr> = (ms ! j)\<lparr>mReasoning := []\<rparr>"
proof (induction ms arbitrary: j)
  case (Cons m ms)
  then show ?case by (cases j) auto
qed simp

text \<open>What a stub pass leaves of a message apart from its reasoning.\<close>

definition core :: "message \<Rightarrow> message" where
  "core m = m\<lparr>mReasoning := []\<rparr>"

lemma core_sel [simp]:
  "is_prunable (core m) = is_prunable m" "mID (core m) = mID m" "mRole (core m) = mRole m"
  "mElided (core m) = mElided m" "mToolCalls (core m) = mToolCalls m" "mToolCallID (core m) = mToolCallID m"
  by (simp_all add: core_def is_prunable_def)

lemma is_prunable_core: "core m = core n \<Longrightarrow> is_prunable m = is_prunable n"
  by (metis core_sel(1))

lemma stub_result_length [simp]: "length (stub_result ka older i out) = length out"
  by (simp add: stub_result_def Let_def)

lemma stub_result_other: "j < length out \<Longrightarrow> j \<noteq> i \<Longrightarrow> core (stub_result ka older i out ! j) = core (out ! j)"
  by (simp add: stub_result_def Let_def core_def clearReasoning_nth)

lemma stub_result_here:
  "i < length out \<Longrightarrow> older i \<Longrightarrow> is_prunable (out ! i) \<Longrightarrow>
   \<exists>raw. core (stub_result ka older i out ! i) =
     core (elide ka (\<lambda>text. (estimateTokens text, True)) raw (out ! i))"
  by (auto simp: stub_result_def Let_def core_def clearReasoning_nth)

lemma stub_result_skip: "\<not> (older i \<and> is_prunable (out ! i)) \<Longrightarrow> stub_result ka older i out = out"
  by (auto simp: stub_result_def Let_def)

lemma elide_not_prunable: "\<not> is_prunable (elide ka c raw m)"
  by (simp add: elide_def is_prunable_def Let_def)

lemma stub_fold_length [simp]: "length (fold (stub_result ka older) is out) = length out"
  by (induction "is" arbitrary: out) simp_all

lemma stub_fold_untouched:
  "j < length out \<Longrightarrow> j \<notin> set is \<Longrightarrow> core (fold (stub_result ka older) is out ! j) = core (out ! j)"
  by (induction "is" arbitrary: out) (auto simp: stub_result_other)

lemma stub_fold_at:
  assumes "j < length out" "j \<in> set is" "distinct is"
  shows "if older j \<and> is_prunable (out ! j)
    then \<exists>raw m. core m = core (out ! j) \<and> core (fold (stub_result ka older) is out ! j) =
        core (elide ka (\<lambda>text. (estimateTokens text, True)) raw m)
    else core (fold (stub_result ka older) is out ! j) = core (out ! j)"
  using assms
proof (induction "is" arbitrary: out)
  case (Cons i rest)
  show ?case
  proof (cases "j = i")
    case True
    then have nr: "j \<notin> set rest" using Cons.prems by simp
    show ?thesis
      using True Cons.prems stub_fold_untouched [of j "stub_result ka older i out" rest ka older] nr
        stub_result_here [of i out older ka] stub_result_skip [of older i out ka]
      by (auto split: if_splits)
  next
    case False
    then have c: "core (stub_result ka older i out ! j) = core (out ! j)"
      using Cons.prems by (simp add: stub_result_other)
    show ?thesis using Cons.IH [of "stub_result ka older i out"] Cons.prems False c is_prunable_core [OF c]
      by (auto split: if_splits)
  qed
qed simp

section \<open>User messages\<close>

abbreviation is_user :: "message \<Rightarrow> bool" where
  "is_user m \<equiv> mRole m = ''user''"

lemma keep_iff_user:
  "i < length ms \<Longrightarrow> is_user (ms ! i) \<Longrightarrow> i \<in> set (oneRuleKeep ms pin a) \<longleftrightarrow> pinIndex ms pin \<le> i"
  using span_not_user [OF kept_span] unfolding oneRuleKeep_set Un_iff in_spans by blast

lemma filter_upt_ge: "k \<le> n \<Longrightarrow> filter (\<lambda>i. k \<le> i \<and> P i) [0..<n] = filter P [k..<n]"
proof -
  assume "k \<le> n"
  then have "[0..<n] = [0..<k] @ [k..<n]" by (metis le0 le_add_diff_inverse upt_add_eq_append)
  moreover have "filter (\<lambda>i. k \<le> i \<and> P i) [0..<k] = []" by (auto simp: filter_empty_conv)
  moreover have "filter (\<lambda>i. k \<le> i \<and> P i) [k..<n] = filter P [k..<n]" by (rule filter_cong) auto
  ultimately show ?thesis by simp
qed

lemma map_nth_drop: "map (\<lambda>i. xs ! i) [k..<length xs] = drop k xs"
  by (rule nth_equalityI) (auto)

lemma split_users:
  assumes "k \<le> length ms" "\<And>i. i < length ms \<Longrightarrow> is_user (ms ! i) \<Longrightarrow> i \<in> set keep \<longleftrightarrow> k \<le> i"
  shows "filter is_user (snd (splitOneRule ms keep)) = filter is_user (drop k ms)"
proof -
  have "filter is_user (snd (splitOneRule ms keep)) =
      map (\<lambda>i. ms ! i) (filter (\<lambda>i. is_user (ms ! i) \<and> i \<in> set keep) [0..<length ms])"
    by (simp add: splitOneRule_def filter_map comp_def conj_commute)
  also have "filter (\<lambda>i. is_user (ms ! i) \<and> i \<in> set keep) [0..<length ms] =
      filter (\<lambda>i. k \<le> i \<and> is_user (ms ! i)) [0..<length ms]"
    using assms(2) by (intro filter_cong) auto
  also have "\<dots> = filter (\<lambda>i. is_user (ms ! i)) [k..<length ms]" by (rule filter_upt_ge [OF assms(1)])
  also have "map (\<lambda>i. ms ! i) \<dots> = filter is_user (drop k ms)"
    by (simp add: filter_map comp_def flip: map_nth_drop)
  finally show ?thesis .
qed

lemma prune_from_users: "filter is_user (drop k (fst (prune_from i keep ms))) = filter is_user (drop k ms)"
proof (induction i keep ms arbitrary: k rule: prune_from.induct)
  case (2 i keep m ms)
  have "is_prunable m \<Longrightarrow> \<not> is_user m \<and> \<not> is_user (stubbed m)" by (auto simp: is_prunable_def stubbed_def)
  with 2 [of "k - 1"] show ?case by (cases k) (auto simp: Let_def split: prod.splits)
qed simp

lemma pruneOlder_users [simp]:
  "filter is_user (drop k (fst (pruneOlder ms keep))) = filter is_user (drop k ms)"
  by (simp add: pruneOlder_def prune_from_users)

lemma summary_not_user [simp]: "\<not> is_user (harness_summary i t)"
  by (simp add: harness_summary_def)

lemma compact_users:
  assumes "Compact bus runID inp s = (s', r, evs)"
  shows "suffix (filter is_user (drop (pinIndex (sMessages s) (inPin inp)) (sMessages s)))
    (filter is_user (sMessages s'))"
  using assms
proof (cases rule: Compact_cases)
  case untouched
  then show ?thesis by (metis append_take_drop_id filter_append suffixI)
next
  case (pruned ms prune result hid)
  have "filter is_user (sMessages s') = filter is_user (drop 0 (sMessages s))"
  proof -
    obtain body where "sMessages s' = harness_summary hid body # ms"
      using finish_pruned_result(4) [OF pruned(3)] by blast
    moreover have "ms = fst (pruneOlder (sMessages s)
        (oneRuleKeep (sMessages s) (inPin inp) (max 0 (inWindow inp - inFixed inp) div 4)))"
      using pruned(1) by (metis fst_conv)
    ultimately show ?thesis using pruneOlder_users [of 0] by simp
  qed
  then show ?thesis by (metis append_take_drop_id drop0 filter_append suffixI)
next
  case (summarised ms prune result hid)
  let ?ms = "sMessages s" and ?pin = "pinIndex (sMessages s) (inPin inp)"
  from summarised(1) consider "ms = ?ms" | keep where "ms = fst (pruneOlder ?ms keep)" by (metis fst_conv)
  then have ms: "length ms = length ?ms" "pinIndex ms (inPin inp) = ?pin"
    "\<And>i. i < length ?ms \<Longrightarrow> mRole (ms ! i) = mRole (?ms ! i)"
    "filter is_user (drop ?pin ms) = filter is_user (drop ?pin ?ms)"
    by (cases, simp_all)+
  let ?keep = "oneRuleKeep ?ms (inPin inp) (max 0 (inWindow inp - inFixed inp) div 4)"
  have "filter is_user (snd (splitOneRule ms ?keep)) = filter is_user (drop ?pin ms)"
    by (rule split_users) (use ms pinIndex_le keep_iff_user in auto)
  moreover have "filter is_user (newestOneRule ms (inPin inp)) = filter is_user (drop ?pin ms)"
    unfolding newestOneRule_def by (rule split_users) (use ms pinIndex_le keep_iff_user in auto)
  moreover from finish_summary_result [OF summarised(2,3)] obtain body where
    "sMessages s' = harness_summary hid body #
       (if orStop r = [] then snd (splitOneRule ms ?keep) else newestOneRule ms (inPin inp))" by blast
  ultimately have "filter is_user (sMessages s') = filter is_user (drop ?pin ?ms)" using ms(4) by simp
  then show ?thesis by simp
qed

section \<open>Properties\<close>

definition demo_work :: "message list" where
  "demo_work = [sample_message ''a'' ''user'' 3, sample_message ''b'' ''assistant'' 5,
     sample_message ''c'' ''tool'' 7, sample_message ''d'' ''assistant'' 2, sample_message ''e'' ''tool'' 4]"

text \<open>What the one rule keeps is all of the task and whole pieces of work: nothing before the pin,
  every user message from the pin on, and, wherever a message of the work after the pin is followed
  by a result (a message that is neither user nor assistant), either both or neither, so that no
  tool result is ever kept without the call it answers.\<close>

theorem one_rule_keeps_whole_spans:
  assumes "i < length ms" and "keep = set (oneRuleKeep ms pin allowance)"
  shows "(i \<in> keep \<longrightarrow> pinIndex ms pin \<le> i) \<and>
    (is_user (ms ! i) \<longrightarrow> (i \<in> keep) = (pinIndex ms pin \<le> i)) \<and>
    (pinIndex ms pin \<le> i \<and> Suc i < length ms \<and> \<not> is_user (ms ! i) \<and>
       mRole (ms ! Suc i) \<notin> {''user'', ''assistant''} \<longrightarrow> (i \<in> keep) = (Suc i \<in> keep))"
proof -
  have "i \<in> keep \<longrightarrow> pinIndex ms pin \<le> i"
    using span_not_user [OF kept_span] unfolding assms(2) oneRuleKeep_set Un_iff in_spans by blast
  then show ?thesis using assms keep_iff_user keep_with_result by simp
qed

theorem one_rule_keeps_whole_spans_witness:
  "(3 \<in> set (oneRuleKeep demo_work ''a'' 0)) = (4 \<in> set (oneRuleKeep demo_work ''a'' 0)) \<and>
   (0 \<in> set (oneRuleKeep demo_work ''a'' 0))"
  using one_rule_keeps_whole_spans [of 3 demo_work _ "''a''" 0, OF _ refl]
    one_rule_keeps_whole_spans [of 0 demo_work _ "''a''" 0, OF _ refl]
  by (simp add: demo_work_def sample_message_def zero_message_def pinIndex_def)

text \<open>The work that is kept stays within the allowance: the tokens of the kept messages other than
  user messages are at most the allowance (a quarter of the room), or, when the newest piece of
  work alone is larger than that, exactly bounded by that piece; without any work nothing but user
  messages is kept.\<close>

theorem one_rule_work_bounded:
  "tokenSum (filter (\<lambda>m. \<not> is_user m) (snd (splitOneRule ms (oneRuleKeep ms pin allowance)))) \<le>
     (if work_spans ms (pinIndex ms pin) = [] then 0
      else max allowance (span_cost ms (last (work_spans ms (pinIndex ms pin)))))"
proof (cases "work_spans ms (pinIndex ms pin) = []")
  case True
  then show ?thesis using kept_work_cost [OF refl, of ms pin allowance] by simp
next
  case False
  then show ?thesis
    using kept_work_cost [OF refl, of ms pin allowance] keep_spans_cost [of "rev (work_spans ms (pinIndex ms pin))" ms allowance]
    by (simp add: hd_rev)
qed

text \<open>Compaction accounts for what it does. It reports as \<open>before\<close> the tokens of the conversation
  it found. When it changes anything, the conversation begins with the hand-off, the reported
  \<open>after\<close> is the token sum of the new conversation, the session counts one compaction and the
  recorded token delta is exactly after minus before, also when the overflow branch replaced the
  conversation a second time. When it changes nothing, the session is the old one and no event is
  published.\<close>

theorem compact_accounts:
  "case Compact bus runID inp s of (s', r, evs) \<Rightarrow>
     orBeforeChangeable r = tokenSum (sMessages s) \<and>
     (if orChanged r
      then (\<exists>i body rest. sMessages s' = harness_summary i body # rest) \<and>
        orAfterChangeable r = tokenSum (sMessages s') \<and>
        sCompactionCount s' = sCompactionCount s + 1 \<and>
        sCompactionTokenDelta s' = sCompactionTokenDelta s + (tokenSum (sMessages s') - tokenSum (sMessages s))
      else s' = s \<and> evs = [])"
proof (cases "Compact bus runID inp s")
  case (fields s' r evs)
  then show ?thesis
  proof (cases rule: Compact_cases)
    case (pruned ms prune result hid)
    with finish_pruned_result [OF pruned(3)] fields show ?thesis by auto
  next
    case (summarised ms prune result hid)
    with finish_summary_result [OF summarised(2,3)] fields show ?thesis by auto
  qed (simp add: fields)
qed


text \<open>C19. Compaction never loses the task: the user messages from the pin on are, unchanged and in
  order, the last user messages of the conversation it leaves, on every branch (no change, stubs
  only, summary, and the overflow that keeps only the newest work).\<close>

theorem compact_keeps_task_messages:
  "suffix (filter is_user (drop (pinIndex (sMessages s) (inPin inp)) (sMessages s)))
     (filter is_user (sMessages (fst (Compact bus runID inp s))))"
  using compact_users [of bus runID inp s] by (cases "Compact bus runID inp s") simp

text \<open>Repairing duplicated message ids: the conversation keeps its length, every message whose id
  is the first of its kind keeps it and is unchanged, the non-empty ids become distinct, and the
  floor rises by one for every id minted; this needs only what the caller's floor promises, that
  no message already carries an id above it.\<close>

theorem remint_ids_distinct:
  assumes "RemintDuplicateIDs ms floor = (out, changes, floor')"
    and "\<forall>m \<in> set ms. \<forall>k > floor. mID m \<noteq> minted k"
  shows "length out = length ms \<and> distinct (messageIDs out) \<and> floor' = floor + int (length changes) \<and>
    (\<forall>j < length ms. mID (ms ! j) \<notin> mID ` set (take j ms) \<longrightarrow> out ! j = ms ! j)"
proof -
  have r: "remint_from 0 [] floor ms = (out, changes, floor')" using assms(1) by (simp add: RemintDuplicateIDs_def)
  have "distinct (messageIDs out)" using remint_from_fresh [OF r] assms(2) by auto
  moreover have "out ! j = ms ! j" if "j < length ms" "mID (ms ! j) \<notin> mID ` set (take j ms)" for j
    by (rule remint_from_first [OF r]) (use that assms(2) in auto)
  ultimately show ?thesis using remint_from_floor [OF r] by blast
qed

theorem remint_ids_distinct_witness:
  "distinct (messageIDs (fst (RemintDuplicateIDs
     [sample_message ''x'' ''user'' 0, sample_message ''x'' ''tool'' 0, sample_message [] ''tool'' 0] 1)))"
  (is "distinct (messageIDs (fst (RemintDuplicateIDs ?ms 1)))")
proof -
  have "\<forall>m \<in> set ?ms. \<forall>k > 1. mID m \<noteq> minted k"
    by (simp add: sample_message_def zero_message_def)
  then show ?thesis
    using remint_ids_distinct [of ?ms 1 "fst (RemintDuplicateIDs ?ms 1)" "fst (snd (RemintDuplicateIDs ?ms 1))"
      "snd (snd (RemintDuplicateIDs ?ms 1))"] by simp
qed

text \<open>Restoring a chat stubs every older result and nothing else: the messages keep their ids,
  roles, calls and order; a result before the anchor (or before the newest user message) that was
  not a stub yet becomes one, and every other message is unchanged apart from reasoning that may be
  dropped.\<close>

theorem restore_stubs_exactly_older:
  assumes "j < length ms" and "out = StubResultsBefore keyArgs ms anchor"
  shows "length out = length ms \<and> mID (out ! j) = mID (ms ! j) \<and> mRole (out ! j) = mRole (ms ! j) \<and>
    mToolCalls (out ! j) = mToolCalls (ms ! j) \<and> mToolCallID (out ! j) = mToolCallID (ms ! j) \<and>
    (if older_than ms anchor j \<and> is_prunable (ms ! j) then mElided (out ! j)
     else (out ! j)\<lparr>mReasoning := []\<rparr> = (ms ! j)\<lparr>mReasoning := []\<rparr>)"
proof -
  have out: "out = fold (stub_result keyArgs (older_than ms anchor)) [0..<length ms] ms"
    by (simp add: assms(2) StubResultsBefore_def)
  have at: "if older_than ms anchor j \<and> is_prunable (ms ! j)
    then \<exists>raw m. core m = core (ms ! j) \<and>
      core (out ! j) = core (elide keyArgs (\<lambda>text. (estimateTokens text, True)) raw m)
    else core (out ! j) = core (ms ! j)"
    unfolding out by (rule stub_fold_at) (use assms(1) in auto)
  have sel: "mID (out ! j) = mID (ms ! j) \<and> mRole (out ! j) = mRole (ms ! j) \<and>
    mToolCalls (out ! j) = mToolCalls (ms ! j) \<and> mToolCallID (out ! j) = mToolCallID (ms ! j)"
    if "core (out ! j) = core (elide keyArgs (\<lambda>text. (estimateTokens text, True)) raw m) \<or> core (out ! j) = core m" "core m = core (ms ! j)" for raw m
  proof -
    have "mID (core (out ! j)) = mID (core m) \<and> mRole (core (out ! j)) = mRole (core m) \<and>
        mToolCalls (core (out ! j)) = mToolCalls (core m) \<and> mToolCallID (core (out ! j)) = mToolCallID (core m)"
      using that(1) by (auto simp: elide_def Let_def simp del: core_sel(2-6)) (simp_all add: core_def)
    then show ?thesis using that(2) by (metis core_sel(2,3,5,6))
  qed
  show ?thesis
  proof (cases "older_than ms anchor j \<and> is_prunable (ms ! j)")
    case True
    with at obtain raw m where m: "core m = core (ms ! j)"
      "core (out ! j) = core (elide keyArgs (\<lambda>text. (estimateTokens text, True)) raw m)" by auto
    have "mElided (core (out ! j))" unfolding m(2) by (simp add: elide_def Let_def)
    then have "mElided (out ! j)" by simp
    moreover have "length out = length ms" by (simp add: out)
    ultimately show ?thesis using sel [OF disjI1 [OF m(2)] m(1)] True by simp
  next
    case False
    with at have "core (out ! j) = core (ms ! j)" by auto
    moreover have "length out = length ms" by (simp add: out)
    ultimately show ?thesis using sel [OF disjI2 refl] False unfolding core_def by (simp only: if_False)
  qed
qed

theorem restore_stubs_exactly_older_witness:
  "mElided (StubOlderResults (\<lambda>_ raw. raw) [(sample_message ''a'' ''tool'' 900)\<lparr>mCategory := ''files''\<rparr>,
     sample_message ''b'' ''user'' 1] ! 0)"
  (is "mElided (StubOlderResults ?ka ?ms ! 0)")
  using restore_stubs_exactly_older [of 0 ?ms "StubOlderResults ?ka ?ms" ?ka "[]"]
  by (simp add: StubOlderResults_def older_than_def idNumber_def is_prunable_def sample_message_def zero_message_def
      numeral_2_eq_2)

end
