(* ===== verification/Run_State.thy ===== *)
theory Run_State
  imports Tool_Results Guards Flights Compaction
begin

text \<open>
  The state of one run (\<open>runState\<close> in \<open>internal/agent/run_phases.go\<close>), what its phases share and the helpers of
  \<open>run.go\<close> they call. The pointers of the code (session, flight book, guards, the chat's result files, the runner's id counter
  and the bus) are fields of the state, so that a phase is a function from state to state with an outcome.
  What the run is given from outside is the record \<open>run_env\<close>: the token counter, \<open>encoding/json\<close>, case mapping, digests, which
  calls only read, the parser of plan proposals, the skill host and elapsed times. The budget service, the hooks' processes and the
  rendering of the system prompt are not part of the state; a phase that uses their result gets it as an argument.
\<close>

section \<open>Data\<close>

record run_connection =
  rcID :: string
  rcLabel :: string
  rcBaseURL :: string
  rcFallback :: string
  rcNCtx :: int
  rcReserveOutput :: int
  rcAnswerCeilingSeconds :: int
  rcReasoningEnabled :: bool
  rcReasoningMaxTokens :: int
  rcObservedByteLimit :: int
  rcObservedMessageLimit :: int
  rcNativeImageInput :: bool
  rcProbedNCtx :: int
  rcReasoningControl :: string
  rcProbedReasoningControl :: string
  rcAttachmentHandling :: string

record budget =
  bdNCtx :: int
  bdReserve :: int
  bdCeiling :: int
  bdUsedEst :: int
  bdUsedMeasured :: int
  bdMode :: string
  bdEstimated :: bool
  bdCategories :: "(string, int) gomap"

record usage =
  usPrompt :: int
  usCompletion :: int
  usCached :: int
  usReasoning :: int

record response =
  rpContent :: string
  rpReasoning :: string
  rpToolCalls :: "llm_tool_call list"
  rpFinishReason :: string
  rpUsage :: usage
  rpTimings :: val
  rpDurationMS :: int

record loop_state =
  xS :: session
  xLog :: "bus_note list"
  xIds :: int
  xBook :: flight_book
  xGuards :: run_guards
  xFiles :: result_files
  xTurn :: int
  xLengthSeen :: bool
  xMalformedToolRetried :: bool
  xAnsweredThisRun :: bool
  xAnnouncedActionContinued :: bool
  xAutoContinue :: bool
  xTruncatedToolRetry :: string
  xRetryInstruction :: string
  xRefusalSentence :: string
  xRefusalAttempt :: int
  xRefusedTurn :: int
  xAttachmentsAsTextTurn :: int
  xAccountingRepairTried :: bool
  xTemplateRetryTried :: bool
  xFallbackActive :: bool
  xFallbackID :: string
  xPrimaryLabel :: string
  xPrimaryWindow :: int
  xCompacted :: bool
  xRunMessageLimit :: int
  xRunByteLimit :: int
  xRunWindow :: int
  xCurrentReasoning :: "string list"
  xConnection :: run_connection
  xEnabled :: "(string, bool) gomap"
  xReasoningFallbackPrior :: string
  xReasoningFallbackAllowance :: int
  xReasoningFallbackShare :: int
  xReasoningFallbackPending :: bool
  xReasoningFallbackUsed :: bool
  xBudget :: budget
  xPublishFinalBudget :: bool
  xPartial :: string
  xAnswerBegan :: bool
  xToolCalls :: "tool_call list"
  xDurableToolCalls :: "tool_call list"
  xAssistant :: message
  xProduced :: "(string, string \<times> int) gomap"

datatype outcome =
    GoOn
  | Again
  | Stop string string int

record run_env =
  reRunID :: string
  reParent :: string
  reCount :: "string \<Rightarrow> int \<times> bool"
  reToLower :: "string \<Rightarrow> string"
  reEqualFold :: "string \<Rightarrow> string \<Rightarrow> bool"
  reUnmarshal :: "string \<Rightarrow> string + (string, val) gomap"
  reMarshal :: "(string, val) gomap \<Rightarrow> string option"
  reVisible :: "string \<Rightarrow> string"
  reProposals :: "session \<Rightarrow> string \<Rightarrow> string \<times> plan_proposal list"
  reSkill :: "session \<Rightarrow> (string + string) option"
  reDigest :: "string \<Rightarrow> string"
  reReads :: "string \<Rightarrow> (string, val) gomap \<Rightarrow> bool"
  reReasoningBudget :: "string \<times> string"
  reElapsed :: "string \<Rightarrow> int"
  rePartialPath :: "string \<Rightarrow> string option"
  reEncode :: "val \<Rightarrow> string"
  reEstimate :: "nat \<Rightarrow> int"
  reWallSeconds :: int

section \<open>Publishing and appending\<close>

definition xpub :: "run_env \<Rightarrow> string \<Rightarrow> (string \<times> val) list \<Rightarrow> loop_state \<Rightarrow> loop_state" where
  "xpub env t d x = x\<lparr>xLog := xLog x @ [New t (sID (xS x)) (reRunID env) d]\<rparr>"

definition on_xs :: "(session \<Rightarrow> session) \<Rightarrow> loop_state \<Rightarrow> loop_state" where
  "on_xs f x = x\<lparr>xS := f (xS x)\<rparr>"

definition stage_enter :: "run_env \<Rightarrow> int \<Rightarrow> string \<Rightarrow> loop_state \<Rightarrow> loop_state" where
  "stage_enter env turn name x =
     (let x1 = xpub env ''stage'' [(''stage'', VStr name), (''state'', VStr ''enter''), (''turn'', VInt turn), (''ms'', VInt 0)]
            (x\<lparr>xBook := setFlightStage (sID (xS x)) (reRunID env) turn name (xBook x)\<rparr>)
      in if reParent env \<noteq> [] then
           x1\<lparr>xLog := xLog x1 @ [New ''delegate.usage'' (reParent env) (reRunID env) [(''child_id'', VStr (sID (xS x))), (''status'', VStr ''running''),
               (''stage'', VStr name), (''turn'', VInt turn), (''live'', VBool True)]]\<rparr>
         else x1)"

definition stage_exit :: "run_env \<Rightarrow> int \<Rightarrow> string \<Rightarrow> loop_state \<Rightarrow> loop_state" where
  "stage_exit env turn name x =
     xpub env ''stage'' [(''stage'', VStr name), (''state'', VStr ''exit''), (''turn'', VInt turn), (''ms'', VInt (reElapsed env name))] x"

text \<open>\<open>Runner.stage\<close> around the function it runs.\<close>

definition in_stage :: "run_env \<Rightarrow> string \<Rightarrow> (loop_state \<Rightarrow> loop_state) \<Rightarrow> loop_state \<Rightarrow> loop_state" where
  "in_stage env name fn x = stage_exit env (xTurn x) name (fn (stage_enter env (xTurn x) name x))"

definition makeMessage :: "run_env \<Rightarrow> string \<Rightarrow> string \<Rightarrow> string \<Rightarrow> int \<Rightarrow> loop_state \<Rightarrow> loop_state \<times> message" where
  "makeMessage env role content category turn x =
     (x\<lparr>xIds := xIds x + 1\<rparr>, zero_message\<lparr>mID := ''m-'' @ Itoa (xIds x + 1), mRole := role, mContent := content, mCategory := category,
        mTokens := fst (reCount env content), mEstimated := snd (reCount env content), mTurn := turn\<rparr>)"

definition append_message :: "run_env \<Rightarrow> message \<Rightarrow> loop_state \<Rightarrow> loop_state" where
  "append_message env m x = xpub env MessageAppended [(''message'', VMsg m)] (on_xs (Append m) x)"

definition appendHarnessLine :: "run_env \<Rightarrow> int \<Rightarrow> string \<Rightarrow> loop_state \<Rightarrow> loop_state" where
  "appendHarnessLine env turn content x =
     (let (x1, m) = makeMessage env ''harness'' content ''history'' turn x in append_message env m x1)"

definition operationalError :: "run_env \<Rightarrow> string \<Rightarrow> string \<Rightarrow> loop_state \<Rightarrow> loop_state" where
  "operationalError env place err x = xpub env Error [(''where'', VStr place), (''message'', VStr err)] x"

section \<open>Numbers and texts\<close>

text \<open>\<open>ceil110\<close> is \<open>int(math.Ceil(float64(n) * 1.10))\<close>.\<close>

definition guardedPromptTokens :: "(int \<Rightarrow> int) \<Rightarrow> budget \<Rightarrow> int" where
  "guardedPromptTokens ceil110 b = (if bdMode b = ''estimated'' \<and> bdUsedMeasured b \<le> 0 then ceil110 (bdUsedEst b) else bdUsedEst b)"

definition minimumOutputFloor :: int where
  "minimumOutputFloor = 4096"

definition outputFloor :: "run_connection \<Rightarrow> int" where
  "outputFloor p = min minimumOutputFloor (rcNCtx p)"

definition requestTokenLimit :: "run_connection \<Rightarrow> budget \<Rightarrow> int \<Rightarrow> int" where
  "requestTokenLimit p b promptTokens = max 0 (min (max (outputFloor p) (rcReserveOutput p)) (bdNCtx b - promptTokens))"

definition ReasoningShareFor :: "int \<Rightarrow> int" where
  "ReasoningShareFor reserveOutput = (if reserveOutput \<le> 0 then 0 else max (reserveOutput sdiv 2) 1)"

definition nullable :: "int \<Rightarrow> val" where
  "nullable n = (if n < 0 then VNil else VInt n)"

definition announced_prefixes :: "string list" where
  "announced_prefixes = [''i'' @ [CHR 0x27] @ ''ll '', ''i'' @ [CHR 0xE2, CHR 0x80, CHR 0x99] @ ''ll '', ''i will '', ''i am going to '',
     ''now i'' @ [CHR 0x27] @ ''ll '', ''now i'' @ [CHR 0xE2, CHR 0x80, CHR 0x99] @ ''ll '', ''now i will '', ''now i am going to '', ''let me '']"

definition announcedActionOnly :: "(string \<Rightarrow> string) \<Rightarrow> string \<Rightarrow> bool" where
  "announcedActionOnly to_lower content =
     (let t = TrimSpace content
      in if t = [] \<or> rune_count t > 400 \<or> list_ex (\<lambda>c. c = CHR 0x0D \<or> c = CHR 0x0A) t then False
         else list_ex (HasPrefix (to_lower t)) announced_prefixes)"

definition cycleNotice :: "int \<Rightarrow> string" where
  "cycleNotice turn = ''stopped a loop after '' @ Itoa turn @ '' turns, continuing differently''"

definition DefaultReserveOutput :: int where
  "DefaultReserveOutput = 10240"

definition truncationDetail :: "run_env \<Rightarrow> run_connection \<Rightarrow> string \<Rightarrow> bool \<Rightarrow> string" where
  "truncationDetail env connection content reasoningFallbackUsed =
     (let reserve = (if rcReserveOutput connection \<le> 0 then DefaultReserveOutput else rcReserveOutput connection);
          arrow = [CHR 0xE2, CHR 0x86, CHR 0x92];
          place = ''the '' @ rcLabel connection @ '' connection'' @ [CHR 0x27] @ ''s output reserve (Settings '' @ arrow @ '' Connections '' @ arrow @
            '' reserve output, context.reserve_output = '' @ Itoa reserve @ '' tokens)'';
          (status, key) = reReasoningBudget env;
          path = (if \<not> rcReasoningEnabled connection
                  then ''reasoning was off, so neither a server reasoning budget nor the two-pass fallback applied''
                  else if rcReasoningMaxTokens connection > 0
                  then ''the saved reasoning cap of '' @ Itoa (rcReasoningMaxTokens connection) @ '' tokens applied; the automatic share and fallback did not replace it''
                  else if status = ''accepted''
                  then ''the server accepted '' @ key @ '' for thinking'' @ [CHR 0x27] @ ''s '' @ Itoa (ReasoningShareFor reserve) @ ''-token share''
                  else if reasoningFallbackUsed
                  then ''the server did not accept a separate thinking budget, so the first pass used thinking'' @ [CHR 0x27] @ ''s '' @
                    Itoa (ReasoningShareFor reserve) @ ''-token share and the harness used a second request with thinking disabled''
                  else if TrimSpace content \<noteq> []
                  then ''the server did not accept a separate thinking budget; the first bounded pass produced answer content, so no second request ran''
                  else ''the server did not accept a separate thinking budget; the two-pass fallback could not produce an answer'')
      in ''the answer reached the output limit of '' @ Itoa reserve @ '' tokens and was cut short; what it produced is kept above, marked truncated. Reasoning path: '' @
         path @ ''. The limit is '' @ place)"

definition bindPlanProposalSources :: "message list \<Rightarrow> plan_proposal list \<Rightarrow> string \<Rightarrow> plan_proposal list" where
  "bindPlanProposalSources ms proposals assistantID =
     (let userID = (case find (\<lambda>m. mRole m = ''user'' \<and> \<not> mElided m) (rev ms) of Some m \<Rightarrow> mID m | None \<Rightarrow> [])
      in map (\<lambda>p. p\<lparr>ppSourceMessageIDs := (if userID \<noteq> [] then [userID] else []) @ [assistantID]\<rparr>) proposals)"


definition keepTruncatedAnswer :: "run_env \<Rightarrow> string \<Rightarrow> string \<Rightarrow> loop_state \<Rightarrow> loop_state" where
  "keepTruncatedAnswer env content reasoning x =
     (let c = TrimSpace content; r = TrimSpace reasoning;
          kept = (if c \<noteq> [] then c else r @ newlines @ ''[answer taken from the model'' @ [CHR 0x27] @ ''s reasoning]'')
      in if c = [] \<and> r = [] then x
         else in_stage env ''append'' (\<lambda>x.
           let (x1, m) = makeMessage env ''assistant'' (kept @ newlines @ ''[the answer reached the output limit and was cut short here]'') ''history'' (xTurn x) x;
               m1 = m\<lparr>mReasoning := reasoning\<rparr>
           in xpub env MessageAppended [(''message'', VMsg m1), (''truncated'', VBool True)]
                (on_xs (Append m1) (x1\<lparr>xCurrentReasoning := mID m1 # xCurrentReasoning x1\<rparr>))) x)"

text \<open>\<open>shortActivityTarget\<close>: the first argument that says what a call is about.\<close>

definition shortActivityTarget :: "(string, val) gomap \<Rightarrow> string" where
  "shortActivityTarget args =
     (case find (\<lambda>k. TrimSpace (str_of (mget args k)) \<noteq> []) [''path'', ''pattern'', ''command'', ''service'', ''task''] of
        None \<Rightarrow> []
      | Some k \<Rightarrow> let v = join '' '' (Fields (str_of (mget args k))) in if length v > 80 then take 77 v @ ellipsis_rune else v)"

section \<open>Cancellation\<close>

text \<open>\<open>contextStop\<close>, set up by \<open>start\<close>: a run that the wall clock cancelled stops with it; any other cancellation is recorded
  as an abort.\<close>

definition contextStop :: "run_env \<Rightarrow> bool \<Rightarrow> int \<Rightarrow> string \<Rightarrow> loop_state \<Rightarrow> loop_state \<times> outcome" where
  "contextStop env wallExceeded turn fallback x =
     (if wallExceeded then
        (x, Stop ''wall_clock'' (''guessed wall-clock backstop reached after '' @ Itoa (reWallSeconds env) @ '' seconds'') turn)
      else let ((b, s), (reason, detail, turns), evs) =
                 stopped (rePartialPath env) (reEncode env) (reEstimate env) (''m-'' @ Itoa (xIds x + 1)) (reRunID env) turn fallback (xBook x, xS x)
           in (x\<lparr>xBook := b, xS := s, xLog := xLog x @ evs, xIds := (if evs = [] then xIds x else xIds x + 1)\<rparr>, Stop reason detail turns))"

section \<open>What the helpers leave alone\<close>

text \<open>Publishing and stages touch only the log and the flight book.\<close>

lemma xpub_frame [simp]:
  "xS (xpub env t d x) = xS x" "xTurn (xpub env t d x) = xTurn x" "xToolCalls (xpub env t d x) = xToolCalls x"
  "xDurableToolCalls (xpub env t d x) = xDurableToolCalls x" "xAssistant (xpub env t d x) = xAssistant x"
  "xBudget (xpub env t d x) = xBudget x" "xEnabled (xpub env t d x) = xEnabled x" "xIds (xpub env t d x) = xIds x"
  "xMalformedToolRetried (xpub env t d x) = xMalformedToolRetried x"
  by (simp_all add: xpub_def)

lemma stage_enter_frame [simp]:
  "xS (stage_enter env t n x) = xS x" "xTurn (stage_enter env t n x) = xTurn x" "xToolCalls (stage_enter env t n x) = xToolCalls x"
  "xDurableToolCalls (stage_enter env t n x) = xDurableToolCalls x" "xAssistant (stage_enter env t n x) = xAssistant x"
  "xBudget (stage_enter env t n x) = xBudget x" "xEnabled (stage_enter env t n x) = xEnabled x"
  by (simp_all add: stage_enter_def xpub_def Let_def)

lemma stage_exit_frame [simp]:
  "xS (stage_exit env t n x) = xS x" "xTurn (stage_exit env t n x) = xTurn x" "xToolCalls (stage_exit env t n x) = xToolCalls x"
  "xDurableToolCalls (stage_exit env t n x) = xDurableToolCalls x" "xAssistant (stage_exit env t n x) = xAssistant x"
  "xBudget (stage_exit env t n x) = xBudget x" "xEnabled (stage_exit env t n x) = xEnabled x"
  by (simp_all add: stage_exit_def)

text \<open>The conversation as the phases see it.\<close>

abbreviation msgs :: "loop_state \<Rightarrow> message list" where
  "msgs x \<equiv> sMessages (xS x)"

lemma append_message_frame [simp]:
  "msgs (append_message env m x) = msgs x @ [m]" "xTurn (append_message env m x) = xTurn x"
  "xToolCalls (append_message env m x) = xToolCalls x" "xDurableToolCalls (append_message env m x) = xDurableToolCalls x"
  "xAssistant (append_message env m x) = xAssistant x" "xEnabled (append_message env m x) = xEnabled x"
  by (simp_all add: append_message_def on_xs_def Append_def)

text \<open>What a phase adds to the conversation: messages that satisfy \<open>P\<close>, at the end.\<close>

definition adds :: "(message \<Rightarrow> bool) \<Rightarrow> loop_state \<Rightarrow> loop_state \<Rightarrow> bool" where
  "adds P x x' \<longleftrightarrow> (\<exists>hs. msgs x' = msgs x @ hs \<and> list_all P hs)"

definition harness_line :: "message \<Rightarrow> bool" where
  "harness_line m \<longleftrightarrow> mRole m = ''harness'' \<and> mToolCalls m = []"

definition callless :: "message \<Rightarrow> bool" where
  "callless m \<longleftrightarrow> mToolCalls m = [] \<and> mRole m \<noteq> ''tool''"

lemma adds_same [intro]: "msgs x' = msgs x \<Longrightarrow> adds P x x'"
  by (simp add: adds_def)

lemma adds_trans [trans]: "adds P x y \<Longrightarrow> adds P y z \<Longrightarrow> adds P x z"
  by (force simp: adds_def)

lemma adds_cong: "msgs x = msgs y \<Longrightarrow> msgs x' = msgs y' \<Longrightarrow> adds P x x' \<longleftrightarrow> adds P y y'"
  by (simp add: adds_def)

lemma harness_callless: "adds harness_line x x' \<Longrightarrow> adds callless x x'"
  by (auto simp: adds_def harness_line_def callless_def list_all_iff)

lemma adds_one: "P m \<Longrightarrow> adds P x (append_message env m x)"
  by (simp add: adds_def)

lemma harness_line_adds: "adds harness_line x (appendHarnessLine env t c x)"
  by (simp add: adds_def appendHarnessLine_def makeMessage_def Let_def zero_message_def harness_line_def)

lemma harness_line_frame [simp]:
  "xTurn (appendHarnessLine env t c x) = xTurn x" "xToolCalls (appendHarnessLine env t c x) = xToolCalls x"
  "xDurableToolCalls (appendHarnessLine env t c x) = xDurableToolCalls x" "xAssistant (appendHarnessLine env t c x) = xAssistant x"
  "xEnabled (appendHarnessLine env t c x) = xEnabled x"
  by (simp_all add: appendHarnessLine_def makeMessage_def Let_def)

text \<open>A cancelled run stops in its turn, for a declared reason, leaving at most its abort record.\<close>

lemma abortReason_declared: "DeclaredStopReason (abortReason sid runID b)"
  by (simp add: abortReason_def DeclaredStopReason_def StopReasons_def split: option.split)

lemma recordAbort_messages:
  "\<exists>hs. sMessages (snd (fst (recordAbort p e c mid runID reason detail (b, s)))) = sMessages s @ hs \<and> list_all harness_line hs"
  by (simp add: recordAbort_def Let_def zero_message_def Append_def harness_line_def)

lemma contextStop_cases:
  "contextStop env wall turn fallback x =
     (if wall then (x, Stop ''wall_clock'' (''guessed wall-clock backstop reached after '' @ Itoa (reWallSeconds env) @ '' seconds'') turn)
      else let reason = abortReason (sID (xS x)) (reRunID env) (xBook x);
               (st, d, evs) = recordAbort (rePartialPath env) (reEncode env) (reEstimate env) (''m-'' @ Itoa (xIds x + 1)) (reRunID env) reason
                 (if TrimSpace fallback = [] then ''cancellation requested'' else fallback) (xBook x, xS x)
           in (x\<lparr>xBook := fst st, xS := snd st, xLog := xLog x @ evs, xIds := (if evs = [] then xIds x else xIds x + 1)\<rparr>, Stop reason d turn))"
  by (simp add: contextStop_def stopped_def Let_def split: prod.split)

lemma contextStop_outcome:
  assumes "contextStop env wall turn fallback x = (x', oc)"
  shows "adds harness_line x x'" and "\<exists>reason detail. oc = Stop reason detail turn \<and> DeclaredStopReason reason"
    and "xTurn x' = xTurn x"
proof -
  let ?r = "abortReason (sID (xS x)) (reRunID env) (xBook x)"
  let ?a = "recordAbort (rePartialPath env) (reEncode env) (reEstimate env) (''m-'' @ Itoa (xIds x + 1)) (reRunID env) ?r
                 (if TrimSpace fallback = [] then ''cancellation requested'' else fallback) (xBook x, xS x)"
  obtain st d evs where a: "?a = (st, d, evs)" by (cases ?a) auto
  have w: "DeclaredStopReason ''wall_clock''" by (simp add: DeclaredStopReason_def StopReasons_def)
  show "adds harness_line x x'"
    using assms recordAbort_messages [of "rePartialPath env" "reEncode env" "reEstimate env" "''m-'' @ Itoa (xIds x + 1)" "reRunID env" ?r
        "if TrimSpace fallback = [] then ''cancellation requested'' else fallback" "xBook x" "xS x"]
    unfolding contextStop_cases a Let_def by (cases wall) (auto simp: adds_def)
  show "\<exists>reason detail. oc = Stop reason detail turn \<and> DeclaredStopReason reason" "xTurn x' = xTurn x"
    using assms abortReason_declared [of "sID (xS x)" "reRunID env" "xBook x"] w
    unfolding contextStop_cases a Let_def by (cases wall; force)+
qed
end
