(* ===== verification/Run_Model.thy ===== *)
theory Run_Model
  imports Run_State
begin

text \<open>
  The model call of a turn: how \<open>run.go\<close> reads a failed call, how it finds the window of a connection, and the phase
  \<open>callModel\<close> of \<open>run_phases.go\<close> with its retries, its fallback connection and the refusals a run learns from.
  A failed call is its text, the transport kind of \<open>llm.TransportKindOf\<close> and whether it is a cancellation. \<open>rx p t\<close> is
  \<open>regexp.FindStringSubmatch\<close> of the pattern with source text \<open>p\<close>: the match and its groups, empty when there is none.
\<close>

section \<open>Reading an error\<close>

record model_error =
  erText :: string
  erTransport :: string
  erCanceled :: bool

type_synonym matcher = "string \<Rightarrow> string \<Rightarrow> string list"

text \<open>\<open>HTTP (\d{3})\<close>: the digits of the leftmost match.\<close>

fun find_status :: "string \<Rightarrow> string option" where
  "find_status [] = None"
| "find_status (c # s) =
     (if prefix ''HTTP '' (c # s) \<and> length (take 3 (drop 4 s)) = 3 \<and> list_all is_digit (take 3 (drop 4 s)) then Some (take 3 (drop 4 s))
      else find_status s)"

text \<open>\<open>fmt.Sscanf\<close> with \<open>%d\<close> of a string of digits, 0 when there are none or the value does not fit.\<close>

definition scan_int :: "string \<Rightarrow> int" where
  "scan_int s = (let n = digits_value 0 (takeWhile is_digit s) in if n < 2 ^ 63 then n else 0)"

definition refusalType :: string where
  "refusalType = [CHR 0x22] @ ''type'' @ [CHR 0x22, CHR 0x5C] @ ''s*:'' @ [CHR 0x5C] @ ''s*'' @ [CHR 0x22] @ ''([A-Za-z_]{1,48})'' @ [CHR 0x22]"

definition serverRefusal :: "matcher \<Rightarrow> model_error \<Rightarrow> int \<times> string" where
  "serverRefusal rx err =
     (case find_status (erText err) of
        None \<Rightarrow> (0, [])
      | Some digits \<Rightarrow> (scan_int digits, case rx refusalType (erText err) of _ # kind # _ \<Rightarrow> kind | _ \<Rightarrow> []))"

definition retryableModelCall :: "matcher \<Rightarrow> model_error \<Rightarrow> bool" where
  "retryableModelCall rx err \<longleftrightarrow> erTransport err \<noteq> [] \<or> fst (serverRefusal rx err) \<in> set [502, 503, 504, 529]"

definition fallbackEligible :: "matcher \<Rightarrow> model_error \<Rightarrow> bool" where
  "fallbackEligible rx err =
     (if erCanceled err then False
      else if erTransport err \<noteq> [] then True
      else 500 \<le> fst (serverRefusal rx err) \<and> fst (serverRefusal rx err) \<le> 599)"

definition modelUnavailable :: "model_error \<Rightarrow> bool" where
  "modelUnavailable err \<longleftrightarrow> \<not> erCanceled err \<and> erTransport err = ''dial''"

text \<open>The patterns that name a limit are passed on by name; their first group is the sentence, their second the number.\<close>

definition messageLimitError :: "matcher \<Rightarrow> model_error \<Rightarrow> (int \<times> string) option" where
  "messageLimitError rx err =
     (case rx ''messageLimitPattern'' (erText err) of
        _ # sentence # number # _ \<Rightarrow> if scan_int number \<le> 1 then None else Some (scan_int number, TrimSpace sentence)
      | _ \<Rightarrow> None)"

definition trim_quotes :: "string \<Rightarrow> string" where
  "trim_quotes s = (let q = (\<lambda>c. c = CHR 0x5C \<or> c = CHR 0x22) in rev (dropWhile q (rev (dropWhile q s))))"

definition byteLimitError :: "matcher \<Rightarrow> model_error \<Rightarrow> (int \<times> string) option" where
  "byteLimitError rx err =
     (case rx ''byteLimitPattern'' (erText err) of
        _ # sentence # number # _ \<Rightarrow> if scan_int number \<le> 1 then None else Some (scan_int number, TrimSpace (trim_quotes sentence))
      | _ \<Rightarrow> None)"

definition windowLimitError :: "matcher \<Rightarrow> model_error \<Rightarrow> int option" where
  "windowLimitError rx err =
     (let read = (\<lambda>p. case rx p (erText err) of [_, number] \<Rightarrow> scan_int number | _ \<Rightarrow> 0)
      in case find (\<lambda>n. n > 0) (map read [''windowLimitPatterns 0'', ''windowLimitPatterns 1'']) of Some n \<Rightarrow> Some n | None \<Rightarrow> None)"

definition tokenWindowRefusal :: "(string \<Rightarrow> string) \<Rightarrow> model_error \<Rightarrow> bool" where
  "tokenWindowRefusal to_lower err \<longleftrightarrow>
     (let t = to_lower (erText err)
      in Contains t ''context'' \<and> (Contains t ''window'' \<or> Contains t ''context length'' \<or> Contains t ''context size'') \<and>
         (Contains t ''exceed'' \<or> Contains t ''too long'' \<or> Contains t ''maximum''))"

definition attachedPartRefusal :: "matcher \<Rightarrow> model_error \<Rightarrow> bool" where
  "attachedPartRefusal rx err \<longleftrightarrow> fst (serverRefusal rx err) \<in> set [400, 415, 422]"

definition templateRefused :: "model_error \<Rightarrow> bool" where
  "templateRefused err = Contains (erText err) ''apply-template HTTP 4''"

section \<open>The window of a connection\<close>

text \<open>\<open>props\<close> are the two sizes that the server's \<open>/props\<close> gave, \<open>None\<close> for a failed request; \<open>quote\<close> is \<open>strconv.Quote\<close>.\<close>

definition resolveContextWindow :: "(string \<Rightarrow> string) \<Rightarrow> (run_connection \<Rightarrow> (int \<times> int) option) \<Rightarrow> run_connection \<Rightarrow> string + run_connection \<times> string" where
  "resolveContextWindow quote props c =
     (if rcNCtx c > 0 then Inr (c, ''connection context size'')
      else if rcProbedNCtx c > 0 then Inr (c\<lparr>rcNCtx := rcProbedNCtx c\<rparr>, ''probed n_ctx'')
      else let label = (if TrimSpace (rcLabel c) = [] then rcID c else TrimSpace (rcLabel c));
               unknown = Inl (''connection '' @ quote label @ '' context size unknown'')
           in case props c of
                Some (slot, whole) \<Rightarrow>
                  if slot > 0 then Inr (c\<lparr>rcNCtx := slot\<rparr>, ''per-slot /props n_ctx'')
                  else if whole > 0 then Inr (c\<lparr>rcNCtx := whole\<rparr>, ''/props n_ctx'')
                  else unknown
              | None \<Rightarrow> unknown)"

definition SetServerWindow :: "string \<Rightarrow> int \<Rightarrow> (string, int) gomap \<Rightarrow> (string, int) gomap" where
  "SetServerWindow connectionID window ws = (if window \<le> 0 then mdel connectionID ws else mput connectionID window ws)"

definition resolveWindow ::
  "(string \<Rightarrow> string) \<Rightarrow> (run_connection \<Rightarrow> (int \<times> int) option) \<Rightarrow> (string, int) gomap \<Rightarrow> run_connection \<Rightarrow> string + run_connection \<times> string" where
  "resolveWindow quote props windows c =
     (let resolved = resolveContextWindow quote props c
      in if rcNCtx c > 0 then resolved
         else case resolved of
                Inl e \<Rightarrow> Inl e
              | Inr (r, source) \<Rightarrow>
                  (case mget windows (rcID c) of
                     None \<Rightarrow> Inr (r, source)
                   | Some w \<Rightarrow>
                       if w \<ge> rcNCtx r then Inr (r, source)
                       else Inr (r\<lparr>rcNCtx := w, rcReserveOutput := min (rcReserveOutput r) (w sdiv 2)\<rparr>,
                                 ''the server allows '' @ Itoa w @ '' tokens per request'')))"

definition connectionWithProfileThinking :: "bool \<Rightarrow> run_connection \<Rightarrow> run_connection" where
  "connectionWithProfileThinking thinking c =
     (let control = (if rcReasoningControl c = ''auto'' then rcProbedReasoningControl c else rcReasoningControl c)
      in c\<lparr>rcReasoningEnabled := (thinking \<and> control \<noteq> [] \<and> control \<noteq> ''none'')\<rparr>)"

section \<open>One answer\<close>

text \<open>What a turn's call meets: \<open>mcAttempt i\<close> says whether attempt \<open>i\<close> reports that it waits, the deltas it streams and how it
  ends; \<open>mcWaitCancelled i\<close> is the context's error when the pause after attempt \<open>i\<close> is cancelled. \<open>mcCancelled\<close>: whether the
  run's context is cancelled when the call failed, and then whether by the wall clock; \<open>mcCallCancelled\<close>: whether the call's own context is.
  \<open>mcReturns\<close>: whether the message could be given back to its sender.\<close>

record model_call =
  mcAttempt :: "nat \<Rightarrow> bool \<times> delta list \<times> response \<times> model_error option"
  mcRetries :: nat
  mcWaitCancelled :: "nat \<Rightarrow> model_error option"
  mcCancelled :: "bool option"
  mcCallCancelled :: bool
  mcElapsed :: string
  mcAttachedKind :: string
  mcRx :: matcher
  mcConnection :: "string \<Rightarrow> run_connection option"
  mcReturns :: bool
  mcHost :: string
  mcKind :: string
  mcCeil :: "nat \<Rightarrow> int"

type_synonym argument_sizes = "(int, nat \<times> nat) gomap"

definition deliver_delta :: "run_env \<Rightarrow> model_call \<Rightarrow> delta \<Rightarrow> loop_state \<times> argument_sizes \<Rightarrow> loop_state \<times> argument_sizes" where
  "deliver_delta env mc d st =
     (let (x, sizes) = st;
          x1 = (if dKind d \<noteq> ''progress'' then x\<lparr>xAnswerBegan := True\<rparr> else x);
          x2 = x1\<lparr>xBook := addFlightDelta (sID (xS x1)) (reRunID env) d (xBook x1)\<rparr>
      in if dKind d = ''progress'' then
           (xpub env ''model.progress'' [(''turn'', VInt (xTurn x2)), (''total'', VInt (dTotal d)), (''cache'', VInt (dCache d)), (''processed'', VInt (dProcessed d))] x2, sizes)
         else let x3 = (if dKind d = ''content'' then on_xs (UpdatePartial (xPartial x2 @ dText d)) (x2\<lparr>xPartial := xPartial x2 @ dText d\<rparr>) else x2);
                  (bytes, runes) = mget_or (0, 0) sizes (dIndex d);
                  size = (bytes + length (dText d), runes + rune_count (dText d));
                  base = [(''turn'', VInt (xTurn x3)), (''kind'', VStr (dKind d)), (''index'', VInt (dIndex d)), (''text'', VStr (durableModelDeltaText (dKind d) (dText d)))]
              in if dKind d = ''tool_call''
                 then (xpub env ''model.delta'' (base @ [(''call_id'', VStr (dCallID d)), (''name'', VStr (dName d)), (''argument_bytes'', VInt (int (fst size))),
                         (''argument_tokens'', VInt (mcCeil mc (snd size)))]) x3, mput (dIndex d) size sizes)
                 else (xpub env ''model.delta'' base x3, sizes))"

definition publish_busy :: "run_env \<Rightarrow> model_call \<Rightarrow> string \<Rightarrow> loop_state \<Rightarrow> loop_state" where
  "publish_busy env mc detail x = xpub env ''model.busy'' [(''host'', VStr (mcHost mc)), (''detail'', VStr detail)] x"

text \<open>The loop of attempts: an attempt is repeated only when nothing was streamed yet, the failure is one that passes, and pauses are left.
  The first flag says whether an attempt reported that it waits, the second whether the loop left through a cancelled pause.\<close>

fun call_attempts ::
  "run_env \<Rightarrow> model_call \<Rightarrow> nat \<Rightarrow> nat \<Rightarrow> argument_sizes \<Rightarrow> bool \<Rightarrow> loop_state \<Rightarrow> loop_state \<times> bool \<times> bool \<times> response \<times> model_error option" where
  "call_attempts env mc left attempt sizes busy x =
     (let (waits, deltas, rp, err) = mcAttempt mc attempt;
          x1 = (if waits then publish_busy env mc ''connected; waiting for model response'' x else x);
          (x2, sizes1) = fold (deliver_delta env mc) deltas (x1, sizes);
          busy1 = (busy \<or> waits)
      in case err of
           None \<Rightarrow> (x2, busy1, False, rp, None)
         | Some e \<Rightarrow>
             (if xAnswerBegan x2 \<or> \<not> retryableModelCall (mcRx mc) e then (x2, busy1, False, rp, err)
              else case left of
                     0 \<Rightarrow> (x2, busy1, False, rp, err)
                   | Suc left1 \<Rightarrow>
                       let x3 = publish_busy env mc (''model unreachable '' @ [CHR 0xC2, CHR 0xB7] @ '' trying again '' @ [CHR 0xC2, CHR 0xB7] @ '' try '' @
                             Itoa (int attempt + 2) @ '' of '' @ Itoa (int (mcRetries mc) + 1)) x2
                       in case mcWaitCancelled mc attempt of
                            Some ce \<Rightarrow> (x3, busy1, True, rp, Some ce)
                          | None \<Rightarrow> call_attempts env mc left1 (Suc attempt) sizes1 busy1 x3))"

declare call_attempts.simps [simp del]

section \<open>A failed call\<close>

definition beginFallback :: "run_env \<Rightarrow> model_call \<Rightarrow> model_error \<Rightarrow> loop_state \<Rightarrow> loop_state \<times> bool" where
  "beginFallback env mc err x =
     (let c = xConnection x
      in if xFallbackActive x \<or> rcFallback c = [] \<or> xAnswerBegan x \<or> \<not> fallbackEligible (mcRx mc) err then (x, False)
         else case mcConnection mc (rcFallback c) of
                None \<Rightarrow> (x, False)
              | Some fallback \<Rightarrow>
                  if rcID fallback = rcID c then (x, False)
                  else (xpub env ''session.updated'' [(''session_id'', VStr (sID (xS x))), (''notice'', VStr (rcLabel c @ '' did not answer '' @
                          [CHR 0xE2, CHR 0x80, CHR 0x94] @ '' continuing on '' @ rcLabel fallback))]
                          (x\<lparr>xPrimaryLabel := rcLabel c, xPrimaryWindow := rcNCtx c, xFallbackID := rcID fallback, xFallbackActive := True\<rparr>), True))"

definition again_shorter :: "string \<Rightarrow> loop_state \<Rightarrow> loop_state" where
  "again_shorter sentence x = x\<lparr>xRefusalSentence := sentence, xRefusalAttempt := xRefusalAttempt x + 1, xTurn := xTurn x - 1\<rparr>"

definition answerCeilingDetail :: "run_connection \<Rightarrow> string \<Rightarrow> string" where
  "answerCeilingDetail c elapsed =
     ''the answer ran past the '' @ Itoa (rcAnswerCeilingSeconds c) @ ''-second ceiling for one answer ('' @ elapsed @
     '' seconds elapsed) and was stopped; what it produced is kept above, marked truncated. The ceiling is the '' @ rcLabel c @ '' connection'' @ [CHR 0x27] @
     ''s context.answer_ceiling_seconds and is yours to change''"

definition returned_note :: "model_call \<Rightarrow> model_error \<Rightarrow> loop_state \<Rightarrow> string" where
  "returned_note mc err x =
     (if \<not> xAnswerBegan x \<and> \<not> xAnsweredThisRun x \<and> mcReturns mc then erText err @ [CHR 0x0A] @ ''your message is back in the box'' else erText err)"

text \<open>The last part: an attachment the server refused is sent as text, another connection is tried, else the run stops.\<close>

definition call_gives_up :: "run_env \<Rightarrow> model_call \<Rightarrow> model_error \<Rightarrow> loop_state \<Rightarrow> loop_state \<times> outcome" where
  "call_gives_up env mc err x =
     (if mcAttachedKind mc \<noteq> [] \<and> xAttachmentsAsTextTurn x \<noteq> xTurn x \<and> attachedPartRefusal (mcRx mc) err then
        (let x1 = xpub env ModelRetry [(''turn'', VInt (xTurn x)), (''reason'', VStr ''attachment_as_text''), (''kind'', VStr (mcAttachedKind mc)),
               (''attempt'', VInt 1), (''max_attempts'', VInt 1)] (x\<lparr>xAttachmentsAsTextTurn := xTurn x\<rparr>)
         in (x1\<lparr>xTurn := xTurn x1 - 1\<rparr>, Again))
      else case beginFallback env mc err x of
             (x1, True) \<Rightarrow> (x1\<lparr>xTurn := xTurn x1 - 1\<rparr>, Again)
           | (x1, False) \<Rightarrow>
               if modelUnavailable err then
                 (let x2 = xpub env ''model.unreachable'' [(''host'', VStr (mcHost mc)), (''detail'', VStr (erText err))] x1
                  in (x2\<lparr>xPublishFinalBudget := False\<rparr>, Stop ''model_unreachable'' (returned_note mc err x2) (xTurn x2)))
               else (x1, Stop ''model_error'' (returned_note mc err x1) (xTurn x1)))"

text \<open>The refusals a run learns a limit from.\<close>

definition call_refused :: "run_env \<Rightarrow> model_call \<Rightarrow> model_error \<Rightarrow> loop_state \<Rightarrow> loop_state \<times> outcome" where
  "call_refused env mc err x =
     (let only = '' This limit applies only to this run.''
      in case byteLimitError (mcRx mc) err of
           Some (limit, sentence) \<Rightarrow>
             (again_shorter sentence (appendHarnessLine env (xTurn x) (''The server refused this run above '' @ Itoa limit @ '' bytes: '' @ sentence @ ''.'' @ only)
                (x\<lparr>xRunByteLimit := limit, xConnection := (xConnection x)\<lparr>rcObservedByteLimit := limit\<rparr>\<rparr>)), Again)
         | None \<Rightarrow>
       (case messageLimitError (mcRx mc) err of
           Some (limit, sentence) \<Rightarrow>
             (again_shorter sentence (appendHarnessLine env (xTurn x) (''The server refused this run above '' @ Itoa limit @ '' messages: '' @ sentence @ ''.'' @ only)
                (x\<lparr>xRunMessageLimit := limit, xConnection := (xConnection x)\<lparr>rcObservedMessageLimit := limit\<rparr>\<rparr>)), Again)
         | None \<Rightarrow>
       (case windowLimitError (mcRx mc) err of
           Some window \<Rightarrow>
             (again_shorter (erText err) (appendHarnessLine env (xTurn x) (''The server refused this run above a '' @ Itoa window @
                ''-token window. This window applies only to this run.'') (x\<lparr>xRunWindow := window\<rparr>)), Again)
         | None \<Rightarrow>
             if tokenWindowRefusal (reToLower env) err then (again_shorter (erText err) x, Again)
             else call_gives_up env mc err x)))"

definition call_failed :: "run_env \<Rightarrow> model_call \<Rightarrow> response \<Rightarrow> model_error \<Rightarrow> loop_state \<Rightarrow> loop_state \<times> outcome" where
  "call_failed env mc rp err x =
     (case mcCancelled mc of
        Some wall \<Rightarrow> contextStop env wall (xTurn x) ''model call canceled'' x
      | None \<Rightarrow>
          let (status, kind) = serverRefusal (mcRx mc) err;
              x1 = (if status > 0 then xpub env ''model.refused'' [(''status'', VInt status), (''error_type'', VStr kind), (''connection_kind'', VStr (mcKind mc))] x else x)
          in if mcCallCancelled mc \<and> rcAnswerCeilingSeconds (xConnection x1) > 0 then
               (keepTruncatedAnswer env (if TrimSpace (rpContent rp) = [] then xPartial x1 else rpContent rp) (rpReasoning rp) x1,
                Stop ''length'' (answerCeilingDetail (xConnection x1) (mcElapsed mc)) (xTurn x1))
             else call_refused env mc err x1)"

text \<open>The phase; on success it hands on the response.\<close>

definition callModel :: "run_env \<Rightarrow> model_call \<Rightarrow> loop_state \<Rightarrow> loop_state \<times> outcome \<times> response" where
  "callModel env mc x =
     (let x1 = stage_enter env (xTurn x) ''call_model'' (x\<lparr>xPartial := [], xAnswerBegan := False\<rparr>);
          (x2, busy, cut, rp, err) = call_attempts env mc (mcRetries mc) 0 [] False x1;
          x3 = stage_exit env (xTurn x2) ''call_model'' (if cut then x2 else on_xs (UpdatePartial []) x2)
      in case err of
           None \<Rightarrow> ((if busy then xpub env ModelReachable [(''connection_id'', VStr (rcID (xConnection x3)))] x3 else x3), GoOn, rp)
         | Some e \<Rightarrow> (case call_failed env mc rp e x3 of (x4, oc) \<Rightarrow> (x4, oc, rp)))"
end
