(* ===== verification/Run_Answer.thy ===== *)
theory Run_Answer
  imports Run_State
begin

text \<open>
  Reading a model answer: the phase \<open>readAnswer\<close> of \<open>internal/agent/run_phases.go\<close>, cut where the code can leave it.
  Left out are the usage book of the budget service, the callback that a model answered and the raw bytes of the response event.
\<close>

section \<open>The phase\<close>

definition answer_calls :: "response \<Rightarrow> tool_call list" where
  "answer_calls rp = map (\<lambda>c. \<lparr>tcID = lcID c, tcName = lcName c, tcArguments = lcArguments c\<rparr>) (rpToolCalls rp)"

definition answer_begin :: "response \<Rightarrow> loop_state \<Rightarrow> loop_state" where
  "answer_begin rp x =
     (let x1 = x\<lparr>xToolCalls := answer_calls rp\<rparr>;
          x2 = (if answer_calls rp \<noteq> [] then x1\<lparr>xAnnouncedActionContinued := False\<rparr> else x1)
      in (on_xs RecordModelTurn x2)\<lparr>xAnsweredThisRun := True\<rparr>)"

definition malformed_instruction :: string where
  "malformed_instruction = ''The previous response ended as tool_calls but contained no calls. Return one complete offered tool call or a final answer.''"

definition unoffered_instruction :: string where
  "unoffered_instruction = ''The previous response named no offered tool. Use only an offered tool or return a final answer.''"

definition model_retry :: "run_env \<Rightarrow> string \<Rightarrow> (string \<times> val) list \<Rightarrow> loop_state \<Rightarrow> loop_state" where
  "model_retry env reason extra x =
     xpub env ModelRetry ([(''turn'', VInt (xTurn x)), (''next_turn'', VInt (xTurn x + 1)), (''reason'', VStr reason)] @ extra @
       [(''attempt'', VInt 1), (''max_attempts'', VInt 1)]) x"

text \<open>The calls that were offered; each dropped or collapsed one becomes a harness line.\<close>

definition answer_guard :: "run_env \<Rightarrow> loop_state \<Rightarrow> loop_state" where
  "answer_guard env x =
     (let x1 = fold (\<lambda>c x. if \<not> mtrue (xEnabled x) (tcName c)
                then xpub env ''tool.unoffered'' [(''turn'', VInt (xTurn x)), (''name'', VStr (tcName c))] x else x) (xToolCalls x) x;
          (kept, lines) = guardModelToolCalls (xToolCalls x1) (xEnabled x1)
      in fold (\<lambda>line x. appendHarnessLine env (xTurn x) line x) lines (x1\<lparr>xToolCalls := kept\<rparr>))"

definition answer_publish :: "run_env \<Rightarrow> response \<Rightarrow> loop_state \<Rightarrow> loop_state" where
  "answer_publish env rp x =
     (let visible = reVisible env (rpReasoning rp);
          (tokens, estimated) = (if usReasoning (rpUsage rp) > 0 then (usReasoning (rpUsage rp), False) else reCount env visible);
          durable = sanitizedToolCalls (reUnmarshal env) (reMarshal env) (reEqualFold env) (xToolCalls x);
          used = VObj [(''prompt_tokens'', VInt (usPrompt (rpUsage rp))), (''completion_tokens'', VInt (usCompletion (rpUsage rp))),
                       (''cached_tokens'', nullable (usCached (rpUsage rp)))];
          x1 = x\<lparr>xDurableToolCalls := durable\<rparr>;
          x2 = xpub env ''model.response'' [(''turn'', VInt (xTurn x)), (''finish_reason'', VStr (rpFinishReason rp)), (''content'', VStr (rpContent rp)),
                 (''reasoning_tokens'', VInt tokens), (''reasoning_tokens_estimated'', VBool estimated), (''tool_calls'', VCalls durable),
                 (''usage'', used), (''timings'', rpTimings rp), (''duration_ms'', VInt (rpDurationMS rp))] x1;
          x3 = (if sRole (xS x2) = ''e'' \<and> reParent env \<noteq> []
                then x2\<lparr>xLog := xLog x2 @ [New ''delegate.usage'' (reParent env) (reRunID env) [(''connection_id'', VStr (rcID (xConnection x))),
                       (''usage'', used), (''tool_calls'', VCalls durable)]]\<rparr>
                else x2)
      in in_stage env ''parse'' (\<lambda>x. x) x3)"

text \<open>A first pass that spent its share on reasoning is sent again without thinking.\<close>

definition spent_on_reasoning :: "run_env \<Rightarrow> response \<Rightarrow> loop_state \<Rightarrow> bool" where
  "spent_on_reasoning env rp x \<longleftrightarrow>
     rpFinishReason rp = ''length'' \<and> rpToolCalls rp = [] \<and> TrimSpace (rpContent rp) = [] \<and>
     TrimSpace (reVisible env (rpReasoning rp)) \<noteq> [] \<and> xReasoningFallbackAllowance x > 0 \<and> \<not> xReasoningFallbackUsed x"

definition answer_reasoning :: "loop_state \<Rightarrow> response \<Rightarrow> response" where
  "answer_reasoning x rp =
     (if xReasoningFallbackUsed x \<and> TrimSpace (xReasoningFallbackPrior x) \<noteq> [] then
        rp\<lparr>rpReasoning := (if TrimSpace (rpReasoning rp) = [] then xReasoningFallbackPrior x
            else xReasoningFallbackPrior x @ newlines @ TrimSpace (rpReasoning rp))\<rparr>
      else rp)"

definition retry_truncated :: "run_env \<Rightarrow> loop_state \<Rightarrow> loop_state \<times> outcome" where
  "retry_truncated env x =
     (let first = firstToolName (xDurableToolCalls x)
      in if xLengthSeen x then (x, Stop ''length'' (''truncated '' @ first @ '' call hit the output limit twice'') (xTurn x))
         else if first = [] then (x, Stop ''length'' ''truncated tool call had no function name and could not be retried safely'' (xTurn x))
         else (model_retry env ''truncated_tool_call'' [(''tool'', VStr first)] (x\<lparr>xLengthSeen := True, xTruncatedToolRetry := first,
                 xRetryInstruction := ''The previous '' @ first @ '' call was truncated. Return that complete offered tool call again, with valid JSON arguments.''\<rparr>),
               Again))"

definition assistant_message :: "run_env \<Rightarrow> string \<Rightarrow> string \<Rightarrow> loop_state \<Rightarrow> loop_state \<times> message" where
  "assistant_message env content reasoning x =
     (let (visible, proposals) = reProposals env (xS x) content;
          (x1, m) = makeMessage env ''assistant'' visible ''history'' (xTurn x) x;
          m1 = m\<lparr>mReasoning := reasoning, mPlanProposals := bindPlanProposalSources (sMessages (xS x)) proposals (mID m)\<rparr>
      in (x1\<lparr>xCurrentReasoning := mID m1 # xCurrentReasoning x1\<rparr>, m1))"

text \<open>What a final answer is stored as, and why the run stops with it; \<open>None\<close> when an announced action is continued.\<close>

definition final_answer :: "run_env \<Rightarrow> response \<Rightarrow> loop_state \<Rightarrow> string \<times> (string \<times> string) option" where
  "final_answer env rp x =
     (let dash = [CHR 0xE2, CHR 0x80, CHR 0x94]; r = TrimSpace (reVisible env (rpReasoning rp))
      in if TrimSpace (rpContent rp) = [] then
           (if r \<noteq> [] then (r @ newlines @ ''[answer taken from the model'' @ [CHR 0x27] @ ''s reasoning]'',
                            Some (''reply_empty_reasoning_shown'', ''reply empty '' @ dash @ '' reasoning shown''))
            else (''[model returned an empty reply]'', Some (''reply_empty'', ''reply empty '' @ dash @ '' no reasoning available'')))
         else if rpFinishReason rp = ''stop'' \<and> announcedActionOnly (reToLower env) (rpContent rp) then
           (rpContent rp, if xAnnouncedActionContinued x
              then Some (''announced_action_and_stopped'', ''announced an action and stopped twice in a row'') else None)
         else (rpContent rp, Some (''done'', [])))"

definition store_answer :: "run_env \<Rightarrow> string \<Rightarrow> string \<Rightarrow> loop_state \<Rightarrow> loop_state" where
  "store_answer env content reasoning =
     in_stage env ''append'' (\<lambda>x. let (x1, m) = assistant_message env content reasoning x in append_message env m x1)"

definition answer_final :: "run_env \<Rightarrow> response \<Rightarrow> loop_state \<Rightarrow> loop_state \<times> outcome" where
  "answer_final env rp x =
     (if rpFinishReason rp = ''length'' then
        (keepTruncatedAnswer env (rpContent rp) (rpReasoning rp) x,
         Stop ''length'' (truncationDetail env (xConnection x) (rpContent rp) (xReasoningFallbackUsed x)) (xTurn x))
      else
        let (content, verdict) = final_answer env rp x;
            x1 = store_answer env content (rpReasoning rp) x
        in case verdict of
             None \<Rightarrow> (model_retry env ''announced_action'' [] (x1\<lparr>xAnnouncedActionContinued := True, xAutoContinue := True\<rparr>), Again)
           | Some (reason, detail) \<Rightarrow>
               if reason \<noteq> ''done'' then (x1, Stop reason detail (xTurn x1))
               else (case reSkill env (xS x1) of
                  None \<Rightarrow> (x1, Stop ''done'' [] (xTurn x1))
                | Some (Inl err) \<Rightarrow> (x1, Stop ''done'' (''skill proposal: '' @ err) (xTurn x1))
                | Some (Inr d) \<Rightarrow> if d \<noteq> [] then (appendHarnessLine env (xTurn x1) d x1, Stop ''done'' d (xTurn x1))
                                  else (x1, Stop ''done'' [] (xTurn x1))))"

text \<open>From the check for a truncated call to the end of the phase.\<close>

definition settle_retry :: "loop_state \<Rightarrow> loop_state" where
  "settle_retry x = (if xTruncatedToolRetry x \<noteq> [] then x\<lparr>xTruncatedToolRetry := [], xRetryInstruction := [], xLengthSeen := False\<rparr> else x)"

definition answer_decide :: "run_env \<Rightarrow> response \<Rightarrow> loop_state \<Rightarrow> loop_state \<times> outcome" where
  "answer_decide env rp x =
     (if rpFinishReason rp = ''length'' \<and> xToolCalls x \<noteq> [] then retry_truncated env x
      else if xTruncatedToolRetry x \<noteq> [] \<and> (xToolCalls x = [] \<or> firstToolName (xDurableToolCalls x) \<noteq> xTruncatedToolRetry x)
      then (x, Stop ''length'' (''truncated '' @ xTruncatedToolRetry x @ '' call retry did not return that tool call'') (xTurn x))
      else let x1 = settle_retry x
           in if xToolCalls x1 = [] \<and> rpFinishReason rp \<noteq> ''tool_calls'' then answer_final env rp x1
              else let (x2, m) = assistant_message env (rpContent rp) (rpReasoning rp) x1
                   in (x2\<lparr>xAssistant := m\<lparr>mToolCalls := xDurableToolCalls x2\<rparr>\<rparr>, GoOn))"

text \<open>The part of the phase after the check for a turn without calls.\<close>

definition answer_read :: "run_env \<Rightarrow> response \<Rightarrow> loop_state \<Rightarrow> loop_state \<times> outcome" where
  "answer_read env rp x2 =
     (if rpToolCalls rp \<noteq> [] \<and> xToolCalls x2 = [] then (x2\<lparr>xRetryInstruction := unoffered_instruction\<rparr>, Again)
      else let x3 = answer_publish env rp x2
           in if spent_on_reasoning env rp x3
              then (x3\<lparr>xReasoningFallbackPrior := TrimSpace (reVisible env (rpReasoning rp)), xReasoningFallbackPending := True, xTurn := xTurn x3 - 1\<rparr>, Again)
              else answer_decide env (answer_reasoning x3 rp) x3)"

definition readAnswer :: "run_env \<Rightarrow> response \<Rightarrow> loop_state \<Rightarrow> loop_state \<times> outcome" where
  "readAnswer env rp x =
     (let x1 = answer_begin rp x
      in case malformedToolTurnAction (rpFinishReason rp) (length (xToolCalls x1)) (xMalformedToolRetried x1) of
           (True, _) \<Rightarrow> (model_retry env ''malformed_tool_turn'' []
               (x1\<lparr>xMalformedToolRetried := True, xRetryInstruction := malformed_instruction\<rparr>), Again)
         | (False, True) \<Rightarrow> (appendHarnessLine env (xTurn x1) ''malformed tool turn: finish_reason tool_calls contained no calls twice'' x1,
               Stop ''malformed_turn'' ''finish_reason tool_calls contained no calls after one retry'' (xTurn x1))
         | (False, False) \<Rightarrow> answer_read env rp (answer_guard env x1))"

section \<open>What an answer may do\<close>

lemma fold_keeps: "(\<And>a y. f (g a y) = f y) \<Longrightarrow> f (fold g as y) = f y"
  by (induction as arbitrary: y) simp_all

lemma guard_calls_offered: "list_all (\<lambda>c. offered (tcName c)) (fst (guard_calls offered seen cs))"
  by (induction cs arbitrary: seen) (simp_all add: Let_def split: prod.split, (metis fst_conv)+)

definition answer_frame :: "loop_state \<Rightarrow> loop_state \<Rightarrow> bool" where
  "answer_frame x y \<longleftrightarrow> xTurn y = xTurn x \<and> xEnabled y = xEnabled x \<and> xToolCalls y = xToolCalls x"

lemma harness_lines_fold:
  "adds harness_line x (fold (\<lambda>line x. appendHarnessLine env (xTurn x) line x) ls x)"
  "answer_frame x (fold (\<lambda>line x. appendHarnessLine env (xTurn x) line x) ls x)"
proof (induction ls arbitrary: x)
  case (Cons l ls)
  case 1 show ?case using adds_trans [OF harness_line_adds Cons.IH(1)] by simp
  case 2 show ?case using Cons.IH(2) [of "appendHarnessLine env (xTurn x) l x"] by (simp add: answer_frame_def)
qed (auto simp: answer_frame_def)

lemma answer_guard_spec:
  "adds harness_line x (answer_guard env x)" "xTurn (answer_guard env x) = xTurn x"
  "list_all (\<lambda>c. mtrue (xEnabled x) (tcName c)) (xToolCalls (answer_guard env x))"
  "xEnabled (answer_guard env x) = xEnabled x"
proof -
  define y where "y = fold (\<lambda>c x. if \<not> mtrue (xEnabled x) (tcName c)
                then xpub env ''tool.unoffered'' [(''turn'', VInt (xTurn x)), (''name'', VStr (tcName c))] x else x) (xToolCalls x) x"
  have keep: "xS y = xS x" "xTurn y = xTurn x" "xEnabled y = xEnabled x" "xToolCalls y = xToolCalls x"
    unfolding y_def by (rule fold_keeps; simp)+
  obtain kept ls where g: "guardModelToolCalls (xToolCalls y) (xEnabled y) = (kept, ls)" by fastforce
  have eq: "answer_guard env x = fold (\<lambda>line x. appendHarnessLine env (xTurn x) line x) ls (y\<lparr>xToolCalls := kept\<rparr>)"
    by (simp add: answer_guard_def flip: y_def, simp add: g)
  have "list_all (\<lambda>c. mtrue (xEnabled y) (tcName c)) kept"
    using guard_calls_offered [of "mtrue (xEnabled y)" "[]" "xToolCalls y"] g by (simp add: guardModelToolCalls_def)
  then show "list_all (\<lambda>c. mtrue (xEnabled x) (tcName c)) (xToolCalls (answer_guard env x))"
    using harness_lines_fold(2) [of "y\<lparr>xToolCalls := kept\<rparr>" env ls] keep by (simp add: eq answer_frame_def)
  show "xTurn (answer_guard env x) = xTurn x" "xEnabled (answer_guard env x) = xEnabled x"
    using harness_lines_fold(2) [of "y\<lparr>xToolCalls := kept\<rparr>" env ls] keep by (simp_all add: eq answer_frame_def)
  show "adds harness_line x (answer_guard env x)"
    using harness_lines_fold(1) [of "y\<lparr>xToolCalls := kept\<rparr>" env ls] keep by (simp add: eq adds_def)
qed

lemma answer_begin_frame [simp]:
  "msgs (answer_begin rp x) = msgs x" "xTurn (answer_begin rp x) = xTurn x" "xEnabled (answer_begin rp x) = xEnabled x"
  "xToolCalls (answer_begin rp x) = answer_calls rp" "xMalformedToolRetried (answer_begin rp x) = xMalformedToolRetried x"
  by (simp_all add: answer_begin_def on_xs_def RecordModelTurn_def Let_def)

lemma answer_publish_frame [simp]:
  "xS (answer_publish env rp x) = xS x" "xTurn (answer_publish env rp x) = xTurn x" "xEnabled (answer_publish env rp x) = xEnabled x"
  "xToolCalls (answer_publish env rp x) = xToolCalls x"
  "xDurableToolCalls (answer_publish env rp x) = sanitizedToolCalls (reUnmarshal env) (reMarshal env) (reEqualFold env) (xToolCalls x)"
  by (simp_all only: answer_publish_def in_stage_def Let_def case_prod_beta xpub_frame stage_exit_frame stage_enter_frame loop_state.simps split: if_split)
    simp_all

lemma sanitized_ids:
  "map (\<lambda>c. (tcID c, tcName c)) (sanitizedToolCalls u m e cs) = map (\<lambda>c. (tcID c, tcName c)) cs"
  by (simp add: sanitizedToolCalls_def split: sum.split)

lemma model_retry_frame [simp]: "xS (model_retry env r e x) = xS x" "xTurn (model_retry env r e x) = xTurn x"
  by (simp_all add: model_retry_def)

lemma assistant_message_spec:
  assumes "assistant_message env c r x = (x1, m)"
  shows "xS x1 = xS x" "xTurn x1 = xTurn x" "mRole m = ''assistant''" "mToolCalls m = []" "xEnabled x1 = xEnabled x"
    "xToolCalls x1 = xToolCalls x" "xDurableToolCalls x1 = xDurableToolCalls x"
  using assms by (auto simp: assistant_message_def makeMessage_def Let_def zero_message_def split: prod.splits)

text \<open>What the end of the phase promises: calls of a turn that goes on, reasons of one that stops.\<close>

fun answer_ok :: "loop_state \<Rightarrow> loop_state \<Rightarrow> outcome \<Rightarrow> bool" where
  "answer_ok x x' GoOn \<longleftrightarrow> xToolCalls x' \<noteq> [] \<and> list_all (\<lambda>c. mtrue (xEnabled x) (tcName c)) (xToolCalls x') \<and>
     map (\<lambda>c. (tcID c, tcName c)) (xDurableToolCalls x') = map (\<lambda>c. (tcID c, tcName c)) (xToolCalls x') \<and>
     mToolCalls (xAssistant x') = xDurableToolCalls x' \<and> mRole (xAssistant x') = ''assistant'' \<and> adds harness_line x x'"
| "answer_ok x x' Again \<longleftrightarrow> adds callless x x'"
| "answer_ok x x' (Stop reason detail turns) \<longleftrightarrow> DeclaredStopReason reason \<and> turns = xTurn x \<and> adds callless x x'"

lemma declared_answer_reasons:
  "DeclaredStopReason ''done''" "DeclaredStopReason ''length''" "DeclaredStopReason ''malformed_turn''" "DeclaredStopReason ''reply_empty''"
  "DeclaredStopReason ''reply_empty_reasoning_shown''" "DeclaredStopReason ''announced_action_and_stopped''" "DeclaredStopReason ''cycle''"
  by (simp_all add: DeclaredStopReason_def StopReasons_def)

lemma kept_answer_adds: "adds callless x (keepTruncatedAnswer env c r x)" "xTurn (keepTruncatedAnswer env c r x) = xTurn x"
  by (simp_all add: keepTruncatedAnswer_def in_stage_def Let_def adds_def on_xs_def Append_def makeMessage_def zero_message_def callless_def)

lemma stored_answer_adds: "adds callless x (store_answer env c r x)" "xTurn (store_answer env c r x) = xTurn x"
proof -
  obtain x1 m where a: "assistant_message env c r (stage_enter env (xTurn x) ''append'' x) = (x1, m)" by fastforce
  show "adds callless x (store_answer env c r x)" "xTurn (store_answer env c r x) = xTurn x"
    using assistant_message_spec [OF a] a by (simp_all add: store_answer_def in_stage_def adds_def callless_def)
qed

lemma final_answer_reason: "final_answer env rp x = (c, Some (reason, d)) \<Longrightarrow> DeclaredStopReason reason"
  by (auto simp: final_answer_def Let_def declared_answer_reasons split: if_splits)

lemma answer_final_ok:
  assumes "answer_final env rp x = (x', oc)"
  shows "answer_ok x x' oc"
proof (cases "rpFinishReason rp = ''length''")
  case True
  then show ?thesis using assms kept_answer_adds(1) [of x] by (auto simp: answer_final_def declared_answer_reasons)
next
  case False
  obtain c v where f: "final_answer env rp x = (c, v)" by fastforce
  define y where "y = store_answer env c (rpReasoning rp) x"
  have y: "adds callless x y" "xTurn y = xTurn x" unfolding y_def by (rule stored_answer_adds)+
  have h: "adds callless x (appendHarnessLine env (xTurn x) d y)" for d
    using adds_trans [OF y(1) harness_callless [OF harness_line_adds]] .
  have z: "adds callless x z" if "msgs z = msgs y" for z using y(1) that by (simp add: adds_def)
  show ?thesis
    using assms False y h declared_answer_reasons(1) final_answer_reason [of env rp x c] unfolding answer_final_def f
    by (auto simp: Let_def simp flip: y_def split: option.splits sum.splits if_splits intro!: z)
qed

lemma retry_truncated_ok: "retry_truncated env x = (x', oc) \<Longrightarrow> answer_ok x x' oc"
  by (auto simp: retry_truncated_def Let_def declared_answer_reasons split: if_splits)

text \<open>What the end of the phase may rely on: the calls are offered ones, and their durable copies carry the same ids and names.\<close>

definition answer_ready :: "response \<Rightarrow> loop_state \<Rightarrow> bool" where
  "answer_ready rp x \<longleftrightarrow> list_all (\<lambda>c. mtrue (xEnabled x) (tcName c)) (xToolCalls x) \<and>
     (xToolCalls x = [] \<longrightarrow> rpFinishReason rp \<noteq> ''tool_calls'') \<and>
     map (\<lambda>c. (tcID c, tcName c)) (xDurableToolCalls x) = map (\<lambda>c. (tcID c, tcName c)) (xToolCalls x)"

lemma answer_decide_ok:
  assumes "answer_ready rp x" and "answer_decide env rp x = (x', oc)"
  shows "answer_ok x x' oc"
proof -
  define y where "y = settle_retry x"
  have y: "msgs y = msgs x" "xTurn y = xTurn x" "xEnabled y = xEnabled x" "xToolCalls y = xToolCalls x" "xDurableToolCalls y = xDurableToolCalls x"
    by (simp_all add: y_def settle_retry_def)
  have ok: "answer_ok y x' oc = answer_ok x x' oc" using y by (cases oc) (simp_all add: adds_def)
  show ?thesis
  proof (cases "rpFinishReason rp = ''length'' \<and> xToolCalls x \<noteq> []")
    case True
    then show ?thesis using assms(2) retry_truncated_ok by (simp add: answer_decide_def)
  next
    case False
    note notcut = this
    show ?thesis
    proof (cases "xTruncatedToolRetry x \<noteq> [] \<and> (xToolCalls x = [] \<or> firstToolName (xDurableToolCalls x) \<noteq> xTruncatedToolRetry x)")
      case True
      have "oc = Stop ''length'' (''truncated '' @ xTruncatedToolRetry x @ '' call retry did not return that tool call'') (xTurn x)" "x' = x"
        using assms(2) unfolding answer_decide_def if_not_P [OF notcut] if_P [OF True] by auto
      then show ?thesis by (auto simp: declared_answer_reasons)
    next
      case False
      obtain z m where a: "assistant_message env (rpContent rp) (rpReasoning rp) y = (z, m)" by fastforce
      have "(if xToolCalls y = [] \<and> rpFinishReason rp \<noteq> ''tool_calls'' then answer_final env rp y
             else (z\<lparr>xAssistant := m\<lparr>mToolCalls := xDurableToolCalls z\<rparr>\<rparr>, GoOn)) = (x', oc)"
        using assms(2) unfolding answer_decide_def if_not_P [OF notcut] if_not_P [OF False] Let_def y_def [symmetric] a prod.case .
      then show ?thesis using answer_final_ok ok assms(1) assistant_message_spec [OF a] y
        by (auto simp: answer_ready_def adds_def split: if_splits)
    qed
  qed
qed

lemma answer_ok_cong: "msgs x = msgs y \<Longrightarrow> xTurn x = xTurn y \<Longrightarrow> xEnabled x = xEnabled y \<Longrightarrow> answer_ok x x' oc = answer_ok y x' oc"
  by (cases oc) (simp_all add: adds_def)

lemma answer_ok_after:
  assumes "adds harness_line x y" "xTurn y = xTurn x" "xEnabled y = xEnabled x" "answer_ok y x' oc"
  shows "answer_ok x x' oc"
  using assms adds_trans [OF assms(1)] adds_trans [OF harness_callless [OF assms(1)]] by (cases oc) auto

lemma answer_reasoning_finish [simp]: "rpFinishReason (answer_reasoning x rp) = rpFinishReason rp"
  by (simp add: answer_reasoning_def)

lemma answer_read_ok:
  assumes "list_all (\<lambda>c. mtrue (xEnabled x) (tcName c)) (xToolCalls x)" and "rpToolCalls rp = [] \<Longrightarrow> rpFinishReason rp \<noteq> ''tool_calls''"
    and "answer_read env rp x = (x', oc)"
  shows "answer_ok x x' oc"
proof -
  let ?p = "answer_publish env rp x"
  have r: "answer_ready (answer_reasoning ?p rp) ?p" if "\<not> (rpToolCalls rp \<noteq> [] \<and> xToolCalls x = [])"
    using that assms(1,2) sanitized_ids by (auto simp: answer_ready_def)
  have "answer_ok ?p x' oc" if "\<not> (rpToolCalls rp \<noteq> [] \<and> xToolCalls x = [])"
    using assms(3) answer_decide_ok [OF r [OF that]] that by (auto simp: answer_read_def Let_def split: if_splits)
  then show ?thesis
    using assms(3) answer_ok_cong [of ?p x x' oc] by (cases "rpToolCalls rp \<noteq> [] \<and> xToolCalls x = []") (auto simp: answer_read_def)
qed

lemma readAnswer_ok:
  assumes "readAnswer env rp x = (x', oc)"
  shows "answer_ok x x' oc"
proof -
  let ?b = "answer_begin rp x"
  let ?g = "answer_guard env ?b"
  obtain r e where m: "malformedToolTurnAction (rpFinishReason rp) (length (answer_calls rp)) (xMalformedToolRetried x) = (r, e)" by fastforce
  have eq: "readAnswer env rp x =
      (case (r, e) of (True, _) \<Rightarrow> (model_retry env ''malformed_tool_turn'' []
               (?b\<lparr>xMalformedToolRetried := True, xRetryInstruction := malformed_instruction\<rparr>), Again)
         | (False, True) \<Rightarrow> (appendHarnessLine env (xTurn x) ''malformed tool turn: finish_reason tool_calls contained no calls twice'' ?b,
               Stop ''malformed_turn'' ''finish_reason tool_calls contained no calls after one retry'' (xTurn x))
         | (False, False) \<Rightarrow> answer_read env rp ?g)"
    unfolding readAnswer_def Let_def answer_begin_frame m ..
  have read: "answer_ok x x' oc" if "answer_read env rp ?g = (x', oc)" "\<not> r" "\<not> e"
  proof -
    have f: "rpToolCalls rp = [] \<Longrightarrow> rpFinishReason rp \<noteq> ''tool_calls''"
      using m that(2,3) by (auto simp: malformedToolTurnAction_def answer_calls_def)
    have g: "adds harness_line x ?g" using answer_guard_spec(1) [where x = ?b and env = env] by (simp add: adds_def)
    have c: "list_all (\<lambda>c. mtrue (xEnabled ?g) (tcName c)) (xToolCalls ?g)" using answer_guard_spec(3,4) [where x = ?b and env = env] by simp
    show ?thesis
      using answer_ok_after [OF g _ _ answer_read_ok [OF c f that(1)]] answer_guard_spec(2,4) [where x = ?b and env = env] by simp
  qed
  have "adds callless x (appendHarnessLine env t l ?b)" for t l
    using harness_callless [OF harness_line_adds [of ?b]] by (simp add: adds_def)
  then show ?thesis
    using assms read declared_answer_reasons(3) unfolding eq by (cases r; cases e) auto
qed

section \<open>Properties\<close>

text \<open>How a model answer leads on: the phase \<open>readAnswer\<close> goes on to the tools only with at least one call, every call of a tool that
  was offered to the model, durable copies with the same ids and names, and an assistant message that carries exactly those copies; it
  has then added only lines of the harness. When it retries or stops, no message that carries a tool call was added, and it stops
  in its own turn for a reason that the catalogue declares.\<close>

theorem answer_leads_on:
  "case readAnswer env rp x of (x', oc) \<Rightarrow>
     (case oc of
        GoOn \<Rightarrow> xToolCalls x' \<noteq> [] \<and> list_all (\<lambda>c. mtrue (xEnabled x) (tcName c)) (xToolCalls x') \<and>
          map (\<lambda>c. (tcID c, tcName c)) (xDurableToolCalls x') = map (\<lambda>c. (tcID c, tcName c)) (xToolCalls x') \<and>
          mToolCalls (xAssistant x') = xDurableToolCalls x' \<and> mRole (xAssistant x') = ''assistant'' \<and> adds harness_line x x'
      | Again \<Rightarrow> adds callless x x'
      | Stop reason detail turns \<Rightarrow> DeclaredStopReason reason \<and> turns = xTurn x \<and> adds callless x x')"
proof -
  obtain x' oc where r: "readAnswer env rp x = (x', oc)" by fastforce
  show ?thesis using readAnswer_ok [OF r] r by (cases oc) auto
qed
end
