(* ===== verification/Run_Tools.thy ===== *)
theory Run_Tools
  imports Run_Answer
begin

text \<open>
  Running the tool calls of an answer: \<open>runRawTools\<close>, \<open>runRawTool\<close> and \<open>finishOrRunTools\<close> of
  \<open>internal/agent/run_phases.go\<close>. What a tool does is outside: \<open>tool_run\<close> is what hooks and the tool answered for one call.
  The context's cancellation is an argument: \<open>cancelled_at i\<close> when it is seen before result \<open>i\<close> is fitted, \<open>cancelled\<close> after
  the loop. The file metadata of a produced file and a screenshot, which the code reads from the disk, are part of \<open>tool_run\<close>.
\<close>

section \<open>Batches\<close>

text \<open>Consecutive calls that only read run side by side, at most four at a time; any other call runs alone.\<close>

fun read_run :: "('a \<Rightarrow> bool) \<Rightarrow> 'a list \<Rightarrow> nat" where
  "read_run reads [] = 0"
| "read_run reads (c # cs) = (if reads c then Suc (read_run reads cs) else 0)"

definition segment :: "('a \<Rightarrow> bool) \<Rightarrow> 'a list \<Rightarrow> nat" where
  "segment reads cs = (case cs of [] \<Rightarrow> 0 | c # rest \<Rightarrow> if reads c then Suc (read_run reads rest) else 1)"

function chunks :: "nat \<Rightarrow> 'a list \<Rightarrow> 'a list list" where
  "chunks n [] = []"
| "chunks n (c # cs) = take (Suc n) (c # cs) # chunks n (drop (Suc n) (c # cs))"
  by pat_completeness auto
termination by (relation "measure (\<lambda>(n, cs). length cs)") auto

lemma segment_pos: "cs \<noteq> [] \<Longrightarrow> 0 < segment reads cs"
  by (auto simp: segment_def split: list.split)

function batches :: "('a \<Rightarrow> bool) \<Rightarrow> 'a list \<Rightarrow> 'a list list" where
  "batches reads [] = []"
| "batches reads (c # cs) =
     chunks 3 (take (segment reads (c # cs)) (c # cs)) @ batches reads (drop (segment reads (c # cs)) (c # cs))"
  by pat_completeness auto
termination
proof (relation "measure (\<lambda>(reads, cs). length cs)", goal_cases)
  case (2 reads c cs)
  then show ?case using segment_pos [of "c # cs" reads] by simp
qed simp

section \<open>One call\<close>

record tool_outcome =
  toContent :: string
  toOK :: bool
  toOperatorContext :: bool
  toCategory :: string
  toUntrusted :: bool
  toMetadata :: "(string, val) gomap"

record tool_run =
  trRefusal :: string
  trOutcome :: tool_outcome
  trAfter :: "string list"
  trMs :: int
  trFileMeta :: "(string, val) gomap"
  trScreenMeta :: "(string, val) gomap"
  trUntrustedRead :: bool
  trSaveError :: "string option"
  trNow :: int

record tool_result =
  tlCall :: tool_call
  tlDurableCall :: tool_call
  tlArgs :: "(string, val) gomap"
  tlArgErr :: "string option"
  tlContent :: string
  tlOK :: bool
  tlOperatorContext :: bool
  tlCategory :: string
  tlUntrusted :: bool
  tlMetadata :: "(string, val) gomap"
  tlMs :: int

definition dispatch_call :: "run_env \<Rightarrow> tool_call \<Rightarrow> tool_call \<Rightarrow> tool_result" where
  "dispatch_call env call durable =
     (let zero = \<lparr>tlCall = call, tlDurableCall = durable, tlArgs = [], tlArgErr = None, tlContent = [], tlOK = False, tlOperatorContext = False,
            tlCategory = [], tlUntrusted = False, tlMetadata = [], tlMs = 0\<rparr>
      in case DecodeArgs (reUnmarshal env) (tcArguments call) of
           Inr args \<Rightarrow> zero\<lparr>tlArgs := args\<rparr>
         | Inl e \<Rightarrow> zero\<lparr>tlArgErr := Some e\<rparr>)"

definition runRawTool :: "run_env \<Rightarrow> tool_run \<Rightarrow> tool_result \<Rightarrow> loop_state \<Rightarrow> loop_state \<times> tool_result" where
  "runRawTool env tr item x =
     (case tlArgErr item of
        Some e \<Rightarrow> (x, item\<lparr>tlContent := ''error: '' @ e, tlMs := trMs tr\<rparr>)
      | None \<Rightarrow>
          let (x1, item1) =
                (if trRefusal tr \<noteq> [] then (x, item\<lparr>tlContent := trRefusal tr\<rparr>)
                 else let o1 = trOutcome tr;
                          b1 = setFlightTool (sID (xS x)) (reRunID env) (xTurn x) (tlDurableCall item) (tlArgs item) (xBook x);
                          b2 = setFlightToolOutput (sID (xS x)) (reRunID env) (toContent o1) b1;
                          xa = x\<lparr>xBook := b2\<rparr>
                      in (if toUntrusted o1 then on_xs MarkUntrustedInTurn xa else xa,
                          item\<lparr>tlContent := toContent o1, tlOK := toOK o1, tlOperatorContext := toOperatorContext o1,
                               tlCategory := toCategory o1, tlUntrusted := toUntrusted o1, tlMetadata := toMetadata o1\<rparr>))
          in (x1, item1\<lparr>tlContent := tlContent item1 @ concat (map (\<lambda>output. newlines @ output) (trAfter tr)), tlMs := trMs tr\<rparr>))"

definition announce_call :: "run_env \<Rightarrow> tool_result \<Rightarrow> loop_state \<Rightarrow> loop_state" where
  "announce_call env item x =
     (let x1 = xpub env ''tool.call'' [(''turn'', VInt (xTurn x)), (''call_id'', VStr (tcID (tlCall item))), (''name'', VStr (tcName (tlCall item))),
            (''args'', VObj (sanitizedToolArguments (reEqualFold env) (tcName (tlCall item)) (tlArgs item))),
            (''args_invalid'', VBool (tlArgErr item \<noteq> None))] x
      in if reParent env \<noteq> []
         then x1\<lparr>xLog := xLog x1 @ [New ''delegate.usage'' (reParent env) (reRunID env) [(''child_id'', VStr (sID (xS x))), (''status'', VStr ''running''),
                (''tool'', VStr (tcName (tlCall item))), (''target'', VStr (shortActivityTarget (tlArgs item))), (''turn'', VInt (xTurn x)), (''live'', VBool True)]]\<rparr>
         else x1)"

text \<open>A batch: its calls are announced in order, then each runs; the results of the calls do not depend on their order, and the flight
  book and the session see the calls in some order, here that of the batch.\<close>

definition run_batch :: "run_env \<Rightarrow> (tool_result \<times> tool_run) list \<Rightarrow> loop_state \<Rightarrow> loop_state \<times> tool_result list" where
  "run_batch env batch x =
     fold (\<lambda>(item, tr) (x, done). let (x1, item1) = runRawTool env tr item x in (x1, done @ [item1])) batch
       (fold (announce_call env) (map fst batch) x, [])"

definition runRawTools :: "run_env \<Rightarrow> (tool_result \<times> tool_run) list \<Rightarrow> loop_state \<Rightarrow> loop_state \<times> tool_result list" where
  "runRawTools env items x =
     fold (\<lambda>batch (x, done). let (x1, ds) = run_batch env batch x in (x1, done @ ds))
       (batches (\<lambda>(item, tr). reReads env (tcName (tlCall item)) (tlArgs item)) items) (x, [])"

section \<open>Fitting and recording the results\<close>

definition toolResultContextMargin :: int where
  "toolResultContextMargin = 1024"

definition remaining_tokens :: "budget \<Rightarrow> int" where
  "remaining_tokens b = (if bdNCtx b > 0 then max 0 (bdNCtx b - bdReserve b - bdUsedEst b - toolResultContextMargin) else -1)"

definition with_metadata :: "tool_run \<Rightarrow> tool_result \<Rightarrow> tool_result" where
  "with_metadata tr item =
     (if tlArgErr item = None then
        let item1 = (if tlOK item \<and> tcName (tlCall item) = ''read_file'' \<and> trUntrustedRead tr then item\<lparr>tlUntrusted := True\<rparr> else item)
        in if tlOK item1 then item1\<lparr>tlMetadata := mergeResultMetadata (mergeResultMetadata (tlMetadata item1) (trFileMeta tr)) (trScreenMeta tr)\<rparr>
           else item1
      else item)"

text \<open>The files a successful call produced, by the lower case of their path: the \<open>file\<close> of its metadata and each of its \<open>files\<close>.\<close>

definition file_source :: "val option \<Rightarrow> (string \<times> int) option" where
  "file_source v =
     (case v of Some (VObj f) \<Rightarrow> Some (str_of (mget f ''path''), case mget f ''bytes'' of Some (VInt n) \<Rightarrow> n | _ \<Rightarrow> 0) | _ \<Rightarrow> None)"

definition record_produced :: "run_env \<Rightarrow> tool_result \<Rightarrow> loop_state \<Rightarrow> loop_state" where
  "record_produced env item x =
     (if tlArgErr item \<noteq> None \<or> \<not> tlOK item then x
      else let put = (\<lambda>src p. mput (reToLower env (fst src)) src p);
               p1 = (case file_source (mget (tlMetadata item) ''file'') of Some src \<Rightarrow> put src (xProduced x) | None \<Rightarrow> xProduced x);
               p2 = (case mget (tlMetadata item) ''files'' of
                       Some (VList vs) \<Rightarrow> fold (\<lambda>v p. case file_source (Some v) of Some src \<Rightarrow> if fst src \<noteq> [] then put src p else p | None \<Rightarrow> p) vs p1
                     | _ \<Rightarrow> p1)
           in x\<lparr>xProduced := p2\<rparr>)"

definition refused_window :: "tool_result \<Rightarrow> loop_state \<Rightarrow> loop_state" where
  "refused_window item x =
     (if tcName (tlCall item) = ''read_file'' \<and> mget (tlArgs item) ''windows'' = None then
        (if bool_of (mget (tlMetadata item) ''result_too_large'') then x\<lparr>xRefusedTurn := xTurn x\<rparr>
         else if tlOK item then x\<lparr>xRefusedTurn := -1\<rparr> else x)
      else x)"

text \<open>One turn of the loop that fits the results: the room left is shared among the results still to come. \<open>limits\<close> are
  the default window limits of \<open>read_file\<close> and \<open>fetch_url\<close>.\<close>

definition fit_result ::
  "run_env \<Rightarrow> (val \<Rightarrow> int option) \<Rightarrow> int \<times> int \<Rightarrow> nat \<Rightarrow> tool_run \<Rightarrow> tool_result \<Rightarrow> int \<Rightarrow> loop_state \<Rightarrow> loop_state \<times> tool_result \<times> int" where
  "fit_result env to_int limits left tr item0 remaining x =
     (let item = with_metadata tr item0;
          tokens = (\<lambda>t. fst (reCount env t));
          allowance = (if remaining \<ge> 0 then remaining sdiv int left else remaining);
          (fs, content, ok, metadata, n) = fitWindowResult tokens (trSaveError tr) (trNow tr) (sWorkspace (xS x)) (tlContent item) (tlOK item)
            (tlMetadata item) (tokens (tlContent item)) allowance (xFiles x);
          limit = rcObservedByteLimit (xConnection x);
          (content1, ok1, metadata1, n1) =
            (if limit > 0 \<and> int (length content) > limit sdiv 4 then
               (let (c, k, m) = byteCapResult to_int (fst limits) (snd limits) (tcName (tlCall item)) (tlArgs item) content ok metadata limit
                in (c, k, m, tokens c))
             else (content, ok, metadata, n));
          item1 = item\<lparr>tlContent := content1, tlOK := ok1, tlMetadata := metadata1\<rparr>;
          x1 = refused_window item1 (x\<lparr>xFiles := fs\<rparr>);
          x2 = on_xs (IncrementToolCall (tcName (tlCall item1))) x1
      in (xpub env ''tool.result'' (toolResultEventData (reToLower env) (xTurn x) (tcID (tlCall item1)) (tcName (tlCall item1)) content1 ok1
            (tlOperatorContext item1) (tlUntrusted item1) (tlMs item1) n1 metadata1) x2,
          item1, if remaining \<ge> 0 then max 0 (remaining - n1) else remaining))"

text \<open>The loop over the results; it stops at the first result before which the context is cancelled.\<close>

fun fit_results ::
  "run_env \<Rightarrow> (val \<Rightarrow> int option) \<Rightarrow> int \<times> int \<Rightarrow> nat option \<Rightarrow> nat \<Rightarrow> (tool_result \<times> tool_run) list \<Rightarrow> int \<Rightarrow> loop_state \<Rightarrow>
   loop_state \<times> tool_result list" where
  "fit_results env to_int limits cancelled_at i [] remaining x = (x, [])"
| "fit_results env to_int limits cancelled_at i ((item, tr) # rest) remaining x =
     (if cancelled_at = Some i then (record_produced env (with_metadata tr item) x, with_metadata tr item # map fst rest)
      else let (x1, item1, remaining1) = fit_result env to_int limits (Suc (length rest)) tr item remaining (record_produced env (with_metadata tr item) x);
               (x2, items) = fit_results env to_int limits cancelled_at (Suc i) rest remaining1 x1
           in (x2, item1 # items))"

section \<open>Appending\<close>

definition result_category :: "tool_result \<Rightarrow> string" where
  "result_category item =
     (if tcName (tlCall item) = ''read_file'' \<and> tlCategory item = [] then ''files''
      else if tlCategory item = [] then ''results'' else tlCategory item)"

text \<open>\<open>png\<close>: the attachment of a picture that a result produced, for a connection that takes images.\<close>

definition result_attachments :: "run_env \<Rightarrow> loop_state \<Rightarrow> tool_result \<Rightarrow> attachment list" where
  "result_attachments env x item =
     (case mget (tlMetadata item) ''file'' of
        Some (VObj f) \<Rightarrow>
          if rcNativeImageInput (xConnection x) \<and> reEqualFold env (Ext (str_of (mget f ''path''))) ''.png''
          then [\<lparr>aPath = str_of (mget f ''path''), aBytes = (case mget f ''bytes'' of Some (VInt n) \<Rightarrow> n | _ \<Rightarrow> 0), aSHA256 = [], aKind = [], aOutcome = []\<rparr>]
          else []
      | _ \<Rightarrow> [])"

definition result_message :: "run_env \<Rightarrow> tool_result \<Rightarrow> loop_state \<Rightarrow> message \<Rightarrow> message" where
  "result_message env item x m =
     m\<lparr>mToolCallID := tcID (tlCall item), mName := tcName (tlCall item), mOK := Some (tlOK item), mAttachments := result_attachments env x item\<rparr>"

definition memory_line :: string where
  "memory_line = ''Memory was saved for new chats; this chat'' @ [CHR 0x27] @ ''s system prompt remains unchanged.''"

definition append_result :: "run_env \<Rightarrow> tool_result \<Rightarrow> loop_state \<Rightarrow> loop_state" where
  "append_result env item x =
     (let (x1, m) = makeMessage env ''tool'' (tlContent item) (result_category item) (xTurn x) x;
          x2 = append_message env (result_message env item x m) x1
      in if tlOK item \<and> tcName (tlCall item) = ''remember'' \<and> HasPrefix (tlContent item) ''ok: noted;''
         then appendHarnessLine env (xTurn x2) memory_line x2
         else x2)"

definition append_results :: "run_env \<Rightarrow> tool_result list \<Rightarrow> loop_state \<Rightarrow> loop_state" where
  "append_results env items x = fold (append_result env) items (append_message env (xAssistant x) x)"

section \<open>The guards on the results\<close>

text \<open>What answers a cycle card: \<open>ceDecide\<close> is the decision or the error of the wait for a call, \<open>ceCancel\<close> whether the context was
  cancelled when the wait ended (and then whether by the wall clock), \<open>ceNoticeOnly\<close> is \<open>gate.noticeOnly\<close>, and
  \<open>ceMarshal\<close> the JSON of the arguments that the guard hashes.\<close>

record cycle_env =
  ceMarshal :: "(string, val) gomap \<Rightarrow> string"
  ceNoticeOnly :: bool
  ceDecide :: "string \<Rightarrow> string + string"
  ceCancel :: "bool option"

fun observe_results :: "run_env \<Rightarrow> cycle_env \<Rightarrow> tool_result list \<Rightarrow> loop_state \<Rightarrow> loop_state \<times> outcome" where
  "observe_results env ce [] x = (x, GoOn)"
| "observe_results env ce (item # items) x =
     (let name = tcName (tlCall item); callID = tcID (tlCall item);
          eventArgs = sanitizedToolArguments (reEqualFold env) name (tlArgs item);
          (g, ob) = Observe (reDigest env) (ceMarshal ce) callID name eventArgs (tlContent item) (xGuards x);
          x1 = x\<lparr>xGuards := g\<rparr>
      in if obReason ob = ''steer'' then
           observe_results env ce items
             (xpub env ''cycle.detected'' [(''stage'', VStr ''steer''), (''call_id'', VStr callID), (''name'', VStr name), (''line'', VStr (obDetail ob))]
               (appendHarnessLine env (xTurn x1) (obDetail ob) x1))
         else if obReason ob = ''cycle'' then
           (let x2 = xpub env ''cycle.detected'' [(''call_id'', VStr callID), (''name'', VStr name), (''args'', VObj eventArgs), (''prior_call_id'', VStr (obPrior ob))] x1
            in case ceDecide ce callID of
                 Inl err \<Rightarrow> (case ceCancel ce of Some wall \<Rightarrow> contextStop env wall (xTurn x2) ''approval wait canceled'' x2
                                             | None \<Rightarrow> (x2, Stop ''cycle'' err (xTurn x2)))
               | Inr decision \<Rightarrow>
                   if decision = ''continue'' then
                     (let x3 = (if ceNoticeOnly ce then appendHarnessLine env (xTurn x2) (cycleNotice (xTurn x2)) x2 else x2)
                      in observe_results env ce items (x3\<lparr>xGuards := ResetCycle (xGuards x3)\<rparr>))
                   else (x2, Stop ''cycle'' (obDetail ob) (xTurn x2)))
         else if obReason ob \<noteq> [] then (x1, Stop (obReason ob) (obDetail ob) (xTurn x1))
         else observe_results env ce items x1)"

section \<open>The phase\<close>

text \<open>\<open>teRuns\<close>: what hooks and tool answered, call by call. \<open>teCancelledAt\<close>: the result before which the context is seen cancelled;
  \<open>teCancelled\<close>: whether it is cancelled after the loop, and then whether by the wall clock.\<close>

record tools_env =
  teRuns :: "nat \<Rightarrow> tool_run"
  teToInt :: "val \<Rightarrow> int option"
  teLimits :: "int \<times> int"
  teCancelledAt :: "nat option"
  teCancelled :: "bool option"

definition dispatch_tools :: "run_env \<Rightarrow> loop_state \<Rightarrow> tool_result list" where
  "dispatch_tools env x = map (\<lambda>(call, durable). dispatch_call env call durable) (zip (xToolCalls x) (xDurableToolCalls x))"

definition execute_tools :: "run_env \<Rightarrow> tools_env \<Rightarrow> tool_result list \<Rightarrow> loop_state \<Rightarrow> loop_state \<times> tool_result list" where
  "execute_tools env te items x =
     (let runs = map (teRuns te) [0..<length items];
          (x1, done) = runRawTools env (zip items runs) x
      in fit_results env (teToInt te) (teLimits te) (teCancelledAt te) 0 (zip done runs) (remaining_tokens (xBudget x)) x1)"

definition finishOrRunTools :: "run_env \<Rightarrow> tools_env \<Rightarrow> cycle_env \<Rightarrow> loop_state \<Rightarrow> loop_state \<times> outcome" where
  "finishOrRunTools env te ce x =
     (let x1 = stage_exit env (xTurn x) ''dispatch'' (stage_enter env (xTurn x) ''dispatch'' x);
          (x2, results) = execute_tools env te (dispatch_tools env x1) (stage_enter env (xTurn x1) ''execute'' x1);
          x3 = stage_exit env (xTurn x2) ''execute'' x2
      in case teCancelled te of
           Some wall \<Rightarrow> contextStop env wall (xTurn x3) ''tool execution canceled'' x3
         | None \<Rightarrow> observe_results env ce results (in_stage env ''append'' (append_results env results) x3))"


section \<open>Batches are segments of reads\<close>

lemma concat_chunks [simp]: "concat (chunks n cs) = cs"
  by (induction n cs rule: chunks.induct) (simp_all del: take_Suc_Cons drop_Suc_Cons)

lemma chunks_bounded: "b \<in> set (chunks n cs) \<Longrightarrow> b \<noteq> [] \<and> length b \<le> Suc n \<and> set b \<subseteq> set cs"
proof (induction n cs rule: chunks.induct)
  case (2 n c cs)
  then show ?case using set_drop_subset [of "Suc n" "c # cs"] set_take_subset [of "Suc n" "c # cs"]
    by (auto simp del: take_Suc_Cons drop_Suc_Cons dest: in_set_takeD in_set_dropD)
qed simp

lemma length_le_concat: "x \<in> set xss \<Longrightarrow> length x \<le> length (concat xss)"
  by (induction xss) auto

lemma concat_batches: "concat (batches reads cs) = cs"
  by (induction reads cs rule: batches.induct) simp_all

lemma read_run_reads: "x \<in> set (take (read_run reads cs) cs) \<Longrightarrow> reads x"
  by (induction cs) (auto split: if_splits)

lemma segment_reads: "segment reads cs = 1 \<or> (\<forall>x \<in> set (take (segment reads cs) cs). reads x)"
  by (cases cs) (auto simp: segment_def dest: read_run_reads)

lemma batches_isolated:
  "b \<in> set (batches reads cs) \<Longrightarrow> b \<noteq> [] \<and> length b \<le> 4 \<and> (length b = 1 \<or> (\<forall>x \<in> set b. reads x))"
proof (induction reads cs rule: batches.induct)
  case (2 reads c cs)
  let ?s = "take (segment reads (c # cs)) (c # cs)"
  from 2(2) consider (here) "b \<in> set (chunks 3 ?s)" | (later) "b \<in> set (batches reads (drop (segment reads (c # cs)) (c # cs)))"
    by auto
  then show ?case
  proof cases
    case here
    note b = chunks_bounded [OF here]
    have l: "length b \<le> length ?s" using length_le_concat [OF here] by simp
    from segment_reads [of reads "c # cs"] show ?thesis
    proof
      assume "segment reads (c # cs) = 1"
      with l b show ?thesis by (cases b) auto
    qed (use b in auto)
  qed (use 2(1) in blast)
qed simp

section \<open>Every call gets its result\<close>

text \<open>What running and fitting leave alone.\<close>

definition unheard :: "loop_state \<Rightarrow> loop_state \<Rightarrow> bool" where
  "unheard x y \<longleftrightarrow> msgs y = msgs x \<and> xTurn y = xTurn x \<and> xAssistant y = xAssistant x"

lemma unheard_refl [intro, simp]: "unheard x x"
  by (simp add: unheard_def)

lemma unheard_trans [trans]: "unheard x y \<Longrightarrow> unheard y z \<Longrightarrow> unheard x z"
  by (simp add: unheard_def)

lemma unheard_xpub [simp, intro]: "unheard x (xpub env t d x)"
  by (simp add: unheard_def)

lemma unheard_stage [simp, intro]: "unheard x (stage_enter env t n x)" "unheard x (stage_exit env t n x)"
  by (simp_all add: unheard_def)

lemma unheard_announce: "unheard x (announce_call env item x)"
  by (simp add: announce_call_def unheard_def Let_def)

lemma unheard_fold: "(\<And>a y. unheard y (g a y)) \<Longrightarrow> unheard y (fold g as y)"
  by (induction as arbitrary: y) (auto intro: unheard_trans)

lemma runRawTool_unheard:
  assumes "runRawTool env tr item x = (y, item1)"
  shows "unheard x y" and "tlCall item1 = tlCall item"
  using assms by (auto simp: runRawTool_def Let_def unheard_def on_xs_def MarkUntrustedInTurn_def split: option.splits if_splits)

lemma run_batch_loop:
  "case fold (\<lambda>(item, tr) (x, done). let (x1, item1) = runRawTool env tr item x in (x1, done @ [item1])) batch (x, ds) of
     (y, ds') \<Rightarrow> unheard x y \<and> map tlCall ds' = map tlCall ds @ map (tlCall \<circ> fst) batch"
proof (induction batch arbitrary: x ds)
  case (Cons b batch)
  obtain item tr where b: "b = (item, tr)" by fastforce
  obtain y i where r: "runRawTool env tr item x = (y, i)" by fastforce
  show ?case using Cons.IH [of y "ds @ [i]"] runRawTool_unheard [OF r] by (auto simp: b r intro: unheard_trans split: prod.splits)
qed simp

lemma run_batch_unheard:
  assumes "run_batch env batch x = (y, ds)"
  shows "unheard x y" and "map tlCall ds = map (tlCall \<circ> fst) batch"
  using assms run_batch_loop [where env = env and batch = batch and x = "fold (announce_call env) (map fst batch) x" and ds = "[]"]
    unheard_fold [of "announce_call env" x "map fst batch", OF unheard_announce]
  by (auto simp: run_batch_def intro: unheard_trans)

lemma runRawTools_loop:
  "case fold (\<lambda>batch (x, done). let (x1, ds) = run_batch env batch x in (x1, done @ ds)) bs (x, ds) of
     (y, ds') \<Rightarrow> unheard x y \<and> map tlCall ds' = map tlCall ds @ map (tlCall \<circ> fst) (concat bs)"
proof (induction bs arbitrary: x ds)
  case (Cons b bs)
  obtain y i where r: "run_batch env b x = (y, i)" by fastforce
  show ?case using Cons.IH [of y "ds @ i"] run_batch_unheard [OF r] by (auto simp: r intro: unheard_trans split: prod.splits)
qed simp

lemma runRawTools_unheard:
  assumes "runRawTools env items x = (y, ds)"
  shows "unheard x y" and "map tlCall ds = map (tlCall \<circ> fst) items"
  using assms runRawTools_loop [where env = env and bs = "batches (\<lambda>(item, tr). reReads env (tcName (tlCall item)) (tlArgs item)) items" and x = x and ds = "[]"]
  by (auto simp: runRawTools_def concat_batches)

lemma with_metadata_call [simp]: "tlCall (with_metadata tr item) = tlCall item"
  by (simp add: with_metadata_def Let_def)

lemma unheard_produced: "unheard x (record_produced env item x)"
  by (simp add: record_produced_def unheard_def Let_def)

lemma unheard_fitted: "unheard x (xpub env t d (on_xs (IncrementToolCall n) (refused_window item (x\<lparr>xFiles := fs\<rparr>))))"
  by (simp add: unheard_def on_xs_def IncrementToolCall_def refused_window_def)

lemma tlCall_fitted: "tlCall ((with_metadata tr item)\<lparr>tlContent := c, tlOK := k, tlMetadata := m\<rparr>) = tlCall item"
  by simp

lemma fit_result_unheard:
  assumes "fit_result env to_int limits left tr item remaining x = (y, item1, r)"
  shows "unheard x y" and "tlCall item1 = tlCall item"
  using assms unfolding fit_result_def Let_def case_prod_beta prod.inject by (auto simp only: unheard_fitted tlCall_fitted)

lemma fit_results_unheard:
  assumes "fit_results env to_int limits ca i items remaining x = (y, ds)"
  shows "unheard x y" and "map tlCall ds = map (tlCall \<circ> fst) items"
proof -
  have "unheard x y \<and> map tlCall ds = map (tlCall \<circ> fst) items" using assms
  proof (induction items arbitrary: i remaining x y ds)
    case (Cons it items)
    obtain item tr where it: "it = (item, tr)" by fastforce
    let ?x = "record_produced env (with_metadata tr item) x"
    obtain x1 item1 r1 where f: "fit_result env to_int limits (Suc (length items)) tr item remaining ?x = (x1, item1, r1)" using prod_cases3 by blast
    obtain x2 ds2 where g: "fit_results env to_int limits ca (Suc i) items r1 x1 = (x2, ds2)" by fastforce
    show ?case
      using Cons.prems Cons.IH [OF g] fit_result_unheard [OF f] unheard_produced [of x env "with_metadata tr item"]
      by (auto simp: it f g split: if_splits intro: unheard_trans)
  qed simp
  then show "unheard x y" "map tlCall ds = map (tlCall \<circ> fst) items" by simp_all
qed

lemma execute_tools_unheard:
  assumes "execute_tools env te items x = (y, ds)"
  shows "unheard x y" and "map tlCall ds = map tlCall items"
proof -
  let ?runs = "map (teRuns te) [0..<length items]"
  obtain x1 d1 where r: "runRawTools env (zip items ?runs) x = (x1, d1)" by fastforce
  have f: "fit_results env (teToInt te) (teLimits te) (teCancelledAt te) 0 (zip d1 ?runs) (remaining_tokens (xBudget x)) x1 = (y, ds)"
    using assms r by (simp add: execute_tools_def)
  have m: "map tlCall d1 = map tlCall items" using runRawTools_unheard(2) [OF r] by (simp flip: map_map)
  then have "length d1 = length items" using map_eq_imp_length_eq by blast
  then show "map tlCall ds = map tlCall items" using fit_results_unheard(2) [OF f] m by (simp flip: map_map)
  show "unheard x y" using unheard_trans [OF runRawTools_unheard(1) [OF r] fit_results_unheard(1) [OF f]] .
qed

lemma dispatch_call_call [simp]: "tlCall (dispatch_call env call durable) = call"
  by (simp add: dispatch_call_def Let_def split: sum.split)

lemma dispatch_tools_calls:
  "length (xDurableToolCalls x) = length (xToolCalls x) \<Longrightarrow> map tlCall (dispatch_tools env x) = xToolCalls x"
  by (simp add: dispatch_tools_def list_eq_iff_nth_eq)

lemma append_result_adds:
  "\<exists>m hs. msgs (append_result env item x) = msgs x @ m # hs \<and> mRole m = ''tool'' \<and> mToolCalls m = [] \<and>
     mToolCallID m = tcID (tlCall item) \<and> mContent m = tlContent item \<and> mOK m = Some (tlOK item) \<and> list_all harness_line hs"
proof -
  obtain x1 m where m: "makeMessage env ''tool'' (tlContent item) (result_category item) (xTurn x) x = (x1, m)" by fastforce
  let ?m = "result_message env item x m"
  let ?x = "append_message env ?m x1"
  have f: "mRole ?m = ''tool''" "mToolCalls ?m = []" "mToolCallID ?m = tcID (tlCall item)" "mContent ?m = tlContent item" "mOK ?m = Some (tlOK item)" "msgs x1 = msgs x"
    using m by (auto simp: makeMessage_def result_message_def zero_message_def)
  obtain hs where h: "msgs (appendHarnessLine env (xTurn ?x) memory_line ?x) = msgs ?x @ hs" "list_all harness_line hs"
    using harness_line_adds unfolding adds_def by blast
  have "\<exists>ls. msgs (append_result env item x) = msgs ?x @ ls \<and> list_all harness_line ls"
    unfolding append_result_def m Let_def prod.case using h by (cases "tlOK item \<and> tcName (tlCall item) = ''remember'' \<and> HasPrefix (tlContent item) ''ok: noted;''") auto
  then show ?thesis using f by auto
qed

lemma append_result_turn: "xTurn (append_result env item x) = xTurn x"
  by (simp add: append_result_def makeMessage_def Let_def)

text \<open>The messages of the role \<open>tool\<close>, as their calls, contents and verdicts.\<close>

definition answered :: "message list \<Rightarrow> (string \<times> string \<times> bool option) list" where
  "answered ms = map (\<lambda>m. (mToolCallID m, mContent m, mOK m)) (filter (\<lambda>m. mRole m = ''tool'') ms)"

definition told :: "tool_result list \<Rightarrow> (string \<times> string \<times> bool option) list" where
  "told items = map (\<lambda>i. (tcID (tlCall i), tlContent i, Some (tlOK i))) items"

lemma answered_append [simp]: "answered (ms @ ns) = answered ms @ answered ns"
  by (simp add: answered_def)

lemma answered_harness: "list_all harness_line hs \<Longrightarrow> answered hs = []"
  by (auto simp: answered_def filter_empty_conv list_all_iff harness_line_def)

lemma append_results_loop:
  "\<exists>ns. msgs (fold (append_result env) items x) = msgs x @ ns \<and> answered ns = told items \<and> list_all (\<lambda>m. mToolCalls m = []) ns"
proof (induction items arbitrary: x)
  case (Cons i items)
  obtain m hs where a: "msgs (append_result env i x) = msgs x @ m # hs" "mRole m = ''tool''" "mToolCalls m = []"
    "mToolCallID m = tcID (tlCall i)" "mContent m = tlContent i" "mOK m = Some (tlOK i)" "list_all harness_line hs"
    using append_result_adds [of env i x] by blast
  obtain ns where b: "msgs (fold (append_result env) items (append_result env i x)) = msgs (append_result env i x) @ ns"
    "answered ns = told items" "list_all (\<lambda>m. mToolCalls m = []) ns" using Cons.IH by blast
  have "list_all (\<lambda>m. mToolCalls m = []) hs" using a(7) by (auto simp: list_all_iff harness_line_def)
  moreover have "answered (m # hs @ ns) = told (i # items)"
    using a b answered_harness [OF a(7)] answered_append [of "[m]" "hs @ ns"] by (simp add: answered_def told_def)
  ultimately show ?case using a b by (intro exI [of _ "m # hs @ ns"]) simp
qed (simp add: answered_def told_def)

lemma observe_key_reason: "obReason (snd (observe_key i n v r streaks)) \<in> {[], ''steer'', ''cycle''}"
  by (simp add: observe_key_def nothing_def Let_def)

lemma observe_reason: "obReason (snd (Observe digest marshal i n a r g)) \<in> {[], ''steer'', ''cycle''}"
proof (cases "rgKey g")
  case None
  then show ?thesis by (simp add: Observe_def Let_def case_prod_beta nothing_def)
next
  case (Some key)
  then show ?thesis using observe_key_reason by (simp add: Observe_def Let_def case_prod_beta nothing_def del: insert_iff) simp
qed

lemma observe_results_ok:
  assumes "observe_results env ce items x = (y, oc)"
  shows "adds harness_line x y \<and> (case oc of GoOn \<Rightarrow> True | Again \<Rightarrow> False | Stop reason detail turns \<Rightarrow> DeclaredStopReason reason \<and> turns = xTurn x)"
  using assms
proof (induction items arbitrary: x)
  case Nil
  then show ?case by auto
next
  case (Cons item items)
  let ?args = "sanitizedToolArguments (reEqualFold env) (tcName (tlCall item)) (tlArgs item)"
  obtain g ob where o: "Observe (reDigest env) (ceMarshal ce) (tcID (tlCall item)) (tcName (tlCall item)) ?args (tlContent item) (xGuards x) = (g, ob)"
    by fastforce
  have r: "obReason ob \<in> {[], ''steer'', ''cycle''}"
    using observe_reason [of "reDigest env" "ceMarshal ce" "tcID (tlCall item)" "tcName (tlCall item)" ?args "tlContent item" "xGuards x"] unfolding o by simp
  let ?x1 = "x\<lparr>xGuards := g\<rparr>"
  define x2 where "x2 = xpub env ''cycle.detected'' [(''call_id'', VStr (tcID (tlCall item))), (''name'', VStr (tcName (tlCall item))), (''args'', VObj ?args),
    (''prior_call_id'', VStr (obPrior ob))] ?x1"
  have x2: "msgs x2 = msgs x" "xTurn x2 = xTurn x" by (simp_all add: x2_def)
  have step: ?case if "adds harness_line x z" "xTurn z = xTurn x" "observe_results env ce items z = (y, oc)" for z
    using Cons.IH [OF that(3)] adds_trans [OF that(1)] that(2) by (auto split: outcome.split)
  consider (none) "obReason ob = []" | (steer) "obReason ob = ''steer''" | (cycle) "obReason ob = ''cycle''" using r by auto
  then show ?case
  proof cases
    case none
    then show ?thesis using Cons.prems by (intro step [of ?x1]) (auto simp: o Let_def adds_def)
  next
    case steer
    define z where "z = appendHarnessLine env (xTurn x) (obDetail ob) ?x1"
    have z: "adds harness_line x z" "xTurn z = xTurn x"
      using harness_line_adds [of ?x1] by (simp_all add: z_def adds_def)
    show ?thesis
      using Cons.prems steer z by (intro step) (auto simp: o Let_def adds_def simp flip: z_def)
  next
    case cycle
    define z where "z = (if ceNoticeOnly ce then appendHarnessLine env (xTurn x2) (cycleNotice (xTurn x2)) x2 else x2)"
    have z: "adds harness_line x z" "xTurn z = xTurn x" using harness_line_adds [of x2] x2 by (auto simp: z_def adds_def)
    have e: "(case ceDecide ce (tcID (tlCall item)) of
         Inl err \<Rightarrow> (case ceCancel ce of Some wall \<Rightarrow> contextStop env wall (xTurn x2) ''approval wait canceled'' x2 | None \<Rightarrow> (x2, Stop ''cycle'' err (xTurn x2)))
       | Inr decision \<Rightarrow> if decision = ''continue'' then observe_results env ce items (z\<lparr>xGuards := ResetCycle (xGuards z)\<rparr>)
           else (x2, Stop ''cycle'' (obDetail ob) (xTurn x2))) = (y, oc)"
      using Cons.prems unfolding observe_results.simps Let_def o prod.case x2_def z_def by (simp only: cycle) simp
    show ?thesis
    proof (cases "ceDecide ce (tcID (tlCall item))")
      case (Inr d)
      show ?thesis
      proof (cases "d = ''continue''")
        case True
        with e Inr z show ?thesis by (intro step [of "z\<lparr>xGuards := ResetCycle (xGuards z)\<rparr>"]) (auto simp: adds_def)
      qed (use e Inr x2 declared_answer_reasons in auto)
    next
      case (Inl err)
      show ?thesis
      proof (cases "ceCancel ce")
        case (Some wall)
        with e Inl have c: "contextStop env wall (xTurn x2) ''approval wait canceled'' x2 = (y, oc)" by simp
        show ?thesis using contextStop_outcome [OF c] x2 by (auto simp: adds_def)
      qed (use e Inl x2 declared_answer_reasons in auto)
    qed
  qed
qed

section \<open>Properties\<close>

text \<open>C5. Tool calls run in the order the model gave them, in batches of one to four: a batch of more than one call holds only calls that
  read, so a call that may change something never runs beside another call.\<close>

theorem writing_calls_run_alone:
  "concat (batches reads calls) = calls \<and>
   list_all (\<lambda>b. b \<noteq> [] \<and> length b \<le> 4 \<and> (length b = 1 \<or> list_all reads b)) (batches reads calls)"
  using batches_isolated [of _ reads calls] by (simp add: concat_batches list_all_iff)

lemma finishOrRunTools_ok:
  assumes "length (xDurableToolCalls x) = length (xToolCalls x)" and "finishOrRunTools env te ce x = (y, oc)"
  shows "(case teCancelled te of
            None \<Rightarrow> \<exists>ns. msgs y = msgs x @ xAssistant x # ns \<and> list_all (\<lambda>m. mToolCalls m = []) ns \<and> map fst (answered ns) = map tcID (xToolCalls x)
          | Some _ \<Rightarrow> adds harness_line x y) \<and>
         (case oc of GoOn \<Rightarrow> True | Again \<Rightarrow> False | Stop reason detail turns \<Rightarrow> DeclaredStopReason reason \<and> turns = xTurn x)"
proof -
  define x1 where "x1 = stage_exit env (xTurn x) ''dispatch'' (stage_enter env (xTurn x) ''dispatch'' x)"
  have x1: "unheard x x1" "xToolCalls x1 = xToolCalls x" "xDurableToolCalls x1 = xDurableToolCalls x" by (simp_all add: x1_def unheard_def)
  obtain x2 results where e: "execute_tools env te (dispatch_tools env x1) (stage_enter env (xTurn x1) ''execute'' x1) = (x2, results)" by fastforce
  define x3 where "x3 = stage_exit env (xTurn x2) ''execute'' x2"
  have x3: "unheard x x3"
    using unheard_trans [OF x1(1) unheard_trans [OF _ execute_tools_unheard(1) [OF e]]] by (simp add: x3_def unheard_def)
  have calls: "map tlCall results = xToolCalls x"
    using execute_tools_unheard(2) [OF e] dispatch_tools_calls [of x1 env] x1 assms(1) by simp
  have f: "(case teCancelled te of
             Some wall \<Rightarrow> contextStop env wall (xTurn x3) ''tool execution canceled'' x3
           | None \<Rightarrow> observe_results env ce results (in_stage env ''append'' (append_results env results) x3)) = (y, oc)"
    using assms(2) unfolding finishOrRunTools_def Let_def x1_def [symmetric] e prod.case x3_def [symmetric] .
  show ?thesis
  proof (cases "teCancelled te")
    case (Some wall)
    with f have c: "contextStop env wall (xTurn x3) ''tool execution canceled'' x3 = (y, oc)" by simp
    show ?thesis using contextStop_outcome [OF c] x3 Some by (auto simp: adds_def unheard_def)
  next
    case None
    define s where "s = append_message env (xAssistant x) (stage_enter env (xTurn x) ''append'' x3)"
    define z where "z = in_stage env ''append'' (append_results env results) x3"
    obtain ns where ns: "msgs (fold (append_result env) results s) = msgs s @ ns" "answered ns = told results" "list_all (\<lambda>m. mToolCalls m = []) ns"
      using append_results_loop by blast
    have turn: "xTurn (fold (append_result env) results s) = xTurn s" by (rule fold_keeps) (rule append_result_turn)
    have z: "msgs z = msgs x @ xAssistant x # ns" "xTurn z = xTurn x"
      using ns(1) turn x3 by (simp_all add: z_def in_stage_def append_results_def s_def unheard_def)
    from f None have o: "observe_results env ce results z = (y, oc)" by (simp add: z_def)
    obtain hs where hs: "msgs y = msgs z @ hs" "list_all harness_line hs" using observe_results_ok [OF o] by (auto simp: adds_def)
    have "map fst (answered (ns @ hs)) = map tcID (xToolCalls x)"
      using ns(2) answered_harness [OF hs(2)] calls by (simp add: told_def comp_def flip: calls)
    moreover have "list_all (\<lambda>m. mToolCalls m = []) hs" using hs(2) by (auto simp: list_all_iff harness_line_def)
    ultimately show ?thesis using observe_results_ok [OF o, unfolded z(2)] z(1) hs ns(3) None by (auto intro!: exI [of _ "ns @ hs"])
  qed
qed

text \<open>C3. Every tool call of an answer is answered: when a model answer leads on to its tools and the run is not cancelled meanwhile, the conversation
  grows by lines of the harness, the assistant message with the calls, and then results whose call ids are exactly
  those of the calls, in order, and no other message with calls; when it is cancelled, neither the assistant message nor any result is kept.
  Either way a stop has a declared reason and the turn of the calls.\<close>

theorem tool_calls_are_answered:
  "case readAnswer env rp x of
     (x1, GoOn) \<Rightarrow> (case finishOrRunTools env te ce x1 of (x2, oc) \<Rightarrow>
        (case teCancelled te of
           None \<Rightarrow> \<exists>hs ns. msgs x2 = msgs x @ hs @ xAssistant x1 # ns \<and> list_all harness_line hs \<and> list_all (\<lambda>m. mToolCalls m = []) ns \<and>
             map fst (answered ns) = map tcID (mToolCalls (xAssistant x1))
         | Some _ \<Rightarrow> adds harness_line x x2) \<and>
        (case oc of GoOn \<Rightarrow> True | Again \<Rightarrow> False | Stop reason detail turns \<Rightarrow> DeclaredStopReason reason \<and> turns = xTurn x1))
   | (x1, _) \<Rightarrow> True"
proof -
  obtain x1 oc1 where r: "readAnswer env rp x = (x1, oc1)" by fastforce
  obtain x2 oc where f: "finishOrRunTools env te ce x1 = (x2, oc)" by fastforce
  show ?thesis
  proof (cases "oc1 = GoOn")
    case True
    with readAnswer_ok [OF r] have ids: "map (\<lambda>c. (tcID c, tcName c)) (xDurableToolCalls x1) = map (\<lambda>c. (tcID c, tcName c)) (xToolCalls x1)"
      and a: "mToolCalls (xAssistant x1) = xDurableToolCalls x1" "adds harness_line x x1" by auto
    from ids have l: "length (xDurableToolCalls x1) = length (xToolCalls x1)" using map_eq_imp_length_eq by blast
    from arg_cong [OF ids, of "map fst"] have i: "map tcID (xDurableToolCalls x1) = map tcID (xToolCalls x1)" by (simp add: comp_def)
    obtain hs where hs: "msgs x1 = msgs x @ hs" "list_all harness_line hs" using a(2) by (auto simp: adds_def)
    have "(case teCancelled te of
           None \<Rightarrow> \<exists>hs ns. msgs x2 = msgs x @ hs @ xAssistant x1 # ns \<and> list_all harness_line hs \<and> list_all (\<lambda>m. mToolCalls m = []) ns \<and>
             map fst (answered ns) = map tcID (mToolCalls (xAssistant x1))
         | Some _ \<Rightarrow> adds harness_line x x2)"
      using finishOrRunTools_ok [OF l f] hs a(1) i adds_trans [OF a(2)] by (cases "teCancelled te") (fastforce, simp)
    then show ?thesis using finishOrRunTools_ok [OF l f] True by (simp add: r f)
  qed (simp add: r split: outcome.split)
qed
end
