(* ===== verification/Run_Loop.thy ===== *)
theory Run_Loop
  imports Run_Model Run_Tools
begin

text \<open>
  The loop of a run: \<open>turnBoundary\<close>, \<open>buildRequest\<close>, \<open>fitWindow\<close> (with \<open>compactBeforeRequest\<close> of
  \<open>one_rule_compaction.go\<close>) and \<open>runInPhases\<close> of \<open>run_phases.go\<close>, and \<open>applyMailboxBoundary\<close> of \<open>run.go\<close>.
  Given from outside: the mailbox, the queue of the scheduler, the configuration and the tool registry (\<open>turn_env\<close>), the rendered
  system prompt, the conversion of a stored message and the budget service (\<open>prompt_env\<close>), the summarizer (\<open>fit_env\<close>).
  Left out: the schemas, the body of the request event, the counters of a summary's own model call and the cleanups, which act on the parts
  that own them (grants, flights, delivery).
\<close>

section \<open>The boundary of a turn\<close>

record mailbox_action =
  maErr :: "string option"
  maStop :: bool
  maRevision :: string
  maDelay :: "string option"

text \<open>\<open>tnMailbox\<close> is \<open>None\<close> without a mailbox; \<open>maDelay\<close> is the context's error when the pause was cancelled. \<open>tnAddUser\<close> is what
  adding the revision as a message gave. \<open>tnLate\<close>: whether the context is cancelled when the mailbox stopped the run, then whether by the wall
  clock.\<close>

record turn_env =
  tnCancelled :: "bool option"
  tnMailbox :: "mailbox_action option"
  tnAddUser :: "session \<Rightarrow> string + session \<times> bus_note list"
  tnLate :: "bool option"
  tnTakeQueued :: "session \<Rightarrow> session \<times> bus_note list"
  tnConnection :: "string \<Rightarrow> run_connection option"
  tnQuote :: "string \<Rightarrow> string"
  tnProps :: "run_connection \<Rightarrow> (int \<times> int) option"
  tnWindows :: "(string, int) gomap"
  tnThinking :: "bool option"
  tnImages :: bool
  tnNames :: "(string, bool) gomap \<Rightarrow> string list"

definition on_chat :: "(session \<Rightarrow> session \<times> bus_note list) \<Rightarrow> loop_state \<Rightarrow> loop_state" where
  "on_chat f x = x\<lparr>xS := fst (f (xS x)), xLog := xLog x @ snd (f (xS x))\<rparr>"

definition applyMailboxBoundary :: "run_env \<Rightarrow> turn_env \<Rightarrow> loop_state \<Rightarrow> loop_state \<times> bool \<times> string" where
  "applyMailboxBoundary env te x =
     (case (if sRole (xS x) = ''e'' then None else tnMailbox te) of
        None \<Rightarrow> (x, False, [])
      | Some action \<Rightarrow>
          let x1 = (case maErr action of Some e \<Rightarrow> operationalError env ''mailbox'' e x | None \<Rightarrow> x)
          in if maStop action then (x1, True, ''STOP read from INBOX.md'')
             else let x2 = (if maRevision action = [] then x1
                            else case tnAddUser te (xS x1) of
                                   Inl e \<Rightarrow> operationalError env ''mailbox'' e x1
                                 | Inr (s, evs) \<Rightarrow> x1\<lparr>xS := s, xLog := xLog x1 @ evs\<rparr>)
                  in case maDelay action of Some e \<Rightarrow> (x2, True, e) | None \<Rightarrow> (x2, False, []))"

definition mailbox_stop :: "run_env \<Rightarrow> turn_env \<Rightarrow> string \<Rightarrow> loop_state \<Rightarrow> loop_state \<times> outcome" where
  "mailbox_stop env te detail x =
     (case tnLate te of
        Some wall \<Rightarrow> contextStop env wall (xTurn x) detail x
      | None \<Rightarrow> (x, Stop ''mailbox_stop'' detail (xTurn x)))"

definition begin_turn :: "loop_state \<Rightarrow> loop_state" where
  "begin_turn x =
     (let x1 = x\<lparr>xTurn := xTurn x + 1\<rparr>
      in if xReasoningFallbackPending x1 then x1
         else x1\<lparr>xReasoningFallbackPrior := [], xReasoningFallbackAllowance := 0, xReasoningFallbackShare := 0, xReasoningFallbackUsed := False\<rparr>)"

text \<open>The connection of the turn, with what this run has learned of its server.\<close>

definition turn_connection :: "turn_env \<Rightarrow> loop_state \<Rightarrow> run_connection \<Rightarrow> run_connection" where
  "turn_connection te x c =
     (let c1 = (case tnThinking te of Some t \<Rightarrow> connectionWithProfileThinking t c | None \<Rightarrow> c);
          c2 = c1\<lparr>rcObservedMessageLimit := xRunMessageLimit x, rcObservedByteLimit := xRunByteLimit x\<rparr>;
          c3 = (if xAttachmentsAsTextTurn x = xTurn x then c2\<lparr>rcAttachmentHandling := ''extract''\<rparr> else c2)
      in if xRunWindow x > 0 then c3\<lparr>rcNCtx := xRunWindow x, rcReserveOutput := min (rcReserveOutput c3) (xRunWindow x sdiv 2)\<rparr> else c3)"

definition repair_history :: "run_env \<Rightarrow> loop_state \<Rightarrow> loop_state \<times> bool" where
  "repair_history env x =
     (if xAccountingRepairTried x then (x, False)
      else let ((s, cur), repaired, evs) = repairMalformedToolCall (reUnmarshal env) (reRunID env) (xS x, xCurrentReasoning x)
           in (x\<lparr>xS := s, xCurrentReasoning := cur, xLog := xLog x @ evs,
                 xAccountingRepairTried := (xAccountingRepairTried x \<or> repaired)\<rparr>, repaired))"

definition offer_tools :: "turn_env \<Rightarrow> loop_state \<Rightarrow> loop_state" where
  "offer_tools te x =
     (let enabled = sToolsEnabled (xS x);
          enabled1 = (if mtrue enabled ''image'' then mput ''image'' (tnImages te) enabled else enabled)
      in x\<lparr>xEnabled := fold (\<lambda>n m. mput n True m) (tnNames te enabled1) enabled1\<rparr>)"

definition turnBoundary :: "run_env \<Rightarrow> turn_env \<Rightarrow> loop_state \<Rightarrow> loop_state \<times> outcome" where
  "turnBoundary env te x =
     (case tnCancelled te of
        Some wall \<Rightarrow> contextStop env wall (xTurn x) ''cancellation requested'' x
      | None \<Rightarrow>
          let (x1, stops, detail) = applyMailboxBoundary env te x
          in if stops then mailbox_stop env te detail x1
             else let x2 = begin_turn (on_chat (tnTakeQueued te) x1);
                      connectionID = (if xFallbackActive x2 then xFallbackID x2 else sConnectionID (xS x2))
                  in case tnConnection te connectionID of
                       None \<Rightarrow> (x2, Stop ''connection_not_runnable'' (''connection '' @ connectionID @ '' no longer exists'') (xTurn x2 - 1))
                     | Some c \<Rightarrow>
                         (case resolveWindow (tnQuote te) (tnProps te) (tnWindows te) c of
                            Inl e \<Rightarrow> (x2, Stop ''connection_not_runnable'' e (xTurn x2 - 1))
                          | Inr (resolved, source) \<Rightarrow>
                              let (x3, repaired) = repair_history env (x2\<lparr>xConnection := turn_connection te x2 resolved\<rparr>)
                              in if repaired then (x3\<lparr>xTurn := xTurn x3 - 1\<rparr>, Again)
                                 else (on_xs BeginTurnTrust (offer_tools te (on_xs (\<lambda>s. SetRun ((sRun s)\<lparr>rsTurn := xTurn x3\<rparr>) s) x3)), GoOn)))"

section \<open>The request\<close>

record request =
  rqMessages :: "llm_message list"
  rqMaxTokens :: int
  rqReasoningMaxTokens :: int
  rqThinking :: bool

record prompt_env =
  pmSystem :: string
  pmConvert :: "run_connection \<Rightarrow> session \<Rightarrow> message \<Rightarrow> bool \<Rightarrow> llm_message"
  pmPreserve :: bool
  pmReasoningField :: bool
  pmSprint :: "val \<Rightarrow> string"
  pmListError :: "list_error \<Rightarrow> string"
  pmMeasure :: "llm_message list \<Rightarrow> message list \<Rightarrow> model_error + budget"
  pmBusy :: "string option"
  pmCancelled :: "bool option"
  pmCeil110 :: "int \<Rightarrow> int"
  pmBytes :: "request \<Rightarrow> int"
  pmCall :: model_call

definition continue_record :: message where
  "continue_record = zero_message\<lparr>mRole := ''harness'', mCategory := ''history'', mContent := ''Continue from the recorded context.''\<rparr>"

text \<open>Abort records first, then the rest; only messages of the running turn carry native attachments.\<close>

definition request_history :: "prompt_env \<Rightarrow> loop_state \<Rightarrow> (llm_message \<times> message) list" where
  "request_history pe x =
     (let records = latestTodoOnly (sMessages (xS x)); current = runningTurnIDs records (sRunPinID (xS x));
          convert = (\<lambda>m. pmConvert pe (xConnection x) (xS x) m (mID m \<in> set current))
      in map (\<lambda>m. (convert m, m)) (filter isHarnessAbortRecord records) @
         map (\<lambda>m. (if pmPreserve pe then (convert m)\<lparr>lReasoningContent := mReasoning m\<rparr> else convert m, m))
           (filter (\<lambda>m. \<not> isHarnessAbortRecord m) records))"

text \<open>What the harness adds behind the history: the note to continue, the instruction of a retry, the reasoning of a first pass.\<close>

definition request_tail :: "prompt_env \<Rightarrow> loop_state \<Rightarrow> (llm_message \<times> message) list" where
  "request_tail pe x =
     (if xAutoContinue x then [(zero_llm_message\<lparr>lRole := ''user'', lContent := VStr (harnessNotePrefix @ ''Continue from the recorded context.'')\<rparr>, continue_record)] else []) @
     (if xRetryInstruction x \<noteq> [] then [(zero_llm_message\<lparr>lRole := ''assistant'', lContent := VStr (harnessNotePrefix @ xRetryInstruction x)\<rparr>,
        zero_message\<lparr>mRole := ''harness'', mCategory := ''history'', mContent := xRetryInstruction x\<rparr>)] else []) @
     (if xReasoningFallbackPending x then [(if pmReasoningField pe then zero_llm_message\<lparr>lRole := ''assistant'', lReasoning := xReasoningFallbackPrior x\<rparr>
          else zero_llm_message\<lparr>lRole := ''assistant'', lReasoningContent := xReasoningFallbackPrior x\<rparr>,
        zero_message\<lparr>mRole := ''assistant'', mReasoning := xReasoningFallbackPrior x, mCategory := ''history''\<rparr>)] else [])"

definition assemble :: "prompt_env \<Rightarrow> loop_state \<Rightarrow> string + llm_message list \<times> message list" where
  "assemble pe x =
     (let history = request_history pe x;
          (conversation, repaired, folds) = normalizeAdjacentAssistants (map fst history) (map snd history);
          hadUser = list_ex (\<lambda>m. lRole m = ''user'') conversation
      in case BuildMessageList (pmSprint pe) (pmSystem pe) conversation of
           Inl e \<Rightarrow> Inl (pmListError pe e)
         | Inr messages \<Rightarrow> Inr (messages @ map fst (request_tail pe x),
             (if hadUser then repaired else repaired @ [continue_record]) @ map snd (request_tail pe x)))"

text \<open>How many tokens the answer may take, and which part of them reasoning: \<open>status\<close> says whether the server takes a reasoning budget.\<close>

definition request_limits :: "prompt_env \<Rightarrow> string \<Rightarrow> llm_message list \<Rightarrow> loop_state \<Rightarrow> loop_state \<times> request" where
  "request_limits pe status messages x =
     (let c = xConnection x; b = xBudget x; pending = xReasoningFallbackPending x;
          thinking = (rcReasoningEnabled c \<and> \<not> pending);
          limit0 = requestTokenLimit c b (guardedPromptTokens (pmCeil110 pe) b);
          limit = (if thinking \<and> rcReasoningMaxTokens c > 0 \<and> status \<noteq> ''accepted'' then min limit0 (rcReasoningMaxTokens c) else limit0);
          share = ReasoningShareFor limit;
          rq = (\<lambda>m r. \<lparr>rqMessages = messages, rqMaxTokens = m, rqReasoningMaxTokens = r, rqThinking = thinking\<rparr>)
      in if pending then (x, rq (max 1 (xReasoningFallbackAllowance x - xReasoningFallbackShare x)) 0)
         else if thinking \<and> rcReasoningMaxTokens c = 0 then
           (if status = ''accepted'' then (x, rq limit share)
            else (x\<lparr>xReasoningFallbackAllowance := limit, xReasoningFallbackShare := share\<rparr>, rq share 0))
         else (x, rq limit 0))"

definition byte_ceiling :: "prompt_env \<Rightarrow> request \<Rightarrow> loop_state \<Rightarrow> loop_state" where
  "byte_ceiling pe rq x =
     (let limit = rcObservedByteLimit (xConnection x); size = pmBytes pe rq; used = bdUsedEst (xBudget x); ceiling = wrap64 (used * limit) sdiv size
      in if limit > 0 \<and> size > 0 \<and> used > 0 \<and> ceiling > 0 \<and> ceiling < bdCeiling (xBudget x)
         then x\<lparr>xBudget := (xBudget x)\<lparr>bdCeiling := ceiling\<rparr>\<rparr> else x)"

text \<open>The failed accounting: repaired history, a template refused once, another connection; else the run stops.\<close>

definition budget_failed :: "run_env \<Rightarrow> prompt_env \<Rightarrow> model_error \<Rightarrow> loop_state \<Rightarrow> loop_state \<times> outcome" where
  "budget_failed env pe err x =
     (case pmCancelled pe of
        Some wall \<Rightarrow> contextStop env wall (xTurn x - 1) ''budget accounting canceled'' x
      | None \<Rightarrow>
          let x1 = operationalError env ''budget'' (erText err) x;
              (x2, repaired) = repair_history env x1;
              back = (\<lambda>x. x\<lparr>xTurn := xTurn x - 1\<rparr>)
          in if repaired then (back x2, Again)
             else if \<not> xTemplateRetryTried x2 \<and> templateRefused err then (back (x2\<lparr>xTemplateRetryTried := True\<rparr>), Again)
             else case beginFallback env (pmCall pe) err x2 of
                    (x3, True) \<Rightarrow> (back x3, Again)
                  | (x3, False) \<Rightarrow>
                      if modelUnavailable err then
                        ((xpub env ''model.unreachable'' [(''host'', VStr (mcHost (pmCall pe))), (''detail'', VStr (erText err))] x3)\<lparr>xPublishFinalBudget := False\<rparr>,
                         Stop ''model_unreachable'' (erText err) (xTurn x3 - 1))
                      else (x3, Stop ''model_error'' (''budget accounting: '' @ erText err) (xTurn x3 - 1)))"

definition buildRequest :: "run_env \<Rightarrow> prompt_env \<Rightarrow> loop_state \<Rightarrow> loop_state \<times> outcome \<times> request" where
  "buildRequest env pe x =
     (let none = \<lparr>rqMessages = [], rqMaxTokens = 0, rqReasoningMaxTokens = 0, rqThinking = False\<rparr>;
          x1 = stage_enter env (xTurn x) ''assemble'' x;
          leave = stage_exit env (xTurn x) ''assemble''
      in case assemble pe x1 of
           Inl e \<Rightarrow> (case budget_failed env pe \<lparr>erText = e, erTransport = [], erCanceled = False\<rparr> (leave x1) of (x2, oc) \<Rightarrow> (x2, oc, none))
         | Inr (messages, records) \<Rightarrow>
             let x2 = x1\<lparr>xAutoContinue := False\<rparr>;
                 x3 = (case pmBusy pe of Some d \<Rightarrow> publish_busy env (pmCall pe) d x2 | None \<Rightarrow> x2)
             in case pmMeasure pe (tl messages) records of
                  Inl err \<Rightarrow> (case budget_failed env pe err (leave x3) of (x4, oc) \<Rightarrow> (x4, oc, none))
                | Inr b \<Rightarrow>
                    let (x4, rq) = request_limits pe (fst (reReasoningBudget env)) messages (x3\<lparr>xBudget := b\<rparr>);
                        x5 = byte_ceiling pe rq x4;
                        x6 = leave (xpub env ''budget'' [(''used_est'', VInt (bdUsedEst (xBudget x5))), (''ceiling'', VInt (bdCeiling (xBudget x5)))] x5)
                    in ((if pmBusy pe \<noteq> None then xpub env ModelReachable [(''connection_id'', VStr (rcID (xConnection x6)))] x6 else x6), GoOn, rq))"

section \<open>Fitting the window\<close>

record fit_env =
  fwSummaryOf :: "int \<Rightarrow> int"
  fwThreePct :: "int \<Rightarrow> int"
  fwSummarize :: summarizer
  fwModel :: string
  fwCeil110 :: "int \<Rightarrow> int"
  fwRequestEvent :: "(string \<times> val) list"

definition fixed_tokens :: "budget \<Rightarrow> int" where
  "fixed_tokens b = sum_list (map (\<lambda>n. mget_or 0 (bdCategories b) n)
     [''system'', ''project'', ''skills'', ''workspace_memory'', ''agent_memory'', ''tools''])"

definition fit_input :: "run_env \<Rightarrow> fit_env \<Rightarrow> loop_state \<Rightarrow> one_rule_input" where
  "fit_input env fe x =
     (let b = xBudget x; c = xConnection x; used = guardedPromptTokens (fwCeil110 fe) b
      in \<lparr>inUsed = used, inWindow = (if bdCeiling b \<le> 0 then bdNCtx b else bdCeiling b), inFixed = fixed_tokens b,
          inSummaryOf = fwSummaryOf fe, inThreePct = fwThreePct fe, inPin = sRunPinID (xS x), inHandOffID = ''m-'' @ Itoa (xIds x + 1),
          inRefusalSentence = xRefusalSentence x, inRefusalAttempt = xRefusalAttempt x, inSummarize = Some (fwSummarize fe),
          inSource = Some \<lparr>csRole = ''b'', csConnectionID = rcID c, csModel = fwModel fe, csOutcome = ''accepted'', csReason = [], csFallbackReason = [],
            csDispatched = True, csEstimatedPromptTokens = used, csEstimated = bdEstimated b, csNCtx = rcNCtx c, csUsage = VNil, csDurationMS = 0,
            csTrigger = (if xRefusalSentence x \<noteq> [] then ''server_refusal'' else ''summary_pct''), csCarriedBytes = 0, csCarriedDropped = 0, csCarriedDroppedBytes = 0\<rparr>,
          inToLower = reToLower env\<rparr>)"

definition compactBeforeRequest :: "run_env \<Rightarrow> fit_env \<Rightarrow> loop_state \<Rightarrow> loop_state \<times> one_rule_result" where
  "compactBeforeRequest env fe x =
     (let (s, result, evs) = Compact True (reRunID env) (fit_input env fe x) (xS x)
      in (x\<lparr>xS := s, xLog := xLog x @ evs, xIds := xIds x + 1\<rparr>, result))"

definition fitWindow :: "run_env \<Rightarrow> fit_env \<Rightarrow> loop_state \<Rightarrow> loop_state \<times> outcome" where
  "fitWindow env fe x =
     (let used = guardedPromptTokens (fwCeil110 fe) (xBudget x)
      in if xFallbackActive x \<and> used > bdCeiling (xBudget x) then
           (x, Stop ''context_exhausted'' (xPrimaryLabel x @ '' ('' @ Itoa (xPrimaryWindow x) @ '' tokens) did not answer; '' @ rcLabel (xConnection x) @ '' ('' @
                Itoa (rcNCtx (xConnection x)) @ '' tokens) cannot fit the '' @ Itoa used @ ''-token request'') (xTurn x - 1))
         else let (x1, result) = compactBeforeRequest env fe x
              in if orStop result \<noteq> [] then
                   (x1, Stop (if xRefusalSentence x1 \<noteq> [] then ''model_error'' else ''context_exhausted'') (orStop result) (xTurn x1 - 1))
                 else if orChanged result then
                   (x1\<lparr>xCompacted := True, xRefusalSentence := [], xTurn := xTurn x1 - 1\<rparr>, Again)
                 else let x2 = (if xReasoningFallbackPending x1 then x1\<lparr>xReasoningFallbackPending := False, xReasoningFallbackUsed := True\<rparr> else x1)
                      in (xpub env ''model.request'' (fwRequestEvent fe) x2, GoOn))"

section \<open>The driver\<close>

text \<open>One round of \<open>runInPhases\<close>: the phases in order, left at the first that stops the run or starts the round again. Ending a turn does
  nothing more. A round is given everything it meets.\<close>

record round_env =
  rnTurn :: turn_env
  rnPrompt :: prompt_env
  rnFit :: fit_env
  rnTools :: tools_env
  rnCycle :: cycle_env

definition and_then :: "loop_state \<times> outcome \<Rightarrow> (loop_state \<Rightarrow> loop_state \<times> outcome) \<Rightarrow> loop_state \<times> outcome" where
  "and_then r f = (case r of (x, GoOn) \<Rightarrow> f x | (x, oc) \<Rightarrow> (x, oc))"

definition run_round :: "run_env \<Rightarrow> round_env \<Rightarrow> loop_state \<Rightarrow> loop_state \<times> outcome" where
  "run_round env rn x =
     and_then (turnBoundary env (rnTurn rn) x) (\<lambda>x.
       case buildRequest env (rnPrompt rn) x of
         (x, oc, rq) \<Rightarrow> and_then (x, oc) (\<lambda>x.
           and_then (fitWindow env (rnFit rn) x) (\<lambda>x.
             case callModel env (pmCall (rnPrompt rn)) x of
               (x, oc, rp) \<Rightarrow> and_then (x, oc) (\<lambda>x.
                 and_then (readAnswer env rp x) (finishOrRunTools env (rnTools rn) (rnCycle rn))))))"

text \<open>The rounds of a run, each with what it meets; \<open>None\<close> while the run goes on.\<close>

fun run_rounds :: "run_env \<Rightarrow> round_env list \<Rightarrow> loop_state \<Rightarrow> loop_state \<times> (string \<times> string \<times> int) option" where
  "run_rounds env [] x = (x, None)"
| "run_rounds env (rn # rns) x =
     (case run_round env rn x of
        (x1, Stop reason detail turns) \<Rightarrow> (x1, Some (reason, detail, turns))
      | (x1, _) \<Rightarrow> run_rounds env rns x1)"

section \<open>Turns and reasons\<close>

text \<open>What a phase may do to the turn counter and with which reasons it may stop: the reported number of turns and the counter that the next
  round sees lie between \<open>lo\<close> and \<open>hi\<close>; the next phase sees \<open>hi\<close>.\<close>

fun within_turns :: "int \<Rightarrow> int \<Rightarrow> loop_state \<times> outcome \<Rightarrow> bool" where
  "within_turns lo hi (x, Stop reason detail n) \<longleftrightarrow> DeclaredStopReason reason \<and> lo \<le> n \<and> n \<le> hi"
| "within_turns lo hi (x, Again) \<longleftrightarrow> lo \<le> xTurn x \<and> xTurn x \<le> hi"
| "within_turns lo hi (x, GoOn) \<longleftrightarrow> xTurn x = hi"

lemma declared_loop_reasons:
  "DeclaredStopReason ''mailbox_stop''" "DeclaredStopReason ''connection_not_runnable''" "DeclaredStopReason ''model_unreachable''"
  "DeclaredStopReason ''model_error''" "DeclaredStopReason ''context_exhausted''"
  by (simp_all add: DeclaredStopReason_def StopReasons_def)

lemma within_contextStop: "lo \<le> t \<Longrightarrow> t \<le> hi \<Longrightarrow> within_turns lo hi (contextStop env wall t f x)"
  using contextStop_outcome(2) [of env wall t f x] by (cases "contextStop env wall t f x") auto

lemma within_and_then:
  assumes "within_turns lo hi r" and "\<And>x. xTurn x = hi \<Longrightarrow> r = (x, GoOn) \<Longrightarrow> within_turns lo hi (f x)"
  shows "within_turns lo hi (and_then r f)"
proof -
  obtain x oc where r: "r = (x, oc)" by fastforce
  then show ?thesis using assms by (cases oc) (auto simp: and_then_def)
qed

lemma mailbox_turn: "xTurn (fst (applyMailboxBoundary env te x)) = xTurn x"
  by (auto simp: applyMailboxBoundary_def operationalError_def Let_def split: option.split sum.split)

lemma repair_turn: "xTurn (fst (repair_history env x)) = xTurn x"
  by (simp add: repair_history_def case_prod_beta Let_def)

lemma begin_turn_turn [simp]: "xTurn (begin_turn x) = xTurn x + 1"
  by (simp add: begin_turn_def Let_def)

lemma on_chat_turn [simp]: "xTurn (on_chat f x) = xTurn x"
  by (simp add: on_chat_def)

lemma on_xs_turn [simp]: "xTurn (on_xs f x) = xTurn x"
  by (simp add: on_xs_def)

lemma turnBoundary_within: "within_turns (xTurn x) (xTurn x + 1) (turnBoundary env te x)"
proof (cases "tnCancelled te")
  case (Some wall)
  then show ?thesis by (simp add: turnBoundary_def within_contextStop)
next
  case None
  obtain x1 stops detail where m: "applyMailboxBoundary env te x = (x1, stops, detail)" using prod_cases3 by blast
  have t: "xTurn x1 = xTurn x" using mailbox_turn [of env te x] m by simp
  show ?thesis
  proof (cases stops)
    case True
    then show ?thesis using t None m
      by (simp add: turnBoundary_def mailbox_stop_def declared_loop_reasons within_contextStop split: option.split)
  next
    case False
    define x2 where "x2 = begin_turn (on_chat (tnTakeQueued te) x1)"
    define cid where "cid = (if xFallbackActive x2 then xFallbackID x2 else sConnectionID (xS x2))"
    have t2: "xTurn x2 = xTurn x + 1" by (simp add: x2_def t)
    show ?thesis
      unfolding turnBoundary_def None option.case m prod.case Let_def if_not_P [OF False] x2_def [symmetric] cid_def [symmetric]
      using t2 repair_turn [of env "x2\<lparr>xConnection := c\<rparr>" for c]
      by (auto simp: declared_loop_reasons offer_tools_def Let_def case_prod_beta split: option.split sum.split if_splits)
  qed
qed

lemma fallback_turn: "xTurn (fst (beginFallback env mc err x)) = xTurn x"
  by (simp add: beginFallback_def Let_def split: option.split)

lemma budget_failed_within: "within_turns (xTurn x - 1) (xTurn x - 1) (budget_failed env pe err x) \<and> snd (budget_failed env pe err x) \<noteq> GoOn"
proof (cases "pmCancelled pe")
  case (Some wall)
  then show ?thesis using contextStop_outcome(2) [of env wall "xTurn x - 1" "''budget accounting canceled''" x]
    by (cases "contextStop env wall (xTurn x - 1) ''budget accounting canceled'' x") (auto simp: budget_failed_def)
next
  case None
  define x1 where "x1 = operationalError env ''budget'' (erText err) x"
  obtain x2 rep where r: "repair_history env x1 = (x2, rep)" by fastforce
  have t: "xTurn x2 = xTurn x" using repair_turn [of env x1] r by (simp add: x1_def operationalError_def)
  obtain x3 fb where f: "beginFallback env (pmCall pe) err x2 = (x3, fb)" by fastforce
  have t3: "xTurn x3 = xTurn x" using fallback_turn [of env "pmCall pe" err x2] f t by simp
  show ?thesis
    unfolding budget_failed_def None option.case Let_def x1_def [symmetric] r prod.case f
    using t t3 by (cases fb) (auto simp: declared_loop_reasons)
qed

lemma request_limits_turn: "xTurn (fst (request_limits pe status ms x)) = xTurn x"
  by (simp add: request_limits_def Let_def)

lemma byte_ceiling_turn [simp]: "xTurn (byte_ceiling pe rq x) = xTurn x"
  by (simp add: byte_ceiling_def Let_def)

lemma publish_busy_turn [simp]: "xTurn (publish_busy env mc d x) = xTurn x"
  by (simp add: publish_busy_def)

lemma buildRequest_within:
  assumes "buildRequest env pe x = (x', oc, rq)"
  shows "within_turns (xTurn x - 1) (xTurn x) (x', oc)"
proof -
  let ?x1 = "stage_enter env (xTurn x) ''assemble'' x"
  have w: "within_turns (xTurn x - 1) (xTurn x) (budget_failed env pe e z)" if "xTurn z = xTurn x" for e z
    using budget_failed_within [of z env pe e] that by (cases "budget_failed env pe e z"; cases "snd (budget_failed env pe e z)") auto
  show ?thesis
  proof (cases "assemble pe ?x1")
    case (Inl e)
    then show ?thesis using assms w by (auto simp: buildRequest_def Let_def case_prod_beta)
  next
    case (Inr p)
    then show ?thesis using assms w request_limits_turn
      by (auto simp: buildRequest_def Let_def case_prod_beta split: prod.splits sum.splits option.splits)
  qed
qed

lemma fitWindow_within: "within_turns (xTurn x - 1) (xTurn x) (fitWindow env fe x)"
proof -
  have t: "xTurn (fst (compactBeforeRequest env fe x)) = xTurn x" by (simp add: compactBeforeRequest_def case_prod_beta Let_def)
  then show ?thesis by (simp add: fitWindow_def Let_def case_prod_beta declared_loop_reasons)
qed

lemma deliver_turn: "xTurn (fst (deliver_delta env mc d st)) = xTurn (fst st)"
  by (simp add: deliver_delta_def Let_def case_prod_beta)

lemma deliver_fold_turn: "xTurn (fst (fold (deliver_delta env mc) ds st)) = xTurn (fst st)"
  by (rule fold_keeps) (rule deliver_turn)

lemma call_attempts_turn: "xTurn (fst (call_attempts env mc left attempt sizes busy x)) = xTurn x"
proof (induction left arbitrary: attempt sizes busy x)
  case 0
  show ?case unfolding call_attempts.simps [of env mc 0]
    by (simp add: Let_def case_prod_beta deliver_fold_turn split: option.split)
next
  case (Suc left)
  show ?case unfolding call_attempts.simps [of env mc "Suc left"]
    by (simp add: Let_def case_prod_beta deliver_fold_turn Suc.IH split: option.split)
qed

lemma kept_turn [simp]: "xTurn (keepTruncatedAnswer env c r x) = xTurn x"
  by (rule kept_answer_adds(2))

lemma call_gives_up_within: "within_turns (xTurn x - 1) (xTurn x) (call_gives_up env mc err x)"
proof -
  obtain x1 fb where f: "beginFallback env mc err x = (x1, fb)" by fastforce
  have t: "xTurn x1 = xTurn x" using fallback_turn [of env mc err x] f by simp
  show ?thesis unfolding call_gives_up_def f by (cases fb) (simp_all add: t Let_def declared_loop_reasons)
qed

lemma call_refused_within: "within_turns (xTurn x - 1) (xTurn x) (call_refused env mc err x)"
  using call_gives_up_within by (simp add: call_refused_def again_shorter_def Let_def split: option.split)

lemma call_failed_within: "within_turns (xTurn x - 1) (xTurn x) (call_failed env mc rp err x)"
proof (cases "mcCancelled mc")
  case (Some wall)
  then show ?thesis by (simp add: call_failed_def within_contextStop)
next
  case None
  have "within_turns (xTurn x - 1) (xTurn x) (call_refused env mc err z)" if "xTurn z = xTurn x" for z
    using call_refused_within [of z env mc err] that by simp
  then show ?thesis using None by (simp add: call_failed_def Let_def case_prod_beta declared_answer_reasons)
qed

lemma callModel_within:
  assumes "callModel env mc x = (x', oc, rp)"
  shows "within_turns (xTurn x - 1) (xTurn x) (x', oc)"
proof -
  let ?x1 = "stage_enter env (xTurn x) ''call_model'' (x\<lparr>xPartial := [], xAnswerBegan := False\<rparr>)"
  obtain x2 busy cut rp' err where a: "call_attempts env mc (mcRetries mc) 0 [] False ?x1 = (x2, busy, cut, rp', err)" using prod_cases5 by blast
  have t: "xTurn x2 = xTurn x" using call_attempts_turn [of env mc "mcRetries mc" 0 "[]" False ?x1] a by simp
  have "within_turns (xTurn x - 1) (xTurn x) (call_failed env mc r e z)" if "xTurn z = xTurn x" for r e z
    using call_failed_within [of z env mc r e] that by simp
  then show ?thesis using assms t unfolding callModel_def Let_def a prod.case
    by (auto simp: case_prod_beta split: option.splits if_splits)
qed

lemma answer_final_turn: "xTurn (fst (answer_final env rp x)) = xTurn x"
  by (simp add: answer_final_def Let_def case_prod_beta stored_answer_adds kept_answer_adds split: option.split sum.split)

lemma assistant_turn: "xTurn (fst (assistant_message env c r x)) = xTurn x"
  using assistant_message_spec(2) [of env c r x] by (cases "assistant_message env c r x") auto

lemma retry_truncated_turn: "xTurn (fst (retry_truncated env x)) = xTurn x"
  by (simp add: retry_truncated_def Let_def)

lemma settle_retry_turn: "xTurn (settle_retry x) = xTurn x"
  by (simp add: settle_retry_def)

lemma answer_decide_turn: "xTurn (fst (answer_decide env rp x)) = xTurn x"
  unfolding answer_decide_def
  by (simp add: answer_final_turn retry_truncated_turn settle_retry_turn case_prod_beta assistant_turn Let_def del: append.append_Cons append.append_Nil)

lemma answer_read_turn:
  "xTurn (fst (answer_read env rp x)) = xTurn x \<or> (xTurn (fst (answer_read env rp x)) = xTurn x - 1 \<and> snd (answer_read env rp x) = Again)"
  by (simp add: answer_read_def Let_def answer_decide_turn)

lemma readAnswer_within:
  assumes "readAnswer env rp x = (x', oc)"
  shows "within_turns (xTurn x - 1) (xTurn x) (x', oc)"
proof -
  have "xTurn (answer_guard env (answer_begin rp x)) = xTurn x" using answer_guard_spec(2) [where env = env and x = "answer_begin rp x"] by simp
  with answer_read_turn [of env rp "answer_guard env (answer_begin rp x)"]
  have "xTurn x' = xTurn x \<or> (xTurn x' = xTurn x - 1 \<and> oc = Again)"
    using assms unfolding readAnswer_def Let_def by (auto simp: case_prod_beta split: prod.splits bool.splits)
  then show ?thesis using readAnswer_ok [OF assms] by (cases oc) auto
qed

lemma observe_results_turn: "xTurn (fst (observe_results env ce items x)) = xTurn x"
proof (induction items arbitrary: x)
  case (Cons item items)
  have c: "xTurn (fst (contextStop env wall t f y)) = xTurn y" for wall t f y
    using contextStop_outcome(3) [of env wall t f y] by (cases "contextStop env wall t f y") auto
  show ?case by (simp add: Let_def case_prod_beta Cons.IH c split: sum.split option.split)
qed simp

lemma finishOrRunTools_turn: "xTurn (fst (finishOrRunTools env te ce x)) = xTurn x"
proof -
  have c: "xTurn (fst (contextStop env wall t f y)) = xTurn y" for wall t f y
    using contextStop_outcome(3) [of env wall t f y] by (cases "contextStop env wall t f y") auto
  have e: "xTurn (fst (execute_tools env te items y)) = xTurn y" for items y
    using execute_tools_unheard(1) [of env te items y] by (cases "execute_tools env te items y") (auto simp: unheard_def)
  have f: "xTurn (fold (append_result env) rs y) = xTurn y" for rs y by (rule fold_keeps) (rule append_result_turn)
  show ?thesis
    by (simp add: finishOrRunTools_def Let_def case_prod_beta c e f observe_results_turn in_stage_def append_results_def split: option.split)
qed

lemma finishOrRunTools_within:
  assumes "length (xDurableToolCalls x) = length (xToolCalls x)"
  shows "within_turns (xTurn x) (xTurn x) (finishOrRunTools env te ce x)"
proof -
  obtain y oc where f: "finishOrRunTools env te ce x = (y, oc)" by fastforce
  show ?thesis using finishOrRunTools_ok [OF assms f] finishOrRunTools_turn [of env te ce x] f by (cases oc) auto
qed

lemma within_lower: "within_turns a hi r \<Longrightarrow> lo \<le> a \<Longrightarrow> within_turns lo hi r"
  by (cases r; cases "snd r") auto

lemma run_round_within: "within_turns (xTurn x) (xTurn x + 1) (run_round env rn x)"
proof -
  have tools: "within_turns (xTurn x) (xTurn x + 1) (and_then (readAnswer env rp z) (finishOrRunTools env (rnTools rn) (rnCycle rn)))"
    if "xTurn z = xTurn x + 1" for z rp
  proof (rule within_and_then, goal_cases)
    case 1
    show ?case using readAnswer_within [of env rp z] that by (cases "readAnswer env rp z") auto
  next
    case (2 y)
    then have "length (xDurableToolCalls y) = length (xToolCalls y)"
      using readAnswer_ok [of env rp z y GoOn] map_eq_imp_length_eq by auto
    from finishOrRunTools_within [OF this, of env "rnTools rn" "rnCycle rn"] 2 show ?case by (simp add: within_lower [of "xTurn x + 1"])
  qed
  have call: "within_turns (xTurn x) (xTurn x + 1) (case callModel env (pmCall (rnPrompt rn)) z of (x, oc, rp) \<Rightarrow>
      and_then (x, oc) (\<lambda>x. and_then (readAnswer env rp x) (finishOrRunTools env (rnTools rn) (rnCycle rn))))"
    if "xTurn z = xTurn x + 1" for z
  proof -
    obtain y oc rp where c: "callModel env (pmCall (rnPrompt rn)) z = (y, oc, rp)" using prod_cases3 by blast
    show ?thesis unfolding c prod.case
      using callModel_within [OF c] that tools by - (rule within_and_then, auto)
  qed
  show ?thesis unfolding run_round_def
  proof (rule within_and_then [OF turnBoundary_within], goal_cases)
    case (1 z)
    obtain y oc rq where b: "buildRequest env (rnPrompt rn) z = (y, oc, rq)" using prod_cases3 by blast
    show ?case unfolding b prod.case
    proof (rule within_and_then, goal_cases)
      case 1
      show ?case using buildRequest_within [OF b] \<open>xTurn z = xTurn x + 1\<close> by simp
    next
      case (2 w)
      show ?case
      proof (rule within_and_then, goal_cases)
        case 1
        show ?case using fitWindow_within [of w env "rnFit rn"] 2 by simp
      qed (rule call)
    qed
  qed
qed

section \<open>Properties\<close>

lemma run_rounds_within:
  "case run_rounds env rns x of
     (x', None) \<Rightarrow> xTurn x \<le> xTurn x' \<and> xTurn x' \<le> xTurn x + int (length rns)
   | (x', Some (reason, detail, turns)) \<Rightarrow> DeclaredStopReason reason \<and> xTurn x \<le> turns \<and> turns \<le> xTurn x + int (length rns)"
proof (induction rns arbitrary: x)
  case (Cons rn rns)
  obtain x1 oc where r: "run_round env rn x = (x1, oc)" by fastforce
  show ?case
    using run_round_within [of x env rn] r Cons.IH [of x1] by (cases oc) (auto split: prod.splits option.splits)
qed simp

text \<open>C4. How a run ends: whatever the model, the tools, the mailbox and the operator do, a run that stops names a reason of the catalogue, and
  the number of turns it reports is at least the number it started with and at most one more per round; a round that is retried does not
  count as a turn.\<close>

theorem run_ends_for_a_declared_reason:
  "case snd (run_rounds env rns x) of
     None \<Rightarrow> xTurn x \<le> xTurn (fst (run_rounds env rns x)) \<and> xTurn (fst (run_rounds env rns x)) \<le> xTurn x + int (length rns)
   | Some (reason, detail, turns) \<Rightarrow> DeclaredStopReason reason \<and> xTurn x \<le> turns \<and> turns \<le> xTurn x + int (length rns)"
  using run_rounds_within [where env = env and rns = rns and x = x] by (auto split: prod.splits option.splits)


text \<open>What bounds the retries of a run, and what the call itself leaves of it.\<close>

definition retry_book :: "loop_state \<Rightarrow> int \<times> bool \<times> int \<times> int" where
  "retry_book x = (xRefusalAttempt x, xFallbackActive x, xAttachmentsAsTextTurn x, xTurn x)"

lemma retry_book_xpub [simp]: "retry_book (xpub env t d x) = retry_book x"
  by (simp add: retry_book_def xpub_def)

lemma retry_book_stage [simp]: "retry_book (stage_enter env t n x) = retry_book x" "retry_book (stage_exit env t n x) = retry_book x"
  by (simp_all add: retry_book_def stage_enter_def stage_exit_def xpub_def Let_def)

lemma retry_book_on_xs [simp]: "retry_book (on_xs f x) = retry_book x"
  by (simp add: retry_book_def on_xs_def)

lemma retry_book_fields: "retry_book (x\<lparr>xPartial := p, xAnswerBegan := b\<rparr>) = retry_book x"
  by (simp add: retry_book_def)

lemma retry_book_deliver: "retry_book (fst (deliver_delta env mc d st)) = retry_book (fst st)"
  by (simp add: deliver_delta_def Let_def case_prod_beta) (simp add: retry_book_def)

lemma retry_book_attempts: "retry_book (fst (call_attempts env mc left attempt sizes busy x)) = retry_book x"
proof (induction left arbitrary: attempt sizes busy x)
  case 0
  have f: "retry_book (fst (fold (deliver_delta env mc) ds st)) = retry_book (fst st)" for ds st by (rule fold_keeps) (rule retry_book_deliver)
  show ?case unfolding call_attempts.simps [of env mc 0]
    by (simp add: Let_def case_prod_beta f publish_busy_def split: option.split)
next
  case (Suc left)
  have f: "retry_book (fst (fold (deliver_delta env mc) ds st)) = retry_book (fst st)" for ds st by (rule fold_keeps) (rule retry_book_deliver)
  show ?case unfolding call_attempts.simps [of env mc "Suc left"]
    by (simp add: Let_def case_prod_beta f publish_busy_def Suc.IH split: option.split)
qed

lemma retry_book_line: "retry_book (appendHarnessLine env t l x) = retry_book x"
  by (simp add: appendHarnessLine_def makeMessage_def append_message_def Let_def) (simp add: retry_book_def)

definition paid :: "loop_state \<Rightarrow> loop_state \<Rightarrow> bool" where
  "paid x y \<longleftrightarrow> xRefusalAttempt y = xRefusalAttempt x + 1 \<or> (\<not> xFallbackActive x \<and> xFallbackActive y) \<or>
     (xAttachmentsAsTextTurn x \<noteq> xTurn x \<and> xAttachmentsAsTextTurn y = xTurn x)"

lemma paid_cong: "retry_book x = retry_book z \<Longrightarrow> paid x y = paid z y"
  by (simp add: paid_def retry_book_def)

lemma fallback_paid: "snd (beginFallback env mc err x) \<Longrightarrow> \<not> xFallbackActive x \<and> xFallbackActive (fst (beginFallback env mc err x))"
  by (auto simp: beginFallback_def xpub_def Let_def split: if_splits option.splits)

lemma gives_up_paid: "snd (call_gives_up env mc err x) = Again \<Longrightarrow> paid x (fst (call_gives_up env mc err x))"
proof -
  assume a: "snd (call_gives_up env mc err x) = Again"
  obtain x1 fb where f: "beginFallback env mc err x = (x1, fb)" by fastforce
  from a fallback_paid [of env mc err x] show ?thesis
    unfolding call_gives_up_def f by (cases fb) (auto simp: paid_def xpub_def Let_def split: if_splits)
qed

lemma refused_paid: "snd (call_refused env mc err x) = Again \<Longrightarrow> paid x (fst (call_refused env mc err x))"
proof -
  assume a: "snd (call_refused env mc err x) = Again"
  have l: "xRefusalAttempt (appendHarnessLine env t l y) = xRefusalAttempt y" for t l y
    using retry_book_line [of env t l y] by (simp add: retry_book_def)
  from a gives_up_paid [of env mc err x] show ?thesis
    by (auto simp: call_refused_def again_shorter_def Let_def paid_def l split: option.splits if_splits)
qed

lemma failed_paid: "snd (call_failed env mc rp err x) = Again \<Longrightarrow> paid x (fst (call_failed env mc rp err x))"
proof (cases "mcCancelled mc")
  case (Some wall)
  assume "snd (call_failed env mc rp err x) = Again"
  with Some contextStop_outcome(2) [of env wall "xTurn x" "''model call canceled''" x] show ?thesis
    by (cases "contextStop env wall (xTurn x) ''model call canceled'' x") (auto simp: call_failed_def)
next
  case None
  assume a: "snd (call_failed env mc rp err x) = Again"
  have "snd (call_refused env mc err z) = Again \<Longrightarrow> retry_book z = retry_book x \<Longrightarrow> paid x (fst (call_refused env mc err z))" for z
    using refused_paid [of env mc err z] paid_cong by metis
  with None a show ?thesis by (auto simp: call_failed_def Let_def case_prod_beta split: if_splits)
qed

text \<open>C23. A retry of the model call is paid for: when the phase asks for another round, it has counted one more refusal of the server,
  or switched to the fallback connection, which it does once in a run, or decided to send attachments as text in this turn, which it
  does once per turn.\<close>

theorem model_retry_is_paid_for:
  "case callModel env mc x of (x', oc, rp) \<Rightarrow>
     (case oc of
        Again \<Rightarrow> xRefusalAttempt x' = xRefusalAttempt x + 1 \<or> (\<not> xFallbackActive x \<and> xFallbackActive x') \<or>
          (xAttachmentsAsTextTurn x \<noteq> xTurn x \<and> xAttachmentsAsTextTurn x' = xTurn x)
      | GoOn \<Rightarrow> True
      | Stop reason detail turns \<Rightarrow> True)"
proof -
  let ?x1 = "stage_enter env (xTurn x) ''call_model'' (x\<lparr>xPartial := [], xAnswerBegan := False\<rparr>)"
  obtain x2 busy cut rp err where a: "call_attempts env mc (mcRetries mc) 0 [] False ?x1 = (x2, busy, cut, rp, err)" using prod_cases5 by blast
  have b: "retry_book x2 = retry_book x"
    using retry_book_attempts [of env mc "mcRetries mc" 0 "[]" False ?x1] a by (simp add: retry_book_fields)
  have p: "paid x (fst (call_failed env mc r e z))" if "snd (call_failed env mc r e z) = Again" "retry_book z = retry_book x" for r e z
    using failed_paid [OF that(1)] paid_cong [OF that(2)] by simp
  show ?thesis unfolding callModel_def Let_def a prod.case
    using p b by (auto simp: paid_def [symmetric] case_prod_beta split: option.split outcome.split)
qed

text \<open>A second refusal ends the run: once the server has refused two requests of a run and its sentence stands, fitting the window does not
  send a third one, whatever could still be cut: the run stops in the turn before, for an error of the model or because the fallback's window is
  too small.\<close>

theorem second_refusal_ends_the_run:
  "if xRefusalAttempt x \<ge> 2 \<and> xRefusalSentence x \<noteq> []
   then (case snd (fitWindow env fe x) of
           Stop reason detail turns \<Rightarrow> turns = xTurn x - 1 \<and> (reason = ''model_error'' \<and> detail = xRefusalSentence x \<or> xFallbackActive x \<and> reason = ''context_exhausted'')
         | GoOn \<Rightarrow> False
         | Again \<Rightarrow> False)
   else True"
  by (simp add: fitWindow_def compactBeforeRequest_def Compact_def fit_input_def Let_def)

section \<open>A whole run\<close>

text \<open>What \<open>start\<close> meets: the file system, the projects that the messages touch (\<open>seProjects\<close>), the notice about the service identity
  (\<open>seIdentity\<close>), the mailbox and the connections (\<open>seTurn\<close>), and the cycle guard's window and key.\<close>

record start_env =
  seBoundary :: string
  seMkdir :: "string \<Rightarrow> string option"
  seIsDir :: "string \<Rightarrow> bool"
  seProjects :: "session \<Rightarrow> session \<times> bus_note list"
  seIdentity :: "bus_note list"
  seCycleWindow :: int
  seLoopKey :: "string \<Rightarrow> args \<Rightarrow> string"
  seTurn :: turn_env

definition fresh_run :: "start_env \<Rightarrow> loop_state \<Rightarrow> loop_state" where
  "fresh_run se x =
     x\<lparr>xTurn := 0, xLengthSeen := False, xTruncatedToolRetry := [], xRetryInstruction := [], xMalformedToolRetried := False,
       xAnsweredThisRun := False, xAnnouncedActionContinued := False, xAutoContinue := False, xRefusedTurn := -1, xAccountingRepairTried := False,
       xTemplateRetryTried := False, xRunMessageLimit := 0, xRunByteLimit := 0, xRunWindow := 0,
       xGuards := withLoopKey (seLoopKey se) (newRunGuards (seCycleWindow se)), xCurrentReasoning := []\<rparr>"

text \<open>The steps before the mailbox; the flag says whether the pin and the flight are set.\<close>

definition start_workspace :: "run_env \<Rightarrow> start_env \<Rightarrow> loop_state \<Rightarrow> loop_state \<times> string option" where
  "start_workspace env se x =
     (let s1 = fst (MarkNetworkBoundaryStale (seBoundary se) (xS x));
          (s2, ok, reason, changed) = EnsureWorkspace (seMkdir se) (seIsDir se) s1;
          x1 = x\<lparr>xS := s2\<rparr>;
          x2 = (if changed then xpub env ''session.updated'' [(''session_id'', VStr (sID s2)), (''workspace_missing'', VBool (sWorkspaceMissing s2)),
                  (''runnable'', VBool (sRunnable s2)), (''not_runnable_reason'', VStr (sNotRunnableReason s2))] x1 else x1)
      in if \<not> ok then (x2, Some reason)
         else let x3 = on_chat (seProjects se) x2;
                  x4 = on_xs (\<lambda>s. SetRunPin (RunPinFromTail (sMessages s)) s) x3;
                  x5 = x4\<lparr>xBook := beginFlight (sID (xS x4)) (reRunID env) (xBook x4)\<rparr>
              in (x5\<lparr>xLog := xLog x5 @ seIdentity se, xProduced := []\<rparr>, None))"

definition start_connection :: "run_env \<Rightarrow> start_env \<Rightarrow> loop_state \<Rightarrow> loop_state \<times> outcome" where
  "start_connection env se x =
     (let te = seTurn se; (x1, stops, detail) = applyMailboxBoundary env te x; cid = sConnectionID (xS x1)
      in if stops then (case tnLate te of Some wall \<Rightarrow> contextStop env wall 0 detail x1 | None \<Rightarrow> (x1, Stop ''mailbox_stop'' detail 0))
         else case tnConnection te cid of
                None \<Rightarrow> (x1, Stop ''connection_not_runnable'' (''connection '' @ cid @ '' no longer exists'') 0)
              | Some c \<Rightarrow>
                  (case resolveWindow (tnQuote te) (tnProps te) (tnWindows te) c of
                     Inl e \<Rightarrow> (x1, Stop ''connection_not_runnable'' e 0)
                   | Inr (resolved, source) \<Rightarrow>
                       if \<not> sRunnable (xS x1) then (x1\<lparr>xConnection := resolved\<rparr>, Stop ''connection_not_runnable'' (sNotRunnableReason (xS x1)) 0)
                       else (fresh_run se (x1\<lparr>xConnection := resolved\<rparr>), GoOn)))"

definition release_run :: "run_env \<Rightarrow> loop_state \<Rightarrow> loop_state" where
  "release_run env x = on_xs (SetRunPin []) (x\<lparr>xBook := endFlight (sID (xS x)) (reRunID env) (xBook x)\<rparr>)"

text \<open>\<open>runInPhases\<close>: the start, the rounds, and what is released at the end; \<open>None\<close> while it still goes on.\<close>

definition run_in_phases ::
  "run_env \<Rightarrow> start_env \<Rightarrow> round_env list \<Rightarrow> loop_state \<Rightarrow> loop_state \<times> (string \<times> string \<times> int) option" where
  "run_in_phases env se rns x =
     (case start_workspace env se x of
        (x1, Some reason) \<Rightarrow> (x1, Some (''workspace_not_runnable'', reason, 0))
      | (x1, None) \<Rightarrow>
          (case start_connection env se x1 of
             (x2, Stop reason detail turns) \<Rightarrow> (release_run env x2, Some (reason, detail, turns))
           | (x2, _) \<Rightarrow>
               (case run_rounds env rns x2 of
                  (x3, Some stop) \<Rightarrow> (release_run env x3, Some stop)
                | (x3, None) \<Rightarrow> (x3, None))))"

lemma start_connection_outcome:
  "case start_connection env se x of
     (x', Stop reason detail turns) \<Rightarrow> DeclaredStopReason reason \<and> turns = 0
   | (x', GoOn) \<Rightarrow> xTurn x' = 0
   | (x', Again) \<Rightarrow> False"
proof -
  let ?te = "seTurn se"
  obtain x1 stops detail where m: "applyMailboxBoundary env ?te x = (x1, stops, detail)" using prod_cases3 by blast
  have c: "case contextStop env wall 0 detail x1 of (x', Stop reason d turns) \<Rightarrow> DeclaredStopReason reason \<and> turns = 0 | (x', GoOn) \<Rightarrow> xTurn x' = 0 | (x', Again) \<Rightarrow> False" for wall
    using contextStop_outcome(2) [of env wall 0 detail x1] by (cases "contextStop env wall 0 detail x1") auto
  show ?thesis
    by (simp add: start_connection_def m Let_def c declared_loop_reasons fresh_run_def split: option.split sum.split)
qed

lemma release_run_releases:
  "sRunPinID (xS (release_run env x)) = [] \<and>
   (case mget (fbActive (xBook (release_run env x))) (sID (xS (release_run env x))) of None \<Rightarrow> True | Some f \<Rightarrow> fRunID f \<noteq> reRunID env)"
  by (auto simp: release_run_def on_xs_def SetRunPin_def endFlight_def split: option.split)

text \<open>C22. A run that stopped has let go: it names a declared reason with the turns it took, and unless the folder of the chat was missing at the
  start, the message it answered is no longer pinned and no flight of the run is active any more.\<close>

theorem stopped_run_lets_go:
  "case run_in_phases env se rns x of
     (x', None) \<Rightarrow> True
   | (x', Some (reason, detail, turns)) \<Rightarrow> DeclaredStopReason reason \<and> 0 \<le> turns \<and> turns \<le> int (length rns) \<and>
       (reason = ''workspace_not_runnable'' \<or>
        sRunPinID (xS x') = [] \<and> (case mget (fbActive (xBook x')) (sID (xS x')) of None \<Rightarrow> True | Some f \<Rightarrow> fRunID f \<noteq> reRunID env))"
proof -
  have w: "DeclaredStopReason ''workspace_not_runnable''" by (simp add: DeclaredStopReason_def StopReasons_def)
  obtain x1 r where s: "start_workspace env se x = (x1, r)" by fastforce
  obtain x2 oc where c: "start_connection env se x1 = (x2, oc)" by fastforce
  obtain x3 st where l: "run_rounds env rns x2 = (x3, st)" by fastforce
  note o = start_connection_outcome [of env se x1, unfolded c prod.case]
  have l': "case st of None \<Rightarrow> True | Some (reason, detail, turns) \<Rightarrow> DeclaredStopReason reason \<and> 0 \<le> turns \<and> turns \<le> int (length rns)" if "oc = GoOn"
    using run_rounds_within [where env = env and rns = rns and x = x2] l o that by (auto split: option.splits)
  show ?thesis
  proof (cases r)
    case (Some reason)
    then show ?thesis using s w by (simp add: run_in_phases_def)
  next
    case None
    then show ?thesis using s c l o l' release_run_releases [of env x2] release_run_releases [of env x3]
      by (cases oc; cases st) (auto simp: run_in_phases_def)
  qed
qed
end
