(* ===== verification/Human.thy ===== *)
theory Human
  imports Events Go_Strings
begin

text \<open>
  The operator-facing notice of a card or a notification (\<open>internal/events/human.go\<close>). A notice is
  added to the payload under the key \<open>human\<close> as an object with the field names of its JSON tags.
\<close>

record human_notice =
  hnHappened :: string
  hnHarnessAction :: string
  hnQuestion :: string
  hnActions :: "string list"

definition notice_fields :: "human_notice \<Rightarrow> (string \<times> val) list" where
  "notice_fields h = [(''happened'', VStr (hnHappened h)), (''harness_action'', VStr (hnHarnessAction h)),
     (''question'', VStr (hnQuestion h)), (''actions'', vstrs (hnActions h))]"

definition textValue :: "val option \<Rightarrow> string \<Rightarrow> string" where
  "textValue v fallback = (case v of Some (VStr t) \<Rightarrow> if TrimSpace t \<noteq> [] then TrimSpace t else fallback | _ \<Rightarrow> fallback)"

definition notice :: "string \<Rightarrow> string \<Rightarrow> string \<Rightarrow> string list \<Rightarrow> human_notice" where
  "notice happened action question actions =
     \<lparr>hnHappened = happened, hnHarnessAction = action, hnQuestion = question, hnActions = actions\<rparr>"

definition approval_notice :: "(string \<times> val) list \<Rightarrow> human_notice" where
  "approval_notice data =
     (let args = (case mget data ''args'' of Some (VObj fs) \<Rightarrow> Some fs | _ \<Rightarrow> None);
          name0 = textValue (mget data ''name'') ''This action'';
          name = (case args of Some fs \<Rightarrow> textValue (mget fs ''approval_action'') name0 | None \<Rightarrow> name0)
      in if mget data ''kind'' = Some (VStr ''cycle'') \<or> name = ''run.cycle''
         then notice ''The same action and result repeated without progress.''
                ''The harness paused the run without starting another turn.'' ''Continue this run?'' [''Continue'', ''Stop'']
         else if mget data ''kind'' = Some (VStr ''question'')
         then notice (textValue (mget data ''question'') ''Agent_b asked a question.'')
                ''The harness paused the run until you answer.'' [] []
         else let plain = name @ '' needs your approval before it can continue.'';
                  happened = (case args of
                      Some fs \<Rightarrow>
                        if mget data ''boundary_escape'' = Some (VBool True) \<and> textValue (mget fs ''reason'') [] \<noteq> []
                        then name @ '' needs your approval before it can continue: '' @
                               TrimSuffix (textValue (mget fs ''reason'') []) ''.'' @ ''.''
                        else plain
                    | None \<Rightarrow> plain)
              in notice happened
                   ''The harness paused before running the action; declining leaves the affected resource unchanged.''
                   ''Allow this action?'' [''Yes, for this chat'', ''Just once'', ''No''])"

definition stopped_notice :: "(string \<times> val) list \<Rightarrow> human_notice" where
  "stopped_notice data =
     (let job = textValue (mget data ''scheduled_job'') []
      in if job \<noteq> [] then
           if textValue (mget data ''reason'') [] \<noteq> ''done''
           then notice (''Scheduled job '' @ job @ '' failed.'')
                  ''The harness kept the failed run in the Scheduled chat folder.'' [] []
           else let answer = textValue (mget data ''scheduled_answer'') []
                in notice (''Scheduled job '' @ job @ '' finished.'' @ (if answer \<noteq> [] then CHR 0x0A # answer else [])) [] [] []
         else let reason = replace_all ''_'' '' '' (textValue (mget data ''reason'') ''an unknown reason'')
              in if reason = ''done''
                 then notice ''The run finished.'' ''The harness kept the completed work in this chat.'' [] []
                 else if reason = ''workspace not runnable''
                 then notice ''The run did not start because this chat's folder cannot be used.''
                        ''The harness sent nothing to the model; the stop line names the folder.'' [] []
                 else notice (''The run stopped because of '' @ reason @ ''.'')
                        ''The harness kept completed work and did not start another action.''
                        ''What should happen next?'' [''Continue'', ''Revise plan'', ''Stop''])"

definition HumanNoticeFor :: "string \<Rightarrow> (string \<times> val) list \<Rightarrow> human_notice" where
  "HumanNoticeFor eventType data =
     (if eventType = ApprovalRequired then approval_notice data
      else if eventType = RunStopped then stopped_notice data
      else if eventType = ItemDone
      then notice ''The current plan item finished.'' ''The harness kept its completed work and advanced the plan record.'' [] []
      else if eventType = ItemStuck
      then notice ''The current plan item could not be finished.'' ''The harness recorded why and moved to the next item.'' [] []
      else if eventType = WorkerJobEvent
      then notice ''The worker asked a question it could not answer from the plan or the repository.''
             ''The harness paused that item and posted the question in the design thread.''
             ''What should the worker do?'' [''Answer'', ''Skip this item'', ''Stop'']
      else if eventType = PlanDone
      then notice ''The plan finished.'' ''The harness kept the completed work and returned the chat to you.'' [] []
      else notice [] [] [] [])"

definition WithHuman :: "string \<Rightarrow> (string \<times> val) list \<Rightarrow> (string \<times> val) list" where
  "WithHuman eventType data = mput ''human'' (VObj (notice_fields (HumanNoticeFor eventType data))) data"

text \<open>The notice never hides the payload it is added to.\<close>

lemma WithHuman_other [simp]: "k \<noteq> ''human'' \<Longrightarrow> mget (WithHuman t data) k = mget data k"
  by (simp add: WithHuman_def)

lemma HumanNoticeFor_no_scheduled_question:
  "textValue (mget data ''scheduled_job'') [] \<noteq> [] \<Longrightarrow>
   hnQuestion (HumanNoticeFor RunStopped data) = [] \<and> hnActions (HumanNoticeFor RunStopped data) = []"
  by (simp add: HumanNoticeFor_def stopped_notice_def Let_def notice_def)

end
