(* ===== verification/Grants.thy ===== *)
theory Grants
  imports Events Go_Strings "HOL-Library.Char_ord" "HOL-Library.List_Lexorder"
begin

text \<open>
  The grants of a chat (\<open>internal/agent/shell_grant.go\<close>, \<open>file_grant.go\<close>): which shell rules, file
  tools, identity and policy approvals hold for one run or for the whole chat, when they lapse, and
  the events that record both. The record \<open>grants\<close> holds the six maps of \<open>Runner\<close>; a missing map
  (\<open>nil\<close> before the first grant) is the empty map. \<open>strings.EqualFold\<close> is a parameter, because its
  Unicode tables are not part of this development; \<open>sort.Slice\<close> sorts by rule and executable, which
  are distinct for the grants of one key.
\<close>

abbreviation shellGrantPolicy :: string where "shellGrantPolicy \<equiv> ''shell_policy''"
abbreviation shellGrantBoundary :: string where "shellGrantBoundary \<equiv> ''shell_boundary''"
abbreviation shellGrantOperatorCommand :: string where "shellGrantOperatorCommand \<equiv> ''operator_command''"

record shell_run_grant =
  sgRule :: string
  sgIdentity :: string
  sgExecutable :: string

record shell_session_grant = shell_run_grant +
  sgRunID :: string

record grants =
  gShellRun :: "(string, shell_run_grant list) gomap"
  gShellSession :: "(string, shell_session_grant list) gomap"
  gFileRun :: "(string, bool) gomap"
  gFileSession :: "(string, string) gomap"
  gIdentityChat :: "(string, string) gomap"
  gPolicyChat :: "(string, (string, bool) gomap) gomap"

definition no_grants :: grants where
  "no_grants = \<lparr>gShellRun = [], gShellSession = [], gFileRun = [], gFileSession = [], gIdentityChat = [], gPolicyChat = []\<rparr>"

definition shellGrantKey :: "string \<Rightarrow> string \<Rightarrow> string" where
  "shellGrantKey sessionID runID = nul_key sessionID runID"

definition covers :: "(string \<Rightarrow> string \<Rightarrow> bool) \<Rightarrow> string \<Rightarrow> string \<Rightarrow> ('a) shell_run_grant_scheme \<Rightarrow> bool" where
  "covers EqualFold rule executable g \<longleftrightarrow> sgRule g = rule \<and> EqualFold (sgExecutable g) executable"

definition hasShellGrant :: "(string \<Rightarrow> string \<Rightarrow> bool) \<Rightarrow> string \<Rightarrow> string \<Rightarrow> string \<Rightarrow> string \<Rightarrow> grants \<Rightarrow> bool" where
  "hasShellGrant EqualFold sessionID runID rule executable gs =
     (if list_ex (covers EqualFold rule executable) (mget_or [] (gShellRun gs) (shellGrantKey sessionID runID)) then True
      else list_ex (covers EqualFold rule executable) (mget_or [] (gShellSession gs) sessionID))"

definition shellGrantData :: "string \<Rightarrow> string \<Rightarrow> ('a) shell_run_grant_scheme \<Rightarrow> string \<Rightarrow> (string \<times> val) list" where
  "shellGrantData runID scope g reason =
     [(''run_id'', VStr runID), (''scope'', VStr scope), (''rule'', VStr (sgRule g)), (''identity'', VStr (sgIdentity g))] @
     (if sgExecutable g \<noteq> [] then [(''executable'', VStr (sgExecutable g))] else []) @
     (if reason \<noteq> [] then [(''reason'', VStr reason)] else [])"

definition grantShellSession ::
  "(string \<Rightarrow> string \<Rightarrow> bool) \<Rightarrow> bool \<Rightarrow> string \<Rightarrow> string \<Rightarrow> shell_run_grant \<Rightarrow> grants \<Rightarrow> grants \<times> bus_note list" where
  "grantShellSession EqualFold bus sid runID g gs =
     (let old = mget_or [] (gShellSession gs) sid
      in if list_ex (covers EqualFold (sgRule g) (sgExecutable g)) old then (gs, [])
         else (gs\<lparr>gShellSession := mput sid (old @ [shell_run_grant.extend g \<lparr>sgRunID = runID\<rparr>]) (gShellSession gs)\<rparr>,
               if bus then [New ShellGrant sid runID (shellGrantData runID ''session'' g [])] else []))"

definition grantShellRun ::
  "(string \<Rightarrow> string \<Rightarrow> bool) \<Rightarrow> bool \<Rightarrow> string \<Rightarrow> string \<Rightarrow> shell_run_grant \<Rightarrow> grants \<Rightarrow> grants \<times> bus_note list" where
  "grantShellRun EqualFold bus sid runID g gs =
     (let key = shellGrantKey sid runID; old = mget_or [] (gShellRun gs) key
      in if list_ex (covers EqualFold (sgRule g) (sgExecutable g)) old then (gs, [])
         else (gs\<lparr>gShellRun := mput key (old @ [g]) (gShellRun gs)\<rparr>,
               if bus then [New ShellGrant sid runID (shellGrantData runID ''run'' g [])] else []))"

definition by_rule :: "('a) shell_run_grant_scheme list \<Rightarrow> ('a) shell_run_grant_scheme list" where
  "by_rule gs = sort_key sgRule (sort_key sgExecutable gs)"

definition lapseShellGrants :: "bool \<Rightarrow> string \<Rightarrow> string \<Rightarrow> grants \<Rightarrow> grants \<times> bus_note list" where
  "lapseShellGrants bus sid runID gs =
     (let key = shellGrantKey sid runID; old = mget_or [] (gShellRun gs) key
      in (gs\<lparr>gShellRun := mdel key (gShellRun gs)\<rparr>,
          if bus then map (\<lambda>g. New ShellGrantLapsed sid runID (shellGrantData runID ''run'' g ''run ended'')) (by_rule old)
          else []))"

definition fileGrantTool :: "string \<Rightarrow> bool" where
  "fileGrantTool name = (name \<in> set [''read_file'', ''list_dir'', ''write_file'', ''edit_file'', ''search'', ''search_text'', ''find_files''])"

definition hasFileGrant :: "string \<Rightarrow> string \<Rightarrow> grants \<Rightarrow> bool" where
  "hasFileGrant sid runID gs = (mtrue (gFileRun gs) (shellGrantKey sid runID) \<or> mget_or [] (gFileSession gs) sid \<noteq> [])"

definition publishFileGrant :: "bool \<Rightarrow> string \<Rightarrow> string \<Rightarrow> string \<Rightarrow> string \<Rightarrow> string \<Rightarrow> bus_note list" where
  "publishFileGrant bus eventType sid runID scope reason =
     (if \<not> bus then []
      else [New eventType sid runID
        ([(''run_id'', VStr runID), (''scope'', VStr scope), (''identity'', VStr ''operator'')] @
         (if reason \<noteq> [] then [(''reason'', VStr reason)] else []))])"

definition grantFileRun :: "bool \<Rightarrow> string \<Rightarrow> string \<Rightarrow> grants \<Rightarrow> grants \<times> bus_note list" where
  "grantFileRun bus sid runID gs =
     (let key = shellGrantKey sid runID
      in if mtrue (gFileRun gs) key then (gs, [])
         else (gs\<lparr>gFileRun := mput key True (gFileRun gs)\<rparr>, publishFileGrant bus FileGrant sid runID ''run'' []))"

definition grantFileSession :: "bool \<Rightarrow> string \<Rightarrow> string \<Rightarrow> grants \<Rightarrow> grants \<times> bus_note list" where
  "grantFileSession bus sid runID gs =
     (if mget_or [] (gFileSession gs) sid \<noteq> [] then (gs, [])
      else (gs\<lparr>gFileSession := mput sid runID (gFileSession gs)\<rparr>, publishFileGrant bus FileGrant sid runID ''session'' []))"

definition lapseFileRunGrant :: "bool \<Rightarrow> string \<Rightarrow> string \<Rightarrow> grants \<Rightarrow> grants \<times> bus_note list" where
  "lapseFileRunGrant bus sid runID gs =
     (let key = shellGrantKey sid runID
      in (gs\<lparr>gFileRun := mdel key (gFileRun gs)\<rparr>,
          if mtrue (gFileRun gs) key then publishFileGrant bus FileGrantLapsed sid runID ''run'' ''run ended'' else []))"

definition lapseSessionGrants :: "bool \<Rightarrow> string \<Rightarrow> string \<Rightarrow> grants \<Rightarrow> grants \<times> bus_note list" where
  "lapseSessionGrants bus sid reason gs =
     (let shell = mget_or [] (gShellSession gs) sid;
          fileRun = mget_or [] (gFileSession gs) sid
      in (gs\<lparr>gIdentityChat := mdel sid (gIdentityChat gs), gPolicyChat := mdel sid (gPolicyChat gs),
             gShellSession := mdel sid (gShellSession gs), gFileSession := mdel sid (gFileSession gs)\<rparr>,
          (if bus then map (\<lambda>g. New ShellGrantLapsed sid (sgRunID g) (shellGrantData (sgRunID g) ''session'' g reason))
                         (by_rule shell) else []) @
          (if fileRun \<noteq> [] then publishFileGrant bus FileGrantLapsed sid fileRun ''session'' reason else [])))"

definition LapseSessionGrants :: "bool \<Rightarrow> string \<Rightarrow> grants \<Rightarrow> grants \<times> bus_note list" where
  "LapseSessionGrants bus sid gs = lapseSessionGrants bus sid ''session closed'' gs"

definition RevokeSessionGrants :: "bool \<Rightarrow> string \<Rightarrow> grants \<Rightarrow> grants \<times> bus_note list" where
  "RevokeSessionGrants bus sid gs = lapseSessionGrants bus sid ''revoked by the user'' gs"

definition hasIdentityChatGrant :: "string \<Rightarrow> grants \<Rightarrow> bool" where
  "hasIdentityChatGrant sid gs = (mget_or [] (gIdentityChat gs) sid \<noteq> [])"

definition grantIdentityChat :: "string \<Rightarrow> string \<Rightarrow> grants \<Rightarrow> grants" where
  "grantIdentityChat sid runID gs = gs\<lparr>gIdentityChat := mput sid runID (gIdentityChat gs)\<rparr>"

definition hasPolicyChatGrant :: "string \<Rightarrow> string \<Rightarrow> grants \<Rightarrow> bool" where
  "hasPolicyChatGrant sid name gs = mtrue (mget_or [] (gPolicyChat gs) sid) name"

definition grantPolicyChat :: "string \<Rightarrow> string \<Rightarrow> grants \<Rightarrow> grants" where
  "grantPolicyChat sid name gs =
     gs\<lparr>gPolicyChat := mput sid (mput name True (mget_or [] (gPolicyChat gs) sid)) (gPolicyChat gs)\<rparr>"

section \<open>Run as you\<close>

definition isPowerShellCommand :: "(string \<Rightarrow> string) \<Rightarrow> string list \<Rightarrow> bool" where
  "isPowerShellCommand ToLower command =
     (case command of
        [] \<Rightarrow> False
      | c # _ \<Rightarrow>
          let name = ToLower (map (\<lambda>x. if x = CHR 0x5C then CHR ''/'' else x) c);
              base = last (split_on (CHR ''/'') name)
          in base \<in> set [''powershell'', ''powershell.exe'', ''pwsh'', ''pwsh.exe''])"

definition powershell_exit :: string where
  "powershell_exit = ''; if ($null -ne $LASTEXITCODE) { exit $LASTEXITCODE }''"

text \<open>The outcome of an operator command: an error text, or the call with the arguments it runs with.\<close>

datatype operator_outcome =
    Refused string
  | RunsAs "(string \<times> val) list"

definition callConfiguredCommandAsOperator ::
  "(string \<Rightarrow> string) \<Rightarrow> string list \<Rightarrow> (string \<times> val) list \<Rightarrow> operator_outcome" where
  "callConfiguredCommandAsOperator ToLower shell args =
     (case mget args ''command'' of
        Some (VStr command) \<Rightarrow>
          if isPowerShellCommand ToLower shell then RunsAs (mput ''command'' (VStr (command @ powershell_exit)) args)
          else RunsAs args
      | _ \<Rightarrow> RunsAs args)"

definition approvalGranted :: "string \<Rightarrow> bool" where
  "approvalGranted decision = (decision \<in> set [''approve'', ''once'', ''run'', ''session'', ''folder'', ''operator_mode''])"

text \<open>\<open>ask\<close> is what \<open>WaitBoundaryDecision\<close> returned: \<open>None\<close> for an error, else the decision.\<close>

definition executeOperatorCommand ::
  "(string \<Rightarrow> string \<Rightarrow> bool) \<Rightarrow> (string \<Rightarrow> string) \<Rightarrow> bool \<Rightarrow> string list \<Rightarrow> string option \<Rightarrow> string \<Rightarrow> string \<Rightarrow>
   (string \<times> val) list \<Rightarrow> string \<Rightarrow> string \<Rightarrow> grants \<Rightarrow> grants \<times> operator_outcome \<times> bus_note list" where
  "executeOperatorCommand EqualFold ToLower bus shell ask sid runID args commandName executable gs =
     (let go = callConfiguredCommandAsOperator ToLower shell args;
          g = \<lparr>sgRule = shellGrantOperatorCommand, sgIdentity = ''operator'', sgExecutable = executable\<rparr>
      in if hasIdentityChatGrant sid gs then (gs, go, [])
         else if hasShellGrant EqualFold sid runID shellGrantOperatorCommand executable gs then (gs, go, [])
         else case ask of
                None \<Rightarrow> (gs, Refused ''error: Run as you command canceled'', [])
              | Some decision \<Rightarrow>
                  if \<not> approvalGranted decision
                  then (gs, Refused (''error: Run as you command rule: '' @ commandName @
                          '' must run as the user; denied by user and not run as the service account''), [])
                  else let (gs1, ev1) = (if decision = ''run'' then grantShellRun EqualFold bus sid runID g gs else (gs, []));
                           (gs2, ev2) = (if decision = ''session''
                              then (case grantShellSession EqualFold bus sid runID g gs1 of
                                      (g2, e2) \<Rightarrow> (grantIdentityChat sid runID g2, e2))
                              else (gs1, []))
                       in (gs2, go, ev1 @ ev2))"

section \<open>The record of grants\<close>

text \<open>What the published events say is in force: a grant event adds it, a lapse event takes it away.\<close>

datatype live =
    ShellRunLive string string string string string
  | ShellChatLive string string string string string
  | FileRunLive string string
  | FileChatLive string string

definition live_of :: "bus_note \<Rightarrow> live" where
  "live_of e =
     (let d = obj (nData e); get = (\<lambda>k. str_of (mget d k));
          shell = (if get ''scope'' = ''run'' then ShellRunLive else ShellChatLive);
          file = (if get ''scope'' = ''run'' then FileRunLive else FileChatLive)
      in if nType e = ShellGrant \<or> nType e = ShellGrantLapsed
         then shell (nSession e) (get ''run_id'') (get ''rule'') (get ''identity'') (get ''executable'')
         else file (nSession e) (get ''run_id''))"

definition replay1 :: "bus_note \<Rightarrow> live set \<Rightarrow> live set" where
  "replay1 e S = (if nType e = ShellGrant \<or> nType e = FileGrant then insert (live_of e) S
     else if nType e = ShellGrantLapsed \<or> nType e = FileGrantLapsed then S - {live_of e} else S)"

definition replay :: "bus_note list \<Rightarrow> live set" where
  "replay evs = fold replay1 evs {}"

fun live_session :: "live \<Rightarrow> string" where
  "live_session (ShellRunLive s r a b c) = s"
| "live_session (ShellChatLive s r a b c) = s"
| "live_session (FileRunLive s r) = s"
| "live_session (FileChatLive s r) = s"

fun live_in :: "grants \<Rightarrow> live \<Rightarrow> bool" where
  "live_in gs (ShellRunLive s r rule ident exe) =
     (\<lparr>sgRule = rule, sgIdentity = ident, sgExecutable = exe\<rparr> \<in> set (mget_or [] (gShellRun gs) (shellGrantKey s r)))"
| "live_in gs (ShellChatLive s r rule ident exe) =
     (\<lparr>sgRule = rule, sgIdentity = ident, sgExecutable = exe, sgRunID = r\<rparr> \<in> set (mget_or [] (gShellSession gs) s))"
| "live_in gs (FileRunLive s r) = mtrue (gFileRun gs) (shellGrantKey s r)"
| "live_in gs (FileChatLive s r) = (r \<noteq> [] \<and> mget_or [] (gFileSession gs) s = r)"

datatype grant_op =
    OpShellRun string string shell_run_grant
  | OpShellSession string string shell_run_grant
  | OpFileRun string string
  | OpFileSession string string
  | OpRunEnds string string
  | OpSessionEnds string string
  | OpIdentity string string
  | OpPolicy string string

fun grant_apply :: "(string \<Rightarrow> string \<Rightarrow> bool) \<Rightarrow> grant_op \<Rightarrow> grants \<Rightarrow> grants \<times> bus_note list" where
  "grant_apply EqualFold (OpShellRun s r g) gs = grantShellRun EqualFold True s r g gs"
| "grant_apply EqualFold (OpShellSession s r g) gs = grantShellSession EqualFold True s r g gs"
| "grant_apply EqualFold (OpFileRun s r) gs = grantFileRun True s r gs"
| "grant_apply EqualFold (OpFileSession s r) gs = grantFileSession True s r gs"
| "grant_apply EqualFold (OpRunEnds s r) gs =
     (let (gs1, ev1) = lapseShellGrants True s r gs; (gs2, ev2) = lapseFileRunGrant True s r gs1 in (gs2, ev1 @ ev2))"
| "grant_apply EqualFold (OpSessionEnds s reason) gs = lapseSessionGrants True s reason gs"
| "grant_apply EqualFold (OpIdentity s r) gs = (grantIdentityChat s r gs, [])"
| "grant_apply EqualFold (OpPolicy s name) gs = (grantPolicyChat s name gs, [])"

fun op_ok :: "grant_op \<Rightarrow> bool" where
  "op_ok (OpShellRun s r g) = nul_free s"
| "op_ok (OpShellSession s r g) = nul_free s"
| "op_ok (OpFileRun s r) = nul_free s"
| "op_ok (OpFileSession s r) = (nul_free s \<and> r \<noteq> [])"
| "op_ok (OpRunEnds s r) = nul_free s"
| "op_ok (OpSessionEnds s reason) = nul_free s"
| "op_ok (OpIdentity s r) = nul_free s"
| "op_ok (OpPolicy s name) = nul_free s"

fun grant_runs :: "(string \<Rightarrow> string \<Rightarrow> bool) \<Rightarrow> grant_op list \<Rightarrow> grants \<Rightarrow> grants \<times> bus_note list" where
  "grant_runs EqualFold [] gs = (gs, [])"
| "grant_runs EqualFold (op # ops) gs =
     (let (gs1, ev1) = grant_apply EqualFold op gs; (gs2, ev2) = grant_runs EqualFold ops gs1 in (gs2, ev1 @ ev2))"

definition agrees :: "live set \<Rightarrow> grants \<Rightarrow> bool" where
  "agrees S gs \<longleftrightarrow> (\<forall>x. nul_free (live_session x) \<longrightarrow> (x \<in> S \<longleftrightarrow> live_in gs x))"

lemma live_of_shell [simp]:
  "live_of (New ShellGrant s r (shellGrantData r' ''run'' g reason)) =
     ShellRunLive s r' (sgRule g) (sgIdentity g) (sgExecutable g)"
  "live_of (New ShellGrantLapsed s r (shellGrantData r' ''run'' g reason)) =
     ShellRunLive s r' (sgRule g) (sgIdentity g) (sgExecutable g)"
  "live_of (New ShellGrant s r (shellGrantData r' ''session'' g reason)) =
     ShellChatLive s r' (sgRule g) (sgIdentity g) (sgExecutable g)"
  "live_of (New ShellGrantLapsed s r (shellGrantData r' ''session'' g reason)) =
     ShellChatLive s r' (sgRule g) (sgIdentity g) (sgExecutable g)"
  by (simp_all add: live_of_def shellGrantData_def obj_def str_of_def Let_def)

lemma replay_file [simp]:
  "fold replay1 (publishFileGrant True FileGrant s r ''run'' reason) S = insert (FileRunLive s r) S"
  "fold replay1 (publishFileGrant True FileGrant s r ''session'' reason) S = insert (FileChatLive s r) S"
  "fold replay1 (publishFileGrant True FileGrantLapsed s r ''run'' reason) S = S - {FileRunLive s r}"
  "fold replay1 (publishFileGrant True FileGrantLapsed s r ''session'' reason) S = S - {FileChatLive s r}"
  by (simp_all add: publishFileGrant_def replay1_def live_of_def obj_def str_of_def Let_def)

lemma replay_lapses:
  "fold replay1 (map (\<lambda>g. New ShellGrantLapsed s (r g) (shellGrantData (r g) scope g reason)) gs) S =
   S - live_of ` (\<lambda>g. New ShellGrantLapsed s (r g) (shellGrantData (r g) scope g reason)) ` set gs"
  by (induction gs arbitrary: S) (auto simp: replay1_def)

lemma set_by_rule [simp]: "set (by_rule gs) = set gs"
  by (simp add: by_rule_def)

lemma key_inj [simp]:
  "nul_free s \<Longrightarrow> nul_free s' \<Longrightarrow> shellGrantKey s r = shellGrantKey s' r' \<longleftrightarrow> s = s' \<and> r = r'"
  by (simp add: shellGrantKey_def nul_key_inj)

lemma agrees_cong:
  assumes "agrees S gs" "\<And>x. nul_free (live_session x) \<Longrightarrow> live_in gs' x \<longleftrightarrow> (live_in gs x \<and> x \<notin> D) \<or> x \<in> A"
  shows "agrees ((S - D) \<union> A) gs'"
  using assms unfolding agrees_def by blast

lemma live_shell_run:
  assumes "nul_free s" "nul_free (live_session x)"
  shows "live_in (gs\<lparr>gShellRun := mput (shellGrantKey s r) (mget_or [] (gShellRun gs) (shellGrantKey s r) @ [g]) (gShellRun gs)\<rparr>) x \<longleftrightarrow>
     live_in gs x \<or> x = ShellRunLive s r (sgRule g) (sgIdentity g) (sgExecutable g)"
  using assms by (cases x; cases g) auto

lemma live_shell_session:
  "live_in (gs\<lparr>gShellSession := mput s (mget_or [] (gShellSession gs) s @ [shell_run_grant.extend g \<lparr>sgRunID = r\<rparr>]) (gShellSession gs)\<rparr>) x \<longleftrightarrow>
     live_in gs x \<or> x = ShellChatLive s r (sgRule g) (sgIdentity g) (sgExecutable g)"
  by (cases x; cases g) (auto simp: shell_run_grant.extend_def)

lemma live_file_run:
  "nul_free s \<Longrightarrow> nul_free (live_session x) \<Longrightarrow>
   live_in (gs\<lparr>gFileRun := mput (shellGrantKey s r) True (gFileRun gs)\<rparr>) x \<longleftrightarrow> live_in gs x \<or> x = FileRunLive s r"
  by (cases x) auto

lemma live_file_session:
  "mget_or [] (gFileSession gs) s = [] \<Longrightarrow> r \<noteq> [] \<Longrightarrow>
   live_in (gs\<lparr>gFileSession := mput s r (gFileSession gs)\<rparr>) x \<longleftrightarrow> live_in gs x \<or> x = FileChatLive s r"
  by (cases x) auto

lemma live_run_ends:
  "nul_free s \<Longrightarrow> nul_free (live_session x) \<Longrightarrow>
   live_in (gs\<lparr>gShellRun := mdel (shellGrantKey s r) (gShellRun gs), gFileRun := mdel (shellGrantKey s r) (gFileRun gs)\<rparr>) x \<longleftrightarrow>
     live_in gs x \<and> \<not> (x = FileRunLive s r \<or> (\<exists>a b c. x = ShellRunLive s r a b c))"
  by (cases x) auto

lemma live_session_ends:
  "live_in (gs\<lparr>gIdentityChat := i, gPolicyChat := p, gShellSession := mdel s (gShellSession gs),
      gFileSession := mdel s (gFileSession gs)\<rparr>) x \<longleftrightarrow>
     live_in gs x \<and> \<not> ((\<exists>r. x = FileChatLive s r) \<or> (\<exists>r a b c. x = ShellChatLive s r a b c))"
  by (cases x) auto

lemma live_chat_approvals:
  "live_in (grantIdentityChat s r gs) x = live_in gs x" "live_in (grantPolicyChat s n gs) x = live_in gs x"
  by (cases x; simp add: grantIdentityChat_def grantPolicyChat_def)+

lemma lapsed_run_events:
  "live_of ` (\<lambda>g. New ShellGrantLapsed s r (shellGrantData r ''run'' g reason)) ` set (gl :: shell_run_grant list) =
     {ShellRunLive s r a b c | a b c. \<lparr>sgRule = a, sgIdentity = b, sgExecutable = c\<rparr> \<in> set gl}"
  (is "?L = ?R")
proof
  show "?L \<subseteq> ?R"
  proof
    fix x assume "x \<in> ?L"
    then obtain g where g: "g \<in> set gl" "x = ShellRunLive s r (sgRule g) (sgIdentity g) (sgExecutable g)" by auto
    show "x \<in> ?R" by (cases g) (use g in auto)
  qed
  show "?R \<subseteq> ?L" by (force simp: image_iff)
qed

lemma lapsed_session_events:
  "live_of ` (\<lambda>g. New ShellGrantLapsed s (sgRunID g) (shellGrantData (sgRunID g) ''session'' g reason)) `
       set (gl :: shell_session_grant list) =
     {ShellChatLive s r a b c | r a b c. \<lparr>sgRule = a, sgIdentity = b, sgExecutable = c, sgRunID = r\<rparr> \<in> set gl}"
  (is "?L = ?R")
proof
  show "?L \<subseteq> ?R"
  proof
    fix x assume "x \<in> ?L"
    then obtain g where g: "g \<in> set gl" "x = ShellChatLive s (sgRunID g) (sgRule g) (sgIdentity g) (sgExecutable g)"
      by auto
    show "x \<in> ?R" by (cases g) (use g in auto)
  qed
  show "?R \<subseteq> ?L" by (force simp: image_iff)
qed

lemma grant_apply_agrees:
  assumes "agrees S gs" "op_ok op" "grant_apply EqualFold op gs = (gs', evs)"
  shows "agrees (fold replay1 evs S) gs'"
proof (cases op)
  case (OpShellRun s r g)
  then show ?thesis using assms agrees_cong [OF assms(1), of gs' "{}" "{ShellRunLive s r (sgRule g) (sgIdentity g) (sgExecutable g)}"]
    by (auto simp: grantShellRun_def Let_def replay1_def live_shell_run split: if_splits)
next
  case (OpShellSession s r g)
  then show ?thesis using assms agrees_cong [OF assms(1), of gs' "{}" "{ShellChatLive s r (sgRule g) (sgIdentity g) (sgExecutable g)}"]
    by (auto simp: grantShellSession_def Let_def replay1_def live_shell_session split: if_splits)
next
  case (OpFileRun s r)
  then show ?thesis using assms agrees_cong [OF assms(1), of gs' "{}" "{FileRunLive s r}"]
    by (auto simp: grantFileRun_def Let_def live_file_run split: if_splits)
next
  case (OpFileSession s r)
  then show ?thesis using assms agrees_cong [OF assms(1), of gs' "{}" "{FileChatLive s r}"]
    by (auto simp: grantFileSession_def Let_def live_file_session split: if_splits)
next
  case (OpRunEnds s r)
  let ?D = "{ShellRunLive s r a b c | a b c. live_in gs (ShellRunLive s r a b c)} \<union> (if mtrue (gFileRun gs) (shellGrantKey s r) then {FileRunLive s r} else {})"
  have gs': "gs' = gs\<lparr>gShellRun := mdel (shellGrantKey s r) (gShellRun gs), gFileRun := mdel (shellGrantKey s r) (gFileRun gs)\<rparr>"
    and evs: "fold replay1 evs S = S - ?D"
    using assms(3) OpRunEnds by (auto simp: lapseShellGrants_def lapseFileRunGrant_def Let_def replay_lapses lapsed_run_events)
  have "live_in gs' x \<longleftrightarrow> (live_in gs x \<and> x \<notin> ?D) \<or> x \<in> {}" if "nul_free (live_session x)" for x
    using that assms(2) OpRunEnds unfolding gs' by (cases x) (auto simp: live_run_ends)
  from agrees_cong [OF assms(1) this] show ?thesis by (simp only: evs Un_empty_right)
next
  case (OpSessionEnds s reason)
  let ?D = "{ShellChatLive s r a b c | r a b c. live_in gs (ShellChatLive s r a b c)} \<union>
    (if mget_or [] (gFileSession gs) s \<noteq> [] then {FileChatLive s (mget_or [] (gFileSession gs) s)} else {})"
  have gs': "gs' = gs\<lparr>gIdentityChat := mdel s (gIdentityChat gs), gPolicyChat := mdel s (gPolicyChat gs),
      gShellSession := mdel s (gShellSession gs), gFileSession := mdel s (gFileSession gs)\<rparr>"
    and evs: "fold replay1 evs S = S - ?D"
    using assms(3) OpSessionEnds by (auto simp: lapseSessionGrants_def Let_def replay_lapses lapsed_session_events)
  have "live_in gs' x \<longleftrightarrow> (live_in gs x \<and> x \<notin> ?D) \<or> x \<in> {}" for x
    unfolding gs' by (cases x) (auto simp: live_session_ends)
  from agrees_cong [OF assms(1) this] show ?thesis by (simp only: evs Un_empty_right)
qed (use assms in \<open>auto simp: agrees_def live_chat_approvals\<close>)

lemma grant_runs_agrees:
  assumes "grant_runs EqualFold ops gs = (gs', evs)" "agrees S gs" "list_all op_ok ops"
  shows "agrees (fold replay1 evs S) gs'"
  using assms
proof (induction EqualFold ops gs arbitrary: S gs' evs rule: grant_runs.induct)
  case (2 EqualFold op ops gs)
  obtain gs1 ev1 where a: "grant_apply EqualFold op gs = (gs1, ev1)" by fastforce
  obtain ev2 where r: "grant_runs EqualFold ops gs1 = (gs', ev2)" "evs = ev1 @ ev2"
    using 2(2) a by (auto simp: Let_def split: prod.splits)
  have "agrees (fold replay1 ev1 S) gs1" using grant_apply_agrees [OF 2(3) _ a] 2(4) by simp
  from 2(1) [OF a [symmetric] refl r(1) this] 2(4) r(2) show ?case by simp
qed simp

section \<open>Scope\<close>

context case_fold
begin

lemma covers_self: "list_ex (covers EqualFold rule exe) (gl @ [g]) \<longleftrightarrow>
    list_ex (covers EqualFold rule exe) gl \<or> covers EqualFold rule exe g"
  by auto

lemma covers_cong: "covers EqualFold (sgRule g) (sgExecutable g) h \<Longrightarrow>
   covers EqualFold rule exe g \<Longrightarrow> covers EqualFold rule exe h"
  using fold_trans by (auto simp: covers_def)

lemma run_grant_scope:
  assumes "nul_free s" "nul_free s'"
  shows "hasShellGrant EqualFold s' r' rule exe (fst (grantShellRun EqualFold bus s r g gs)) \<longleftrightarrow>
    hasShellGrant EqualFold s' r' rule exe gs \<or> (s' = s \<and> r' = r \<and> sgRule g = rule \<and> EqualFold (sgExecutable g) exe)"
  using assms covers_cong
  by (auto simp: hasShellGrant_def grantShellRun_def Let_def covers_def list_ex_iff) blast+

lemma session_grant_scope:
  "hasShellGrant EqualFold s' r' rule exe (fst (grantShellSession EqualFold bus s r g gs)) \<longleftrightarrow>
    hasShellGrant EqualFold s' r' rule exe gs \<or> (s' = s \<and> sgRule g = rule \<and> EqualFold (sgExecutable g) exe)"
  using covers_cong
  by (auto simp: hasShellGrant_def grantShellSession_def Let_def covers_def list_ex_iff shell_run_grant.extend_def) blast+

end

section \<open>Properties\<close>


definition demo_grant_ops :: "grant_op list" where
  "demo_grant_ops = [OpShellRun ''s'' ''r'' \<lparr>sgRule = ''p'', sgIdentity = ''o'', sgExecutable = ''git''\<rparr>,
     OpFileSession ''s'' ''r'', OpRunEnds ''s'' ''r'']"


text \<open>A grant reaches exactly its scope. After \<open>grantShellRun\<close> a rule and executable are covered
  for a run if and only if they were before or it is that very run of that chat with the same rule
  and an executable equal up to case; \<open>grantShellSession\<close> does the same for every run of the chat
  and for no other chat.\<close>

theorem shell_grant_scope:
  assumes "case_fold EqualFold" and "nul_free s" and "nul_free s'"
  shows "hasShellGrant EqualFold s' r' rule exe (fst (grantShellRun EqualFold bus s r g gs)) =
      (hasShellGrant EqualFold s' r' rule exe gs \<or> s' = s \<and> r' = r \<and> sgRule g = rule \<and> EqualFold (sgExecutable g) exe) \<and>
    hasShellGrant EqualFold s' r' rule exe (fst (grantShellSession EqualFold bus s r g gs)) =
      (hasShellGrant EqualFold s' r' rule exe gs \<or> s' = s \<and> sgRule g = rule \<and> EqualFold (sgExecutable g) exe)"
  using case_fold.run_grant_scope [OF assms] case_fold.session_grant_scope [OF assms(1)] by simp

theorem shell_grant_scope_witness:
  "hasShellGrant EqualFold_ascii ''s'' ''r'' ''p'' ''GIT'' (fst (grantShellRun EqualFold_ascii True ''s'' ''r''
      \<lparr>sgRule = ''p'', sgIdentity = ''o'', sgExecutable = ''git''\<rparr> no_grants)) \<and>
   \<not> hasShellGrant EqualFold_ascii ''s'' ''q'' ''p'' ''GIT'' (fst (grantShellRun EqualFold_ascii True ''s'' ''r''
      \<lparr>sgRule = ''p'', sgIdentity = ''o'', sgExecutable = ''git''\<rparr> no_grants))"
proof -
  have s: "nul_free ''s''" by (simp add: nul_free_def char_of_def)
  have no: "\<not> hasShellGrant EqualFold_ascii ''s'' ''q'' ''p'' ''GIT'' no_grants"
    by (simp add: hasShellGrant_def no_grants_def)
  have same: "EqualFold_ascii ''git'' ''GIT''"
    by (simp add: EqualFold_ascii_def lower_ascii_def byte_def char_of_def bit_0)
  show ?thesis using shell_grant_scope [OF ascii.case_fold_axioms s s] no same by simp
qed

text \<open>A command runs as the operator only with an answer that allows it, and the answer lasts as
  long as its scope: refused or cancelled, nothing is granted and nothing runs; answered "run", the
  same executable runs again in that run without a new question, and a run of any chat that had no
  grant and is another run still has to ask; every other approval leaves the grants as they were
  unless it is for the chat.\<close>

theorem operator_command_scope:
  assumes "case_fold EqualFold" and "nul_free sid" and "nul_free sid'"
    and "executeOperatorCommand EqualFold ToLower bus shell ask sid runID args name exe gs = (gs', out, evs)"
    and "\<not> hasIdentityChatGrant sid gs" and "\<not> hasShellGrant EqualFold sid runID shellGrantOperatorCommand exe gs"
  shows "case ask of
      None \<Rightarrow> gs' = gs \<and> evs = [] \<and> (\<exists>e. out = Refused e)
    | Some d \<Rightarrow>
        if \<not> approvalGranted d then gs' = gs \<and> evs = [] \<and> (\<exists>e. out = Refused e)
        else out = callConfiguredCommandAsOperator ToLower shell args \<and>
          (if d = ''run'' then
             executeOperatorCommand EqualFold ToLower bus shell None sid runID args name exe gs' = (gs', out, []) \<and>
             (hasShellGrant EqualFold sid' runID' rule exe' gs' \<longleftrightarrow> hasShellGrant EqualFold sid' runID' rule exe' gs \<or>
                sid' = sid \<and> runID' = runID \<and> rule = shellGrantOperatorCommand \<and> EqualFold exe exe') \<and>
             (hasIdentityChatGrant sid' gs' \<longleftrightarrow> hasIdentityChatGrant sid' gs)
           else if d = ''session'' then hasShellGrant EqualFold sid runID shellGrantOperatorCommand exe gs'
           else gs' = gs)"
proof -
  let ?g = "\<lparr>sgRule = shellGrantOperatorCommand, sgIdentity = ''operator'', sgExecutable = exe\<rparr>"
  have refl: "EqualFold e e" for e using case_fold.fold_refl [OF assms(1)] .
  have run: "hasShellGrant EqualFold sid' runID' rule exe' (fst (grantShellRun EqualFold bus sid runID ?g gs)) =
      (hasShellGrant EqualFold sid' runID' rule exe' gs \<or>
       sid' = sid \<and> runID' = runID \<and> rule = shellGrantOperatorCommand \<and> EqualFold exe exe')"
    if "nul_free sid'" for sid' runID' rule exe'
    using case_fold.run_grant_scope [OF assms(1,2) that] by auto
  have id: "hasIdentityChatGrant s (fst (grantShellRun EqualFold bus sid runID ?g gs)) = hasIdentityChatGrant s gs" for s
    by (simp add: hasIdentityChatGrant_def grantShellRun_def Let_def)
  have chat: "hasShellGrant EqualFold s r rule e (grantIdentityChat s' r' gs2) = hasShellGrant EqualFold s r rule e gs2"
    for s r rule e s' r' gs2 by (simp add: hasShellGrant_def grantIdentityChat_def)
  note run_self = run [OF assms(2), of runID shellGrantOperatorCommand exe]
  show ?thesis
  proof (cases ask)
    case None
    with assms show ?thesis by (auto simp: executeOperatorCommand_def Let_def)
  next
    case (Some d)
    with assms(4-6) run [OF assms(3)] run_self id [of sid] id [of sid'] refl [of exe] show ?thesis
      using case_fold.session_grant_scope [OF assms(1), of sid runID shellGrantOperatorCommand exe bus sid runID ?g gs]
      by (auto simp: executeOperatorCommand_def Let_def split_beta chat split: if_splits)
  qed
qed

theorem operator_command_scope_witness:
  "snd (executeOperatorCommand EqualFold_ascii lower_ascii True [''bash''] None ''s'' ''r'' [] ''n'' ''git''
     (fst (executeOperatorCommand EqualFold_ascii lower_ascii True [''bash''] (Some ''run'') ''s'' ''r'' [] ''n'' ''git''
        no_grants))) = (RunsAs [], [])"
proof -
  let ?x = "executeOperatorCommand EqualFold_ascii lower_ascii True [''bash''] (Some ''run'') ''s'' ''r'' [] ''n'' ''git'' no_grants"
  have s: "nul_free ''s''" by (simp add: nul_free_def char_of_def)
  have none: "\<not> hasIdentityChatGrant ''s'' no_grants"
    "\<not> hasShellGrant EqualFold_ascii ''s'' ''r'' shellGrantOperatorCommand ''git'' no_grants"
    by (simp_all add: hasIdentityChatGrant_def hasShellGrant_def no_grants_def)
  have "?x = (fst ?x, fst (snd ?x), snd (snd ?x))" by simp
  from operator_command_scope [OF ascii.case_fold_axioms s s this none] show ?thesis
    by (simp add: approvalGranted_def callConfiguredCommandAsOperator_def)
qed

end
