(* ===== verification/Gate.thy ===== *)
theory Gate
  imports Session Human Grants
begin

text \<open>
  The approval gate (\<open>internal/agent/gate.go\<close>, \<open>gate_unattended.go\<close>). The waits live in a heap,
  \<open>gWaits\<close>, because the map of waiting cards and the goroutine that waits share them; an address is
  the Go pointer. A wait's channel has capacity one: \<open>awSignal\<close> is its content, and a send on a full
  channel, which would block while \<open>mu\<close> is held, sets \<open>gBlocked\<close>. Each function below is one
  critical section or one uninterrupted stretch of a goroutine; \<open>gate_step\<close> interleaves them.
  Parameters: \<open>net/url\<close> and \<open>path/filepath\<close> (record \<open>gate_env\<close>, with the configured mode and the
  active profile), the outcome of writing the grant file, and the error of the scheduler's
  \<open>reacquire\<close> hook. The grant file holds what was last written; JSON is read back unchanged.
\<close>

section \<open>State\<close>

datatype scope_kind =
    approvalNoScopes
  | approvalShellScopes
  | approvalFileScopes
  | approvalPolicyScopes
  | approvalCycle
  | approvalQuestion

record standing_grant =
  stID :: string
  stKind :: string
  stSubject :: string

definition no_grant :: standing_grant where
  "no_grant = \<lparr>stID = [], stKind = [], stSubject = []\<rparr>"

record approval_signal =
  asDecision :: string
  asAnswer :: string
  asLogged :: bool

record approval_wait =
  awSignal :: "approval_signal option"
  awScope :: scope_kind
  awSession :: string
  awRun :: string
  awCall :: string
  awDecided :: bool
  awGrant :: standing_grant
  awFolder :: bool
  awName :: string

type_synonym catalog = "(string, (string, standing_grant) gomap) gomap"

record gate =
  gWaiting :: "(string, nat) gomap"
  gPending :: "(string, string) gomap"
  gWaits :: "(nat, approval_wait) gomap"
  gNext :: nat
  gBlocked :: bool
  gStore :: bool
  gCatalog :: catalog

record gate_env =
  geMode :: string
  geProfile :: string
  geUrlHost :: "string \<Rightarrow> string option"
  geIsAbs :: "string \<Rightarrow> bool"
  geJoin :: "string \<Rightarrow> string \<Rightarrow> string"
  geClean :: "string \<Rightarrow> string"

definition NewGate :: gate where
  "NewGate = \<lparr>gWaiting = [], gPending = [], gWaits = [], gNext = 0, gBlocked = False, gStore = False, gCatalog = []\<rparr>"

definition approvalKey :: "string \<Rightarrow> string \<Rightarrow> string" where
  "approvalKey sid callID = nul_key sid callID"

section \<open>Modes\<close>

definition approvalRequired :: "string \<Rightarrow> string \<Rightarrow> bool" where
  "approvalRequired mode name =
     (if mode = ''boundary-only'' \<or> mode = ''off'' then False
      else if mode = ''mutating''
      then name = ''write_file'' \<or> name = ''edit_file'' \<or> name = ''shell'' \<or> name = ''run_script'' \<or> name = ''process''
      else if mode = ''all'' then True
      else False)"

definition policy_mode :: "session \<Rightarrow> string" where
  "policy_mode s = (case sRepoPolicy s of None \<Rightarrow> [] | Some p \<Rightarrow> rpApprovalMode p)"

definition modeFor :: "gate_env \<Rightarrow> session \<Rightarrow> string" where
  "modeFor env s = (if policy_mode s = [] then geMode env else policy_mode s)"

definition requiredFor :: "gate_env \<Rightarrow> session \<Rightarrow> string \<Rightarrow> bool" where
  "requiredFor env s name = approvalRequired (modeFor env s) name"

definition unattended :: "session \<Rightarrow> bool" where
  "unattended s = sUnattended s"

definition noticeOnly :: "gate_env \<Rightarrow> session \<Rightarrow> bool" where
  "noticeOnly env s \<longleftrightarrow> \<not> unattended s \<and> modeFor env s = ''boundary-only''"

definition refuseUnattended ::
  "string \<Rightarrow> string \<Rightarrow> string \<Rightarrow> string \<Rightarrow> (string \<times> val) list \<Rightarrow> session \<Rightarrow> session \<times> string \<times> bus_note list" where
  "refuseUnattended runID callID kind name args s =
     (let reason = ''[!] boundary: '' @ kind @ '' ('' @ name @ '')''
      in (RecordBoundaryHit reason s, ''deny'',
          [New ApprovalDecided (sID s) runID [(''call_id'', VStr callID), (''name'', VStr name), (''decision'', VStr ''deny''),
             (''unattended'', VBool True), (''boundary'', VStr reason), (''args'', VObj args)]]))"

section \<open>Decisions\<close>

definition validApprovalDecision :: "string \<Rightarrow> bool" where
  "validApprovalDecision d =
     (d \<in> set [''approve'', ''once'', ''run'', ''session'', ''folder'', ''operator_mode'', ''deny'', ''continue'', ''stop''])"

definition publishDecision :: "approval_wait \<Rightarrow> string \<Rightarrow> bus_note list" where
  "publishDecision w decision =
     [New ApprovalDecided (awSession w) (awRun w) [(''call_id'', VStr (awCall w)), (''decision'', VStr decision)]]"

text \<open>A send on the wait's channel.\<close>

definition send :: "nat \<Rightarrow> approval_signal \<Rightarrow> gate \<Rightarrow> gate" where
  "send a sig g =
     (case mget (gWaits g) a of
        None \<Rightarrow> g
      | Some w \<Rightarrow>
          if awSignal w = None then g\<lparr>gWaits := mput a (w\<lparr>awSignal := Some sig\<rparr>) (gWaits g)\<rparr>
          else g\<lparr>gBlocked := True\<rparr>)"

definition mark_decided :: "nat \<Rightarrow> gate \<Rightarrow> gate" where
  "mark_decided a g =
     (case mget (gWaits g) a of None \<Rightarrow> g | Some w \<Rightarrow> g\<lparr>gWaits := mput a (w\<lparr>awDecided := True\<rparr>) (gWaits g)\<rparr>)"

section \<open>Standing grants\<close>

definition hasStandingGrant :: "gate_env \<Rightarrow> string \<Rightarrow> gate \<Rightarrow> bool" where
  "hasStandingGrant env i g = (mget (mget_or [] (gCatalog g) (geProfile env)) i \<noteq> None)"

definition saveStandingGrant :: "gate_env \<Rightarrow> string option \<Rightarrow> standing_grant \<Rightarrow> gate \<Rightarrow> string + gate" where
  "saveStandingGrant env write_err gr g =
     (if \<not> gStore g then Inl ''standing grant store unavailable''
      else case write_err of
             Some e \<Rightarrow> Inl e
           | None \<Rightarrow> Inr (g\<lparr>gCatalog := mput (geProfile env)
                        (mput (stID gr) gr (mget_or [] (gCatalog g) (geProfile env))) (gCatalog g)\<rparr>))"

definition RevokeStandingGrant :: "gate_env \<Rightarrow> string option \<Rightarrow> string \<Rightarrow> gate \<Rightarrow> string + gate" where
  "RevokeStandingGrant env write_err i g =
     (if \<not> gStore g then Inl ''standing grant store unavailable''
      else case write_err of
             Some e \<Rightarrow> Inl e
           | None \<Rightarrow>
               (case mget (gCatalog g) (geProfile env) of
                  None \<Rightarrow> Inr g
                | Some m \<Rightarrow> Inr (g\<lparr>gCatalog := mput (geProfile env) (mdel i m) (gCatalog g)\<rparr>)))"

definition StandingGrants :: "gate_env \<Rightarrow> gate \<Rightarrow> standing_grant list" where
  "StandingGrants env g =
     (if \<not> gStore g then [] else sort_key stID (map snd (mget_or [] (gCatalog g) (geProfile env))))"

definition first_subject :: "(string \<times> val) list \<Rightarrow> (string \<times> string) list \<Rightarrow> string \<times> string" where
  "first_subject args candidates =
     (case find (\<lambda>(key, kind). TrimSpace (str_of (mget args key)) \<noteq> []) candidates of
        Some (key, kind) \<Rightarrow> (kind, TrimSpace (str_of (mget args key)))
      | None \<Rightarrow> ([], []))"

definition connector_name :: "(string \<times> val) list \<Rightarrow> string option" where
  "connector_name args =
     (case mget args ''connector'' of
        Some (VObj connector) \<Rightarrow>
          (case mget (obj (case mget connector ''entry'' of Some e \<Rightarrow> e | None \<Rightarrow> VNil)) ''name'' of
             Some (VStr n) \<Rightarrow> Some n
           | _ \<Rightarrow> None)
      | _ \<Rightarrow> None)"

definition standingGrant :: "gate_env \<Rightarrow> session \<Rightarrow> (string \<times> val) list \<Rightarrow> standing_grant" where
  "standingGrant env s args =
     (let (kind0, subject0) = first_subject args [(''repo'', ''repo''), (''path'', ''folder''), (''host'', ''host''), (''url'', ''host'')];
          (kind, subject1) = (case connector_name args of Some n \<Rightarrow> (''connector'', TrimSpace n) | None \<Rightarrow> (kind0, subject0));
          subject2 = (if kind = ''host'' then (case geUrlHost env subject1 of Some h \<Rightarrow> h | None \<Rightarrow> subject1) else subject1);
          subject3 = (if kind = ''folder''
                      then geClean env (if \<not> geIsAbs env subject2 \<and> sWorkspace s \<noteq> []
                                        then geJoin env (sWorkspace s) subject2 else subject2)
                      else subject2)
      in if subject3 = [] then no_grant
         else \<lparr>stID = kind @ '':'' @ subject3, stKind = kind, stSubject = subject3\<rparr>)"

section \<open>Waiting\<close>

text \<open>The earlier card of the chat: whether there is one under another key, and its wait when nobody
  has decided it yet.\<close>

definition replaces :: "string \<Rightarrow> string \<Rightarrow> gate \<Rightarrow> bool" where
  "replaces sid key g \<longleftrightarrow> mget_or [] (gPending g) sid \<noteq> [] \<and> mget_or [] (gPending g) sid \<noteq> key"

definition undecided_prior :: "string \<Rightarrow> string \<Rightarrow> gate \<Rightarrow> nat option" where
  "undecided_prior sid key g =
     (case (if replaces sid key g then mget (gWaiting g) (mget_or [] (gPending g) sid) else None) of
        None \<Rightarrow> None
      | Some p \<Rightarrow> (case mget (gWaits g) p of Some pw \<Rightarrow> if \<not> awDecided pw then Some p else None | None \<Rightarrow> None))"

definition beginWait ::
  "string \<Rightarrow> string \<Rightarrow> scope_kind \<Rightarrow> standing_grant \<Rightarrow> session \<Rightarrow> gate \<Rightarrow> gate \<times> session \<times> nat \<times> bus_note list" where
  "beginWait runID callID kind gr s g =
     (let key = approvalKey (sID s) callID;
          a = gNext g;
          w = \<lparr>awSignal = None, awScope = kind, awSession = sID s, awRun = runID, awCall = callID, awDecided = False,
               awGrant = gr, awFolder = False, awName = []\<rparr>;
          superseded = undecided_prior (sID s) key g;
          waiting = (if replaces (sID s) key g then mdel (mget_or [] (gPending g) (sID s)) (gWaiting g) else gWaiting g);
          g1 = (case superseded of Some p \<Rightarrow> mark_decided p g | None \<Rightarrow> g);
          g2 = g1\<lparr>gWaiting := mput key a waiting, gPending := mput (sID s) key (gPending g),
                  gWaits := mput a w (gWaits g1), gNext := Suc a\<rparr>;
          (g3, evs) = (case superseded of
              Some p \<Rightarrow> (send p \<lparr>asDecision = ''superseded'', asAnswer = [], asLogged = True\<rparr> g2,
                         (case mget (gWaits g) p of Some pw \<Rightarrow> publishDecision pw ''superseded'' | None \<Rightarrow> []))
            | None \<Rightarrow> (g2, []))
      in (g3, SetRun ((sRun s)\<lparr>rsStatus := ''paused''\<rparr>) s, a, evs))"

definition cleanup :: "string \<Rightarrow> string \<Rightarrow> nat \<Rightarrow> gate \<Rightarrow> gate" where
  "cleanup sid key a g =
     g\<lparr>gWaiting := (if mget (gWaiting g) key = Some a then mdel key (gWaiting g) else gWaiting g),
       gPending := (if mget_or [] (gPending g) sid = key then mdel sid (gPending g) else gPending g)\<rparr>"

definition name_wait :: "nat \<Rightarrow> string \<Rightarrow> bool \<Rightarrow> gate \<Rightarrow> gate" where
  "name_wait a name folder g =
     (case mget (gWaits g) a of
        None \<Rightarrow> g | Some w \<Rightarrow> g\<lparr>gWaits := mput a (w\<lparr>awName := name, awFolder := folder\<rparr>) (gWaits g)\<rparr>)"

definition workerApproval :: "session \<Rightarrow> (string \<times> val) list \<Rightarrow> (string \<times> val) list" where
  "workerApproval s data =
     (if sRole s = ''c'' \<and> sPlanID s \<noteq> [] then mput ''plan_id'' (VStr (sPlanID s)) (mput ''role'' (VStr ''c'') data) else data)"

definition publishApprovalRequired ::
  "session \<Rightarrow> string \<Rightarrow> string \<Rightarrow> string \<Rightarrow> (string \<times> val) list \<Rightarrow> bool \<Rightarrow> standing_grant \<Rightarrow> bus_note list" where
  "publishApprovalRequired s runID callID name args boundary gr =
     (let data = [(''call_id'', VStr callID), (''name'', VStr name), (''args'', VObj args), (''boundary_escape'', VBool boundary)] @
            (if stID gr \<noteq> [] then [(''standing_grant'', VObj [(''id'', VStr (stID gr)), (''kind'', VStr (stKind gr)),
               (''subject'', VStr (stSubject gr))])] else [])
      in [New ApprovalRequired (sID s) runID (WithHuman ApprovalRequired (workerApproval s data))])"

text \<open>How an entry point begins: an answer at once, or a card that waits at an address.\<close>

datatype wait_start =
    Answered string
  | Waits nat

definition WaitQuestion_begin ::
  "string \<Rightarrow> string \<Rightarrow> string \<Rightarrow> string list \<Rightarrow> session \<Rightarrow> gate \<Rightarrow> gate \<times> session \<times> wait_start \<times> bus_note list" where
  "WaitQuestion_begin runID callID question choices s g =
     (let args = [(''question'', VStr question), (''choices'', vstrs choices)]
      in if unattended s
         then (case refuseUnattended runID callID ''policy approval'' ''ask'' args s of
                 (s1, _, evs) \<Rightarrow> (g, s1, Answered ''No one is here to answer. Decide yourself and say what you decided.'', evs))
         else (case beginWait runID callID approvalQuestion no_grant s g of
                 (g1, s1, a, evs) \<Rightarrow>
                   (name_wait a ''ask'' False g1, s1, Waits a,
                    evs @ [New ApprovalRequired (sID s) runID (WithHuman ApprovalRequired
                      [(''call_id'', VStr callID), (''name'', VStr ''ask''), (''kind'', VStr ''question''),
                       (''question'', VStr question), (''choices'', vstrs choices), (''boundary_escape'', VBool False)])])))"

definition WaitPolicyDecision_begin ::
  "gate_env \<Rightarrow> string \<Rightarrow> string \<Rightarrow> string \<Rightarrow> (string \<times> val) list \<Rightarrow> session \<Rightarrow> gate \<Rightarrow> gate \<times> session \<times> wait_start \<times> bus_note list" where
  "WaitPolicyDecision_begin env runID callID name args s g =
     (if unattended s
      then (case refuseUnattended runID callID
                   (if HasPrefix name ''plan registration'' then ''plan registration'' else ''policy approval'') name args s of
              (s1, d, evs) \<Rightarrow> (g, s1, Answered d, evs))
      else let gr = (if gStore g then standingGrant env s args else no_grant)
           in if stID gr \<noteq> [] \<and> hasStandingGrant env (stID gr) g then (g, s, Answered ''approve'', [])
              else (case beginWait runID callID (if name = ''shell'' then approvalShellScopes else approvalPolicyScopes) gr s g of
                      (g1, s1, a, evs) \<Rightarrow>
                        (name_wait a name False g1, s1, Waits a,
                         evs @ publishApprovalRequired s runID callID name args False gr)))"

definition WaitDecision_begin ::
  "gate_env \<Rightarrow> string \<Rightarrow> string \<Rightarrow> string \<Rightarrow> (string \<times> val) list \<Rightarrow> session \<Rightarrow> gate \<Rightarrow> gate \<times> session \<times> wait_start \<times> bus_note list" where
  "WaitDecision_begin env runID callID name args s g =
     (if \<not> requiredFor env s name then (g, s, Answered ''approve'', [])
      else WaitPolicyDecision_begin env runID callID name args s g)"

definition WaitBoundaryDecision_begin ::
  "gate_env \<Rightarrow> string \<Rightarrow> string \<Rightarrow> string \<Rightarrow> (string \<times> val) list \<Rightarrow> session \<Rightarrow> gate \<Rightarrow> gate \<times> session \<times> wait_start \<times> bus_note list" where
  "WaitBoundaryDecision_begin env runID callID name args s g =
     (if unattended s
      then (case refuseUnattended runID callID ''identity escalation'' name args s of
              (s1, d, evs) \<Rightarrow> (g, s1, Answered d, evs))
      else let gr = (if gStore g then standingGrant env s args else no_grant)
           in if stID gr \<noteq> [] \<and> hasStandingGrant env (stID gr) g then (g, s, Answered ''approve'', [])
              else (case beginWait runID callID
                      (if name = ''shell.operator_override'' \<or> name = ''shell.operator_command''
                       then approvalShellScopes else approvalFileScopes) gr s g of
                      (g1, s1, a, evs) \<Rightarrow>
                        (name_wait a name (mget args ''outside_folders'' \<noteq> None) g1, s1, Waits a,
                         evs @ publishApprovalRequired s runID callID name args True gr)))"

definition WaitCycleDecision_begin ::
  "gate_env \<Rightarrow> string \<Rightarrow> string \<Rightarrow> (string \<times> val) list \<Rightarrow> session \<Rightarrow> gate \<Rightarrow> gate \<times> session \<times> wait_start \<times> bus_note list" where
  "WaitCycleDecision_begin env runID callID args s g =
     (if unattended s
      then (case refuseUnattended runID callID ''cycle decision'' ''run.cycle'' args s of
              (s1, d, evs) \<Rightarrow> (g, s1, Answered d, evs))
      else if noticeOnly env s then (g, s, Answered ''stop'', [])
      else (case beginWait runID callID approvalCycle no_grant s g of
              (g1, s1, a, evs) \<Rightarrow>
                (name_wait a ''run.cycle'' False g1, s1, Waits a,
                 evs @ [New ApprovalRequired (sID s) runID (WithHuman ApprovalRequired (workerApproval s
                   [(''call_id'', VStr callID), (''name'', VStr ''run.cycle''), (''kind'', VStr ''cycle''),
                    (''args'', VObj args), (''boundary_escape'', VBool False)]))])))"

section \<open>Deciding\<close>

definition AnswerQuestion :: "string \<Rightarrow> string \<Rightarrow> string \<Rightarrow> gate \<Rightarrow> string + gate" where
  "AnswerQuestion sid callID answer0 g =
     (let answer = TrimSpace answer0
      in if answer = [] \<or> rune_count answer > 4000 then Inl ''answer must be 1 to 4000 characters''
         else case mget (gWaiting g) (approvalKey sid callID) of
                None \<Rightarrow> Inl ''approval not found''
              | Some a \<Rightarrow>
                  (case mget (gWaits g) a of
                     None \<Rightarrow> Inl ''approval not found''
                   | Some w \<Rightarrow>
                       if awScope w \<noteq> approvalQuestion then Inl ''approval is not a question''
                       else if awDecided w then Inl ''approval already decided''
                       else Inr (send a \<lparr>asDecision = ''answered'', asAnswer = answer, asLogged = False\<rparr> (mark_decided a g))))"

text \<open>The checks of \<open>DecideWith\<close> on the wait, in the order of the code.\<close>

definition decision_error :: "string \<Rightarrow> approval_wait \<Rightarrow> string option" where
  "decision_error d w =
     (if d = ''run'' \<and> awScope w \<noteq> approvalShellScopes \<and> awScope w \<noteq> approvalFileScopes
      then Some (''decision '' @ d @ '' requires a run-scoped shell or file-tool approval'')
      else if d = ''session'' \<and> awScope w = approvalNoScopes
      then Some (''decision '' @ d @ '' requires a scoped approval'')
      else if d = ''operator_mode'' \<and> awScope w \<noteq> approvalShellScopes
      then Some (''decision '' @ d @ '' is only valid for a shell approval'')
      else if d = ''folder'' \<and> \<not> awFolder w
      then Some ''decision folder requires an outside-folder approval''
      else if (d = ''continue'' \<or> d = ''stop'') \<and> awScope w \<noteq> approvalCycle
      then Some (''decision '' @ d @ '' is only valid for a cycle decision'')
      else if awScope w = approvalCycle \<and> d \<noteq> ''continue'' \<and> d \<noteq> ''stop''
      then Some ''cycle decision must be continue or stop''
      else if awDecided w then Some ''approval already decided''
      else None)"

text \<open>The callback \<open>before\<close> of the caller runs exactly when the result is a gate, before the decision
  is sent.\<close>

definition DecideWith :: "gate_env \<Rightarrow> string option \<Rightarrow> string \<Rightarrow> string \<Rightarrow> string \<Rightarrow> gate \<Rightarrow> string + gate" where
  "DecideWith env write_err sid callID d g =
     (if \<not> validApprovalDecision d
      then Inl ''decision must be approve, once, run, session, folder, operator_mode, or deny''
      else case mget (gWaiting g) (approvalKey sid callID) of
             None \<Rightarrow> Inl ''approval not found''
           | Some a \<Rightarrow>
               (case mget (gWaits g) a of
                  None \<Rightarrow> Inl ''approval not found''
                | Some w \<Rightarrow>
                    (case decision_error d w of
                       Some e \<Rightarrow> Inl e
                     | None \<Rightarrow>
                         let deliver = (\<lambda>g1. Inr (send a \<lparr>asDecision = d, asAnswer = [], asLogged = False\<rparr> (mark_decided a g1)))
                         in if d = ''approve'' \<and> stID (awGrant w) \<noteq> []
                            then (case saveStandingGrant env write_err (awGrant w) g of
                                    Inl e \<Rightarrow> Inl (''save standing grant: '' @ e)
                                  | Inr g1 \<Rightarrow> deliver g1)
                            else deliver g)))"

definition Decide :: "gate_env \<Rightarrow> string option \<Rightarrow> string \<Rightarrow> string \<Rightarrow> string \<Rightarrow> gate \<Rightarrow> string + gate" where
  "Decide env write_err sid callID d g = DecideWith env write_err sid callID d g"

section \<open>Awaiting\<close>

text \<open>The tail of \<open>awaitDecision\<close>, from the received signal to the result; \<open>reacquire\<close> is the error of
  the scheduler's hook, if any. The result is the decision and the error.\<close>

definition await_finish ::
  "string option \<Rightarrow> approval_wait \<Rightarrow> approval_signal \<Rightarrow> session \<Rightarrow> session \<times> (string \<times> string option) \<times> bus_note list" where
  "await_finish reacquire w sig s =
     (let answered = (awScope w = approvalQuestion \<and> asAnswer sig \<noteq> []);
          evs = (if asLogged sig then [] else publishDecision w (if answered then ''answered'' else asDecision sig));
          superseded = (asDecision sig = ''superseded'')
      in case reacquire of
           Some e \<Rightarrow>
             if \<not> superseded then (s, (''dismissed'', Some e), evs)
             else (s, (''superseded'', Some ''approval superseded by a newer decision''), evs)
         | None \<Rightarrow>
             if superseded then (s, (''superseded'', Some ''approval superseded by a newer decision''), evs)
             else let s1 = (if asDecision sig \<noteq> ''dismissed'' then SetRun ((sRun s)\<lparr>rsStatus := ''running''\<rparr>) s else s)
                  in (s1, (if answered then asAnswer sig else asDecision sig, None), evs))"

text \<open>The receive on the wait's channel: \<open>None\<close> while it is empty.\<close>

definition await_receive ::
  "string option \<Rightarrow> nat \<Rightarrow> session \<Rightarrow> gate \<Rightarrow> (gate \<times> session \<times> (string \<times> string option) \<times> bus_note list) option" where
  "await_receive reacquire a s g =
     (case mget (gWaits g) a of
        None \<Rightarrow> None
      | Some w \<Rightarrow>
          (case awSignal w of
             None \<Rightarrow> None
           | Some sig \<Rightarrow>
               (case await_finish reacquire w sig s of
                  (s1, res, evs) \<Rightarrow> Some (g\<lparr>gWaits := mput a (w\<lparr>awSignal := None\<rparr>) (gWaits g)\<rparr>, s1, res, evs))))"

text \<open>The cancelled context: a decided wait still takes its signal, an undecided one is dismissed.\<close>

definition await_cancel ::
  "string \<Rightarrow> string option \<Rightarrow> nat \<Rightarrow> session \<Rightarrow> gate \<Rightarrow> (gate \<times> session \<times> (string \<times> string option) \<times> bus_note list) option" where
  "await_cancel ctx_err reacquire a s g =
     (case mget (gWaits g) a of
        None \<Rightarrow> None
      | Some w \<Rightarrow>
          if awDecided w then await_receive reacquire a s g
          else Some (mark_decided a g, s, (''dismissed'', Some ctx_err), publishDecision w ''dismissed''))"

text \<open>A tick of the mailbox: an empty answer is ignored, any other is decided like a click, and an
  error is published; the loop goes on in every case.\<close>

definition await_mailbox ::
  "gate_env \<Rightarrow> string option \<Rightarrow> string \<Rightarrow> string option \<Rightarrow> nat \<Rightarrow> gate \<Rightarrow> gate \<times> bus_note list" where
  "await_mailbox env write_err d mail_err a g =
     (case mget (gWaits g) a of
        None \<Rightarrow> (g, [])
      | Some w \<Rightarrow>
          let report = (\<lambda>e. New Error (awSession w) (awRun w) [(''where'', VStr ''mailbox''), (''message'', VStr e)]);
              evs0 = (case mail_err of Some e \<Rightarrow> [report e] | None \<Rightarrow> [])
          in if d = [] then (g, evs0)
             else (case Decide env write_err (awSession w) (awCall w) d g of
                     Inl e \<Rightarrow> (g, evs0 @ [report e])
                   | Inr g1 \<Rightarrow> (g1, evs0)))"

section \<open>Cards\<close>

text \<open>The entry points as requests of one kind.\<close>

datatype card_request =
    AskQuestion string string string "string list"
  | AskPolicy string string string "(string \<times> val) list"
  | AskTool string string string "(string \<times> val) list"
  | AskBoundary string string string "(string \<times> val) list"
  | AskCycle string string "(string \<times> val) list"

fun open_card :: "gate_env \<Rightarrow> card_request \<Rightarrow> session \<Rightarrow> gate \<Rightarrow> gate \<times> session \<times> wait_start \<times> bus_note list" where
  "open_card env (AskQuestion r c q ch) s g = WaitQuestion_begin r c q ch s g"
| "open_card env (AskPolicy r c n args) s g = WaitPolicyDecision_begin env r c n args s g"
| "open_card env (AskTool r c n args) s g = WaitDecision_begin env r c n args s g"
| "open_card env (AskBoundary r c n args) s g = WaitBoundaryDecision_begin env r c n args s g"
| "open_card env (AskCycle r c args) s g = WaitCycleDecision_begin env r c args s g"

fun req_call :: "card_request \<Rightarrow> string" where
  "req_call (AskQuestion r c q ch) = c"
| "req_call (AskPolicy r c n args) = c"
| "req_call (AskTool r c n args) = c"
| "req_call (AskBoundary r c n args) = c"
| "req_call (AskCycle r c args) = c"

abbreviation wait_key :: "approval_wait \<Rightarrow> string" where
  "wait_key w \<equiv> approvalKey (awSession w) (awCall w)"

definition decided_note :: "string \<Rightarrow> string \<Rightarrow> bus_note \<Rightarrow> bool" where
  "decided_note s c e \<longleftrightarrow> nType e = ApprovalDecided \<and> nSession e = s \<and> str_of (mget (obj (nData e)) ''call_id'') = c"

definition decided_notes :: "string \<Rightarrow> string \<Rightarrow> bus_note list \<Rightarrow> nat" where
  "decided_notes s c evs = length (filter (decided_note s c) evs)"

lemma open_card_Waits:
  assumes "open_card env req s g = (g', s', Waits a, evs)"
  shows "\<not> unattended s \<and> (\<exists>r kind gr g1 evs1 name folder e.
    beginWait r (req_call req) kind gr s g = (g1, s', a, evs1) \<and> g' = name_wait a name folder g1 \<and>
    evs = evs1 @ [e] \<and> nType e = ApprovalRequired)"
proof -
  have req: "\<exists>e. publishApprovalRequired s r c n ar b gr = [e] \<and> nType e = ApprovalRequired" for r c n ar b gr
    by (simp add: publishApprovalRequired_def Let_def)
  show ?thesis
  proof (cases req)
    case (AskQuestion r c q ch)
    with assms show ?thesis by (fastforce simp: WaitQuestion_begin_def Let_def split: if_splits prod.splits)
  next
    case (AskPolicy r c n ar)
    with assms req show ?thesis
      by (fastforce simp: WaitPolicyDecision_begin_def Let_def split: if_splits prod.splits)
  next
    case (AskTool r c n ar)
    with assms req show ?thesis
      by (fastforce simp: WaitDecision_begin_def WaitPolicyDecision_begin_def Let_def split: if_splits prod.splits)
  next
    case (AskBoundary r c n ar)
    with assms req show ?thesis
      by (fastforce simp: WaitBoundaryDecision_begin_def Let_def split: if_splits prod.splits)
  next
    case (AskCycle r c ar)
    with assms show ?thesis by (fastforce simp: WaitCycleDecision_begin_def Let_def split: if_splits prod.splits)
  qed
qed

text \<open>The interleavings: cards opened for any chat under a call id that was not used before, decisions
  from clicks, answers and the mailbox, and the waiting goroutine receiving, being cancelled and
  cleaning up. The second component is the log of published events.\<close>

inductive gate_step :: "gate \<times> bus_note list \<Rightarrow> gate \<times> bus_note list \<Rightarrow> bool" where
  gs_open: "open_card env req s g = (g1, s1, Waits a, evs) \<Longrightarrow> nul_free (sID s) \<Longrightarrow>
     \<forall>b w. mget (gWaits g) b = Some w \<longrightarrow> wait_key w \<noteq> approvalKey (sID s) (req_call req) \<Longrightarrow>
     gate_step (g, l) (g1, l @ evs)"
| gs_decide: "DecideWith env we sid callID d g = Inr g1 \<Longrightarrow> gate_step (g, l) (g1, l)"
| gs_answer: "AnswerQuestion sid callID answer g = Inr g1 \<Longrightarrow> gate_step (g, l) (g1, l)"
| gs_receive: "await_receive re a s g = Some (g1, s1, res, evs) \<Longrightarrow> gate_step (g, l) (g1, l @ evs)"
| gs_cancel: "await_cancel err re a s g = Some (g1, s1, res, evs) \<Longrightarrow> gate_step (g, l) (g1, l @ evs)"
| gs_mailbox: "await_mailbox env we d me a g = (g1, evs) \<Longrightarrow> gate_step (g, l) (g1, l @ evs)"
| gs_cleanup: "mget (gWaits g) a = Some w \<Longrightarrow> gate_step (g, l) (cleanup (awSession w) (wait_key w) a g, l)"
| gs_revoke: "RevokeStandingGrant env we i g = Inr g1 \<Longrightarrow> gate_step (g, l) (g1, l)"

inductive_cases gate_stepE: "gate_step st st'"

definition published :: "approval_wait \<Rightarrow> bool" where
  "published w \<longleftrightarrow> awDecided w \<and> (case awSignal w of None \<Rightarrow> True | Some sig \<Rightarrow> asLogged sig)"

definition wait_ok :: "gate \<Rightarrow> bus_note list \<Rightarrow> nat \<Rightarrow> approval_wait \<Rightarrow> bool" where
  "wait_ok g l a w \<longleftrightarrow> a < gNext g \<and> nul_free (awSession w) \<and> (awSignal w \<noteq> None \<longrightarrow> awDecided w) \<and>
     decided_notes (awSession w) (awCall w) l = (if published w then 1 else 0)"

definition gate_inv :: "gate \<times> bus_note list \<Rightarrow> bool" where
  "gate_inv st \<longleftrightarrow> (case st of (g, l) \<Rightarrow>
     (\<forall>a w. mget (gWaits g) a = Some w \<longrightarrow> wait_ok g l a w) \<and>
     (\<forall>a b w v. mget (gWaits g) a = Some w \<longrightarrow> mget (gWaits g) b = Some v \<longrightarrow> wait_key w = wait_key v \<longrightarrow> a = b) \<and>
     (\<forall>k a. mget (gWaiting g) k = Some a \<longrightarrow>
        (\<exists>w. mget (gWaits g) a = Some w \<and> k = wait_key w \<and> mget (gPending g) (awSession w) = Some k)) \<and>
     (\<forall>e \<in> set l. nType e = ApprovalDecided \<longrightarrow>
        (\<exists>a w. mget (gWaits g) a = Some w \<and> nSession e = awSession w \<and> str_of (mget (obj (nData e)) ''call_id'') = awCall w)) \<and>
     \<not> gBlocked g)"

lemma gate_invI:
  assumes "\<And>a w. mget (gWaits g) a = Some w \<Longrightarrow> wait_ok g l a w"
    and "\<And>a b w v. mget (gWaits g) a = Some w \<Longrightarrow> mget (gWaits g) b = Some v \<Longrightarrow> wait_key w = wait_key v \<Longrightarrow> a = b"
    and "\<And>k a. mget (gWaiting g) k = Some a \<Longrightarrow>
        \<exists>w. mget (gWaits g) a = Some w \<and> k = wait_key w \<and> mget (gPending g) (awSession w) = Some k"
    and "\<And>e. e \<in> set l \<Longrightarrow> nType e = ApprovalDecided \<Longrightarrow>
        \<exists>a w. mget (gWaits g) a = Some w \<and> nSession e = awSession w \<and> str_of (mget (obj (nData e)) ''call_id'') = awCall w"
    and "\<not> gBlocked g"
  shows "gate_inv (g, l)"
  unfolding gate_inv_def prod.case using assms by blast

lemma gate_inv_wait: "gate_inv (g, l) \<Longrightarrow> mget (gWaits g) a = Some w \<Longrightarrow> wait_ok g l a w"
  unfolding gate_inv_def prod.case by blast

lemma gate_inv_keys:
  "gate_inv (g, l) \<Longrightarrow> mget (gWaits g) a = Some w \<Longrightarrow> mget (gWaits g) b = Some v \<Longrightarrow> wait_key w = wait_key v \<Longrightarrow> a = b"
  unfolding gate_inv_def prod.case by blast

lemma gate_inv_waiting:
  assumes "gate_inv (g, l)" "mget (gWaiting g) k = Some a"
  obtains w where "mget (gWaits g) a = Some w" "k = wait_key w" "mget (gPending g) (awSession w) = Some k"
  using assms unfolding gate_inv_def prod.case by blast

lemma gate_inv_log:
  assumes "gate_inv (g, l)" "e \<in> set l" "nType e = ApprovalDecided"
  obtains a w where "mget (gWaits g) a = Some w" "nSession e = awSession w" "str_of (mget (obj (nData e)) ''call_id'') = awCall w"
  using assms unfolding gate_inv_def prod.case by blast

lemma gate_inv_open: "gate_inv (g, l) \<Longrightarrow> \<not> gBlocked g"
  unfolding gate_inv_def prod.case by blast

lemma decided_notes_append [simp]: "decided_notes s c (xs @ ys) = decided_notes s c xs + decided_notes s c ys"
  by (simp add: decided_notes_def)

lemma decided_notes_publish [simp]:
  "decided_notes s c (publishDecision w d) = (if s = awSession w \<and> c = awCall w then 1 else 0)"
  by (auto simp: decided_notes_def publishDecision_def decided_note_def obj_def str_of_def)

lemma wait_key_eq: "nul_free (awSession w) \<Longrightarrow> nul_free (awSession v) \<Longrightarrow>
   wait_key w = wait_key v \<longleftrightarrow> awSession w = awSession v \<and> awCall w = awCall v"
  by (simp add: approvalKey_def nul_key_inj)

text \<open>What a step that only changes one wait has to show.\<close>

lemma gate_inv_update:
  assumes "gate_inv (g, l)" "mget (gWaits g) a = Some w" "awSession w' = awSession w" "awCall w' = awCall w"
    and "awSignal w' \<noteq> None \<longrightarrow> awDecided w'"
    and "\<And>s c. decided_notes s c evs =
        (if s = awSession w \<and> c = awCall w \<and> \<not> published w \<and> published w' then 1 else 0)"
    and "published w \<longrightarrow> published w'"
    and "\<forall>e \<in> set evs. nType e = ApprovalDecided \<longrightarrow>
        nSession e = awSession w \<and> str_of (mget (obj (nData e)) ''call_id'') = awCall w"
  shows "gate_inv (g\<lparr>gWaits := mput a w' (gWaits g)\<rparr>, l @ evs)"
proof -
  let ?g = "g\<lparr>gWaits := mput a w' (gWaits g)\<rparr>"
  have heap: "\<exists>u. mget (gWaits g) b = Some u \<and> awSession u = awSession v \<and> awCall u = awCall v \<and> (b \<noteq> a \<longrightarrow> u = v)"
    if "mget (gWaits ?g) b = Some v" for b v
    using that assms(2-4) by (cases "b = a") auto
  show ?thesis
  proof (rule gate_invI)
    fix b v assume v: "mget (gWaits ?g) b = Some v"
    show "wait_ok ?g (l @ evs) b v"
    proof (cases "b = a")
      case True
      with v have "v = w'" by simp
      with gate_inv_wait [OF assms(1,2)] assms(3-7) True show ?thesis by (auto simp: wait_ok_def)
    next
      case False
      with v have v0: "mget (gWaits g) b = Some v" by simp
      with gate_inv_keys [OF assms(1) v0 assms(2)] False
      have "\<not> (awSession v = awSession w \<and> awCall v = awCall w)" by auto
      with gate_inv_wait [OF assms(1) v0] assms(6) [of "awSession v" "awCall v"] show ?thesis by (auto simp: wait_ok_def)
    qed
  next
    fix b b' u v assume "mget (gWaits ?g) b = Some u" "mget (gWaits ?g) b' = Some v" "wait_key u = wait_key v"
    moreover from this(1) heap obtain u0 where "mget (gWaits g) b = Some u0" "wait_key u0 = wait_key u" by metis
    moreover from calculation(2) heap obtain v0 where "mget (gWaits g) b' = Some v0" "wait_key v0 = wait_key v" by metis
    ultimately show "b = b'" using gate_inv_keys [OF assms(1)] by metis
  next
    fix k b assume "mget (gWaiting ?g) k = Some b"
    then have "mget (gWaiting g) k = Some b" by simp
    then obtain u where u: "mget (gWaits g) b = Some u" "k = wait_key u" "mget (gPending g) (awSession u) = Some k"
      by (rule gate_inv_waiting [OF assms(1)])
    then show "\<exists>w. mget (gWaits ?g) b = Some w \<and> k = wait_key w \<and> mget (gPending ?g) (awSession w) = Some k"
      using assms(2-4) by (cases "b = a") auto
  next
    fix e assume e: "e \<in> set (l @ evs)" "nType e = ApprovalDecided"
    show "\<exists>b v. mget (gWaits ?g) b = Some v \<and> nSession e = awSession v \<and> str_of (mget (obj (nData e)) ''call_id'') = awCall v"
    proof (cases "e \<in> set l")
      case True
      from gate_inv_log [OF assms(1) this e(2)] obtain b u where "mget (gWaits g) b = Some u" "nSession e = awSession u"
        "str_of (mget (obj (nData e)) ''call_id'') = awCall u" .
      then show ?thesis using assms(2-4) by (cases "b = a") auto
    next
      case False
      with e assms(3,4,8) show ?thesis by (intro exI [of _ a] exI [of _ w']) auto
    qed
  next
    show "\<not> gBlocked ?g" using gate_inv_open [OF assms(1)] by simp
  qed
qed

lemma gate_inv_cong:
  assumes "gate_inv (g, l)" "mget (gWaits h) = mget (gWaits g)" "gWaiting h = gWaiting g" "gPending h = gPending g"
    "gNext h = gNext g" "gBlocked h = gBlocked g"
  shows "gate_inv (h, l)"
  using assms by (simp add: gate_inv_def wait_ok_def)

lemma gate_inv_more_log:
  "gate_inv (g, l) \<Longrightarrow> \<forall>e \<in> set evs. nType e \<noteq> ApprovalDecided \<Longrightarrow> gate_inv (g, l @ evs)"
proof -
  assume inv: "gate_inv (g, l)" and evs: "\<forall>e \<in> set evs. nType e \<noteq> ApprovalDecided"
  have none: "decided_notes s c evs = 0" for s c
    using evs by (auto simp: decided_notes_def decided_note_def filter_empty_conv)
  show ?thesis
  proof (rule gate_invI)
    fix a w assume "mget (gWaits g) a = Some w"
    from gate_inv_wait [OF inv this] show "wait_ok g (l @ evs) a w" by (simp add: wait_ok_def none)
  next
    fix e assume e: "e \<in> set (l @ evs)" "nType e = ApprovalDecided"
    then have "e \<in> set l" using evs by auto
    from gate_inv_log [OF inv this e(2)] show "\<exists>a w. mget (gWaits g) a = Some w \<and> nSession e = awSession w \<and>
        str_of (mget (obj (nData e)) ''call_id'') = awCall w" by metis
  qed (use inv gate_inv_keys gate_inv_waiting gate_inv_open in \<open>metis+\<close>)
qed

lemma deliver_eq:
  "mget (gWaits g) a = Some w \<Longrightarrow> awSignal w = None \<Longrightarrow>
   send a sig (mark_decided a g) = g\<lparr>gWaits := mput a (w\<lparr>awDecided := True, awSignal := Some sig\<rparr>) (gWaits g)\<rparr>"
  by (simp add: send_def mark_decided_def AList.update_last)

lemma undecided_empty: "gate_inv (g, l) \<Longrightarrow> mget (gWaits g) a = Some w \<Longrightarrow> \<not> awDecided w \<Longrightarrow> awSignal w = None"
  using gate_inv_wait by (fastforce simp: wait_ok_def)

lemma gate_inv_deliver:
  assumes "gate_inv (g, l)" "mget (gWaits g) a = Some w" "\<not> awDecided w" "\<not> asLogged sig"
  shows "gate_inv (send a sig (mark_decided a g), l)"
  using gate_inv_update [OF assms(1,2), of "w\<lparr>awDecided := True, awSignal := Some sig\<rparr>" "[]"]
    undecided_empty [OF assms(1-3)] assms
  by (simp add: deliver_eq published_def decided_notes_def)

lemma gate_inv_supersede:
  assumes "gate_inv (g, l)" "mget (gWaits g) a = Some w" "\<not> awDecided w" "asLogged sig"
  shows "gate_inv (g\<lparr>gWaits := mput a (w\<lparr>awDecided := True, awSignal := Some sig\<rparr>) (gWaits g)\<rparr>, l @ publishDecision w d)"
  using assms undecided_empty [OF assms(1-3)]
  by (intro gate_inv_update) (auto simp: published_def publishDecision_def decided_notes_def decided_note_def obj_def str_of_def)

lemma gate_inv_dismiss:
  assumes "gate_inv (g, l)" "mget (gWaits g) a = Some w" "\<not> awDecided w"
  shows "gate_inv (mark_decided a g, l @ publishDecision w d)"
  using gate_inv_update [OF assms(1,2), of "w\<lparr>awDecided := True\<rparr>" "publishDecision w d"] assms undecided_empty [OF assms]
  by (simp add: mark_decided_def published_def)
     (auto simp: publishDecision_def obj_def str_of_def decided_notes_def decided_note_def)

lemma gate_inv_name:
  assumes "gate_inv (g, l)" shows "gate_inv (name_wait a name folder g, l)"
proof (cases "mget (gWaits g) a")
  case (Some w)
  from gate_inv_wait [OF assms Some] have "awSignal w \<noteq> None \<longrightarrow> awDecided w" by (simp add: wait_ok_def)
  with gate_inv_update [OF assms Some, of "w\<lparr>awName := name, awFolder := folder\<rparr>" "[]"] Some show ?thesis
    by (simp add: name_wait_def published_def decided_notes_def)
qed (use assms in \<open>simp add: name_wait_def\<close>)

lemma gate_inv_receive:
  assumes "gate_inv (g, l)" "await_receive re a s g = Some (g1, s1, res, evs)"
  shows "gate_inv (g1, l @ evs)"
proof -
  from assms(2) obtain w sig where w: "mget (gWaits g) a = Some w" "awSignal w = Some sig"
    and g1: "g1 = g\<lparr>gWaits := mput a (w\<lparr>awSignal := None\<rparr>) (gWaits g)\<rparr>"
    and evs: "evs = (if asLogged sig then [] else publishDecision w
        (if awScope w = approvalQuestion \<and> asAnswer sig \<noteq> [] then ''answered'' else asDecision sig))"
    by (auto simp: await_receive_def await_finish_def Let_def split: option.splits prod.splits if_splits)
  have d: "awDecided w" using gate_inv_wait [OF assms(1) w(1)] w(2) by (simp add: wait_ok_def)
  show ?thesis unfolding g1
    by (rule gate_inv_update [OF assms(1) w(1)])
       (use w(2) d in \<open>auto simp: evs published_def publishDecision_def decided_notes_def decided_note_def obj_def str_of_def\<close>)
qed

lemma save_catalog: "saveStandingGrant env we gr g = Inr g1 \<Longrightarrow> g1 = g\<lparr>gCatalog := gCatalog g1\<rparr>"
  by (auto simp: saveStandingGrant_def split: if_splits option.splits)

lemma decision_error_None: "decision_error d w = None \<Longrightarrow> \<not> awDecided w"
  by (cases "awDecided w") (simp_all add: decision_error_def split: if_splits)

lemma DecideWith_Inr:
  assumes "DecideWith env we sid callID d g = Inr g1"
  obtains a w c where "validApprovalDecision d" "mget (gWaiting g) (approvalKey sid callID) = Some a"
    "mget (gWaits g) a = Some w" "decision_error d w = None"
    "g1 = send a \<lparr>asDecision = d, asAnswer = [], asLogged = False\<rparr> (mark_decided a (g\<lparr>gCatalog := c\<rparr>))"
    "if d = ''approve'' \<and> stID (awGrant w) \<noteq> [] then saveStandingGrant env we (awGrant w) g = Inr (g\<lparr>gCatalog := c\<rparr>)
     else c = gCatalog g"
proof -
  have v: "validApprovalDecision d" using assms by (simp add: DecideWith_def split: if_splits)
  then obtain a where a: "mget (gWaiting g) (approvalKey sid callID) = Some a"
    using assms by (simp add: DecideWith_def split: option.splits)
  obtain w where w: "mget (gWaits g) a = Some w" using assms v a by (simp add: DecideWith_def split: option.splits)
  have e: "decision_error d w = None" using assms v a w by (cases "decision_error d w") (simp_all add: DecideWith_def)
  let ?sig = "\<lparr>asDecision = d, asAnswer = [], asLogged = False\<rparr>"
  show thesis
  proof (cases "d = ''approve'' \<and> stID (awGrant w) \<noteq> []")
    case True
    then obtain g2 where g2: "saveStandingGrant env we (awGrant w) g = Inr g2"
      using assms v a w e by (cases "saveStandingGrant env we (awGrant w) g") (simp_all add: DecideWith_def)
    then have "g1 = send a ?sig (mark_decided a g2)" using assms v a w e True by (simp add: DecideWith_def)
    with save_catalog [OF g2] g2 True show thesis by (intro that [OF v a w e, of "gCatalog g2"]) simp_all
  next
    case False
    then have "g1 = send a ?sig (mark_decided a g)" using assms v a w e by (auto simp: DecideWith_def)
    with False show thesis by (intro that [OF v a w e, of "gCatalog g"]) auto
  qed
qed

lemma gate_inv_decide:
  assumes "gate_inv (g, l)" "DecideWith env we sid callID d g = Inr g1"
  shows "gate_inv (g1, l)"
proof -
  from assms(2) obtain a w c where w: "mget (gWaits g) a = Some w" "decision_error d w = None"
    and c: "g1 = send a \<lparr>asDecision = d, asAnswer = [], asLogged = False\<rparr> (mark_decided a (g\<lparr>gCatalog := c\<rparr>))"
    by (rule DecideWith_Inr)
  have "gate_inv (g\<lparr>gCatalog := c\<rparr>, l)" using assms(1) by (rule gate_inv_cong) simp_all
  then show ?thesis unfolding c by (rule gate_inv_deliver) (use w decision_error_None in simp_all)
qed

lemma gate_inv_answer:
  assumes "gate_inv (g, l)" "AnswerQuestion sid callID ans g = Inr g1"
  shows "gate_inv (g1, l)"
  using assms
  by (auto simp: AnswerQuestion_def Let_def intro!: gate_inv_deliver [OF assms(1)] split: if_splits option.splits)

lemma gate_inv_cleanup:
  assumes "gate_inv (g, l)" "mget (gWaits g) a = Some w"
  shows "gate_inv (cleanup (awSession w) (wait_key w) a g, l)"
proof (rule gate_invI)
  fix k b assume k: "mget (gWaiting (cleanup (awSession w) (wait_key w) a g)) k = Some b"
  then have k0: "mget (gWaiting g) k = Some b" by (auto simp: cleanup_def split: if_splits)
  obtain u where u: "mget (gWaits g) b = Some u" "k = wait_key u" "mget (gPending g) (awSession u) = Some k"
    using gate_inv_waiting [OF assms(1) k0] .
  have "k \<noteq> wait_key w"
  proof
    assume kw: "k = wait_key w"
    then have "b = a" using gate_inv_keys [OF assms(1) u(1) assms(2)] u(2) by simp
    with k k0 kw show False by (simp add: cleanup_def)
  qed
  then show "\<exists>u. mget (gWaits (cleanup (awSession w) (wait_key w) a g)) b = Some u \<and> k = wait_key u \<and>
      mget (gPending (cleanup (awSession w) (wait_key w) a g)) (awSession u) = Some k"
    using u by (auto simp: cleanup_def mget_or_def)
next
  fix b v assume "mget (gWaits (cleanup (awSession w) (wait_key w) a g)) b = Some v"
  then have "mget (gWaits g) b = Some v" by (simp add: cleanup_def)
  from gate_inv_wait [OF assms(1) this] show "wait_ok (cleanup (awSession w) (wait_key w) a g) l b v"
    by (simp add: wait_ok_def cleanup_def)
next
  fix e assume "e \<in> set l" "nType e = ApprovalDecided"
  from gate_inv_log [OF assms(1) this] show "\<exists>b v. mget (gWaits (cleanup (awSession w) (wait_key w) a g)) b = Some v \<and>
      nSession e = awSession v \<and> str_of (mget (obj (nData e)) ''call_id'') = awCall v"
    by (simp add: cleanup_def) metis
qed (use assms gate_inv_keys gate_inv_open in \<open>auto simp: cleanup_def\<close>)

lemma gate_inv_add:
  assumes inv: "gate_inv (g, l)" and nf: "nul_free sid"
    and fresh: "\<forall>b w. mget (gWaits g) b = Some w \<longrightarrow> wait_key w \<noteq> key" and key: "key = approvalKey sid callID"
    and w: "awSession w = sid" "awCall w = callID" "awSignal w = None" "\<not> awDecided w"
    and h: "mget (gWaits h) = (mget (gWaits g))(gNext g \<mapsto> w)" "gNext h = Suc (gNext g)" "gBlocked h = gBlocked g"
      "gPending h = mput sid key (gPending g)"
      "gWaiting h = mput key (gNext g)
         (if replaces sid key g then mdel (mget_or [] (gPending g) sid) (gWaiting g) else gWaiting g)"
  shows "gate_inv (h, l)"
proof -
  have old: "mget (gWaits g) (gNext g) = None"
    using gate_inv_wait [OF inv, of "gNext g"] by (cases "mget (gWaits g) (gNext g)") (auto simp: wait_ok_def)
  have none: "decided_notes sid callID l = 0"
  proof (rule ccontr)
    assume "decided_notes sid callID l \<noteq> 0"
    then obtain e where "e \<in> set l" "decided_note sid callID e"
      by (auto simp: decided_notes_def filter_empty_conv)
    then obtain a v where "mget (gWaits g) a = Some v" "awSession v = sid" "awCall v = callID"
      using gate_inv_log [OF inv, of e] unfolding decided_note_def by metis
    with fresh key show False by auto
  qed
  show ?thesis
  proof (rule gate_invI)
    fix b v assume v: "mget (gWaits h) b = Some v"
    show "wait_ok h l b v"
    proof (cases "b = gNext g")
      case True
      with v h(1) have "v = w" by simp
      with True w nf none h(2) show ?thesis by (simp add: wait_ok_def published_def)
    next
      case False
      with v h(1) gate_inv_wait [OF inv, of b v] h(2) show ?thesis by (simp add: wait_ok_def)
    qed
  next
    fix b b' u v assume "mget (gWaits h) b = Some u" "mget (gWaits h) b' = Some v" "wait_key u = wait_key v"
    then show "b = b'" using gate_inv_keys [OF inv] fresh key w(1,2) unfolding h(1) by (metis fun_upd_apply option.inject)
  next
    fix k b assume k: "mget (gWaiting h) k = Some b"
    show "\<exists>v. mget (gWaits h) b = Some v \<and> k = wait_key v \<and> mget (gPending h) (awSession v) = Some k"
    proof (cases "k = key")
      case True
      with k h(5) have "b = gNext g" by simp
      with h(1,4) w(1,2) key True show ?thesis by simp
    next
      case False
      with k h(5) have k0: "mget (gWaiting g) k = Some b"
        and nk: "mget_or [] (gPending g) sid \<noteq> [] \<longrightarrow> mget_or [] (gPending g) sid \<noteq> key \<longrightarrow> k \<noteq> mget_or [] (gPending g) sid"
        by (auto simp: replaces_def split: if_splits)
      obtain u where u: "mget (gWaits g) b = Some u" "k = wait_key u" "mget (gPending g) (awSession u) = Some k"
        using gate_inv_waiting [OF inv k0] .
      have "k \<noteq> []" using u(2) by (simp add: approvalKey_def nul_key_def)
      then have "awSession u \<noteq> sid" using nk u(3) False by (auto simp: mget_or_def)
      moreover have "b \<noteq> gNext g" using old u(1) by auto
      ultimately show ?thesis using u h(1,4) by simp
    qed
  next
    fix e assume "e \<in> set l" "nType e = ApprovalDecided"
    then obtain a v where "mget (gWaits g) a = Some v" "nSession e = awSession v"
      "str_of (mget (obj (nData e)) ''call_id'') = awCall v" by (rule gate_inv_log [OF inv])
    with old h(1) show "\<exists>a v. mget (gWaits h) a = Some v \<and> nSession e = awSession v \<and>
        str_of (mget (obj (nData e)) ''call_id'') = awCall v"
      by (intro exI [of _ a] exI [of _ v]) auto
  qed (use h(3) gate_inv_open [OF inv] in simp)
qed

lemma gate_inv_begin:
  assumes inv: "gate_inv (g, l)" and nf: "nul_free (sID s)"
    and fresh: "\<forall>b w. mget (gWaits g) b = Some w \<longrightarrow> wait_key w \<noteq> approvalKey (sID s) callID"
    and bw: "beginWait runID callID kind gr s g = (g', s', a, evs)"
  shows "gate_inv (g', l @ evs)"
proof -
  let ?key = "approvalKey (sID s) callID" and ?sid = "sID s"
  let ?prior = "mget_or [] (gPending g) ?sid"
  let ?w = "\<lparr>awSignal = None, awScope = kind, awSession = ?sid, awRun = runID, awCall = callID, awDecided = False,
       awGrant = gr, awFolder = False, awName = []\<rparr>"
  let ?sig = "\<lparr>asDecision = ''superseded'', asAnswer = [], asLogged = True\<rparr>"
  let ?waiting = "mput ?key (gNext g) (if replaces ?sid ?key g then mdel ?prior (gWaiting g) else gWaiting g)"
  show ?thesis
  proof (cases "undecided_prior ?sid ?key g")
    case None
    then have g': "g' = g\<lparr>gWaiting := ?waiting, gPending := mput ?sid ?key (gPending g), gWaits := mput (gNext g) ?w (gWaits g),
        gNext := Suc (gNext g)\<rparr>" and e: "evs = []"
      using bw by (auto simp: beginWait_def Let_def)
    have "gate_inv (g', l)"
      by (rule gate_inv_add [OF inv nf fresh refl, where w = ?w]) (simp_all add: g' fun_eq_iff)
    with e show ?thesis by simp
  next
    case (Some p)
    then obtain pw where p: "mget (gWaits g) p = Some pw" "\<not> awDecided pw"
      by (auto simp: undecided_prior_def split: if_splits option.splits)
    have pn: "p \<noteq> gNext g" using gate_inv_wait [OF inv p(1)] by (auto simp: wait_ok_def)
    let ?g1 = "g\<lparr>gWaits := mput p (pw\<lparr>awDecided := True, awSignal := Some ?sig\<rparr>) (gWaits g)\<rparr>"
    have inv1: "gate_inv (?g1, l @ publishDecision pw ''superseded'')"
      by (rule gate_inv_supersede [OF inv p(1,2)]) simp
    have fresh1: "\<forall>b w. mget (gWaits ?g1) b = Some w \<longrightarrow> wait_key w \<noteq> ?key"
      using fresh p(1) by auto
    have g': "gWaiting g' = ?waiting" "gPending g' = mput ?sid ?key (gPending g)" "gNext g' = Suc (gNext g)"
        "gBlocked g' = gBlocked g"
        "mget (gWaits g') = (mget (gWaits ?g1))(gNext g \<mapsto> ?w)" and e: "evs = publishDecision pw ''superseded''"
      using bw Some p pn undecided_empty [OF inv p(1,2)]
      by (auto simp: beginWait_def Let_def mark_decided_def send_def fun_eq_iff)
    have "gate_inv (g', l @ publishDecision pw ''superseded'')"
      by (rule gate_inv_add [OF inv1 nf fresh1 refl, where w = ?w]) (simp_all add: g' replaces_def fun_upd_def)
    with e show ?thesis by simp
  qed
qed

lemma gate_step_inv: "gate_step st st' \<Longrightarrow> gate_inv st \<Longrightarrow> gate_inv st'"
proof (induction rule: gate_step.induct)
  case (gs_open env req s g g1 s1 a evs l)
  from open_card_Waits [OF gs_open(1)] obtain r kind gr g0 evs0 name folder e where
    b: "beginWait r (req_call req) kind gr s g = (g0, s1, a, evs0)" "g1 = name_wait a name folder g0"
      "evs = evs0 @ [e]" "nType e = ApprovalRequired" by blast
  have "gate_inv (g1, l @ evs0)"
    unfolding b(2) by (rule gate_inv_name [OF gate_inv_begin [OF gs_open(4,2,3) b(1)]])
  from gate_inv_more_log [OF this, of "[e]"] b(3,4) show ?case by simp
next
  case (gs_cancel err re a s g g1 s1 res evs l)
  then show ?case
    using gate_inv_dismiss [of g l a] gate_inv_receive [of g l re a s]
    by (auto simp: await_cancel_def split: option.splits if_splits)
next
  case (gs_mailbox env we d me a g g1 evs l)
  have "gate_inv (g1, l)" using gs_mailbox gate_inv_decide [of g l env we]
    by (auto simp: await_mailbox_def Decide_def Let_def split: option.splits if_splits sum.splits)
  moreover have "\<forall>e \<in> set evs. nType e \<noteq> ApprovalDecided" using gs_mailbox(1)
    by (auto simp: await_mailbox_def Let_def split: option.splits if_splits sum.splits)
  ultimately show ?case by (rule gate_inv_more_log)
next
  case (gs_revoke env we i g g1 l)
  have "\<exists>c. g1 = g\<lparr>gCatalog := c\<rparr>" using gs_revoke(1)
    by (auto simp: RevokeStandingGrant_def intro: exI [of _ "gCatalog g"] split: if_splits option.splits)
  then show ?case using gs_revoke(2) by (auto intro: gate_inv_cong)
qed (auto intro: gate_inv_decide gate_inv_answer gate_inv_receive gate_inv_cleanup)

text \<open>A gate that opens empty, whatever grants are on file.\<close>

definition gate_start :: "gate \<times> bus_note list \<Rightarrow> bool" where
  "gate_start st \<longleftrightarrow> (\<exists>store cat. st = (NewGate\<lparr>gStore := store, gCatalog := cat\<rparr>, []))"

interpretation cards: invariant_of gate_start gate_step gate_inv
proof
  show "gate_start st \<Longrightarrow> gate_inv st" for st by (auto simp: gate_start_def gate_inv_def NewGate_def)
  show "gate_inv st \<Longrightarrow> gate_step st st' \<Longrightarrow> gate_inv st'" for st st' by (rule gate_step_inv)
qed

section \<open>Properties\<close>

lemma send_receive:
  assumes "gate_inv (g, l)" "mget (gWaits g) a = Some w" "\<not> awDecided w"
  shows "await_receive re a s (send a sig (mark_decided a (g\<lparr>gCatalog := c\<rparr>))) =
    (case await_finish re (w\<lparr>awDecided := True, awSignal := Some sig\<rparr>) sig s of
       (s1, res, evs) \<Rightarrow> Some (g\<lparr>gCatalog := c, gWaits := mput a (w\<lparr>awDecided := True, awSignal := None\<rparr>)
         (mput a (w\<lparr>awDecided := True, awSignal := Some sig\<rparr>) (gWaits g))\<rparr>, s1, res, evs))"
  using undecided_empty [OF assms] assms(2)
  by (simp add: deliver_eq await_receive_def split: prod.split)


definition demo_env :: gate_env where
  "demo_env = \<lparr>geMode = ''all'', geProfile = ''p'', geUrlHost = (\<lambda>_. None), geIsAbs = (\<lambda>_. True), geJoin = (\<lambda>a b. b),
     geClean = (\<lambda>p. p)\<rparr>"

definition demo_open :: "gate \<times> session \<times> wait_start \<times> bus_note list" where
  "demo_open = open_card demo_env (AskPolicy ''r'' ''c'' ''shell'' []) demo_chat NewGate"

lemma demo_open_simps:
  "mget (gWaits (fst demo_open)) 0 = Some \<lparr>awSignal = None, awScope = approvalShellScopes, awSession = ''s1'', awRun = ''r'',
     awCall = ''c'', awDecided = False, awGrant = no_grant, awFolder = False, awName = ''shell''\<rparr>"
  "mget (gWaiting (fst demo_open)) (approvalKey ''s1'' ''c'') = Some 0"
  "fst (snd (snd demo_open)) = Waits 0"
  by (simp_all add: demo_open_def WaitPolicyDecision_begin_def unattended_def demo_chat_def idle_session_def NewGate_def
      no_grant_def beginWait_def undecided_prior_def replaces_def name_wait_def Let_def)

lemma demo_open_reach: "reach gate_start gate_step (fst demo_open, snd (snd (snd demo_open)))"
proof -
  have "open_card demo_env (AskPolicy ''r'' ''c'' ''shell'' []) demo_chat NewGate =
      (fst demo_open, fst (snd demo_open), Waits 0, snd (snd (snd demo_open)))"
    using demo_open_simps(3) by (simp add: demo_open_def prod_eq_iff)
  moreover have "nul_free (sID demo_chat)" by (simp add: demo_chat_def idle_session_def nul_free_def char_of_def)
  ultimately have "gate_step (NewGate, []) (fst demo_open, [] @ snd (snd (snd demo_open)))"
    by (rule gs_open) (simp add: NewGate_def)
  moreover have "reach gate_start gate_step (NewGate, [])"
    by (rule reach_init) (auto simp: gate_start_def NewGate_def)
  ultimately show ?thesis by (metis append_Nil reach_step)
qed


text \<open>A chat has at most one open card: of two cards that are listed as waiting for the same chat in
  a reachable state both are the same card, and it is the one the chat is recorded as pending on.\<close>

theorem one_open_card_per_chat:
  assumes "reach gate_start gate_step (g, l)"
    and "mget (gWaiting g) k = Some a" and "mget (gWaiting g) k' = Some b"
    and "mget (gWaits g) a = Some w" and "mget (gWaits g) b = Some v" and "awSession w = awSession v"
  shows "k = k' \<and> a = b \<and> mget (gPending g) (awSession w) = Some k"
proof -
  have inv: "gate_inv (g, l)" by (rule cards.inv_reach [OF assms(1)])
  obtain w' where "mget (gWaits g) a = Some w'" "mget (gPending g) (awSession w') = Some k"
    using gate_inv_waiting [OF inv assms(2)] .
  moreover obtain v' where "mget (gWaits g) b = Some v'" "mget (gPending g) (awSession v') = Some k'"
    using gate_inv_waiting [OF inv assms(3)] .
  ultimately show ?thesis using assms(2-6) by simp
qed

theorem one_open_card_per_chat_witness:
  "mget (gPending (fst demo_open)) ''s1'' = Some (approvalKey ''s1'' ''c'')"
  using one_open_card_per_chat [OF demo_open_reach demo_open_simps(2) demo_open_simps(2) demo_open_simps(1)
      demo_open_simps(1) refl] by simp



text \<open>The decisions a card of each kind takes.\<close>

definition allowed_decisions :: "scope_kind \<Rightarrow> bool \<Rightarrow> string set" where
  "allowed_decisions kind folder =
     (case kind of
        approvalCycle \<Rightarrow> {''continue'', ''stop''}
      | approvalNoScopes \<Rightarrow> {''approve'', ''once'', ''deny''} \<union> (if folder then {''folder''} else {})
      | approvalShellScopes \<Rightarrow> {''approve'', ''once'', ''deny'', ''run'', ''session'', ''operator_mode''} \<union> (if folder then {''folder''} else {})
      | approvalFileScopes \<Rightarrow> {''approve'', ''once'', ''deny'', ''run'', ''session''} \<union> (if folder then {''folder''} else {})
      | approvalPolicyScopes \<Rightarrow> {''approve'', ''once'', ''deny'', ''session''} \<union> (if folder then {''folder''} else {})
      | approvalQuestion \<Rightarrow> {''approve'', ''once'', ''deny'', ''session''} \<union> (if folder then {''folder''} else {}))"

lemma decision_error_iff:
  "validApprovalDecision d \<Longrightarrow> decision_error d w = None \<longleftrightarrow> \<not> awDecided w \<and> d \<in> allowed_decisions (awScope w) (awFolder w)"
  unfolding validApprovalDecision_def
  by (cases "awScope w"; cases "awFolder w") (auto simp: decision_error_def allowed_decisions_def)

lemma allowed_valid: "d \<in> allowed_decisions kind folder \<Longrightarrow> validApprovalDecision d"
  by (cases kind) (auto simp: allowed_decisions_def validApprovalDecision_def split: if_splits)

text \<open>C34. Which decisions a card takes: \<open>DecideWith\<close> accepts a decision exactly when the card is waiting,
  undecided, the decision is one of those its kind allows (a run grant only for shell and file
  cards, operator mode only for shell cards, a folder grant only when the card named folders outside
  the workspace, continue and stop only for a cycle card and nothing else for it), and, for an
  approval that becomes a standing grant, the grant could be stored.\<close>

theorem decide_accepts_iff:
  "(\<exists>g1. DecideWith env write_err sid callID d g = Inr g1) \<longleftrightarrow>
     (case mget (gWaiting g) (approvalKey sid callID) of
        None \<Rightarrow> False
      | Some a \<Rightarrow> (case mget (gWaits g) a of
          None \<Rightarrow> False
        | Some w \<Rightarrow> \<not> awDecided w \<and> d \<in> allowed_decisions (awScope w) (awFolder w) \<and>
            (d = ''approve'' \<and> stID (awGrant w) \<noteq> [] \<longrightarrow> gStore g \<and> write_err = None)))"
  (is "?L = ?R")
proof
  assume ?L
  then obtain g1 where "DecideWith env write_err sid callID d g = Inr g1" ..
  then obtain a w c where "validApprovalDecision d" "mget (gWaiting g) (approvalKey sid callID) = Some a"
    "mget (gWaits g) a = Some w" "decision_error d w = None"
    "if d = ''approve'' \<and> stID (awGrant w) \<noteq> [] then saveStandingGrant env write_err (awGrant w) g = Inr (g\<lparr>gCatalog := c\<rparr>)
     else c = gCatalog g" by (rule DecideWith_Inr)
  then show ?R by (auto simp: decision_error_iff saveStandingGrant_def split: if_splits option.splits)
next
  assume R: ?R
  then obtain a w where aw: "mget (gWaiting g) (approvalKey sid callID) = Some a" "mget (gWaits g) a = Some w"
    by (auto split: option.splits)
  with R have d: "\<not> awDecided w" "d \<in> allowed_decisions (awScope w) (awFolder w)"
    "d = ''approve'' \<and> stID (awGrant w) \<noteq> [] \<longrightarrow> gStore g \<and> write_err = None" by auto
  note v = allowed_valid [OF d(2)]
  from decision_error_iff [OF v, of w] d have "decision_error d w = None" by simp
  with aw d v show ?L by (auto simp: DecideWith_def saveStandingGrant_def Let_def)
qed

theorem decide_accepts_iff_witness:
  "(\<exists>g1. DecideWith demo_env None ''s1'' ''c'' ''operator_mode'' (fst demo_open) = Inr g1) \<and>
   \<not> (\<exists>g1. DecideWith demo_env None ''s1'' ''c'' ''stop'' (fst demo_open) = Inr g1)"
  using decide_accepts_iff [of demo_env None "''s1''" "''c''" "''operator_mode''" "fst demo_open"]
    decide_accepts_iff [of demo_env None "''s1''" "''c''" "''stop''" "fst demo_open"]
  by (simp add: demo_open_simps allowed_decisions_def no_grant_def)

text \<open>Unattended means nothing asks: for an unattended chat no entry point of the gate opens a card or
  changes the gate, no approval is given beyond what the mode allows without asking, and every
  refusal is one \<open>approval.decided\<close> event and one more boundary hit on the chat.\<close>

theorem unattended_never_asks:
  assumes "unattended s" and "open_card env req s g = (g', s', start, evs)"
  shows "g' = g \<and> (\<exists>d. start = Answered d \<and>
    ((s' = s \<and> evs = [] \<and> d = ''approve'' \<and> (\<exists>r c n args. req = AskTool r c n args \<and> \<not> requiredFor env s n)) \<or>
     (\<not> approvalGranted d \<and> (\<exists>reason. s' = RecordBoundaryHit reason s \<and> map nType evs = [ApprovalDecided]))))"
  using assms
  by (cases req)
     (auto simp: WaitQuestion_begin_def WaitPolicyDecision_begin_def WaitDecision_begin_def WaitBoundaryDecision_begin_def
       WaitCycleDecision_begin_def refuseUnattended_def Let_def approvalGranted_def split: if_splits)

theorem unattended_never_asks_witness:
  "fst (open_card demo_env (AskBoundary ''r'' ''c'' ''shell'' []) (demo_chat\<lparr>sUnattended := True\<rparr>) NewGate) = NewGate"
proof -
  let ?x = "open_card demo_env (AskBoundary ''r'' ''c'' ''shell'' []) (demo_chat\<lparr>sUnattended := True\<rparr>) NewGate"
  have "?x = (fst ?x, fst (snd ?x), fst (snd (snd ?x)), snd (snd (snd ?x)))" by simp
  from unattended_never_asks [OF _ this] show ?thesis by (simp add: unattended_def)
qed

text \<open>A standing grant answers later cards until it is revoked: once a grant is stored, an attended
  chat that asks for the same subject under the same profile is approved at once, without a card
  and without an event, as a policy and as a boundary question; grants of other subjects and of
  other profiles are as before; after revoking it the same request opens a card again.\<close>

theorem standing_grant_until_revoked:
  assumes "saveStandingGrant env None gr g = Inr g1" and "\<not> unattended s"
    and "standingGrant env s args = gr" and "stID gr \<noteq> []"
    and "RevokeStandingGrant env None (stID gr) g1 = Inr g2"
  shows "WaitPolicyDecision_begin env runID callID name args s g1 = (g1, s, Answered ''approve'', []) \<and>
    WaitBoundaryDecision_begin env runID callID name args s g1 = (g1, s, Answered ''approve'', []) \<and>
    (hasStandingGrant env' i g1 \<longleftrightarrow> hasStandingGrant env' i g \<or> geProfile env' = geProfile env \<and> i = stID gr) \<and>
    (\<exists>a. fst (snd (snd (WaitPolicyDecision_begin env runID callID name args s g2))) = Waits a)"
proof -
  have g1: "g1 = g\<lparr>gCatalog := mput (geProfile env) (mput (stID gr) gr (mget_or [] (gCatalog g) (geProfile env))) (gCatalog g)\<rparr>"
    and st: "gStore g" using assms(1) by (simp_all add: saveStandingGrant_def split: if_splits)
  have has: "hasStandingGrant env (stID gr) g1" by (simp add: g1 hasStandingGrant_def)
  have g2: "\<not> hasStandingGrant env (stID gr) g2" "gStore g2"
    using assms(5) st by (auto simp: RevokeStandingGrant_def g1 hasStandingGrant_def split: if_splits option.splits)
  have "\<exists>a. fst (snd (snd (WaitPolicyDecision_begin env runID callID name args s g2))) = Waits a"
    using assms(2,3) g2 by (auto simp: WaitPolicyDecision_begin_def Let_def split: prod.split)
  moreover have "gStore g1" using st by (simp add: g1)
  ultimately show ?thesis using assms(2-4) has
    by (auto simp: WaitPolicyDecision_begin_def WaitBoundaryDecision_begin_def Let_def hasStandingGrant_def g1)
qed

theorem standing_grant_until_revoked_witness:
  "\<exists>g1. saveStandingGrant demo_env None \<lparr>stID = ''repo:x'', stKind = ''repo'', stSubject = ''x''\<rparr> (NewGate\<lparr>gStore := True\<rparr>) = Inr g1 \<and>
     WaitPolicyDecision_begin demo_env ''r'' ''c'' ''shell'' [(''repo'', VStr ''x'')] demo_chat g1 =
       (g1, demo_chat, Answered ''approve'', [])"
proof -
  let ?gr = "\<lparr>stID = ''repo:x'', stKind = ''repo'', stSubject = ''x''\<rparr>"
  obtain g1 where g1: "saveStandingGrant demo_env None ?gr (NewGate\<lparr>gStore := True\<rparr>) = Inr g1"
    and st: "gStore g1"
    by (simp add: saveStandingGrant_def)
  have u: "\<not> unattended demo_chat" by (simp add: unattended_def demo_chat_def idle_session_def)
  have trim: "TrimSpace ''x'' = ''x''" by code_simp
  have gr: "standingGrant demo_env demo_chat [(''repo'', VStr ''x'')] = ?gr"
    by (simp add: standingGrant_def first_subject_def connector_name_def str_of_def trim)
  obtain g2 where g2: "RevokeStandingGrant demo_env None (stID ?gr) g1 = Inr g2"
    using st by (cases "mget (gCatalog g1) (geProfile demo_env)") (simp_all add: RevokeStandingGrant_def)
  from standing_grant_until_revoked [OF g1 u gr _ g2, of "''r''" "''c''" "''shell''"] g1 show ?thesis by simp
qed

end
