(* ===== verification/Execute.thy ===== *)
theory Execute
  imports Gate Tool_Results
begin

text \<open>
  One tool call under policy: \<open>executeTool\<close> of \<open>internal/agent/run.go\<close> with \<open>routeByIdentity\<close>, \<open>askTool\<close>, \<open>approveTool\<close> and
  \<open>operatorOverride\<close>, over the grants of theory \<open>Grants\<close>. A call leaves a trace: the cards it asked with their answers, and the runs
  of the tool as the service or as the operator. What answers a card (\<open>xeAsk\<close>, \<open>None\<close> for a cancelled wait) and what the tool
  returns (\<open>xeDetailed\<close>, \<open>xeOperator\<close>) is the environment's, as are the classifiers of \<open>internal/tools\<close>: which call changes a skill
  or reads one, which changes a connector, what a configured operator command matches, which call a tool puts under policy.
\<close>

section \<open>Data\<close>

datatype ask_kind = PolicyAsk | BoundaryAsk | QuestionAsk

datatype exec_step =
    Asked ask_kind string string "string option"
  | RanService string "(string, val) gomap"
  | RanOperator string "(string, val) gomap"
  | TrustedFolders "string list"

record call_outcome =
  coContent :: string
  coOK :: bool
  coOperatorContext :: bool
  coOverrideAvailable :: bool
  coOverrideReason :: string
  coCategory :: string
  coUntrusted :: bool
  coMetadata :: "(string, val) gomap"

record exec_state =
  esGrants :: grants
  esLog :: "bus_note list"
  esTrace :: "exec_step list"

record exec_env =
  xeSession :: string
  xeRole :: string
  xeScratch :: bool
  xeIsolated :: bool
  xeRun :: string
  xeCall :: string
  xeBus :: bool
  xeServiceAccount :: bool
  xeOperatorMode :: bool
  xeMode :: string
  xeShell :: "string list"
  xeRunDefaults :: "string list"
  xePreflight :: "string option"
  xeFold :: "string \<Rightarrow> string \<Rightarrow> bool"
  xeLower :: "string \<Rightarrow> string"
  xeUpper :: "string \<Rightarrow> string"
  xeResolvePath :: "string \<Rightarrow> string"
  xeSkillPath :: "string \<Rightarrow> bool"
  xeSkillMutation :: "string \<Rightarrow> (string, val) gomap \<Rightarrow> (string \<times> string) option"
  xeConnector :: "(string, val) gomap \<Rightarrow> bool"
  xeConnectorArgs :: "(string, val) gomap \<Rightarrow> (string, val) gomap \<Rightarrow> (string, val) gomap"
  xePolicy :: "string \<Rightarrow> (string, val) gomap \<Rightarrow> bool"
  xeCommand :: "string \<Rightarrow> (string, val) gomap \<Rightarrow> (string \<times> string) option"
  xeQuestion :: "(string, val) gomap \<Rightarrow> string + string \<times> string list"
  xeBase :: "string \<Rightarrow> string"
  xeLookPath :: "string \<Rightarrow> string option"
  xeSandbox :: "string option"
  xeTrust :: "string list \<Rightarrow> bool"
  xeAsk :: "ask_kind \<Rightarrow> string \<Rightarrow> string \<Rightarrow> (string, val) gomap \<Rightarrow> string option"
  xeDetailed :: "string \<Rightarrow> (string, val) gomap \<Rightarrow> call_outcome"
  xeOperator :: "string \<Rightarrow> (string, val) gomap \<Rightarrow> string \<times> bool"

definition zero_outcome :: call_outcome where
  "zero_outcome = \<lparr>coContent = [], coOK = False, coOperatorContext = False, coOverrideAvailable = False, coOverrideReason = [],
     coCategory = [], coUntrusted = False, coMetadata = []\<rparr>"

abbreviation failed :: "string \<Rightarrow> call_outcome" where
  "failed content \<equiv> zero_outcome\<lparr>coContent := content\<rparr>"

definition es_step :: "exec_step \<Rightarrow> exec_state \<Rightarrow> exec_state" where
  "es_step e st = st\<lparr>esTrace := esTrace st @ [e]\<rparr>"

definition on_grants :: "(grants \<Rightarrow> grants \<times> bus_note list) \<Rightarrow> exec_state \<Rightarrow> exec_state" where
  "on_grants f st = st\<lparr>esGrants := fst (f (esGrants st)), esLog := esLog st @ snd (f (esGrants st))\<rparr>"

definition ask_card ::
  "exec_env \<Rightarrow> ask_kind \<Rightarrow> string \<Rightarrow> string \<Rightarrow> (string, val) gomap \<Rightarrow> exec_state \<Rightarrow> exec_state \<times> string option" where
  "ask_card env kind callID name args st =
     (es_step (Asked kind callID name (xeAsk env kind callID name args)) st, xeAsk env kind callID name args)"

section \<open>Running\<close>

definition service_on :: "exec_env \<Rightarrow> bool" where
  "service_on env \<longleftrightarrow> xeServiceAccount env \<and> \<not> xeOperatorMode env"

definition callDetailed :: "exec_env \<Rightarrow> string \<Rightarrow> (string, val) gomap \<Rightarrow> exec_state \<Rightarrow> exec_state \<times> call_outcome" where
  "callDetailed env name args st = (es_step (RanService name args) st, xeDetailed env name args)"

definition no_output :: string where
  "no_output = ''the tool completed with no output''"

definition callFileAsOperator :: "exec_env \<Rightarrow> string \<Rightarrow> (string, val) gomap \<Rightarrow> exec_state \<Rightarrow> exec_state \<times> call_outcome" where
  "callFileAsOperator env name args st =
     (let (content, ok) = xeOperator env name args;
          content1 = (if ok \<and> TrimSpace content = [] then no_output else content)
      in (es_step (RanOperator name args) st, zero_outcome\<lparr>coContent := content1, coOK := ok, coOperatorContext := True\<rparr>))"

definition sandboxResultMetadata :: "exec_env \<Rightarrow> string \<Rightarrow> (string, val) gomap \<Rightarrow> (string, val) gomap" where
  "sandboxResultMetadata env name args =
     (if name \<noteq> ''shell'' \<and> (name \<noteq> ''run_script'' \<or> \<not> xeFold env (TrimSpace (str_of (mget args ''language''))) ''bash'') then []
      else case xeSandbox env of Some target \<Rightarrow> [(''target'', VStr (''sandbox '' @ target))] | None \<Rightarrow> [])"

definition callShellAsOperator :: "exec_env \<Rightarrow> string \<Rightarrow> (string, val) gomap \<Rightarrow> exec_state \<Rightarrow> exec_state \<times> call_outcome" where
  "callShellAsOperator env name args st =
     (let (st1, o1) = callFileAsOperator env name args st in (st1, o1\<lparr>coMetadata := sandboxResultMetadata env name args\<rparr>))"

definition withModelNote :: "string \<Rightarrow> string \<Rightarrow> string" where
  "withModelNote content line = content @ newlines @ ''[harness: '' @ line @ '']''"

definition withHarnessNote :: "(string, val) gomap \<Rightarrow> string \<Rightarrow> (string, val) gomap" where
  "withHarnessNote metadata line = mput ''harness_note'' (VStr line) metadata"

definition noted_failure :: "string \<Rightarrow> call_outcome \<Rightarrow> call_outcome" where
  "noted_failure line o1 = o1\<lparr>coMetadata := withHarnessNote (coMetadata o1) line, coContent := withModelNote (coContent o1) line\<rparr>"

definition normalized_command :: "exec_env \<Rightarrow> string \<Rightarrow> string" where
  "normalized_command env c = join '' '' (Fields (xeLower env c))"

definition repoRunGrantMatches :: "exec_env \<Rightarrow> (string, val) gomap \<Rightarrow> bool" where
  "repoRunGrantMatches env args =
     (let normalized = normalized_command env (str_of (mget args ''command''))
      in list_ex (\<lambda>v. normalized_command env v \<noteq> [] \<and>
           (normalized = normalized_command env v \<or> HasPrefix normalized (normalized_command env v @ '' ''))) (xeRunDefaults env))"

text \<open>\<open>xeLookPath\<close> is \<open>exec.LookPath\<close> followed by \<open>filepath.Abs\<close>, \<open>xeBase\<close> is \<open>filepath.Base\<close>.\<close>

definition resolveRepoGrantedExecutable :: "exec_env \<Rightarrow> (string, val) gomap \<Rightarrow> (string, val) gomap" where
  "resolveRepoGrantedExecutable env args =
     (if xeShell env = [] \<or> xeLower env (xeBase env (hd (xeShell env))) \<notin> set [''powershell'', ''powershell.exe'', ''pwsh'', ''pwsh.exe''] then args
      else let command = str_of (mget args ''command''); fields = Fields command
           in if fields = [] \<or> list_ex (\<lambda>c. c \<in> set ([CHR 0x27, CHR 0x22] @ ''&|;$(){}[]'')) (hd fields) then args
              else case xeLookPath env (hd fields) of
                     None \<Rightarrow> args
                   | Some absolute \<Rightarrow>
                       let rest = TrimSpace (if prefix (hd fields) command then drop (length (hd fields)) command else command);
                           quoted = [CHR 0x27] @ replace_all [CHR 0x27] [CHR 0x27, CHR 0x27] absolute @ [CHR 0x27]
                       in mput ''command'' (VStr (''& '' @ quoted @ (if rest \<noteq> [] then '' '' @ rest else []))) args)"

definition callServiceApprovalAction :: "exec_env \<Rightarrow> (string, val) gomap \<Rightarrow> string" where
  "callServiceApprovalAction env args =
     (let service = str_of (mget args ''service''); operation = str_of (mget args ''operation'')
      in if TrimSpace operation \<noteq> [] then ''Service '' @ service @ '' operation '' @ operation
         else ''Service '' @ service @ '' '' @ xeUpper env (str_of (mget args ''method'')) @ '' '' @ str_of (mget args ''path''))"

section \<open>Routing\<close>

definition shell_start :: "string \<Rightarrow> (string, val) gomap \<Rightarrow> bool" where
  "shell_start name args \<longleftrightarrow> name = ''shell'' \<or> (name = ''process'' \<and> mget args ''action'' = Some (VStr ''start''))"

definition process_start :: "string \<Rightarrow> (string, val) gomap \<Rightarrow> bool" where
  "process_start name args \<longleftrightarrow> name = ''process'' \<and> mget args ''action'' = Some (VStr ''start'')"

definition read_tool :: "string \<Rightarrow> bool" where
  "read_tool name \<longleftrightarrow> name \<in> set [''read_file'', ''list_dir'', ''search'', ''search_text'', ''find_files'']"

definition needs_identity :: "exec_env \<Rightarrow> string \<Rightarrow> (string, val) gomap \<Rightarrow> bool" where
  "needs_identity env name args \<longleftrightarrow>
     name \<in> set [''write_file'', ''edit_file'', ''shell'', ''process'', ''run_script'', ''call_service''] \<and>
     \<not> (name = ''process'' \<and> \<not> process_start name args) \<and> \<not> (xeScratch env \<and> (name = ''write_file'' \<or> name = ''edit_file''))"

text \<open>The first part of \<open>routeByIdentity\<close>: the service identity is wanted and not set up.\<close>

definition route_unprovisioned ::
  "exec_env \<Rightarrow> string \<Rightarrow> (string, val) gomap \<Rightarrow> exec_state \<Rightarrow> exec_state \<times> call_outcome option" where
  "route_unprovisioned env name args st =
     (if xeRole env = ''e'' then (let (st1, o1) = callDetailed env name args st in (st1, Some o1))
      else if read_tool name then (let (st1, o1) = callFileAsOperator env name args st in (st1, Some o1))
      else if needs_identity env name args
      then (st, Some (failed ''error: service identity not set up''))
      else (st, None))"

definition command_card :: "(string, val) gomap \<Rightarrow> string \<times> string \<Rightarrow> (string, val) gomap" where
  "command_card args command =
     [(''command'', case mget args ''command'' of Some v \<Rightarrow> v | None \<Rightarrow> VNil), (''identity'', VStr ''Agent_b user (not Administrator)''),
      (''reason'', VStr (''Run as you command rule: '' @ fst command @ '' runs as you for this run'')),
      (''rule'', VStr shellGrantOperatorCommand), (''executable'', VStr (snd command)), (''scope'', VStr ''run this configured Run as you command'')]"

text \<open>\<open>executeOperatorCommand\<close> with its card and its run.\<close>

definition operator_command ::
  "exec_env \<Rightarrow> string \<Rightarrow> (string, val) gomap \<Rightarrow> string \<times> string \<Rightarrow> exec_state \<Rightarrow> exec_state \<times> call_outcome" where
  "operator_command env name args command st =
     (let sid = xeSession env; runID = xeRun env; gs = esGrants st;
          asks = \<not> hasIdentityChatGrant sid gs \<and> \<not> hasShellGrant (xeFold env) sid runID shellGrantOperatorCommand (snd command) gs;
          (st1, answer) = (if asks then ask_card env BoundaryAsk (xeCall env) (name @ ''.operator_command'') (command_card args command) st else (st, None));
          (gs1, result, evs) = executeOperatorCommand (xeFold env) (xeLower env) (xeBus env) (xeShell env) answer sid runID args (fst command) (snd command) gs;
          st2 = st1\<lparr>esGrants := gs1, esLog := esLog st1 @ evs\<rparr>
      in case result of
           Refused e \<Rightarrow> (st2, failed e)
         | RunsAs args1 \<Rightarrow> callShellAsOperator env name args1 st2)"

text \<open>The rest of \<open>routeByIdentity\<close>: grants and configured commands, then the default of the repository.\<close>

definition route_granted ::
  "exec_env \<Rightarrow> string \<Rightarrow> (string, val) gomap \<Rightarrow> exec_state \<Rightarrow> exec_state \<times> call_outcome option" where
  "route_granted env name args st =
     (let sid = xeSession env; runID = xeRun env; gs = esGrants st; shell = shell_start name args;
          chat = service_on env \<and> hasIdentityChatGrant sid gs;
          file = (\<lambda>st. let (st1, o1) = callFileAsOperator env name args st in (st1, Some o1));
          run = (\<lambda>st. let (st1, o1) = callShellAsOperator env name args st in (st1, Some o1))
      in if chat \<and> fileGrantTool name then file st
         else if chat \<and> (shell \<or> name = ''run_script'') then run st
         else if fileGrantTool name \<and> service_on env \<and> hasFileGrant sid runID gs then file st
         else if shell \<and> service_on env \<and> hasShellGrant (xeFold env) sid runID shellGrantBoundary [] gs then run st
         else case (if shell \<and> service_on env then xeCommand env name args else None) of
                Some command \<Rightarrow> (let (st1, o1) = operator_command env name args command st in (st1, Some o1))
              | None \<Rightarrow>
                  (if shell \<and> repoRunGrantMatches env args \<and> \<not> hasShellGrant (xeFold env) sid runID shellGrantPolicy [] gs
                   then on_grants (grantShellRun (xeFold env) (xeBus env) sid runID
                          \<lparr>sgRule = shellGrantPolicy, sgIdentity = (if xeServiceAccount env then ''service'' else ''operator''), sgExecutable = []\<rparr>) st
                   else st, None))"

definition routeByIdentity ::
  "exec_env \<Rightarrow> string \<Rightarrow> (string, val) gomap \<Rightarrow> exec_state \<Rightarrow> exec_state \<times> call_outcome option" where
  "routeByIdentity env name args st =
     (case (if service_on env \<and> xePreflight env \<noteq> None then route_unprovisioned env name args st else (st, None)) of
        (st1, Some o1) \<Rightarrow> (st1, Some o1)
      | (st1, None) \<Rightarrow> route_granted env name args st1)"

section \<open>Approval\<close>

definition askTool :: "exec_env \<Rightarrow> (string, val) gomap \<Rightarrow> exec_state \<Rightarrow> exec_state \<times> call_outcome" where
  "askTool env args st =
     (case xeQuestion env args of
        Inl e \<Rightarrow> (st, failed (''error: '' @ e))
      | Inr (question, choices) \<Rightarrow>
          let (st1, answer) = ask_card env QuestionAsk (xeCall env) ''ask'' [(''question'', VStr question), (''choices'', vstrs choices)] st
          in case answer of
               None \<Rightarrow> (st1, failed ''error: question canceled'')
             | Some a \<Rightarrow> (st1, zero_outcome\<lparr>coContent := a, coOK := True\<rparr>))"

text \<open>The ladder of \<open>approveTool\<close>: the decision, \<open>None\<close> for a cancelled wait.\<close>

definition approval_decision ::
  "exec_env \<Rightarrow> string \<Rightarrow> (string, val) gomap \<Rightarrow> (string, val) gomap \<Rightarrow> bool \<Rightarrow> exec_state \<Rightarrow> exec_state \<times> string option" where
  "approval_decision env name args eventArgs skillMutation st =
     (let sid = xeSession env; runID = xeRun env; gs = esGrants st; shell = shell_start name args;
          policy = (\<lambda>a. ask_card env PolicyAsk (xeCall env) name a st);
          granted = hasShellGrant (xeFold env) sid runID shellGrantPolicy [] gs
      in if skillMutation then (st, Some ''approve'')
         else if xeIsolated env \<and> name \<in> set [''write_file'', ''edit_file'', ''shell'', ''run_script''] then (st, Some ''approve'')
         else if xeConnector env args then policy (xeConnectorArgs env args eventArgs)
         else if name = ''run_script'' \<and> xeServiceAccount env \<and> \<not> hasPolicyChatGrant sid name gs then policy eventArgs
         else if shell \<and> granted then (st, Some ''approve'')
         else if shell \<and> service_on env \<and> approvalRequired (xeMode env) ''shell'' then (if granted then (st, Some ''approve'') else policy eventArgs)
         else if name = ''process'' \<and> \<not> process_start name args \<and> xeMode env \<noteq> ''all'' then (st, Some ''approve'')
         else if \<not> hasPolicyChatGrant sid name gs \<and> xePolicy env name args then policy eventArgs
         else if hasPolicyChatGrant sid name gs then (st, Some ''approve'')
         else if approvalRequired (xeMode env) name then policy eventArgs
         else (st, Some ''approve''))"

definition approveTool ::
  "exec_env \<Rightarrow> string \<Rightarrow> (string, val) gomap \<Rightarrow> (string, val) gomap \<Rightarrow> bool \<Rightarrow> exec_state \<Rightarrow> exec_state \<times> call_outcome option" where
  "approveTool env name args eventArgs skillMutation st =
     (let sid = xeSession env; runID = xeRun env; shell = shell_start name args;
          g = \<lparr>sgRule = shellGrantPolicy, sgIdentity = ''service'', sgExecutable = []\<rparr>
      in case approval_decision env name args eventArgs skillMutation st of
           (st1, None) \<Rightarrow> (st1, Some (failed ''error: call canceled''))
         | (st1, Some decision) \<Rightarrow>
             if \<not> approvalGranted decision then (st1, Some (failed ''error: call denied by user''))
             else let st2 = (if shell \<and> decision = ''run'' then on_grants (grantShellRun (xeFold env) (xeBus env) sid runID g) st1 else st1);
                      st3 = (if shell \<and> decision = ''session'' then on_grants (grantShellSession (xeFold env) (xeBus env) sid runID g) st2 else st2)
                  in (if decision = ''session'' \<and> \<not> xeConnector env args \<and> \<not> skillMutation
                      then on_grants (\<lambda>gs. (grantPolicyChat sid name gs, [])) st3 else st3, None))"

section \<open>The operator's identity\<close>

definition outsideFolderChatGrant :: string where
  "outsideFolderChatGrant = ''outside_folder''"

definition override_args ::
  "string \<Rightarrow> string \<Rightarrow> (string, val) gomap \<Rightarrow> bool \<Rightarrow> string list \<Rightarrow> bool \<Rightarrow> call_outcome \<Rightarrow> (string, val) gomap" where
  "override_args name path args shell folders outside o1 =
     (let command = str_of (mget args ''command''); source = str_of (mget args ''source''); language = str_of (mget args ''language'')
      in [(''identity'', VStr ''Agent_b user (not Administrator)''), (''reason'', VStr (coOverrideReason o1)),
          (''scope'', VStr (if shell \<or> name = ''run_script'' then ''rerun this exact command once'' else ''rerun this exact tool call once''))] @
         (if command \<noteq> [] then [(''command'', VStr command)] else []) @
         (if path \<noteq> [] then [(''path'', VStr path)] else []) @
         (if folders \<noteq> [] then [(''outside_folders'', vstrs folders)] else []) @
         (if outside then [(''outside_folder_card'', VBool True)] else []) @
         (if name = ''run_script'' \<and> source \<noteq> [] then [(''source'', VStr source)] @
            (if language \<noteq> [] then [(''language'', VStr language)] else []) else []))"

text \<open>The grants that an approving answer gives.\<close>

definition override_grants :: "exec_env \<Rightarrow> string \<Rightarrow> bool \<Rightarrow> string \<Rightarrow> exec_state \<Rightarrow> exec_state" where
  "override_grants env name shell decision st =
     (let sid = xeSession env; runID = xeRun env; g = \<lparr>sgRule = shellGrantBoundary, sgIdentity = ''operator'', sgExecutable = []\<rparr>;
          st1 = (if shell \<and> decision = ''run'' then on_grants (grantShellRun (xeFold env) (xeBus env) sid runID g) st else st);
          st2 = (if shell \<and> decision = ''session'' then on_grants (grantShellSession (xeFold env) (xeBus env) sid runID g) st1 else st1);
          st3 = (if fileGrantTool name \<and> decision = ''run'' then on_grants (grantFileRun (xeBus env) sid runID) st2 else st2);
          st4 = (if fileGrantTool name \<and> decision = ''session'' then on_grants (grantFileSession (xeBus env) sid runID) st3 else st3)
      in if decision = ''session'' then on_grants (\<lambda>gs. (grantIdentityChat sid runID gs, [])) st4 else st4)"

definition scope_words :: "string \<Rightarrow> string" where
  "scope_words scope = mget_or [] [(''approve'', ''just once''), (''once'', ''just once''), (''session'', ''for this chat''),
     (''folder'', ''folder trusted''), (''folder not kept'', ''just once; the folder could not be kept as trusted'')] scope"

definition override_result ::
  "exec_env \<Rightarrow> string \<Rightarrow> (string, val) gomap \<Rightarrow> bool \<Rightarrow> bool \<Rightarrow> string \<Rightarrow> string \<times> bool \<Rightarrow> call_outcome \<Rightarrow> call_outcome" where
  "override_result env name args shell outside scope result o1 =
     (let (content, ok) = result
      in if ok then
           let line = (if outside \<or> HasPrefix scope ''folder'' then ''outside-folder access allowed ('' @ scope_words scope @ '')''
                 else ''user-identity override succeeded; exact '' @ (if shell \<or> name = ''run_script'' then ''command'' else ''tool call'') @ '' rerun once'')
           in o1\<lparr>coContent := (if TrimSpace content = [] then no_output else content), coOK := True, coOperatorContext := True,
                 coMetadata := withHarnessNote (mergeResultMetadata (coMetadata o1) (sandboxResultMetadata env name args)) line\<rparr>
         else if (shell \<or> name = ''run_script'') \<and> HasPrefix content (''error: command failed'' @ [CHR 0x0A] @ ''exit='')
         then o1\<lparr>coContent := content, coOK := False, coOperatorContext := True\<rparr>
         else noted_failure ''user-identity override was attempted but failed''
                (o1\<lparr>coContent := content, coOK := False, coOperatorContext := True\<rparr>))"

text \<open>What a yes on an outside-folder card is worth: the scope it is shown with, the decision that is acted on.\<close>

definition outside_scope ::
  "exec_env \<Rightarrow> bool \<Rightarrow> string list \<Rightarrow> string \<Rightarrow> exec_state \<Rightarrow> exec_state \<times> string \<times> string" where
  "outside_scope env outside folders decision st =
     (if folders = [] then (st, decision, decision)
      else let trusts = (decision = ''folder'');
               scope = (if trusts \<and> \<not> xeTrust env folders then ''folder not kept'' else decision);
               st1 = (if trusts \<and> xeTrust env folders then es_step (TrustedFolders folders) st else st);
               st2 = (if outside \<and> decision = ''session'' then on_grants (\<lambda>gs. (grantPolicyChat (xeSession env) outsideFolderChatGrant gs, [])) st1 else st1)
           in (st2, scope, if outside \<or> HasPrefix scope ''folder'' then ''once'' else decision))"

definition operatorOverride ::
  "exec_env \<Rightarrow> string \<Rightarrow> string \<Rightarrow> (string, val) gomap \<Rightarrow> call_outcome \<Rightarrow> exec_state \<Rightarrow> exec_state \<times> call_outcome" where
  "operatorOverride env name path args o1 st =
     (let shell = shell_start name args;
          folders = strs_of (mget (coMetadata o1) ''outside_folders'');
          outside = bool_of (mget (coMetadata o1) ''outside_folder_card'');
          refused = o1\<lparr>coOK := False, coOperatorContext := False\<rparr>;
          (st1, answer) = (if outside \<and> hasPolicyChatGrant (xeSession env) outsideFolderChatGrant (esGrants st) then (st, Some ''once'')
             else ask_card env BoundaryAsk (xeCall env @ '':operator'') (name @ ''.operator_override'') (override_args name path args shell folders outside o1) st)
      in case answer of
           None \<Rightarrow> (st1, noted_failure ''user-identity override canceled'' refused)
         | Some decision \<Rightarrow>
             if \<not> approvalGranted decision
             then (st1, noted_failure ''user-identity override was offered and denied by the user'' refused)
             else let (st2, scope, acted) = outside_scope env outside folders decision st1;
                      st3 = override_grants env name shell acted st2
                  in (es_step (RanOperator name args) st3, override_result env name args shell outside scope (xeOperator env name args) o1))"

section \<open>The call\<close>

definition skill_read :: "exec_env \<Rightarrow> string \<Rightarrow> (string, val) gomap \<Rightarrow> bool" where
  "skill_read env name args \<longleftrightarrow> read_tool name \<and> xeSkillPath env (str_of (mget args ''path''))"

definition resolved_args :: "exec_env \<Rightarrow> (string, val) gomap \<Rightarrow> (string, val) gomap" where
  "resolved_args env args =
     (case mget args ''path'' of
        Some (VStr path) \<Rightarrow> if xeResolvePath env path \<noteq> path then mput ''path'' (VStr (xeResolvePath env path)) args else args
      | _ \<Rightarrow> args)"

definition event_args :: "exec_env \<Rightarrow> string \<Rightarrow> (string, val) gomap \<Rightarrow> (string, val) gomap" where
  "event_args env name args =
     (let a = sanitizedToolArguments (xeFold env) name args
      in if name = ''call_service'' then mput ''approval_action'' (VStr (callServiceApprovalAction env args)) a else a)"

text \<open>From the routing to the end, for a call whose change of a skill, if it is one, was approved.\<close>

definition execute_routed ::
  "exec_env \<Rightarrow> string \<Rightarrow> (string, val) gomap \<Rightarrow> (string, val) gomap \<Rightarrow> bool \<Rightarrow> exec_state \<Rightarrow> exec_state \<times> call_outcome" where
  "execute_routed env name args eventArgs skillMutation st =
     (case routeByIdentity env name args st of
        (st1, Some o1) \<Rightarrow> (st1, o1)
      | (st1, None) \<Rightarrow>
          if name = ''ask'' then askTool env args st1
          else case approveTool env name args eventArgs skillMutation st1 of
                 (st2, Some refused) \<Rightarrow> (st2, refused)
               | (st2, None) \<Rightarrow>
                   let args1 = (if shell_start name args \<and> repoRunGrantMatches env args then resolveRepoGrantedExecutable env args else args);
                       (st3, o1) = (if skill_read env name args then callFileAsOperator env name args1 st2 else callDetailed env name args1 st2)
                   in if \<not> coOverrideAvailable o1 then (st3, o1)
                      else operatorOverride env name (str_of (mget args ''path'')) args1 o1 st3)"

definition executeTool :: "exec_env \<Rightarrow> string \<Rightarrow> (string, val) gomap \<Rightarrow> exec_state \<Rightarrow> exec_state \<times> call_outcome" where
  "executeTool env name args0 st =
     (let args = resolved_args env args0; eventArgs = event_args env name args
      in case xeSkillMutation env name args of
           None \<Rightarrow> execute_routed env name args eventArgs False st
         | Some (skillPath, skill) \<Rightarrow>
             let eventArgs1 = mput ''skill_path'' (VStr skillPath) (mput ''skill'' (VStr skill) eventArgs);
                 (st1, answer) = ask_card env PolicyAsk (xeCall env) name eventArgs1 st
             in case answer of
                  None \<Rightarrow> (st1, failed ''error: call canceled'')
                | Some decision \<Rightarrow>
                    if \<not> approvalGranted decision then (st1, failed ''error: call denied by user'')
                    else execute_routed env name args eventArgs1 True st1)"

section \<open>Traces\<close>

text \<open>An answer refuses a call when it is no approval; an answer to a question refuses nothing.\<close>

fun denied :: "exec_step \<Rightarrow> bool" where
  "denied (Asked kind callID name answer) = (kind \<noteq> QuestionAsk \<and> (case answer of None \<Rightarrow> True | Some d \<Rightarrow> \<not> approvalGranted d))"
| "denied _ = False"

fun approving :: "exec_step \<Rightarrow> bool" where
  "approving (Asked kind callID name answer) = (kind \<noteq> QuestionAsk \<and> (case answer of None \<Rightarrow> False | Some d \<Rightarrow> approvalGranted d))"
| "approving _ = False"

fun escape_allowed :: "exec_step \<Rightarrow> bool" where
  "escape_allowed (Asked BoundaryAsk callID name (Some d)) = approvalGranted d"
| "escape_allowed _ = False"

fun ran_service :: "exec_step \<Rightarrow> bool" where
  "ran_service (RanService name args) = True"
| "ran_service _ = False"

fun ran_operator :: "exec_step \<Rightarrow> bool" where
  "ran_operator (RanOperator name args) = True"
| "ran_operator _ = False"

fun acts :: "exec_step \<Rightarrow> bool" where
  "acts (Asked kind callID name answer) = False"
| "acts _ = True"

text \<open>After a refusal nothing happens any more.\<close>

fun denial_final :: "exec_step list \<Rightarrow> bool" where
  "denial_final [] = True"
| "denial_final (e # es) = ((if denied e then list_all (\<lambda>e. \<not> acts e) es else True) \<and> denial_final es)"

definition orderly :: "exec_step list \<Rightarrow> bool" where
  "orderly tr \<longleftrightarrow> denial_final tr \<and> length (filter ran_service tr) \<le> 1 \<and> length (filter ran_operator tr) \<le> 1"

definition cleared :: "exec_step \<Rightarrow> bool" where
  "cleared e \<longleftrightarrow> \<not> acts e \<and> \<not> denied e"

lemma cleared_simps [simp]:
  "\<not> cleared (RanService n a)" "\<not> cleared (RanOperator n a)" "\<not> cleared (TrustedFolders fs)"
  "cleared (Asked k c n (Some d)) \<longleftrightarrow> k = QuestionAsk \<or> approvalGranted d" "cleared (Asked k c n None) \<longleftrightarrow> k = QuestionAsk"
  by (auto simp: cleared_def)

lemma not_acts: "\<not> acts e \<Longrightarrow> \<not> ran_service e \<and> \<not> ran_operator e"
  by (cases e) auto

lemma cleared_orderly: "list_all cleared pre \<Longrightarrow> orderly (pre @ tr) = orderly tr"
  by (induction pre) (auto simp: orderly_def cleared_def dest: not_acts)

lemma trace_simps [simp]:
  "esTrace (es_step e st) = esTrace st @ [e]" "esTrace (on_grants f st) = esTrace st" "esGrants (es_step e st) = esGrants st"
  by (simp_all add: es_step_def on_grants_def)

lemma ask_card_simps [simp]:
  "ask_card env k c n a st = (st', answer) \<longleftrightarrow> answer = xeAsk env k c n a \<and> st' = es_step (Asked k c n answer) st"
  by (auto simp: ask_card_def)

lemma operator_calls [simp]:
  "esTrace (fst (callFileAsOperator env name args st)) = esTrace st @ [RanOperator name args]"
  "esTrace (fst (callShellAsOperator env name args st)) = esTrace st @ [RanOperator name args]"
  "esGrants (fst (callFileAsOperator env name args st)) = esGrants st"
  "esGrants (fst (callShellAsOperator env name args st)) = esGrants st"
  "coOverrideAvailable (snd (callFileAsOperator env name args st)) = False"
  by (simp_all add: callFileAsOperator_def callShellAsOperator_def zero_outcome_def Let_def case_prod_beta)

lemma service_calls [simp]:
  "esTrace (fst (callDetailed env name args st)) = esTrace st @ [RanService name args]"
  "esGrants (fst (callDetailed env name args st)) = esGrants st"
  by (simp_all add: callDetailed_def)

section \<open>Why a call may run as the operator\<close>

text \<open>The standing reasons: the service identity is not set up and the call only reads, a grant in force when the call came in, or a read of a
  skill.\<close>

definition standing_reason :: "exec_env \<Rightarrow> string \<Rightarrow> (string, val) gomap \<Rightarrow> grants \<Rightarrow> bool" where
  "standing_reason env name args gs \<longleftrightarrow>
     (service_on env \<and> xePreflight env \<noteq> None \<and> read_tool name) \<or>
     (service_on env \<and> hasIdentityChatGrant (xeSession env) gs \<and> (fileGrantTool name \<or> shell_start name args \<or> name = ''run_script'')) \<or>
     (service_on env \<and> fileGrantTool name \<and> hasFileGrant (xeSession env) (xeRun env) gs) \<or>
     (service_on env \<and> shell_start name args \<and> hasShellGrant (xeFold env) (xeSession env) (xeRun env) shellGrantBoundary [] gs) \<or>
     (service_on env \<and> shell_start name args \<and> (case xeCommand env name args of None \<Rightarrow> False
        | Some command \<Rightarrow> hasShellGrant (xeFold env) (xeSession env) (xeRun env) shellGrantOperatorCommand (snd command) gs)) \<or>
     skill_read env name args \<or> hasPolicyChatGrant (xeSession env) outsideFolderChatGrant gs"

definition justified :: "exec_env \<Rightarrow> string \<Rightarrow> (string, val) gomap \<Rightarrow> grants \<Rightarrow> exec_step list \<Rightarrow> bool" where
  "justified env name args gs tr \<longleftrightarrow> (if list_ex ran_operator tr \<and> name \<noteq> outsideFolderChatGrant
     then standing_reason env name args gs \<or> list_ex escape_allowed tr else True)"

text \<open>No tool has the name under which the yes for outside folders is kept; the trace that an operation adds, with what every operation promises of it.\<close>

definition performs ::
  "exec_env \<Rightarrow> string \<Rightarrow> (string, val) gomap \<Rightarrow> exec_state \<Rightarrow> exec_state \<Rightarrow> exec_step list \<Rightarrow> bool" where
  "performs env name args st st' tr \<longleftrightarrow> esTrace st' = esTrace st @ tr \<and> orderly tr \<and> justified env name args (esGrants st) tr"

lemma configured_runs: "\<exists>a. callConfiguredCommandAsOperator lower shell args = RunsAs a"
  by (simp add: callConfiguredCommandAsOperator_def split: option.split val.split)

lemma operator_command_performs:
  assumes "shell_start name args" "service_on env" "xeCommand env name args = Some command"
  shows "\<exists>tr. performs env name args st (fst (operator_command env name args command st)) tr"
proof -
  let ?gs = "esGrants st"
  define free where "free \<longleftrightarrow> hasIdentityChatGrant (xeSession env) ?gs \<or>
    hasShellGrant (xeFold env) (xeSession env) (xeRun env) shellGrantOperatorCommand (snd command) ?gs"
  show ?thesis
  proof (cases free)
    case True
    obtain a where a: "callConfiguredCommandAsOperator (xeLower env) (xeShell env) args = RunsAs a"
      using configured_runs by blast
    have "esTrace (fst (operator_command env name args command st)) = esTrace st @ [RanOperator name a]"
      using True by (auto simp: operator_command_def executeOperatorCommand_def Let_def a free_def)
    moreover have "standing_reason env name args ?gs" using True assms by (auto simp: standing_reason_def free_def)
    ultimately show ?thesis by (auto simp: performs_def orderly_def justified_def)
  next
    case False
    define answer where "answer = xeAsk env BoundaryAsk (xeCall env) (name @ ''.operator_command'') (command_card args command)"
    let ?ask = "Asked BoundaryAsk (xeCall env) (name @ ''.operator_command'') answer"
    obtain a where a: "callConfiguredCommandAsOperator (xeLower env) (xeShell env) args = RunsAs a"
      using configured_runs by blast
    have free: "\<not> hasIdentityChatGrant (xeSession env) ?gs"
      "\<not> hasShellGrant (xeFold env) (xeSession env) (xeRun env) shellGrantOperatorCommand (snd command) ?gs"
      using False by (auto simp: free_def)
    have "esTrace (fst (operator_command env name args command st)) =
        esTrace st @ ?ask # (if case answer of None \<Rightarrow> False | Some d \<Rightarrow> approvalGranted d then [RanOperator name a] else [])"
    proof (cases answer)
      case None
      then show ?thesis
        using free by (simp add: operator_command_def executeOperatorCommand_def Let_def ask_card_def flip: answer_def)
    next
      case (Some d)
      then show ?thesis
        using free by (simp add: operator_command_def executeOperatorCommand_def Let_def ask_card_def a case_prod_beta flip: answer_def)
    qed
    then show ?thesis
      by (intro exI [of _ "?ask # (if case answer of None \<Rightarrow> False | Some d \<Rightarrow> approvalGranted d then [RanOperator name a] else [])"])
        (auto simp: performs_def orderly_def justified_def split: option.splits)
  qed
qed

lemma unprovisioned_cases:
  "fst (route_unprovisioned env name args st) = fst (callDetailed env name args st) \<or>
   (fst (route_unprovisioned env name args st) = fst (callFileAsOperator env name args st) \<and> read_tool name) \<or>
   fst (route_unprovisioned env name args st) = st"
  by (simp add: route_unprovisioned_def Let_def case_prod_beta)

lemma unprovisioned_None: "snd (route_unprovisioned env name args st) = None \<Longrightarrow> fst (route_unprovisioned env name args st) = st"
  by (auto simp: route_unprovisioned_def Let_def case_prod_beta split: if_splits)

lemma granted_cases:
  assumes "route_granted env name args st = (st1, Some o1)"
  shows "(st1 = fst (callFileAsOperator env name args st) \<and> standing_reason env name args (esGrants st)) \<or>
    (st1 = fst (callShellAsOperator env name args st) \<and> standing_reason env name args (esGrants st)) \<or>
    (\<exists>c. shell_start name args \<and> service_on env \<and> xeCommand env name args = Some c \<and> st1 = fst (operator_command env name args c st))"
proof -
  let ?gs = "esGrants st"
  define c1 where "c1 \<longleftrightarrow> (service_on env \<and> hasIdentityChatGrant (xeSession env) ?gs) \<and> fileGrantTool name"
  define c2 where "c2 \<longleftrightarrow> (service_on env \<and> hasIdentityChatGrant (xeSession env) ?gs) \<and> (shell_start name args \<or> name = ''run_script'')"
  define c3 where "c3 \<longleftrightarrow> fileGrantTool name \<and> service_on env \<and> hasFileGrant (xeSession env) (xeRun env) ?gs"
  define c4 where "c4 \<longleftrightarrow> shell_start name args \<and> service_on env \<and> hasShellGrant (xeFold env) (xeSession env) (xeRun env) shellGrantBoundary [] ?gs"
  define c5 where "c5 \<longleftrightarrow> shell_start name args \<and> service_on env"
  have r: "standing_reason env name args ?gs" if "c1 \<or> c2 \<or> c3 \<or> c4"
    using that unfolding c1_def c2_def c3_def c4_def standing_reason_def by blast
  have "c1 \<or> c2 \<or> c3 \<or> c4 \<or> (\<exists>c. c5 \<and> xeCommand env name args = Some c)"
    using assms unfolding route_granted_def Let_def c1_def [symmetric] c2_def [symmetric] c3_def [symmetric] c4_def [symmetric] c5_def [symmetric]
    by (cases c1; cases c2; cases c3; cases c4; cases c5; cases "xeCommand env name args") simp_all
  moreover have "st1 = fst (callFileAsOperator env name args st) \<or> st1 = fst (callShellAsOperator env name args st)" if "c1 \<or> c2 \<or> c3 \<or> c4"
    using that assms unfolding route_granted_def Let_def c1_def [symmetric] c2_def [symmetric] c3_def [symmetric] c4_def [symmetric]
    by (cases c1; cases c2; cases c3; cases c4) (auto simp: case_prod_beta)
  moreover have "st1 = fst (operator_command env name args c st)" if "\<not> c1" "\<not> c2" "\<not> c3" "\<not> c4" "c5" "xeCommand env name args = Some c" for c
    using that assms unfolding route_granted_def Let_def c1_def [symmetric] c2_def [symmetric] c3_def [symmetric] c4_def [symmetric] c5_def [symmetric]
    by (auto simp: case_prod_beta)
  ultimately show ?thesis using r unfolding c5_def by blast
qed

lemma routed_performs:
  assumes "routeByIdentity env name args st = (st1, Some o1)"
  shows "\<exists>tr. performs env name args st st1 tr"
proof (cases "service_on env \<and> xePreflight env \<noteq> None \<and> snd (route_unprovisioned env name args st) \<noteq> None")
  case True
  then have s: "st1 = fst (route_unprovisioned env name args st)"
    using assms by (auto simp: routeByIdentity_def split: prod.splits option.splits)
  from unprovisioned_cases [of env name args st] show ?thesis
    unfolding s using True by (elim disjE conjE) (auto simp: performs_def orderly_def justified_def standing_reason_def)
next
  case False
  have g: "route_granted env name args st = (st1, Some o1)"
    using assms False unprovisioned_None [of env name args st] by (auto simp: routeByIdentity_def case_prod_beta split: if_splits option.splits)
  from granted_cases [OF g] show ?thesis
  proof (elim disjE exE conjE)
    fix c
    assume "shell_start name args" "service_on env" "xeCommand env name args = Some c" "st1 = fst (operator_command env name args c st)"
    then show ?thesis using operator_command_performs by blast
  qed (auto simp: performs_def orderly_def justified_def)
qed

lemma unrouted:
  assumes "routeByIdentity env name args st = (st1, None)"
  shows "esTrace st1 = esTrace st" and "gPolicyChat (esGrants st1) = gPolicyChat (esGrants st)"
proof -
  have g: "route_granted env name args st = (st1, None)"
    using assms unprovisioned_None [of env name args st] by (auto simp: routeByIdentity_def case_prod_beta split: if_splits option.splits)
  have "esTrace (on_grants (grantShellRun f b i r g) st) = esTrace st" "gPolicyChat (esGrants (on_grants (grantShellRun f b i r g) st)) = gPolicyChat (esGrants st)" for f b i r g
    by (simp_all add: on_grants_def grantShellRun_def Let_def)
  with g show "esTrace st1 = esTrace st" "gPolicyChat (esGrants st1) = gPolicyChat (esGrants st)"
    unfolding route_granted_def Let_def by (auto simp: case_prod_beta split: if_splits option.splits)
qed

lemma if_cases: "P a \<Longrightarrow> P b \<Longrightarrow> P (if c then a else b)"
  by simp

lemma decision_cases:
  "approval_decision env name args eventArgs skill st = (st, Some ''approve'') \<or>
   (\<exists>a. approval_decision env name args eventArgs skill st = ask_card env PolicyAsk (xeCall env) name a st)"
  unfolding approval_decision_def Let_def
  by (rule if_cases [where P = "\<lambda>r. r = (st, Some ''approve'') \<or> (\<exists>a. r = ask_card env PolicyAsk (xeCall env) name a st)"] | blast)+

lemma policy_chat_other: "n \<noteq> name \<Longrightarrow> hasPolicyChatGrant i n (grantPolicyChat i name gs) = hasPolicyChatGrant i n gs"
  by (simp add: hasPolicyChatGrant_def grantPolicyChat_def)

lemma approve_trace:
  assumes "approveTool env name args eventArgs skill st = (st2, r)"
  shows "\<exists>pre. esTrace st2 = esTrace st @ pre \<and> list_all (\<lambda>e. \<not> acts e) pre \<and> length pre \<le> 1 \<and> (r = None \<longrightarrow> list_all cleared pre)"
    and "name \<noteq> outsideFolderChatGrant \<Longrightarrow> hasPolicyChatGrant i outsideFolderChatGrant (esGrants st2) = hasPolicyChatGrant i outsideFolderChatGrant (esGrants st)"
proof -
  obtain st1 d where d: "approval_decision env name args eventArgs skill st = (st1, d)" by fastforce
  obtain pre where pre: "esTrace st1 = esTrace st @ pre" "esGrants st1 = esGrants st"
      "pre = [] \<and> d = Some ''approve'' \<or> (\<exists>c n. pre = [Asked PolicyAsk c n d])"
    using decision_cases [of env name args eventArgs skill st] d by (auto simp: ask_card_def)
  have t: "esTrace st2 = esTrace st1"
    using assms d by (auto simp: approveTool_def Let_def split: option.splits if_splits)
  have ok: "case d of Some x \<Rightarrow> approvalGranted x | None \<Rightarrow> False" if "r = None"
    using assms d that by (auto simp: approveTool_def Let_def split: option.splits if_splits)
  show "\<exists>pre. esTrace st2 = esTrace st @ pre \<and> list_all (\<lambda>e. \<not> acts e) pre \<and> length pre \<le> 1 \<and> (r = None \<longrightarrow> list_all cleared pre)"
    using pre t ok by (intro exI [of _ pre]) (auto split: option.splits)
  assume n: "name \<noteq> outsideFolderChatGrant"
  have s: "hasPolicyChatGrant i m (esGrants (on_grants (grantShellRun f b c r g) s)) = hasPolicyChatGrant i m (esGrants s)"
    "hasPolicyChatGrant i m (esGrants (on_grants (grantShellSession f b c r g) s)) = hasPolicyChatGrant i m (esGrants s)" for f b c r g s m
    by (simp_all add: on_grants_def grantShellRun_def grantShellSession_def Let_def hasPolicyChatGrant_def)
  have p: "hasPolicyChatGrant i outsideFolderChatGrant (esGrants (on_grants (\<lambda>gs. (grantPolicyChat j name gs, [])) s)) =
     hasPolicyChatGrant i outsideFolderChatGrant (esGrants s)" for j s
    using policy_chat_other [OF not_sym [OF n]] by (cases "i = j") (simp_all add: on_grants_def hasPolicyChatGrant_def grantPolicyChat_def)
  show "hasPolicyChatGrant i outsideFolderChatGrant (esGrants st2) = hasPolicyChatGrant i outsideFolderChatGrant (esGrants st)"
    using assms d pre(2) by (auto simp: approveTool_def Let_def s p split: option.splits if_splits)
qed

lemma outside_scope_trace:
  "outside_scope env outside folders d st = (st', scope, acted) \<Longrightarrow> \<exists>t. esTrace st' = esTrace st @ t \<and> (t = [] \<or> t = [TrustedFolders folders])"
  by (auto simp: outside_scope_def Let_def split: if_splits)

lemma override_grants_trace [simp]: "esTrace (override_grants env name shell d st) = esTrace st"
  by (simp add: override_grants_def Let_def)

lemma override_performs:
  "\<exists>tr. esTrace (fst (operatorOverride env name path args o1 st)) = esTrace st @ tr \<and> orderly (RanService n a # tr) \<and>
     (if list_ex ran_operator tr then hasPolicyChatGrant (xeSession env) outsideFolderChatGrant (esGrants st) \<or> list_ex escape_allowed tr else True)"
proof -
  define folders where "folders = strs_of (mget (coMetadata o1) ''outside_folders'')"
  define outside where "outside = bool_of (mget (coMetadata o1) ''outside_folder_card'')"
  define free where "free \<longleftrightarrow> outside \<and> hasPolicyChatGrant (xeSession env) outsideFolderChatGrant (esGrants st)"
  define ans where "ans = xeAsk env BoundaryAsk (xeCall env @ '':operator'') (name @ ''.operator_override'')
    (override_args name path args (shell_start name args) folders outside o1)"
  define ask where "ask = Asked BoundaryAsk (xeCall env @ '':operator'') (name @ ''.operator_override'') ans"
  define st1 where "st1 = (if free then st else es_step ask st)"
  have run: "\<exists>t. esTrace (fst (operatorOverride env name path args o1 st)) = esTrace st1 @ t @ [RanOperator name args] \<and>
      (t = [] \<or> t = [TrustedFolders folders])" if "(if free then Some ''once'' else ans) = Some d" "approvalGranted d" for d
  proof -
    obtain st2 scope acted where s: "outside_scope env outside folders d st1 = (st2, scope, acted)" using prod_cases3 by blast
    have "esTrace (fst (operatorOverride env name path args o1 st)) = esTrace st2 @ [RanOperator name args]"
      using that s unfolding operatorOverride_def Let_def folders_def [symmetric] outside_def [symmetric] free_def [symmetric] ask_card_def
        ans_def [symmetric] ask_def [symmetric] st1_def
      by (cases free) auto
    with outside_scope_trace [OF s] show ?thesis by auto
  qed
  have halted: "esTrace (fst (operatorOverride env name path args o1 st)) = esTrace st @ [ask]"
    if "\<not> free" "case ans of None \<Rightarrow> True | Some d \<Rightarrow> \<not> approvalGranted d"
    using that unfolding operatorOverride_def Let_def folders_def [symmetric] outside_def [symmetric] free_def [symmetric] ask_card_def
        ans_def [symmetric] ask_def [symmetric]
    by (cases ans) auto
  consider (free) "free" | (stop) "\<not> free" "case ans of None \<Rightarrow> True | Some d \<Rightarrow> \<not> approvalGranted d"
    | (yes) d where "\<not> free" "ans = Some d" "approvalGranted d" by (cases ans) auto
  then show ?thesis
  proof cases
    case free
    have "approvalGranted ''once''" by (simp add: approvalGranted_def)
    with run [of "''once''"] free obtain t where "esTrace (fst (operatorOverride env name path args o1 st)) = esTrace st @ t @ [RanOperator name args]"
      "t = [] \<or> t = [TrustedFolders folders]" by (auto simp: st1_def)
    with free show ?thesis by (auto simp: orderly_def free_def)
  next
    case stop
    then show ?thesis using halted by (auto simp: orderly_def ask_def)
  next
    case (yes d)
    with run [of d] obtain t where "esTrace (fst (operatorOverride env name path args o1 st)) = esTrace st @ ask # t @ [RanOperator name args]"
      "t = [] \<or> t = [TrustedFolders folders]" by (auto simp: st1_def)
    with yes show ?thesis by (intro exI [of _ "ask # t @ [RanOperator name args]"]) (auto simp: orderly_def ask_def)
  qed
qed

lemma quiet_orderly: "list_all (\<lambda>e. \<not> acts e) pre \<Longrightarrow> length pre \<le> 1 \<Longrightarrow> orderly pre \<and> \<not> list_ex ran_operator pre"
  by (cases pre) (auto simp: orderly_def dest: not_acts)

lemma cleared_no_run: "list_all cleared pre \<Longrightarrow> \<not> list_ex ran_operator pre"
  by (induction pre) (auto simp: cleared_def dest: not_acts)

lemma cleared_justified: "list_all cleared pre \<Longrightarrow> justified env name args gs tr \<Longrightarrow> justified env name args gs (pre @ tr)"
  using cleared_no_run [of pre] by (auto simp: justified_def split: if_splits)

lemma approved_performs:
  assumes r: "routeByIdentity env name args st = (st1, None)"
    and a: "approveTool env name args eventArgs skill st1 = (st2, None)"
    and run: "(st3, o1) = (if skill_read env name args then callFileAsOperator env name args1 st2 else callDetailed env name args1 st2)"
    and st': "st' = (if \<not> coOverrideAvailable o1 then st3 else fst (operatorOverride env name path args1 o1 st3))"
  shows "\<exists>tr. performs env name args st st' tr"
proof -
  obtain pre where pre: "esTrace st2 = esTrace st @ pre" "list_all cleared pre"
    using approve_trace(1) [OF a] unrouted(1) [OF r] by auto
  have pol: "hasPolicyChatGrant (xeSession env) outsideFolderChatGrant (esGrants st2) = hasPolicyChatGrant (xeSession env) outsideFolderChatGrant (esGrants st)"
    if "name \<noteq> outsideFolderChatGrant" using approve_trace(2) [OF a that] unrouted(2) [OF r] by (simp add: hasPolicyChatGrant_def)
  show ?thesis
  proof (cases "skill_read env name args")
    case True
    then have "st' = fst (callFileAsOperator env name args1 st2)"
      using run st' operator_calls(5) [of env name args1 st2] by (cases "callFileAsOperator env name args1 st2") auto
    then have "esTrace st' = esTrace st @ pre @ [RanOperator name args1]" using pre(1) by simp
    moreover have "orderly (pre @ [RanOperator name args1])" unfolding cleared_orderly [OF pre(2)] by (simp add: orderly_def)
    moreover have "justified env name args (esGrants st) (pre @ [RanOperator name args1])"
      by (rule cleared_justified [OF pre(2)]) (simp add: justified_def standing_reason_def True)
    ultimately show ?thesis unfolding performs_def by blast
  next
    case False
    then have s: "st3 = fst (callDetailed env name args1 st2)" using run by (cases "callDetailed env name args1 st2") auto
    obtain tr where tr: "esTrace (fst (operatorOverride env name path args1 o1 st3)) = esTrace st3 @ tr" "orderly (RanService name args1 # tr)"
      "if list_ex ran_operator tr then hasPolicyChatGrant (xeSession env) outsideFolderChatGrant (esGrants st3) \<or> list_ex escape_allowed tr else True"
      using override_performs by blast
    define t where "t = RanService name args1 # (if coOverrideAvailable o1 then tr else [])"
    have "esTrace st' = esTrace st @ pre @ t" using pre(1) st' tr(1) by (simp add: s t_def)
    moreover have "orderly (pre @ t)" unfolding cleared_orderly [OF pre(2)] using tr(2) by (auto simp: t_def orderly_def)
    moreover have "justified env name args (esGrants st) (pre @ t)"
      using tr(3) pol by (intro cleared_justified [OF pre(2)]) (auto simp: justified_def standing_reason_def s t_def split: if_splits)
    ultimately show ?thesis unfolding performs_def by blast
  qed
qed

lemma execute_routed_performs:
  "\<exists>tr. performs env name args st (fst (execute_routed env name args eventArgs skill st)) tr"
proof -
  obtain st1 r where r: "routeByIdentity env name args st = (st1, r)" by fastforce
  show ?thesis
  proof (cases r)
    case (Some o1)
    then show ?thesis using routed_performs [of env name args st st1 o1] r by (simp add: execute_routed_def)
  next
    case None
    note r = r [unfolded None]
    show ?thesis
    proof (cases "name = ''ask''")
      case True
      have "\<exists>tr. esTrace (fst (askTool env args st1)) = esTrace st @ tr \<and> list_all cleared tr"
        using unrouted(1) [OF r] by (auto simp: askTool_def Let_def ask_card_def cleared_def split: sum.split option.split)
      then obtain tr where "esTrace (fst (askTool env args st1)) = esTrace st @ tr" "list_all cleared tr" by blast
      then show ?thesis using cleared_orderly [of tr "[]"] cleared_no_run [of tr] r True
        by (intro exI [of _ tr]) (simp add: execute_routed_def performs_def orderly_def justified_def)
    next
      case False
      obtain st2 q where a: "approveTool env name args eventArgs skill st1 = (st2, q)" by fastforce
      show ?thesis
      proof (cases q)
        case (Some refused)
        obtain pre where "esTrace st2 = esTrace st @ pre" "list_all (\<lambda>e. \<not> acts e) pre" "length pre \<le> 1"
          using approve_trace(1) [OF a] unrouted(1) [OF r] by auto
        then show ?thesis using quiet_orderly [of pre] False Some
          by (intro exI [of _ pre]) (auto simp: execute_routed_def r a performs_def justified_def)
      next
        case None
        define args1 where "args1 = (if shell_start name args \<and> repoRunGrantMatches env args then resolveRepoGrantedExecutable env args else args)"
        obtain st3 o1 where run: "(st3, o1) = (if skill_read env name args then callFileAsOperator env name args1 st2 else callDetailed env name args1 st2)"
          by (metis surj_pair)
        have "fst (execute_routed env name args eventArgs skill st) =
            (if \<not> coOverrideAvailable o1 then st3 else fst (operatorOverride env name (str_of (mget args ''path'')) args1 o1 st3))"
          unfolding execute_routed_def r prod.case option.case if_not_P [OF False] a None Let_def args1_def [symmetric] run [symmetric] by simp
        then show ?thesis using approved_performs [OF r a [unfolded None] run] by blast
      qed
    qed
  qed
qed

lemma executeTool_performs:
  "\<exists>tr. performs env name (resolved_args env args) st (fst (executeTool env name args st)) tr"
proof (cases "xeSkillMutation env name (resolved_args env args)")
  case None
  then show ?thesis using execute_routed_performs by (simp add: executeTool_def Let_def)
next
  case (Some p)
  obtain skillPath skill where p: "p = (skillPath, skill)" by fastforce
  define ev where "ev = mput ''skill_path'' (VStr skillPath) (mput ''skill'' (VStr skill) (event_args env name (resolved_args env args)))"
  define ans where "ans = xeAsk env PolicyAsk (xeCall env) name ev"
  define st1 where "st1 = es_step (Asked PolicyAsk (xeCall env) name ans) st"
  have eq: "executeTool env name args st = (case ans of
         None \<Rightarrow> (st1, failed ''error: call canceled'')
       | Some d \<Rightarrow> if \<not> approvalGranted d then (st1, failed ''error: call denied by user'') else execute_routed env name (resolved_args env args) ev True st1)"
    unfolding executeTool_def Let_def Some p option.case prod.case ask_card_def ev_def [symmetric] ans_def [symmetric] st1_def [symmetric] ..
  show ?thesis
  proof (cases "case ans of None \<Rightarrow> True | Some d \<Rightarrow> \<not> approvalGranted d")
    case True
    then have "fst (executeTool env name args st) = st1" unfolding eq by (auto split: option.splits)
    then show ?thesis by (auto simp: performs_def orderly_def justified_def st1_def)
  next
    case False
    then obtain d where d: "ans = Some d" "approvalGranted d" by (auto split: option.splits)
    obtain tr where tr: "performs env name (resolved_args env args) st1 (fst (execute_routed env name (resolved_args env args) ev True st1)) tr"
      using execute_routed_performs by blast
    have c: "list_all cleared [Asked PolicyAsk (xeCall env) name ans]" using d by simp
    show ?thesis using tr d cleared_orderly [OF c] cleared_justified [OF c]
      unfolding eq by (auto simp: performs_def st1_def intro!: exI [of _ "Asked PolicyAsk (xeCall env) name ans # tr"])
  qed
qed

section \<open>Properties\<close>

text \<open>The trace of a call that starts with the grants \<open>gs\<close>.\<close>

definition call_trace :: "exec_env \<Rightarrow> string \<Rightarrow> (string, val) gomap \<Rightarrow> grants \<Rightarrow> exec_step list" where
  "call_trace env name args gs = esTrace (fst (executeTool env name args \<lparr>esGrants = gs, esLog = [], esTrace = []\<rparr>))"

lemma call_trace_performs:
  "orderly (call_trace env name args gs)" "justified env name (resolved_args env args) gs (call_trace env name args gs)"
  using executeTool_performs [of env name args "\<lparr>esGrants = gs, esLog = [], esTrace = []\<rparr>"]
  by (auto simp: call_trace_def performs_def)

text \<open>C1. A refusal ends a call: in everything that one tool call does, no tool runs and no folder becomes trusted after a card of that call was
  refused or its wait was cancelled; the tool runs at most once as the service and at most once as the operator.\<close>

theorem refused_call_does_nothing_more:
  "denial_final (call_trace env name args gs) \<and> length (filter ran_service (call_trace env name args gs)) \<le> 1 \<and>
   length (filter ran_operator (call_trace env name args gs)) \<le> 1"
  using call_trace_performs(1) [of env name args gs] by (simp add: orderly_def)

text \<open>C2. Running as the operator has a cause: when a call ran its tool under the operator's identity, then a boundary card of that same call
  was answered with an approval, or a reason stood before the call: a grant of the chat or the run that covers this kind of call,
  the approved use of an outside folder, a read of a skill, or a read while the service identity is not set up. The answers to the cards
  and the results of the tools are arbitrary.\<close>

theorem operator_identity_needs_a_cause:
  "if list_ex ran_operator (call_trace env name args gs) \<and> name \<noteq> outsideFolderChatGrant
   then standing_reason env name (resolved_args env args) gs \<or> list_ex escape_allowed (call_trace env name args gs)
   else True"
  using call_trace_performs(2) [of env name args gs] by (simp add: justified_def)

definition card_first :: "exec_step list \<Rightarrow> bool" where
  "card_first tr = (case tr of [] \<Rightarrow> True | e # _ \<Rightarrow> \<not> acts e)"

lemma nothing_granted [simp]:
  "\<not> hasIdentityChatGrant i no_grants" "\<not> hasShellGrant f i r rule x no_grants" "\<not> hasFileGrant i r no_grants" "\<not> hasPolicyChatGrant i n no_grants"
  by (simp_all add: hasIdentityChatGrant_def hasShellGrant_def hasFileGrant_def hasPolicyChatGrant_def no_grants_def)

lemma ungranted_route:
  assumes "esGrants st = no_grants" "\<not> service_on env \<or> xePreflight env = None" "\<not> repoRunGrantMatches env args"
  shows "routeByIdentity env name args st =
    (case (if shell_start name args \<and> service_on env then xeCommand env name args else None) of
       Some command \<Rightarrow> (fst (operator_command env name args command st), Some (snd (operator_command env name args command st)))
     | None \<Rightarrow> (st, None))"
proof -
  have g: "route_granted env name args st =
    (case (if shell_start name args \<and> service_on env then xeCommand env name args else None) of
       Some command \<Rightarrow> (fst (operator_command env name args command st), Some (snd (operator_command env name args command st)))
     | None \<Rightarrow> (st, None))"
    unfolding route_granted_def Let_def by (simp only: assms(1,3) nothing_granted simp_thms if_False case_prod_beta)
  have "(if service_on env \<and> xePreflight env \<noteq> None then route_unprovisioned env name args st else (st, None)) = (st, None)"
    using assms(2) by auto
  then show ?thesis unfolding routeByIdentity_def by (simp only: g prod.case option.case)
qed

lemma all_asks:
  assumes "esGrants st = no_grants" "xeMode env = ''all''" "\<not> xeIsolated env"
  shows "\<exists>a. approval_decision env name args ev False st = ask_card env PolicyAsk (xeCall env) name a st"
proof -
  have r: "approvalRequired (xeMode env) n" for n by (simp add: assms(2) approvalRequired_def)
  show ?thesis
    unfolding approval_decision_def Let_def assms(1) assms(2) [symmetric]
    by (simp only: assms(3) r nothing_granted simp_thms if_True if_False)
      (rule if_cases [where P = "\<lambda>r. \<exists>a. r = ask_card env PolicyAsk (xeCall env) name a st"] | blast)+
qed

lemma mode_all_first:
  assumes "esGrants st = no_grants" "esTrace st = []" "xeMode env = ''all''" "\<not> xeIsolated env"
    and "\<not> service_on env \<or> xePreflight env = None" "\<not> repoRunGrantMatches env args"
  shows "card_first (esTrace (fst (execute_routed env name args ev False st)))"
proof (cases "if shell_start name args \<and> service_on env then xeCommand env name args else None")
  case (Some command)
  have "\<exists>r. esTrace (fst (operator_command env name args command st)) =
      Asked BoundaryAsk (xeCall env) (name @ ''.operator_command'') (xeAsk env BoundaryAsk (xeCall env) (name @ ''.operator_command'') (command_card args command)) # r"
    using assms(1,2) configured_runs [of "xeLower env" "xeShell env" args]
    by (auto simp: operator_command_def executeOperatorCommand_def Let_def ask_card_def case_prod_beta es_step_def split: option.split)
  then show ?thesis
    using ungranted_route [OF assms(1,5,6), of name] Some by (auto simp: execute_routed_def card_first_def)
next
  case None
  have r: "routeByIdentity env name args st = (st, None)" using ungranted_route [OF assms(1,5,6), of name] None by simp
  obtain a where a: "approval_decision env name args ev False st = ask_card env PolicyAsk (xeCall env) name a st" using all_asks [OF assms(1,3,4)] by blast
  define ask where "ask = Asked PolicyAsk (xeCall env) name (xeAsk env PolicyAsk (xeCall env) name a)"
  show ?thesis
  proof (cases "name = ''ask''")
    case True
    have "card_first (esTrace (fst (askTool env args st)))"
      using assms(2) by (auto simp: askTool_def Let_def ask_card_def card_first_def es_step_def split: sum.split option.split)
    then show ?thesis using r True by (simp add: execute_routed_def)
  next
    case False
    obtain st2 q where ap: "approveTool env name args ev False st = (st2, q)" by fastforce
    have t: "esTrace st2 = [ask]"
      using ap assms(2) by (auto simp: approveTool_def Let_def a ask_card_def ask_def es_step_def on_grants_def split: option.splits if_splits)
    have "\<exists>r. esTrace (fst (execute_routed env name args ev False st)) = ask # r"
    proof (cases q)
      case (Some o1)
      then show ?thesis using t r ap False by (simp add: execute_routed_def)
    next
      case None
      define args1 where "args1 = (if shell_start name args \<and> repoRunGrantMatches env args then resolveRepoGrantedExecutable env args else args)"
      obtain st3 o1 where run: "(st3, o1) = (if skill_read env name args then callFileAsOperator env name args1 st2 else callDetailed env name args1 st2)"
        by (metis surj_pair)
      have e: "fst (execute_routed env name args ev False st) =
          (if \<not> coOverrideAvailable o1 then st3 else fst (operatorOverride env name (str_of (mget args ''path'')) args1 o1 st3))"
        unfolding execute_routed_def r prod.case option.case if_not_P [OF False] ap None Let_def args1_def [symmetric] run [symmetric] by simp
      obtain tr where "esTrace (fst (operatorOverride env name (str_of (mget args ''path'')) args1 o1 st3)) = esTrace st3 @ tr"
        using override_performs by blast
      moreover have "st3 = fst (if skill_read env name args then callFileAsOperator env name args1 st2 else callDetailed env name args1 st2)"
        using run by (metis fst_conv)
      then have "\<exists>e. esTrace st3 = [ask, e]" using t by simp
      ultimately show ?thesis unfolding e by auto
    qed
    then show ?thesis by (auto simp: card_first_def ask_def)
  qed
qed

lemma execute_routed_extends: "\<exists>tr. esTrace (fst (execute_routed env name args ev skill st)) = esTrace st @ tr"
  using execute_routed_performs [of env name args st ev skill] by (auto simp: performs_def)

text \<open>Under the approval mode \<open>all\<close> nothing happens before a card: without grants, for a chat that is no isolated helper, with the
  service identity off or set up and no default of the repository for the command, the first thing that any tool call does is to ask.\<close>

theorem mode_all_asks_first:
  assumes "xeMode env = ''all''" and "\<not> xeIsolated env" and "\<not> service_on env \<or> xePreflight env = None"
    and "\<not> repoRunGrantMatches env (resolved_args env args)"
  shows "card_first (call_trace env name args no_grants)"
proof (cases "xeSkillMutation env name (resolved_args env args)")
  case None
  then show ?thesis
    using mode_all_first [OF _ _ assms(1-4), of "\<lparr>esGrants = no_grants, esLog = [], esTrace = []\<rparr>" name "event_args env name (resolved_args env args)"]
    by (simp add: call_trace_def executeTool_def Let_def)
next
  case (Some p)
  obtain skillPath skill where p: "p = (skillPath, skill)" by fastforce
  define ev where "ev = mput ''skill_path'' (VStr skillPath) (mput ''skill'' (VStr skill) (event_args env name (resolved_args env args)))"
  define ans where "ans = xeAsk env PolicyAsk (xeCall env) name ev"
  define st1 where "st1 = es_step (Asked PolicyAsk (xeCall env) name ans) \<lparr>esGrants = no_grants, esLog = [], esTrace = []\<rparr>"
  have eq: "executeTool env name args \<lparr>esGrants = no_grants, esLog = [], esTrace = []\<rparr> = (case ans of
         None \<Rightarrow> (st1, failed ''error: call canceled'')
       | Some d \<Rightarrow> if \<not> approvalGranted d then (st1, failed ''error: call denied by user'') else execute_routed env name (resolved_args env args) ev True st1)"
    unfolding executeTool_def Let_def Some p option.case prod.case ask_card_def ev_def [symmetric] ans_def [symmetric] st1_def [symmetric] ..
  obtain tr where "esTrace (fst (execute_routed env name (resolved_args env args) ev True st1)) = esTrace st1 @ tr"
    using execute_routed_extends by blast
  then show ?thesis unfolding call_trace_def eq by (auto simp: card_first_def st1_def es_step_def split: option.split)
qed

definition demo_exec_env :: exec_env where
  "demo_exec_env = \<lparr>xeSession = ''s'', xeRole = ''b'', xeScratch = False, xeIsolated = False, xeRun = ''r'', xeCall = ''c'', xeBus = True,
     xeServiceAccount = True, xeOperatorMode = False, xeMode = ''all'', xeShell = [], xeRunDefaults = [], xePreflight = None, xeFold = (=),
     xeLower = (\<lambda>s. s), xeUpper = (\<lambda>s. s), xeResolvePath = (\<lambda>s. s), xeSkillPath = (\<lambda>_. False), xeSkillMutation = (\<lambda>_ _. None),
     xeConnector = (\<lambda>_. False), xeConnectorArgs = (\<lambda>_ a. a), xePolicy = (\<lambda>_ _. False), xeCommand = (\<lambda>_ _. None),
     xeQuestion = (\<lambda>_. Inl ''no''), xeBase = (\<lambda>s. s), xeLookPath = (\<lambda>_. None), xeSandbox = None, xeTrust = (\<lambda>_. False),
     xeAsk = (\<lambda>_ _ _ _. Some ''once''), xeDetailed = (\<lambda>_ _. zero_outcome\<lparr>coOverrideAvailable := True\<rparr>), xeOperator = (\<lambda>_ _. (''done'', True))\<rparr>"

theorem mode_all_asks_first_witness:
  "card_first (call_trace demo_exec_env ''write_file'' [(''path'', VStr ''a'')] no_grants)"
proof -
  have "\<not> repoRunGrantMatches demo_exec_env (resolved_args demo_exec_env [(''path'', VStr ''a'')])"
    by (simp add: repoRunGrantMatches_def demo_exec_env_def)
  then show ?thesis by (intro mode_all_asks_first) (simp_all add: demo_exec_env_def)
qed
end
