(* ===== verification/Scheduler.thy ===== *)
theory Scheduler
  imports Session Human Flights
begin

text \<open>
  The run scheduler (\<open>internal/agent/scheduler.go\<close>) and the parts of the runner it calls to queue a
  message (\<open>run.go\<close>). One function per critical section under \<open>mu\<close>; the log of published events, the
  idle callbacks and the run-id counter are part of the state. Sessions are shared objects: the heap
  \<open>scSessions\<close> holds them by id, queue entries and active runs name them by id, and \<open>scRegistry\<close> lists
  the ids the registry still knows. A running goroutine is an entry of \<open>scActive\<close>; its end is
  \<open>run_returned\<close>. \<open>close(waiter.ready)\<close> puts the waiter's channel into \<open>scReady\<close>. A pointer comparison of
  active runs compares serial numbers. Parameters (record \<open>sched_env\<close>): the configuration, what the
  agent binding of a session resolves to, attachment preparation and token counting, the first name of a chat,
  \<open>net/url\<close>, lower-casing and the float64 token estimate.
\<close>

section \<open>State\<close>

record queued_run =
  qS :: string
  qRunID :: string
  qUserMessageID :: string
  qUserMessage :: message
  qSource :: string

record active_run =
  arSerial :: nat
  arCancelled :: bool
  arStopReason :: string
  arRunID :: string
  arUserMessageID :: string
  arSource :: string
  arReturned :: bool

record resume_waiter =
  rwSession :: string
  rwReady :: nat

record sched =
  scSessions :: "(string, session) gomap"
  scRegistry :: "string list"
  scActive :: "(string, active_run) gomap"
  scQueue :: "queued_run list"
  scPending :: "(string, queued_run list) gomap"
  scUnreachable :: "(string, bool) gomap"
  scStoppedRuns :: "(string, bool) gomap"
  scPaused :: "(string, bool) gomap"
  scResuming :: "resume_waiter list"
  scReady :: "nat list"
  scSerial :: nat
  scIds :: int
  scMessageIds :: int
  scBook :: flight_book
  scLog :: "bus_note list"
  scIdle :: "string list"

record connection =
  cnID :: string
  cnBaseURL :: string
  cnMaxConcurrent :: int
  cnParallelCapacity :: int

datatype binding =
    NoConnection
  | SameBinding
  | BoundTo string agent_config string string bool

record sched_env =
  seMaxConcurrent :: int
  seQueueDepth :: int
  seWallClock :: int
  seConnections :: "connection list"
  seIdleHook :: bool
  seBinding :: "session \<Rightarrow> binding"
  sePrepare :: "session \<Rightarrow> string \<Rightarrow> attachment list \<Rightarrow> attachment list \<times> int \<times> bool"
  seFirstName :: "session \<Rightarrow> string \<Rightarrow> string option"
  seUrlHost :: "string \<Rightarrow> string option"
  seHostname :: "string \<Rightarrow> string option"
  seToLower :: "string \<Rightarrow> string"
  seTokens :: "nat \<Rightarrow> int"
  seNetworkBoundary :: string

definition NewScheduler :: sched where
  "NewScheduler = \<lparr>scSessions = [], scRegistry = [], scActive = [], scQueue = [], scPending = [], scUnreachable = [],
     scStoppedRuns = [], scPaused = [], scResuming = [], scReady = [], scSerial = 0, scIds = 0, scMessageIds = 0,
     scBook = newFlightBook, scLog = [], scIdle = []\<rparr>"

section \<open>Access\<close>

definition pub :: "bus_note list \<Rightarrow> sched \<Rightarrow> sched" where
  "pub evs st = st\<lparr>scLog := scLog st @ evs\<rparr>"

definition on_session :: "string \<Rightarrow> (session \<Rightarrow> session) \<Rightarrow> sched \<Rightarrow> sched" where
  "on_session sid f st =
     (case mget (scSessions st) sid of None \<Rightarrow> st | Some s \<Rightarrow> st\<lparr>scSessions := mput sid (f s) (scSessions st)\<rparr>)"

text \<open>\<open>Registry.Get\<close>.\<close>

definition registry_Get :: "string \<Rightarrow> sched \<Rightarrow> session option" where
  "registry_Get sid st = (if sid \<in> set (scRegistry st) then mget (scSessions st) sid else None)"

definition run_of :: "string \<Rightarrow> sched \<Rightarrow> run_state" where
  "run_of sid st = (case mget (scSessions st) sid of None \<Rightarrow> zero_run | Some s \<Rightarrow> sRun s)"

definition set_run :: "string \<Rightarrow> run_state \<Rightarrow> sched \<Rightarrow> sched" where
  "set_run sid r st = on_session sid (SetRun r) st"

definition next_run_id :: "sched \<Rightarrow> sched \<times> string" where
  "next_run_id st = (st\<lparr>scIds := scIds st + 1\<rparr>, ''r'' @ Itoa (scIds st + 1))"

definition next_message_id :: "sched \<Rightarrow> sched \<times> string" where
  "next_message_id st = (st\<lparr>scMessageIds := scMessageIds st + 1\<rparr>, ''m-'' @ Itoa (scMessageIds st + 1))"

definition ReserveIDs :: "int \<Rightarrow> sched \<Rightarrow> sched" where
  "ReserveIDs floor st = (if scIds st \<ge> floor then st else st\<lparr>scIds := floor\<rparr>)"

definition Connection :: "sched_env \<Rightarrow> string \<Rightarrow> connection option" where
  "Connection env i = find (\<lambda>c. cnID c = i) (seConnections env)"

section \<open>Idle agents\<close>

definition agentActiveLocked :: "string \<Rightarrow> sched \<Rightarrow> bool" where
  "agentActiveLocked agentID st =
     list_ex (\<lambda>sid. case registry_Get sid st of Some s \<Rightarrow> sAgentID s = agentID | None \<Rightarrow> False) (keys (scActive st))"

definition notifyAgentIdleLocked :: "sched_env \<Rightarrow> string \<Rightarrow> sched \<Rightarrow> sched" where
  "notifyAgentIdleLocked env agentID st =
     (if agentID \<noteq> [] \<and> \<not> agentActiveLocked agentID st \<and> seIdleHook env then st\<lparr>scIdle := scIdle st @ [agentID]\<rparr> else st)"

definition TryAgentIdle :: "sched_env \<Rightarrow> string \<Rightarrow> sched \<Rightarrow> sched \<times> bool" where
  "TryAgentIdle env agentID st =
     (if agentActiveLocked agentID st then (st, False)
      else (if seIdleHook env then st\<lparr>scIdle := scIdle st @ [agentID]\<rparr> else st, True))"

section \<open>Admission\<close>

definition connectionLimit :: "sched_env \<Rightarrow> string \<Rightarrow> int" where
  "connectionLimit env i =
     (case Connection env i of
        None \<Rightarrow> 1
      | Some c \<Rightarrow> if cnMaxConcurrent c > 0 then cnMaxConcurrent c
                  else if cnParallelCapacity c > 0 then cnParallelCapacity c else 1)"

definition serving :: "string \<Rightarrow> sched \<Rightarrow> session list" where
  "serving i st =
     List.map_filter (\<lambda>sid. if mtrue (scPaused st) sid then None
        else case registry_Get sid st of Some s \<Rightarrow> if sConnectionID s = i then Some s else None | None \<Rightarrow> None)
       (keys (scActive st))"

definition connectionRunsLocked :: "string \<Rightarrow> sched \<Rightarrow> int \<times> string" where
  "connectionRunsLocked i st =
     (int (length (serving i st)), case find (\<lambda>s. sRole s \<noteq> []) (serving i st) of Some s \<Rightarrow> sRole s | None \<Rightarrow> [])"

definition runningLocked :: "sched \<Rightarrow> int" where
  "runningLocked st = int (length (filter (\<lambda>sid. \<not> mtrue (scPaused st) sid) (keys (scActive st))))"

definition session_connection :: "string \<Rightarrow> sched \<Rightarrow> string" where
  "session_connection sid st = (case mget (scSessions st) sid of None \<Rightarrow> [] | Some s \<Rightarrow> sConnectionID s)"

definition admitLocked :: "sched_env \<Rightarrow> string \<Rightarrow> sched \<Rightarrow> bool" where
  "admitLocked env sid st =
     (if runningLocked st \<ge> seMaxConcurrent env then False
      else fst (connectionRunsLocked (session_connection sid st) st) < connectionLimit env (session_connection sid st))"

definition queuedDataLocked :: "sched_env \<Rightarrow> string \<Rightarrow> string \<Rightarrow> int \<Rightarrow> sched \<Rightarrow> (string \<times> val) list" where
  "queuedDataLocked env sid runID position st =
     (let conn = session_connection sid st; (n, role) = connectionRunsLocked conn st
      in [(''run_id'', VStr runID), (''position'', VInt position)] @
         (if n \<ge> connectionLimit env conn \<and> role \<noteq> [] then [(''behind'', VStr (''agent_'' @ role))] else []))"

definition ConnectionBusy :: "sched_env \<Rightarrow> string \<Rightarrow> sched \<Rightarrow> bool \<times> string" where
  "ConnectionBusy env i st =
     (let (n, role) = connectionRunsLocked i st
      in if n < connectionLimit env i then (False, []) else (True, ''agent_'' @ role))"

section \<open>Messages\<close>

text \<open>\<open>seFirstName\<close> is the name \<open>nameFromFirstMessage\<close> gives the chat, if it names it.\<close>

definition AppendUser :: "sched_env \<Rightarrow> string \<Rightarrow> message \<Rightarrow> sched \<Rightarrow> sched" where
  "AppendUser env sid m st =
     (let st1 = on_session sid (Append m) st;
          st2 = (case mget (scSessions st1) sid of
              None \<Rightarrow> st1
            | Some s \<Rightarrow> (case seFirstName env s (mContent m) of
                None \<Rightarrow> st1
              | Some label \<Rightarrow> pub [New ''session.renamed'' sid [] [(''session_id'', VStr sid), (''label'', VStr label), (''by'', VStr ''c'')]]
                  (on_session sid (\<lambda>s. s\<lparr>sLabel := label\<rparr>) st1)))
      in pub [New MessageAppended sid [] [(''message'', VMsg m)]] st2)"

text \<open>\<open>seBinding\<close> is what \<open>refreshAgent\<close> resolves the session's agent to: no connection, the binding it has,
  or an agent and connection to apply, with a flag for a profile that was deleted.\<close>

definition QueueUserAttachments ::
  "sched_env \<Rightarrow> string \<Rightarrow> string \<Rightarrow> attachment list \<Rightarrow> sched \<Rightarrow> sched \<times> (string + message)" where
  "QueueUserAttachments env sid text atts st =
     (case mget (scSessions st) sid of
        None \<Rightarrow> (st, Inl ''connection not found'')
      | Some s \<Rightarrow>
          (case seBinding env s of
             NoConnection \<Rightarrow> (st, Inl ''connection not found'')
           | b \<Rightarrow>
               let st1 = (case b of
                       BoundTo agentID agent conn label deleted \<Rightarrow>
                         pub (if deleted then [New ''session.updated'' sid [] [(''session_id'', VStr sid), (''agent_id'', VStr agentID),
                                (''connection_id'', VStr conn), (''notice'', VStr ''Agent profile deleted; using agent_b.'')]] else [])
                           (on_session sid (\<lambda>s. fst (ApplyAgentConfig agentID agent conn label s)) st)
                     | _ \<Rightarrow> st);
                   (prepared, tokens, estimated) = sePrepare env s text atts;
                   (st2, i) = next_message_id st1
               in (st2, Inr (zero_message\<lparr>mID := i, mRole := ''user'', mContent := text, mCategory := ''history'',
                     mAttachments := prepared, mTokens := tokens, mEstimated := estimated\<rparr>))))"

definition AddUserAttachments ::
  "sched_env \<Rightarrow> string \<Rightarrow> string \<Rightarrow> attachment list \<Rightarrow> sched \<Rightarrow> sched \<times> (string + message)" where
  "AddUserAttachments env sid text atts st =
     (case QueueUserAttachments env sid text atts st of
        (st1, Inl e) \<Rightarrow> (st1, Inl e)
      | (st1, Inr m) \<Rightarrow> (AppendUser env sid m st1, Inr m))"

section \<open>Starting a run\<close>

definition modelHost :: "sched_env \<Rightarrow> connection \<Rightarrow> string" where
  "modelHost env c =
     (let host = TrimSpace (cnBaseURL c) in case seUrlHost env host of Some h \<Rightarrow> h | None \<Rightarrow> host)"

definition priorRunLine :: "string \<Rightarrow> string \<Rightarrow> string \<Rightarrow> string" where
  "priorRunLine reason detail host =
     (if HasPrefix reason ''aborted_'' then ''The prior run ended because you stopped it.''
      else if reason = ''model_unreachable''
      then ''The prior run ended because the model server '' @ host @ '' could not be reached: '' @ TrimSpace detail
      else ''The prior run ended with '' @ replace_all ''_'' '' '' reason @ '': '' @ TrimSpace detail)"

definition note_prior_run :: "sched_env \<Rightarrow> queued_run \<Rightarrow> sched \<Rightarrow> sched" where
  "note_prior_run env entry st =
     (let prev = run_of (qS entry) st
      in if rsLastStopReason prev \<noteq> [] \<and> rsLastStopReason prev \<noteq> ''done'' then
           let host = (case Connection env (session_connection (qS entry) st) of
                         None \<Rightarrow> [] | Some c \<Rightarrow> modelHost env c);
               content = priorRunLine (rsLastStopReason prev) (rsLastStopDetail prev) host;
               (st1, i) = next_message_id st;
               m = zero_message\<lparr>mID := i, mRole := ''harness'', mCategory := ''history'', mContent := content,
                     mTokens := seTokens env (rune_count content), mEstimated := True\<rparr>
           in pub [New MessageAppended (qS entry) (qRunID entry) [(''message'', VMsg m)]]
                (on_session (qS entry) (Append m) st1)
         else st)"

definition startLocked :: "sched_env \<Rightarrow> queued_run \<Rightarrow> sched \<Rightarrow> sched" where
  "startLocked env entry st =
     (let sid = qS entry;
          st1 = (if mID (qUserMessage entry) \<noteq> [] then AppendUser env sid (qUserMessage entry) st else st);
          st2 = note_prior_run env entry st1;
          active = \<lparr>arSerial = scSerial st2, arCancelled = False, arStopReason = [], arRunID = qRunID entry,
                    arUserMessageID = qUserMessageID entry, arSource = qSource entry, arReturned = False\<rparr>;
          st3 = st2\<lparr>scActive := mput sid active (scActive st2), scSerial := Suc (scSerial st2)\<rparr>;
          st4 = set_run sid (zero_run\<lparr>rsStatus := ''running'', rsRunID := qRunID entry\<rparr>) st3;
          st5 = pub [New RunStarted sid (qRunID entry) [(''run_id'', VStr (qRunID entry)),
                  (''user_message_id'', VStr (qUserMessageID entry)),
                  (''backstops'', VObj [(''wall_clock_seconds'', VInt (seWallClock env))])]] st4
      in on_session sid ResetBoundaryHits st5)"

text \<open>The two loops of \<open>drainLocked\<close>, each over a list whose front was already passed over.\<close>

fun drain_resuming :: "sched_env \<Rightarrow> resume_waiter list \<Rightarrow> resume_waiter list \<Rightarrow> sched \<Rightarrow> sched" where
  "drain_resuming env passed [] st = st"
| "drain_resuming env passed (w # ws) st =
     (if registry_Get (rwSession w) st \<noteq> None \<and> \<not> admitLocked env (rwSession w) st
      then drain_resuming env (passed @ [w]) ws st
      else drain_resuming env passed ws
             (st\<lparr>scResuming := passed @ ws, scPaused := mdel (rwSession w) (scPaused st), scReady := scReady st @ [rwReady w]\<rparr>))"

fun drain_queue :: "sched_env \<Rightarrow> queued_run list \<Rightarrow> queued_run list \<Rightarrow> sched \<Rightarrow> sched" where
  "drain_queue env passed [] st = st"
| "drain_queue env passed (q # qs) st =
     (if runningLocked st \<ge> seMaxConcurrent env then st
      else if \<not> admitLocked env (qS q) st then drain_queue env (passed @ [q]) qs st
      else drain_queue env passed qs (startLocked env q (st\<lparr>scQueue := passed @ qs\<rparr>)))"

definition drainLocked :: "sched_env \<Rightarrow> sched \<Rightarrow> sched" where
  "drainLocked env st =
     (let st1 = drain_resuming env [] (scResuming st) st in drain_queue env [] (scQueue st1) st1)"

fun reposition_from :: "int \<Rightarrow> queued_run list \<Rightarrow> sched \<Rightarrow> sched" where
  "reposition_from n [] st = st"
| "reposition_from n (q # qs) st =
     reposition_from (n + 1) qs (set_run (qS q) ((run_of (qS q) st)\<lparr>rsQueuePosition := n\<rparr>) st)"

definition repositionLocked :: "sched \<Rightarrow> sched" where
  "repositionLocked st = reposition_from 1 (scQueue st) st"

section \<open>Pending messages\<close>

fun pending_position :: "nat \<Rightarrow> queued_run list \<Rightarrow> string \<Rightarrow> nat" where
  "pending_position i [] text = 0"
| "pending_position i (q # qs) text = (if mContent (qUserMessage q) = text then i + 1 else pending_position (Suc i) qs text)"

definition identicalPendingPosition :: "queued_run list \<Rightarrow> string \<Rightarrow> nat" where
  "identicalPendingPosition waiting text = pending_position 0 waiting text"

definition pending_of :: "string \<Rightarrow> sched \<Rightarrow> queued_run list" where
  "pending_of sid st = mget_or [] (scPending st) sid"

definition deliverPendingLocked :: "string \<Rightarrow> sched \<Rightarrow> sched \<times> queued_run list" where
  "deliverPendingLocked sid st =
     (case pending_of sid st of
        [] \<Rightarrow> (st, [])
      | first # rest \<Rightarrow>
          let waiting = first # rest;
              st1 = st\<lparr>scPending := mdel sid (scPending st)\<rparr>;
              ids = map qUserMessageID waiting;
              moved = (case mget (scSessions st1) (qS first) of None \<Rightarrow> [] | Some s \<Rightarrow> snd (MoveMessagesToEnd ids s));
              st2 = on_session (qS first) (\<lambda>s. SetQueuedMessages 0 (fst (MoveMessagesToEnd ids s))) st1;
              evs = concat (map (\<lambda>m.
                [New MessageRemoved sid [] [(''id'', VStr (mID m)), (''reason'', VStr ''queued_delivery'')],
                 New MessageAppended sid [] [(''message'', VMsg m)],
                 New MessageQueued sid [] [(''message_id'', VStr (mID m)), (''position'', VInt 0)]]) moved)
          in (pub evs st2, map (\<lambda>q. q\<lparr>qUserMessage := zero_message\<rparr>) waiting))"

definition returnPendingLocked :: "string \<Rightarrow> sched \<Rightarrow> sched \<times> queued_run list" where
  "returnPendingLocked sid st =
     (case pending_of sid st of
        [] \<Rightarrow> (st, [])
      | first # rest \<Rightarrow>
          let waiting = first # rest;
              st1 = st\<lparr>scPending := mdel sid (scPending st)\<rparr>;
              ids = map qUserMessageID waiting;
              removed = (case mget (scSessions st1) (qS first) of None \<Rightarrow> [] | Some s \<Rightarrow> snd (RemoveMessages ids s));
              st2 = on_session (qS first) (\<lambda>s. SetQueuedMessages 0 (fst (RemoveMessages ids s))) st1;
              evs = concat (map (\<lambda>m.
                [New MessageRemoved sid [] [(''id'', VStr (mID m)), (''reason'', VStr ''returned_to_composer'')],
                 New MessageQueued sid [] [(''message_id'', VStr (mID m)), (''position'', VInt 0)]]) removed)
          in (pub evs st2, waiting))"

text \<open>The messages of a restored chat that were queued, in their order; a message that is gone is dropped.
  The map \<open>known\<close> of the code keeps the last message of an id.\<close>

definition RestoreQueue :: "string \<Rightarrow> sched \<Rightarrow> sched \<times> nat" where
  "RestoreQueue sid st =
     (case mget (scSessions st) sid of
        None \<Rightarrow> (st, 0)
      | Some s \<Rightarrow>
          let ids = sQueuedMessageIDs s;
              known = fold (\<lambda>m k. mput (mID m) m k) (sMessages s) [];
              restored = List.map_filter (\<lambda>i. map_option (\<lambda>m. \<lparr>qS = sid, qRunID = [], qUserMessageID = i,
                  qUserMessage = m, qSource = []\<rparr>) (mget known i)) ids
          in if ids = [] \<or> restored = [] then (st, 0)
             else (on_session sid (\<lambda>s. SetRun ((sRun s)\<lparr>rsStatus := ''idle'', rsQueuePosition := int (length restored)\<rparr>)
                      (SetQueuedMessages (int (length restored)) s))
                     (st\<lparr>scPending := mput sid restored (scPending st)\<rparr>), length restored))"

record submit_result =
  srRunID :: string
  srQueued :: bool
  srPosition :: nat

definition append_pending :: "string \<Rightarrow> message \<Rightarrow> string \<Rightarrow> sched \<Rightarrow> sched" where
  "append_pending sid m source st =
     st\<lparr>scPending := mput sid (pending_of sid st @ [\<lparr>qS = sid, qRunID = [], qUserMessageID = mID m, qUserMessage = m,
        qSource = source\<rparr>]) (scPending st)\<rparr>"

text \<open>The three cases of \<open>submitAttachmentsFrom\<close> after \<open>BeginSubmission\<close>: the model is unreachable, the
  chat is busy, or a run is started or queued.\<close>

definition submit_held ::
  "sched_env \<Rightarrow> string \<Rightarrow> string \<Rightarrow> attachment list \<Rightarrow> string \<Rightarrow> sched \<Rightarrow> sched \<times> (string + submit_result)" where
  "submit_held env sid text atts source st =
     (let same = identicalPendingPosition (pending_of sid st) text
      in if same > 0 then (st, Inr \<lparr>srRunID = [], srQueued = True, srPosition = same\<rparr>)
         else case QueueUserAttachments env sid text atts st of
                (st1, Inl e) \<Rightarrow> (st1, Inl e)
              | (st1, Inr m) \<Rightarrow>
                  let st2 = append_pending sid m source (AppendUser env sid m st1);
                      position = length (pending_of sid st2);
                      st3 = on_session sid (\<lambda>s. SetRun ((sRun s)\<lparr>rsStatus := ''idle'', rsQueuePosition := int position\<rparr>)
                              (SetQueuedMessages (int position) s)) st2
                  in (pub [New MessageQueued sid [] [(''message_id'', VStr (mID m)), (''position'', VInt (int position)),
                        (''waiting_for'', VStr ''model'')]] st3,
                      Inr \<lparr>srRunID = [], srQueued = True, srPosition = position\<rparr>))"

definition submit_busy ::
  "sched_env \<Rightarrow> string \<Rightarrow> string \<Rightarrow> attachment list \<Rightarrow> string \<Rightarrow> sched \<Rightarrow> sched \<times> (string + submit_result)" where
  "submit_busy env sid text atts source st =
     (let same = identicalPendingPosition (pending_of sid st) text
      in if same > 0 then (st, Inr \<lparr>srRunID = [], srQueued = True, srPosition = same\<rparr>)
         else if seQueueDepth env > 0 \<and> int (length (pending_of sid st)) \<ge> seQueueDepth env then (st, Inl ''queue full'')
         else case QueueUserAttachments env sid text atts st of
                (st1, Inl e) \<Rightarrow> (st1, Inl e)
              | (st1, Inr m) \<Rightarrow>
                  let st2 = append_pending sid m source (AppendUser env sid m st1);
                      position = length (pending_of sid st2);
                      st3 = on_session sid (SetQueuedMessages (int position)) st2;
                      st4 = pub [New MessageQueued sid [] [(''message_id'', VStr (mID m)), (''position'', VInt (int position))]] st3;
                      st5 = (case mget (scActive st4) sid of
                          Some a \<Rightarrow> if arStopReason a \<noteq> [] then fst (returnPendingLocked sid st4) else st4
                        | None \<Rightarrow> st4)
                  in (st5, Inr \<lparr>srRunID = [], srQueued = True, srPosition = position\<rparr>))"

definition submit_run ::
  "sched_env \<Rightarrow> string \<Rightarrow> string \<Rightarrow> attachment list \<Rightarrow> string \<Rightarrow> sched \<Rightarrow> sched \<times> (string + submit_result)" where
  "submit_run env sid text atts source st =
     (let st0 = (if pending_of sid st \<noteq> [] then fst (returnPendingLocked sid st) else st)
      in case AddUserAttachments env sid text atts st0 of
           (st1, Inl e) \<Rightarrow> (st1, Inl e)
         | (st1, Inr m) \<Rightarrow>
             let (st2, runID) = next_run_id st1;
                 entry = \<lparr>qS = sid, qRunID = runID, qUserMessageID = mID m, qUserMessage = zero_message, qSource = source\<rparr>
             in if admitLocked env sid st2
                then (startLocked env entry st2, Inr \<lparr>srRunID = runID, srQueued = False, srPosition = 0\<rparr>)
                else let st3 = st2\<lparr>scQueue := scQueue st2 @ [entry]\<rparr>;
                         position = length (scQueue st3);
                         st4 = set_run sid (zero_run\<lparr>rsStatus := ''queued'', rsRunID := runID, rsQueuePosition := int position\<rparr>) st3
                     in (pub [New RunQueued sid runID (queuedDataLocked env sid runID (int position) st4)] st4,
                         Inr \<lparr>srRunID = runID, srQueued = True, srPosition = position\<rparr>))"

definition session_busy :: "string \<Rightarrow> sched \<Rightarrow> bool" where
  "session_busy sid st \<longleftrightarrow> mget (scActive st) sid \<noteq> None \<or>
     (case mget (scSessions st) sid of None \<Rightarrow> False | Some s \<Rightarrow> IsRunning s)"

definition submitAttachmentsFrom ::
  "sched_env \<Rightarrow> string \<Rightarrow> string \<Rightarrow> attachment list \<Rightarrow> string \<Rightarrow> bool \<Rightarrow> sched \<Rightarrow> sched \<times> (string + submit_result)" where
  "submitAttachmentsFrom env sid text atts source reopen st =
     (case registry_Get sid st of
        None \<Rightarrow> (st, Inl ''session not found'')
      | Some s \<Rightarrow>
          (case registry_BeginSubmission (seNetworkBoundary env) reopen s of
             Inl e \<Rightarrow> (st, Inl e)
           | Inr (s1, evs) \<Rightarrow>
               let st1 = pub evs (st\<lparr>scSessions := mput sid s1 (scSessions st)\<rparr>);
                   (st2, res) = (if mtrue (scUnreachable st1) sid then submit_held env sid text atts source st1
                                 else if session_busy sid st1 then submit_busy env sid text atts source st1
                                 else submit_run env sid text atts source st1)
               in (on_session sid EndSubmission st2, res)))"

section \<open>The end of a run\<close>

definition canonicalTerminalReason :: "string \<Rightarrow> string" where
  "canonicalTerminalReason reason =
     (if reason = ''done'' then ''done''
      else if reason = ''reply_empty_reasoning_shown'' then ''reply-empty-reasoning-shown''
      else if reason \<in> set [''aborted_mid_run'', ''aborted_mid_tool'', ''aborted_mid_model'', ''user_stop'', ''cancellation_requested'']
      then ''cancelled-by-operator''
      else if reason \<in> set [''wall_clock'', ''cron_timeout'', ''context_exhausted'', ''context_ceiling''] then ''limit''
      else if reason \<in> set [''model_error'', ''model_unreachable'', ''length'', ''malformed_turn'', ''announced_action_and_stopped'']
      then ''model-error''
      else if reason = ''tool_errors'' then ''tool-errors''
      else if reason = ''mailbox_stop'' then ''stopped-by-mailbox''
      else if reason = ''cycle'' then ''cycle''
      else if reason = ''reply_empty'' then ''reply-empty''
      else if reason = ''connection_not_runnable'' then ''connection-not-runnable''
      else if reason = ''workspace_not_runnable'' then ''workspace-not-runnable''
      else ''harness-error'')"

definition scheduledNoticeAnswer :: "string \<Rightarrow> string" where
  "scheduledNoticeAnswer content =
     (let lines = split_on (CHR 0x0A) (replace_all [CHR 0x0D, CHR 0x0A] [CHR 0x0A] content);
          answer = TrimSpace (join [CHR 0x0A] (take 2 lines))
      in if rune_count answer > 300 then take_runes 300 answer else answer)"

definition isLoopbackEndpoint :: "sched_env \<Rightarrow> string \<Rightarrow> bool" where
  "isLoopbackEndpoint env baseURL =
     (case seHostname env baseURL of
        None \<Rightarrow> False
      | Some h \<Rightarrow>
          let host = (if h = [] then baseURL else h)
          in if seToLower env host \<in> set [''localhost'', ''127.0.0.1'', ''::1'', ''[::1]''] then True
             else HasPrefix host ''127.'')"

definition modelClassLocked :: "sched_env \<Rightarrow> string \<Rightarrow> sched \<Rightarrow> string" where
  "modelClassLocked env sid st =
     (case registry_Get sid st of
        None \<Rightarrow> []
      | Some s \<Rightarrow>
          if sConnectionID s = [] then []
          else (case Connection env (sConnectionID s) of
                  None \<Rightarrow> []
                | Some c \<Rightarrow> if isLoopbackEndpoint env (cnBaseURL c) then ''local'' else ''remote''))"

definition scheduled_fields :: "string \<Rightarrow> string \<Rightarrow> session \<Rightarrow> (string \<times> val) list" where
  "scheduled_fields reason detail s =
     (let failure = (if detail \<noteq> [] then reason @ '' - '' @ detail else reason)
      in [(''scheduled_job'', VStr (sLabel s))] @
         (if reason \<noteq> ''done'' \<and> sScheduledFailure s \<noteq> [] \<and> sScheduledFailure s = failure
          then [(''notification_suppressed'', VBool True)] else []) @
         (if reason = ''done'' then
            (case find (\<lambda>m. mRole m = ''assistant'') (rev (sMessages s)) of
               None \<Rightarrow> []
             | Some m \<Rightarrow>
                 let silent = Contains (mContent m) ''[SILENT]''; answer = scheduledNoticeAnswer (mContent m)
                 in (''notification_suppressed'', VBool silent) #
                    (if answer \<noteq> [] \<and> \<not> silent then [(''scheduled_answer'', VStr answer)] else []))
          else []))"

definition run_stopped_data ::
  "sched_env \<Rightarrow> string \<Rightarrow> string \<Rightarrow> string \<Rightarrow> string \<Rightarrow> int \<Rightarrow> bool \<Rightarrow> sched \<Rightarrow> (string \<times> val) list" where
  "run_stopped_data env sid runID reason detail turns queueHeld st =
     (let class = modelClassLocked env sid st;
          data = [(''run_id'', VStr runID), (''reason'', VStr reason), (''terminal_reason'', VStr (canonicalTerminalReason reason)),
             (''detail'', VStr detail), (''turns'', VInt turns), (''queue_held'', VBool queueHeld)] @
             (case registry_Get sid st of
                Some s \<Rightarrow> if sOrigin s = ''scheduled'' then scheduled_fields reason detail s else []
              | None \<Rightarrow> []) @
             (if class \<noteq> [] then [(''model_class'', VStr class)] else []) @
             (if \<not> DeclaredStopReason reason then [(''stop_reason_declared'', VBool False)] else [])
      in mdel ''scheduled_answer'' (WithHuman RunStopped data))"

definition publishRunStoppedLocked ::
  "sched_env \<Rightarrow> string \<Rightarrow> string \<Rightarrow> string \<Rightarrow> string \<Rightarrow> int \<Rightarrow> bool \<Rightarrow> sched \<Rightarrow> sched" where
  "publishRunStoppedLocked env sid runID reason detail turns queueHeld st =
     (let key = nul_key sid runID
      in if mtrue (scStoppedRuns st) key then st
         else pub [New RunStopped sid runID (run_stopped_data env sid runID reason detail turns queueHeld st)]
                (st\<lparr>scStoppedRuns := mput key True (scStoppedRuns st)\<rparr>))"

definition forgetPausedLocked :: "string \<Rightarrow> sched \<Rightarrow> sched" where
  "forgetPausedLocked sid st =
     st\<lparr>scPaused := mdel sid (scPaused st), scResuming := remove_first (\<lambda>w. rwSession w = sid) (scResuming st)\<rparr>"

definition agent_of :: "string \<Rightarrow> sched \<Rightarrow> string" where
  "agent_of sid st = (case mget (scSessions st) sid of None \<Rightarrow> [] | Some s \<Rightarrow> sAgentID s)"

text \<open>The part of \<open>finish\<close> that turns waiting messages into the next run of the chat.\<close>

definition queue_delivered :: "string \<Rightarrow> active_run \<Rightarrow> sched \<Rightarrow> sched" where
  "queue_delivered sid active st =
     (if pending_of sid st \<noteq> [] \<and> \<not> mtrue (scUnreachable st) sid \<and> arStopReason active = [] then
        (case deliverPendingLocked sid st of
           (st1, []) \<Rightarrow> st1
         | (st1, first # rest) \<Rightarrow>
             let (st2, runID) = next_run_id st1;
                 nxt = first\<lparr>qRunID := runID\<rparr>;
                 st3 = set_run (qS nxt) (zero_run\<lparr>rsStatus := ''queued'', rsRunID := runID\<rparr>) st2
             in st3\<lparr>scQueue := scQueue st3 @ [nxt]\<rparr>)
      else st)"

definition finish :: "sched_env \<Rightarrow> queued_run \<Rightarrow> string \<Rightarrow> string \<Rightarrow> int \<Rightarrow> sched \<Rightarrow> sched" where
  "finish env entry reason0 detail turns st =
     (let sid = qS entry
      in case mget (scActive st) sid of
           None \<Rightarrow> st
         | Some active \<Rightarrow>
             if arRunID active \<noteq> [] \<and> arRunID active \<noteq> qRunID entry then st
             else let st1 = forgetPausedLocked sid (st\<lparr>scActive := mdel sid (scActive st)\<rparr>);
                      reason = (if arStopReason active \<noteq> [] then arStopReason active else reason0);
                      st2 = (if reason = ''model_unreachable''
                             then st1\<lparr>scUnreachable := mput sid True (scUnreachable st1)\<rparr> else st1);
                      st3 = queue_delivered sid active st2;
                      st4 = set_run sid (zero_run\<lparr>rsStatus := ''idle'', rsLastStopReason := reason, rsLastStopDetail := detail,
                              rsLastRunID := qRunID entry\<rparr>) st3;
                      st5 = publishRunStoppedLocked env sid (qRunID entry) reason detail turns False st4;
                      st6 = notifyAgentIdleLocked env (agent_of sid st5) st5
                  in repositionLocked (drainLocked env st6))"

text \<open>The goroutine of a run after \<open>Runner.Run\<close> returned: the cards refused on this run join the detail.\<close>

definition run_returned :: "sched_env \<Rightarrow> queued_run \<Rightarrow> string \<Rightarrow> string \<Rightarrow> int \<Rightarrow> sched \<Rightarrow> sched" where
  "run_returned env entry reason detail turns st =
     (let hits = (case mget (scSessions st) (qS entry) of None \<Rightarrow> [] | Some s \<Rightarrow> sBoundaryHits s);
          detail1 = (if hits \<noteq> [] then TrimSpace (detail @ [CHR 0x0A] @ join [CHR 0x0A] hits) else detail)
      in finish env entry reason detail1 turns st)"

section \<open>Stopping\<close>

text \<open>\<open>wrItem\<close>: whether the registry still knew the session when its run was stopped.\<close>

record wait_run =
  wrID :: string
  wrItem :: bool
  wrActive :: active_run
  wrReason :: string

definition itemRunID :: "session option \<Rightarrow> string" where
  "itemRunID item = (case item of None \<Rightarrow> [] | Some s \<Rightarrow> rsRunID (sRun s))"

definition stop_active :: "string \<Rightarrow> active_run \<Rightarrow> string \<Rightarrow> sched \<Rightarrow> sched \<times> wait_run" where
  "stop_active sid active requested st =
     (let reason = (if requested = [] then abortReason sid (arRunID active) (scBook st) else requested);
          active1 = active\<lparr>arStopReason := reason, arCancelled := True\<rparr>;
          st1 = st\<lparr>scActive := mput sid active1 (scActive st)\<rparr>;
          st2 = fst (returnPendingLocked sid st1);
          st3 = (case registry_Get sid st2 of
                   Some s \<Rightarrow> set_run sid ((sRun s)\<lparr>rsStatus := ''stopping''\<rparr>) st2 | None \<Rightarrow> st2);
          st4 = pub [New RunStopping sid (itemRunID (registry_Get sid st3)) [(''reason'', VStr reason)]] st3
      in (st4, \<lparr>wrID = sid, wrItem = (registry_Get sid st2 \<noteq> None), wrActive = active1, wrReason = reason\<rparr>))"

fun stop_actives :: "string list \<Rightarrow> string \<Rightarrow> sched \<Rightarrow> sched \<times> wait_run list" where
  "stop_actives [] requested st = (st, [])"
| "stop_actives (sid # sids) requested st =
     (case mget (scActive st) sid of
        None \<Rightarrow> stop_actives sids requested st
      | Some active \<Rightarrow>
          let (st1, w) = stop_active sid active requested st; (st2, ws) = stop_actives sids requested st1
          in (st2, w # ws))"

definition stop_queued :: "sched_env \<Rightarrow> string \<Rightarrow> queued_run \<Rightarrow> sched \<Rightarrow> sched" where
  "stop_queued env requested entry st =
     (let sid = qS entry;
          st1 = fst (returnPendingLocked sid st);
          reason = (if requested = [] then ''done'' else requested);
          st2 = pub [New RunStopping sid (qRunID entry) [(''reason'', VStr reason)]] st1;
          st3 = set_run sid (zero_run\<lparr>rsStatus := ''idle'', rsLastStopReason := reason,
                  rsLastStopDetail := ''stopped before dispatch'', rsLastRunID := qRunID entry\<rparr>) st2
      in publishRunStoppedLocked env sid (qRunID entry) reason ''stopped before dispatch'' 0 False st3)"

definition stopReason ::
  "sched_env \<Rightarrow> string \<Rightarrow> bool \<Rightarrow> string \<Rightarrow> sched \<Rightarrow> sched \<times> string list \<times> wait_run list" where
  "stopReason env sid everything requested st =
     (let mine = (\<lambda>i. everything \<or> i = sid);
          (st1, waits) = stop_actives (filter mine (keys (scActive st))) requested st;
          gone = filter (\<lambda>q. mine (qS q)) (scQueue st1);
          idleAgents = remdups (map (\<lambda>q. agent_of (qS q) st1) gone);
          st2 = fold (stop_queued env requested) gone st1;
          stopped1 = map wrID waits @ map qS gone;
          (st3, stopped) = (if \<not> everything \<and> mget (scActive st2) sid = None \<and> pending_of sid st2 \<noteq> []
                            then (fst (returnPendingLocked sid st2), stopped1 @ [sid]) else (st2, stopped1));
          st4 = repositionLocked (st3\<lparr>scQueue := filter (\<lambda>q. \<not> mine (qS q)) (scQueue st3)\<rparr>)
      in (fold (notifyAgentIdleLocked env) idleAgents st4, stopped, waits))"

definition forceFinish :: "sched_env \<Rightarrow> string \<Rightarrow> active_run \<Rightarrow> string \<Rightarrow> sched \<Rightarrow> sched" where
  "forceFinish env sid expected detail st =
     (case mget (scActive st) sid of
        None \<Rightarrow> st
      | Some active \<Rightarrow>
          if arSerial active \<noteq> arSerial expected then st
          else let st1 = forgetPausedLocked sid (st\<lparr>scActive := mdel sid (scActive st)\<rparr>)
               in case registry_Get sid st1 of
                    None \<Rightarrow> st1
                  | Some s \<Rightarrow>
                      let st2 = set_run sid (zero_run\<lparr>rsStatus := ''idle'', rsLastStopReason := arStopReason active,
                                  rsLastStopDetail := detail, rsLastRunID := arRunID active\<rparr>) st1;
                          st3 = publishRunStoppedLocked env sid (arRunID active) (arStopReason active) detail (rsTurn (sRun s)) False st2;
                          st4 = notifyAgentIdleLocked env (agent_of sid st3) st3
                      in repositionLocked (drainLocked env st4))"

text \<open>The branch of \<open>stopReason\<close> after the lock: a run that did not yield within the bound is recorded
  as aborted and finished without it; an id is taken only when the abort was not recorded before. \<open>None\<close> is the nil dereference of \<open>recordAbort\<close> when the registry
  had no session for the run. Parameters as in \<open>recordAbort\<close>.\<close>

definition stop_timed_out ::
  "sched_env \<Rightarrow> (string \<Rightarrow> string option) \<Rightarrow> (val \<Rightarrow> string) \<Rightarrow> wait_run \<Rightarrow> sched \<Rightarrow> sched option" where
  "stop_timed_out env partial_path encode w st =
     (let detail = abortDetail True
      in if \<not> wrItem w then None
         else case mget (scSessions st) (wrID w) of
           None \<Rightarrow> None
         | Some s \<Rightarrow>
             let (taken, mid) = next_message_id st;
                 ((book, s1), _, evs) = recordAbort partial_path encode (seTokens env) mid (arRunID (wrActive w)) (wrReason w) detail
                   (scBook st, s);
                 st1 = (if evs = [] then st else taken)
             in Some (forceFinish env (wrID w) (wrActive w) detail
                  (pub evs (st1\<lparr>scBook := book, scSessions := mput (wrID w) s1 (scSessions st1)\<rparr>))))"

section \<open>Boundaries, cards and reachability\<close>

definition returnActiveMessage :: "string \<Rightarrow> string \<Rightarrow> sched \<Rightarrow> sched \<times> bool" where
  "returnActiveMessage sid runID st =
     (case (mget (scActive st) sid, mget (scSessions st) sid) of
        (Some active, Some s) \<Rightarrow>
          if arRunID active \<noteq> runID \<or> arReturned active \<or> arSource active = ''phone'' \<or> sOrigin s = ''scheduled'' \<or>
             (sRole s \<noteq> [] \<and> sRole s \<noteq> ''b'') then (st, False)
          else
            let m = arUserMessageID active;
                st1 = pub [New RunStopping sid runID [(''reason'', VStr ''model failure'')],
                           New MessageQueued sid runID [(''message_id'', VStr m), (''position'', VInt 1)]]
                        (set_run sid ((sRun s)\<lparr>rsStatus := ''stopping''\<rparr>) st);
                removed = snd (RemoveMessages [m] s);
                st2 = on_session sid (\<lambda>s. SetQueuedMessageIDs [] (SetQueuedMessages 0 (fst (RemoveMessages [m]
                        (SetQueuedMessageIDs [m] (SetQueuedMessages 1 s)))))) st1
            in if removed = [] then (st2, False)
               else (pub [New MessageRemoved sid runID [(''id'', VStr m), (''reason'', VStr ''returned_to_composer'')],
                          New MessageQueued sid runID [(''message_id'', VStr m), (''position'', VInt 0)]]
                       (st2\<lparr>scActive := mput sid (active\<lparr>arReturned := True\<rparr>) (scActive st2)\<rparr>), True)
      | _ \<Rightarrow> (st, False))"

definition takeQueuedAtBoundary :: "string \<Rightarrow> string \<Rightarrow> sched \<Rightarrow> sched" where
  "takeQueuedAtBoundary sid runID st =
     (case mget (scActive st) sid of
        None \<Rightarrow> st
      | Some active \<Rightarrow>
          if arRunID active \<noteq> runID \<or> arStopReason active \<noteq> [] \<or> mtrue (scUnreachable st) sid then st
          else fst (deliverPendingLocked sid st))"

definition HoldModel :: "string \<Rightarrow> sched \<Rightarrow> sched" where
  "HoldModel sid st = st\<lparr>scUnreachable := mput sid True (scUnreachable st)\<rparr>"

definition release_session :: "sched_env \<Rightarrow> string \<Rightarrow> string \<Rightarrow> sched \<Rightarrow> sched" where
  "release_session env conn sid st =
     (if \<not> mtrue (scUnreachable st) sid then st
      else case registry_Get sid st of
             None \<Rightarrow> st
           | Some s \<Rightarrow>
               if sConnectionID s \<noteq> conn then st
               else let st1 = pub [New ModelReachable sid [] [(''connection_id'', VStr conn)]]
                                (st\<lparr>scUnreachable := mdel sid (scUnreachable st)\<rparr>)
                    in if pending_of sid st1 = [] \<or> mget (scActive st1) sid \<noteq> None then st1
                       else case deliverPendingLocked sid st1 of
                              (st2, []) \<Rightarrow> st2
                            | (st2, first # rest) \<Rightarrow>
                                let (st3, runID) = next_run_id st2; nxt = first\<lparr>qRunID := runID\<rparr>
                                in if admitLocked env sid st3 then startLocked env nxt st3
                                   else let st4 = st3\<lparr>scQueue := scQueue st3 @ [nxt]\<rparr>;
                                            position = int (length (scQueue st4));
                                            st5 = set_run sid (zero_run\<lparr>rsStatus := ''queued'', rsRunID := runID,
                                                    rsQueuePosition := position\<rparr>) st4
                                        in pub [New RunQueued sid runID (queuedDataLocked env sid runID position st5)] st5)"

definition ReleaseModel :: "sched_env \<Rightarrow> string \<Rightarrow> sched \<Rightarrow> sched" where
  "ReleaseModel env conn st = fold (release_session env conn) (keys (scUnreachable st)) st"

definition releaseForCard :: "sched_env \<Rightarrow> string \<Rightarrow> string \<Rightarrow> sched \<Rightarrow> sched" where
  "releaseForCard env sid runID st =
     (case mget (scActive st) sid of
        None \<Rightarrow> st
      | Some active \<Rightarrow>
          if arRunID active \<noteq> runID \<or> mtrue (scPaused st) sid then st
          else repositionLocked (drainLocked env (st\<lparr>scPaused := mput sid True (scPaused st)\<rparr>)))"

datatype reacquired =
    Proceeds
  | WaitsFor nat

text \<open>\<open>reacquireAfterCard\<close> up to its first unlock: the run goes on, or waits on a channel.\<close>

definition reacquireAfterCard :: "sched_env \<Rightarrow> string \<Rightarrow> string \<Rightarrow> sched \<Rightarrow> sched \<times> reacquired" where
  "reacquireAfterCard env sid runID st =
     (case mget (scActive st) sid of
        None \<Rightarrow> (st, Proceeds)
      | Some active \<Rightarrow>
          if arRunID active \<noteq> runID \<or> \<not> mtrue (scPaused st) sid then (st, Proceeds)
          else if registry_Get sid st = None \<or> (scResuming st = [] \<and> admitLocked env sid st)
          then (st\<lparr>scPaused := mdel sid (scPaused st)\<rparr>, Proceeds)
          else let ch = scSerial st;
                   st1 = st\<lparr>scResuming := scResuming st @ [\<lparr>rwSession = sid, rwReady = ch\<rparr>], scSerial := Suc ch\<rparr>;
                   st2 = drainLocked env st1
               in if ch \<in> set (scReady st2) then (st2, Proceeds)
                  else let position = int (length (scResuming st2));
                           st3 = set_run sid ((run_of sid st2)\<lparr>rsStatus := ''queued'', rsQueuePosition := position\<rparr>) st2
                       in (pub [New RunQueued sid runID
                             (queuedDataLocked env sid runID position st3 @ [(''resuming'', VBool True)])] st3, WaitsFor ch))"

definition resume_ready :: "string \<Rightarrow> string \<Rightarrow> nat \<Rightarrow> sched \<Rightarrow> sched option" where
  "resume_ready sid runID ch st =
     (if ch \<in> set (scReady st)
      then Some (pub [New RunResumed sid runID [(''run_id'', VStr runID)]]
             (set_run sid ((run_of sid st)\<lparr>rsStatus := ''running'', rsQueuePosition := 0\<rparr>) st))
      else None)"

definition resume_cancelled :: "nat \<Rightarrow> sched \<Rightarrow> sched" where
  "resume_cancelled ch st = st\<lparr>scResuming := remove_first (\<lambda>w. rwReady w = ch) (scResuming st)\<rparr>"

definition Active :: "string \<Rightarrow> sched \<Rightarrow> bool" where
  "Active sid st \<longleftrightarrow> mget (scActive st) sid \<noteq> None \<or> list_ex (\<lambda>q. qS q = sid) (scQueue st)"

section \<open>What admission depends on\<close>

text \<open>Two states that agree on the active and paused runs, the registry and the sessions' connections
  admit the same runs.\<close>

definition conn_map :: "sched \<Rightarrow> string \<Rightarrow> string option" where
  "conn_map st sid = map_option sConnectionID (mget (scSessions st) sid)"

definition same_admission :: "sched \<Rightarrow> sched \<Rightarrow> bool" where
  "same_admission st st' \<longleftrightarrow> scActive st' = scActive st \<and> scPaused st' = scPaused st \<and>
     scRegistry st' = scRegistry st \<and> conn_map st' = conn_map st"

definition serves :: "string \<Rightarrow> sched \<Rightarrow> string \<Rightarrow> bool" where
  "serves i st sid \<longleftrightarrow> \<not> mtrue (scPaused st) sid \<and> sid \<in> set (scRegistry st) \<and> conn_map st sid = Some i"

lemma serving_length: "length (serving i st) = length (filter (serves i st) (keys (scActive st)))"
proof -
  have "length (List.map_filter f xs) = length (filter (\<lambda>x. f x \<noteq> None) xs)" for f :: "string \<Rightarrow> session option" and xs
    by (induction xs) (auto simp: List.map_filter_simps)
  moreover have "serves i st = (\<lambda>sid. (if mtrue (scPaused st) sid then None
        else case registry_Get sid st of Some s \<Rightarrow> if sConnectionID s = i then Some s else None | None \<Rightarrow> None) \<noteq> None)"
    by (auto simp: fun_eq_iff serves_def conn_map_def registry_Get_def split: option.splits)
  ultimately show ?thesis by (simp add: serving_def)
qed

lemma session_connection_eq: "session_connection sid st = (case conn_map st sid of None \<Rightarrow> [] | Some c \<Rightarrow> c)"
  by (simp add: session_connection_def conn_map_def split: option.split)

definition conn_runs :: "string \<Rightarrow> sched \<Rightarrow> nat" where
  "conn_runs i st = length (filter (serves i st) (keys (scActive st)))"

lemma admit_iff:
  "admitLocked env sid st \<longleftrightarrow> runningLocked st < seMaxConcurrent env \<and>
     int (conn_runs (session_connection sid st) st) < connectionLimit env (session_connection sid st)"
  by (simp add: admitLocked_def connectionRunsLocked_def serving_length conn_runs_def)

lemma same_admission_refl [simp]: "same_admission st st"
  by (simp add: same_admission_def)

lemma same_admission_trans: "same_admission a b \<Longrightarrow> same_admission b c \<Longrightarrow> same_admission a c"
  by (simp add: same_admission_def)

lemma same_admission_simps:
  assumes "same_admission st st'"
  shows "runningLocked st' = runningLocked st" "serves i st' = serves i st" "session_connection sid st' = session_connection sid st"
    "scActive st' = scActive st" "scPaused st' = scPaused st" "scRegistry st' = scRegistry st" "conn_map st' = conn_map st"
  using assms by (simp_all add: same_admission_def runningLocked_def serves_def session_connection_eq fun_eq_iff)

section \<open>Frames\<close>

text \<open>What the helpers leave alone. \<open>quiet\<close>: the queues, the active and paused runs and the book-keeping of
  stopped runs are as they were, and no \<open>run.stopped\<close> was published.\<close>

definition stop_notes :: "string \<Rightarrow> string \<Rightarrow> bus_note list \<Rightarrow> nat" where
  "stop_notes s r evs = length (filter (\<lambda>e. nType e = RunStopped \<and> nSession e = s \<and> nRun e = r) evs)"

lemma stop_notes_append [simp]: "stop_notes s r (xs @ ys) = stop_notes s r xs + stop_notes s r ys"
  by (simp add: stop_notes_def)

definition quiet :: "sched \<Rightarrow> sched \<Rightarrow> bool" where
  "quiet st st' \<longleftrightarrow> scActive st' = scActive st \<and> scPaused st' = scPaused st \<and> scRegistry st' = scRegistry st \<and>
     scQueue st' = scQueue st \<and> scPending st' = scPending st \<and> scResuming st' = scResuming st \<and> scReady st' = scReady st \<and>
     scStoppedRuns st' = scStoppedRuns st \<and> scUnreachable st' = scUnreachable st \<and> scIds st' = scIds st \<and>
     set (keys (scSessions st')) = set (keys (scSessions st)) \<and>
     (\<forall>s r. stop_notes s r (scLog st') = stop_notes s r (scLog st))"

lemma quiet_refl [simp]: "quiet st st"
  by (simp add: quiet_def)

lemma quiet_trans: "quiet a b \<Longrightarrow> quiet b c \<Longrightarrow> quiet a c"
  by (simp add: quiet_def)

lemma quiet_pub: "list_all (\<lambda>e. nType e \<noteq> RunStopped) evs \<Longrightarrow> quiet st (pub evs st)"
proof -
  assume "list_all (\<lambda>e. nType e \<noteq> RunStopped) evs"
  then have "stop_notes s r evs = 0" for s r by (induction evs) (auto simp: stop_notes_def)
  then show ?thesis by (simp add: quiet_def pub_def)
qed

lemma keys_on_session [simp]: "set (keys (scSessions (on_session sid f st))) = set (keys (scSessions st))"
  using mget_in_keys [of "scSessions st" sid] by (auto simp: on_session_def insert_absorb split: option.split)

lemma quiet_on_session: "quiet st (on_session sid f st)"
  using keys_on_session [of sid f st] by (auto simp: quiet_def on_session_def split: option.split)

lemma quiet_set_run: "quiet st (set_run sid r st)"
  by (simp add: set_run_def quiet_on_session)

lemma conn_map_on_session: "(\<And>s. sConnectionID (f s) = sConnectionID s) \<Longrightarrow> conn_map (on_session sid f st) = conn_map st"
  by (auto simp: conn_map_def on_session_def fun_eq_iff split: option.split)

lemma conn_map_pub [simp]: "conn_map (pub evs st) = conn_map st"
  by (simp add: conn_map_def pub_def fun_eq_iff)

lemma conn_map_set_run [simp]: "conn_map (set_run sid r st) = conn_map st"
  by (simp add: set_run_def conn_map_on_session SetRun_def)

lemma quiet_next_message: "quiet st (fst (next_message_id st))"
  by (simp add: next_message_id_def quiet_def)

lemma conn_map_next_message [simp]: "conn_map (fst (next_message_id st)) = conn_map st"
  by (simp add: next_message_id_def conn_map_def fun_eq_iff)

lemma quiet_AppendUser: "quiet st (AppendUser env sid m st)"
  unfolding AppendUser_def Let_def
  by (auto intro!: quiet_trans [OF _ quiet_pub] quiet_trans [OF _ quiet_on_session] quiet_on_session split: option.split)

lemma conn_map_AppendUser [simp]: "conn_map (AppendUser env sid m st) = conn_map st"
  by (auto simp: AppendUser_def Let_def conn_map_on_session Append_def split: option.split)

lemma quiet_note_prior: "quiet st (note_prior_run env q st)"
  unfolding note_prior_run_def Let_def split_beta
  by (auto intro!: quiet_trans [OF _ quiet_pub] quiet_trans [OF _ quiet_on_session] quiet_next_message)

lemma conn_map_note_prior [simp]: "conn_map (note_prior_run env q st) = conn_map st"
  by (simp add: note_prior_run_def Let_def split_beta conn_map_on_session Append_def)

lemma same_admission_quiet: "quiet st st' \<Longrightarrow> conn_map st' = conn_map st \<Longrightarrow> same_admission st st'"
  by (simp add: quiet_def same_admission_def)

lemma quiet_reposition_from: "quiet st (reposition_from n qs st)"
  by (induction n qs st rule: reposition_from.induct) (auto intro: quiet_trans quiet_set_run)

lemma quiet_reposition: "quiet st (repositionLocked st)"
  by (simp add: repositionLocked_def quiet_reposition_from)

lemma quiet_notify: "quiet st (notifyAgentIdleLocked env a st)"
  by (simp add: notifyAgentIdleLocked_def quiet_def)

lemma conn_map_reposition [simp]: "conn_map (repositionLocked st) = conn_map st"
proof -
  have "conn_map (reposition_from n qs st) = conn_map st" for n qs st
    by (induction n qs st rule: reposition_from.induct) simp_all
  then show ?thesis by (simp add: repositionLocked_def)
qed

text \<open>What starting a run changes: it enters the active runs, and nothing else that matters here.\<close>

lemma startLocked_effect:
  "\<exists>a st1. quiet st st1 \<and> conn_map st1 = conn_map st \<and> arRunID a = qRunID q \<and> arStopReason a = [] \<and>
     quiet (st1\<lparr>scActive := mput (qS q) a (scActive st)\<rparr>) (startLocked env q st) \<and>
     conn_map (startLocked env q st) = conn_map st"
proof -
  let ?st1 = "if mID (qUserMessage q) \<noteq> [] then AppendUser env (qS q) (qUserMessage q) st else st"
  let ?st2 = "note_prior_run env q ?st1"
  let ?a = "\<lparr>arSerial = scSerial ?st2, arCancelled = False, arStopReason = [], arRunID = qRunID q,
      arUserMessageID = qUserMessageID q, arSource = qSource q, arReturned = False\<rparr>"
  have q2: "quiet st ?st2" "conn_map ?st2 = conn_map st"
    using quiet_trans [OF quiet_AppendUser quiet_note_prior] quiet_note_prior by simp_all
  have act: "scActive ?st2 = scActive st" using q2(1) by (simp add: quiet_def)
  have start: "quiet (?st2\<lparr>scActive := mput (qS q) ?a (scActive ?st2)\<rparr>) (startLocked env q st)"
    unfolding startLocked_def Let_def
    by (rule quiet_trans [OF _ quiet_on_session], rule quiet_trans [OF _ quiet_pub], rule quiet_trans [OF _ quiet_set_run])
       (simp_all add: quiet_def)
  have cm: "conn_map (st\<lparr>scActive := x, scSerial := n\<rparr>) = conn_map st" for st x n
    by (simp add: conn_map_def fun_eq_iff)
  have "conn_map (startLocked env q st) = conn_map st"
    by (simp add: startLocked_def Let_def conn_map_on_session ResetBoundaryHits_def cm)
  with q2 start act show ?thesis by (intro exI [of _ ?a] exI [of _ ?st2]) simp
qed

lemma startLocked_simps:
  "scPaused (startLocked env q st) = scPaused st" "scRegistry (startLocked env q st) = scRegistry st"
  "scQueue (startLocked env q st) = scQueue st" "scPending (startLocked env q st) = scPending st"
  "scResuming (startLocked env q st) = scResuming st" "conn_map (startLocked env q st) = conn_map st"
  "scStoppedRuns (startLocked env q st) = scStoppedRuns st" "scReady (startLocked env q st) = scReady st"
  "stop_notes s r (scLog (startLocked env q st)) = stop_notes s r (scLog st)"
  "\<exists>a. scActive (startLocked env q st) = mput (qS q) a (scActive st) \<and> arRunID a = qRunID q \<and> arStopReason a = []"
  using startLocked_effect [of st q env] by (auto simp: quiet_def)

lemma startLocked_keys [simp]:
  "fst ` set (scActive (startLocked env q st)) = insert (qS q) (fst ` set (scActive st))"
  using startLocked_simps(10) [of env q st] by (metis fst_set_mput)

section \<open>Counting\<close>

lemma keys_mput_list: "keys (mput k v m) = (if k \<in> set (keys m) then keys m else keys m @ [k])"
  by (rule AList.update_keys)

lemma filter_flip_le:
  "distinct xs \<Longrightarrow> (\<And>x. x \<noteq> k \<Longrightarrow> P x \<longleftrightarrow> Q x) \<Longrightarrow> length (filter P xs) \<le> length (filter Q xs) + (if P k then 1 else 0)"
proof (induction xs)
  case (Cons x xs)
  show ?case
  proof (cases "x = k")
    case True
    have "filter P xs = filter Q xs"
    proof (rule filter_cong [OF refl])
      fix y assume "y \<in> set xs"
      then have "y \<noteq> k" using Cons.prems(1) True by auto
      then show "P y = Q y" by (rule Cons.prems(2))
    qed
    then show ?thesis using True by simp
  qed (use Cons in auto)
qed simp

lemma filter_mono_le: "(\<And>x. x \<in> set xs \<Longrightarrow> P x \<Longrightarrow> Q x) \<Longrightarrow> length (filter P xs) \<le> length (filter Q xs)"
  by (induction xs) (auto simp: le_SucI)

lemma start_running:
  "runningLocked st \<le> runningLocked (startLocked env q st)" "runningLocked (startLocked env q st) \<le> runningLocked st + 1"
proof -
  obtain a where "scActive (startLocked env q st) = mput (qS q) a (scActive st)" using startLocked_simps(10) by blast
  then show "runningLocked st \<le> runningLocked (startLocked env q st)" "runningLocked (startLocked env q st) \<le> runningLocked st + 1"
    by (simp_all add: runningLocked_def keys_mput_list startLocked_simps)
qed

lemma start_serves: "serves i (startLocked env q st) = serves i st"
  by (simp add: serves_def startLocked_simps fun_eq_iff)

lemma start_conn_runs:
  "conn_runs i st \<le> conn_runs i (startLocked env q st)"
  "conn_runs i (startLocked env q st) \<le> conn_runs i st + (if serves i st (qS q) then 1 else 0)"
proof -
  obtain a where "scActive (startLocked env q st) = mput (qS q) a (scActive st)" using startLocked_simps(10) by blast
  then show "conn_runs i st \<le> conn_runs i (startLocked env q st)"
    "conn_runs i (startLocked env q st) \<le> conn_runs i st + (if serves i st (qS q) then 1 else 0)"
    by (simp_all add: conn_runs_def start_serves keys_mput_list)
qed

lemma start_connection: "session_connection sid (startLocked env q st) = session_connection sid st"
  by (simp add: session_connection_eq startLocked_simps)

text \<open>Taking a run out of the paused ones.\<close>

definition resumed :: "resume_waiter \<Rightarrow> resume_waiter list \<Rightarrow> sched \<Rightarrow> sched" where
  "resumed w ws st = st\<lparr>scResuming := ws, scPaused := mdel (rwSession w) (scPaused st), scReady := scReady st @ [rwReady w]\<rparr>"

lemma resumed_simps [simp]:
  "scActive (resumed w ws st) = scActive st" "scRegistry (resumed w ws st) = scRegistry st" "scQueue (resumed w ws st) = scQueue st"
  "scPending (resumed w ws st) = scPending st" "scStoppedRuns (resumed w ws st) = scStoppedRuns st" "scLog (resumed w ws st) = scLog st"
  "scResuming (resumed w ws st) = ws" "conn_map (resumed w ws st) = conn_map st" "scSessions (resumed w ws st) = scSessions st"
  by (simp_all add: resumed_def conn_map_def fun_eq_iff)

lemma resumed_paused: "scPaused (resumed w ws st) = mdel (rwSession w) (scPaused st)"
  by (simp add: resumed_def)

lemma resumed_running:
  "runningLocked st \<le> runningLocked (resumed w ws st)"
  "distinct (keys (scActive st)) \<Longrightarrow> runningLocked (resumed w ws st) \<le> runningLocked st + 1"
  "rwSession w \<notin> set (keys (scActive st)) \<Longrightarrow> runningLocked (resumed w ws st) = runningLocked st"
proof -
  show "runningLocked st \<le> runningLocked (resumed w ws st)"
    using filter_mono_le [of "keys (scActive st)" "\<lambda>sid. \<not> mtrue (scPaused st) sid" "\<lambda>sid. \<not> mtrue (mdel (rwSession w) (scPaused st)) sid"]
    by (simp add: runningLocked_def resumed_def)
  show "distinct (keys (scActive st)) \<Longrightarrow> runningLocked (resumed w ws st) \<le> runningLocked st + 1"
    using filter_flip_le [of "keys (scActive st)" "rwSession w" "\<lambda>sid. \<not> mtrue (mdel (rwSession w) (scPaused st)) sid"
        "\<lambda>sid. \<not> mtrue (scPaused st) sid"]
    by (simp add: runningLocked_def resumed_def)
  show "rwSession w \<notin> set (keys (scActive st)) \<Longrightarrow> runningLocked (resumed w ws st) = runningLocked st"
  proof -
    assume "rwSession w \<notin> set (keys (scActive st))"
    then have "filter (\<lambda>sid. \<not> mtrue (mdel (rwSession w) (scPaused st)) sid) (keys (scActive st)) =
        filter (\<lambda>sid. \<not> mtrue (scPaused st) sid) (keys (scActive st))" by (intro filter_cong [OF refl]) (metis mget_or_mdel)
    then show ?thesis by (simp only: runningLocked_def resumed_simps resumed_paused)
  qed
qed

lemma resumed_serves: "serves i st sid \<Longrightarrow> serves i (resumed w ws st) sid"
  "sid \<noteq> rwSession w \<Longrightarrow> serves i (resumed w ws st) sid = serves i st sid"
  by (simp_all add: serves_def) (simp_all add: resumed_def)

lemma resumed_conn_runs:
  "conn_runs i st \<le> conn_runs i (resumed w ws st)"
  "distinct (keys (scActive st)) \<Longrightarrow>
   conn_runs i (resumed w ws st) \<le> conn_runs i st + (if serves i (resumed w ws st) (rwSession w) then 1 else 0)"
proof -
  show "conn_runs i st \<le> conn_runs i (resumed w ws st)"
    using filter_mono_le [of "keys (scActive st)" "serves i st" "serves i (resumed w ws st)"] resumed_serves(1)
    by (simp add: conn_runs_def)
  show "distinct (keys (scActive st)) \<Longrightarrow>
     conn_runs i (resumed w ws st) \<le> conn_runs i st + (if serves i (resumed w ws st) (rwSession w) then 1 else 0)"
    using filter_flip_le [of "keys (scActive st)" "rwSession w" "serves i (resumed w ws st)" "serves i st"] resumed_serves(2)
    by (simp add: conn_runs_def)
qed

lemma resumed_connection: "session_connection sid (resumed w ws st) = session_connection sid st"
  by (simp add: session_connection_eq)

text \<open>Serving more runs never makes another run admissible.\<close>

lemma admit_antimono:
  assumes "admitLocked env sid st'" "runningLocked st \<le> runningLocked st'" "\<And>i. conn_runs i st \<le> conn_runs i st'"
    "session_connection sid st' = session_connection sid st"
  shows "admitLocked env sid st"
  using assms(1,2,4) assms(3) [of "session_connection sid st"] by (simp add: admit_iff)

lemma admit_start: "admitLocked env sid (startLocked env q st) \<Longrightarrow> admitLocked env sid st"
  by (erule admit_antimono) (simp_all add: start_running start_conn_runs start_connection)

lemma admit_resumed: "admitLocked env sid (resumed w ws st) \<Longrightarrow> admitLocked env sid st"
  by (erule admit_antimono) (simp_all add: resumed_running resumed_conn_runs resumed_connection)

lemma same_admission_admit:
  "same_admission st st' \<Longrightarrow> conn_runs i st' = conn_runs i st"
  "same_admission st st' \<Longrightarrow> admitLocked env sid st' = admitLocked env sid st"
  using same_admission_simps [of st st'] by (simp_all only: admit_iff conn_runs_def)

lemma same_admission_queue: "same_admission st (st\<lparr>scQueue := qs\<rparr>)"
  by (simp add: same_admission_def conn_map_def fun_eq_iff)

lemmas queue_field_simps =
  same_admission_simps [OF same_admission_queue] same_admission_admit [OF same_admission_queue]

lemma drain_resuming_unfold:
  "drain_resuming env passed (w # ws) st =
     (if registry_Get (rwSession w) st \<noteq> None \<and> \<not> admitLocked env (rwSession w) st
      then drain_resuming env (passed @ [w]) ws st else drain_resuming env passed ws (resumed w (passed @ ws) st))"
  by (simp add: resumed_def)

declare drain_resuming.simps(2) [simp del]

section \<open>Draining\<close>

definition blocked :: "sched_env \<Rightarrow> string \<Rightarrow> sched \<Rightarrow> bool" where
  "blocked env sid st \<longleftrightarrow> \<not> admitLocked env sid st"

definition known :: "sched \<Rightarrow> bool" where
  "known st \<longleftrightarrow> distinct (keys (scActive st)) \<and> set (keys (scActive st)) \<subseteq> set (scRegistry st) \<and>
     (\<forall>sid \<in> set (scRegistry st). mget (scSessions st) sid \<noteq> None)"

lemma registry_Get_None: "known st \<Longrightarrow> registry_Get sid st = None \<longleftrightarrow> sid \<notin> set (scRegistry st)"
  by (auto simp: known_def registry_Get_def)

lemma known_resumed: "known st \<Longrightarrow> known (resumed w ws st)"
  by (simp add: known_def)

lemma registry_Get_resumed: "registry_Get sid (resumed w ws st) = registry_Get sid st"
  by (simp add: registry_Get_def)

text \<open>One waiter that is let through: the global and the connection's limit hold unless the registry does
  not know the session, and then no active run changes.\<close>

lemma resume_bounds:
  assumes "known st" "registry_Get (rwSession w) st = None \<or> admitLocked env (rwSession w) st"
  shows "runningLocked (resumed w ws st) \<le> max (runningLocked st) (seMaxConcurrent env)"
    "int (conn_runs i (resumed w ws st)) \<le> max (int (conn_runs i st)) (connectionLimit env i)"
proof -
  have d: "distinct (keys (scActive st))" using assms(1) by (simp add: known_def)
  have unk: "rwSession w \<notin> set (keys (scActive st)) \<and> \<not> serves i (resumed w ws st) (rwSession w)"
    if "registry_Get (rwSession w) st = None"
    using that assms(1) registry_Get_None [OF assms(1)] unfolding known_def serves_def by auto
  show "runningLocked (resumed w ws st) \<le> max (runningLocked st) (seMaxConcurrent env)"
    using assms(2) unk resumed_running(2) [OF d, of w ws] resumed_running(3) [of w st ws] by (auto simp: admit_iff)
  show "int (conn_runs i (resumed w ws st)) \<le> max (int (conn_runs i st)) (connectionLimit env i)"
  proof (cases "serves i (resumed w ws st) (rwSession w)")
    case True
    then have "session_connection (rwSession w) st = i" by (simp add: serves_def session_connection_eq)
    moreover have "admitLocked env (rwSession w) st" using True unk assms(2) by auto
    ultimately show ?thesis using resumed_conn_runs(2) [OF d, of i w ws] True by (simp add: admit_iff)
  qed (use resumed_conn_runs(2) [OF d, of i w ws] in simp)
qed

lemma drain_resuming_frame:
  "scActive (drain_resuming env passed ws st) = scActive st \<and> scRegistry (drain_resuming env passed ws st) = scRegistry st \<and>
   scQueue (drain_resuming env passed ws st) = scQueue st \<and> scPending (drain_resuming env passed ws st) = scPending st \<and>
   scStoppedRuns (drain_resuming env passed ws st) = scStoppedRuns st \<and> scLog (drain_resuming env passed ws st) = scLog st \<and>
   scSessions (drain_resuming env passed ws st) = scSessions st \<and> conn_map (drain_resuming env passed ws st) = conn_map st"
proof (induction ws arbitrary: passed st)
  case (Cons w ws)
  then show ?case by (simp add: drain_resuming_unfold)
qed simp

lemma drain_resuming_bounds:
  "known st \<Longrightarrow>
   runningLocked (drain_resuming env passed ws st) \<le> max (runningLocked st) (seMaxConcurrent env) \<and>
   int (conn_runs i (drain_resuming env passed ws st)) \<le> max (int (conn_runs i st)) (connectionLimit env i)"
proof (induction ws arbitrary: passed st)
  case (Cons w ws)
  show ?case
  proof (cases "registry_Get (rwSession w) st \<noteq> None \<and> \<not> admitLocked env (rwSession w) st")
    case True
    then show ?thesis using Cons by (simp add: drain_resuming_unfold)
  next
    case False
    then have "registry_Get (rwSession w) st = None \<or> admitLocked env (rwSession w) st" by blast
    note b = resume_bounds(1) [OF Cons.prems this, where ws = "passed @ ws"]
      resume_bounds(2) [OF Cons.prems this, where ws = "passed @ ws" and i = i]
    show ?thesis using Cons.IH [OF known_resumed [OF Cons.prems], of passed w "passed @ ws"] b False
      by (auto simp: drain_resuming_unfold)
  qed
qed simp

lemma drain_resuming_blocked:
  assumes "scResuming st = passed @ ws" "\<forall>w \<in> set passed. registry_Get (rwSession w) st \<noteq> None \<and> blocked env (rwSession w) st"
    "st' = drain_resuming env passed ws st"
  shows "(\<forall>w \<in> set (scResuming st'). registry_Get (rwSession w) st' \<noteq> None \<and> blocked env (rwSession w) st')"
  using assms
proof (induction ws arbitrary: passed st)
  case (Cons w ws)
  show ?case
  proof (cases "registry_Get (rwSession w) st \<noteq> None \<and> \<not> admitLocked env (rwSession w) st")
    case True
    show ?thesis
      by (rule Cons.IH [of st "passed @ [w]"]) (use Cons.prems True in \<open>auto simp: drain_resuming_unfold blocked_def\<close>)
  next
    case False
    show ?thesis
      by (rule Cons.IH [of "resumed w (passed @ ws) st" passed])
         (use Cons.prems False admit_resumed in \<open>auto simp: drain_resuming_unfold blocked_def registry_Get_resumed\<close>)
  qed
qed simp

lemma known_start: "known st \<Longrightarrow> qS q \<in> set (scRegistry st) \<Longrightarrow> known (startLocked env q st)"
proof -
  assume k: "known st" and q: "qS q \<in> set (scRegistry st)"
  obtain a where a: "scActive (startLocked env q st) = mput (qS q) a (scActive st)" using startLocked_simps(10) by blast
  have "mget (scSessions (startLocked env q st)) sid \<noteq> None" if "mget (scSessions st) sid \<noteq> None" for sid
    using fun_cong [OF startLocked_simps(6), of env q st sid] that by (auto simp: conn_map_def)
  then show ?thesis using k q a by (auto simp: known_def startLocked_simps)
qed

lemma start_bounds:
  assumes "admitLocked env (qS q) st"
  shows "runningLocked (startLocked env q st) \<le> max (runningLocked st) (seMaxConcurrent env)"
    "int (conn_runs i (startLocked env q st)) \<le> max (int (conn_runs i st)) (connectionLimit env i)"
proof -
  show "runningLocked (startLocked env q st) \<le> max (runningLocked st) (seMaxConcurrent env)"
    using assms start_running(2) [of env q st] by (simp add: admit_iff)
  show "int (conn_runs i (startLocked env q st)) \<le> max (int (conn_runs i st)) (connectionLimit env i)"
  proof (cases "serves i st (qS q)")
    case True
    then have "session_connection (qS q) st = i" by (simp add: serves_def session_connection_eq)
    then show ?thesis using assms start_conn_runs(2) [of i env q st] True by (simp add: admit_iff)
  qed (use start_conn_runs(2) [of i env q st] in simp)
qed

lemma drain_queue_inv:
  assumes "known st" "scQueue st = passed @ qs" "\<forall>q \<in> set (scQueue st). qS q \<in> set (scRegistry st)"
    "st' = drain_queue env passed qs st"
  shows "known st' \<and> runningLocked st' \<le> max (runningLocked st) (seMaxConcurrent env) \<and>
    int (conn_runs i st') \<le> max (int (conn_runs i st)) (connectionLimit env i) \<and>
    scRegistry st' = scRegistry st \<and> scPending st' = scPending st \<and> scStoppedRuns st' = scStoppedRuns st \<and>
    stop_notes s r (scLog st') = stop_notes s r (scLog st) \<and> scResuming st' = scResuming st \<and> scPaused st' = scPaused st \<and>
    set (scQueue st') \<subseteq> set (scQueue st)"
  using assms
proof (induction qs arbitrary: passed st)
  case (Cons q qs)
  let ?st1 = "st\<lparr>scQueue := passed @ qs\<rparr>"
  show ?case
  proof (cases "runningLocked st \<ge> seMaxConcurrent env")
    case True
    then show ?thesis using Cons.prems by simp
  next
    case False
    show ?thesis
    proof (cases "admitLocked env (qS q) st")
      case True
      have k: "known (startLocked env q ?st1)" by (rule known_start) (use Cons.prems in \<open>auto simp: known_def\<close>)
      have ad: "admitLocked env (qS q) ?st1" using True by (simp add: queue_field_simps)
      have qf: "runningLocked ?st1 = runningLocked st" "conn_runs i ?st1 = conn_runs i st" by (simp_all add: queue_field_simps)
      note b = start_bounds(1) [OF ad] start_bounds(2) [OF ad, of i]
      have "known st' \<and> runningLocked st' \<le> max (runningLocked (startLocked env q ?st1)) (seMaxConcurrent env) \<and>
        int (conn_runs i st') \<le> max (int (conn_runs i (startLocked env q ?st1))) (connectionLimit env i) \<and>
        scRegistry st' = scRegistry (startLocked env q ?st1) \<and> scPending st' = scPending (startLocked env q ?st1) \<and>
        scStoppedRuns st' = scStoppedRuns (startLocked env q ?st1) \<and>
        stop_notes s r (scLog st') = stop_notes s r (scLog (startLocked env q ?st1)) \<and>
        scResuming st' = scResuming (startLocked env q ?st1) \<and> scPaused st' = scPaused (startLocked env q ?st1) \<and>
        set (scQueue st') \<subseteq> set (scQueue (startLocked env q ?st1))"
        by (rule Cons.IH [OF k]) (use Cons.prems True False in \<open>auto simp: startLocked_simps\<close>)
      with b qf show ?thesis using Cons.prems(2) by (auto simp: startLocked_simps)
    next
      case F2: False
      show ?thesis by (rule Cons.IH [OF Cons.prems(1), of "passed @ [q]"]) (use Cons.prems False F2 in auto)
    qed
  qed
qed simp

lemma drain_queue_blocked:
  assumes "scQueue st = passed @ qs" "\<forall>q \<in> set passed. blocked env (qS q) st" "st' = drain_queue env passed qs st"
  shows "(\<forall>q \<in> set (scQueue st'). blocked env (qS q) st') \<and> (\<forall>sid. blocked env sid st \<longrightarrow> blocked env sid st')"
  using assms
proof (induction qs arbitrary: passed st)
  case (Cons q qs)
  let ?st1 = "st\<lparr>scQueue := passed @ qs\<rparr>"
  consider (full) "runningLocked st \<ge> seMaxConcurrent env" | (no) "\<not> runningLocked st \<ge> seMaxConcurrent env" "\<not> admitLocked env (qS q) st"
    | (yes) "\<not> runningLocked st \<ge> seMaxConcurrent env" "admitLocked env (qS q) st" by blast
  then show ?case
  proof cases
    case full
    then have "blocked env sid st" for sid by (simp add: blocked_def admit_iff)
    with full Cons.prems(3) show ?thesis by simp
  next
    case no
    show ?thesis by (rule Cons.IH [of st "passed @ [q]"]) (use Cons.prems no in \<open>auto simp: blocked_def\<close>)
  next
    case yes
    have mono: "blocked env sid st \<Longrightarrow> blocked env sid (startLocked env q ?st1)" for sid
      using admit_start [of env sid q ?st1] by (auto simp: blocked_def queue_field_simps)
    have "(\<forall>q \<in> set (scQueue st'). blocked env (qS q) st') \<and>
        (\<forall>sid. blocked env sid (startLocked env q ?st1) \<longrightarrow> blocked env sid st')"
      by (rule Cons.IH [of _ passed]) (use Cons.prems yes mono in \<open>auto simp: startLocked_simps\<close>)
    with mono show ?thesis by blast
  qed
qed simp

section \<open>The invariant\<close>

definition sched_inv :: "sched_env \<Rightarrow> sched \<Rightarrow> bool" where
  "sched_inv env st \<longleftrightarrow> known st \<and> (\<forall>q \<in> set (scQueue st). qS q \<in> set (scRegistry st)) \<and>
     (\<forall>sid. \<forall>q \<in> set (pending_of sid st). qS q = sid) \<and>
     runningLocked st \<le> max 0 (seMaxConcurrent env) \<and>
     (\<forall>s r. stop_notes s r (scLog st) \<le> (if mtrue (scStoppedRuns st) (nul_key s r) then 1 else 0))"

lemma session_exists: "mget (scSessions st) sid \<noteq> None \<longleftrightarrow> sid \<in> set (keys (scSessions st))"
  using mget_eq_None [of "scSessions st" sid] by simp

lemma inv_quiet: "sched_inv env st \<Longrightarrow> quiet st st' \<Longrightarrow> sched_inv env st'"
  unfolding sched_inv_def quiet_def known_def pending_of_def runningLocked_def session_exists by simp

text \<open>Fields the invariant does not read.\<close>

lemma inv_fields [simp]:
  "sched_inv env (st\<lparr>scUnreachable := a\<rparr>) = sched_inv env st" "sched_inv env (st\<lparr>scIds := b\<rparr>) = sched_inv env st"
  "sched_inv env (st\<lparr>scSerial := c\<rparr>) = sched_inv env st" "sched_inv env (st\<lparr>scMessageIds := d\<rparr>) = sched_inv env st"
  "sched_inv env (st\<lparr>scBook := e\<rparr>) = sched_inv env st" "sched_inv env (st\<lparr>scReady := f\<rparr>) = sched_inv env st"
  "sched_inv env (st\<lparr>scIdle := g\<rparr>) = sched_inv env st" "sched_inv env (st\<lparr>scResuming := h\<rparr>) = sched_inv env st"
  by (simp_all add: sched_inv_def known_def pending_of_def runningLocked_def)

lemma inv_pub: "sched_inv env st \<Longrightarrow> list_all (\<lambda>e. nType e \<noteq> RunStopped) evs \<Longrightarrow> sched_inv env (pub evs st)"
  by (rule inv_quiet [OF _ quiet_pub])

lemma inv_on_session: "sched_inv env st \<Longrightarrow> sched_inv env (on_session sid f st)"
  by (rule inv_quiet [OF _ quiet_on_session])

lemma inv_set_run: "sched_inv env st \<Longrightarrow> sched_inv env (set_run sid r st)"
  by (rule inv_quiet [OF _ quiet_set_run])

lemma inv_AppendUser: "sched_inv env st \<Longrightarrow> sched_inv env (AppendUser e sid m st)"
  by (rule inv_quiet [OF _ quiet_AppendUser])

lemma inv_reposition: "sched_inv env st \<Longrightarrow> sched_inv env (repositionLocked st)"
  by (rule inv_quiet [OF _ quiet_reposition])

lemma inv_notify: "sched_inv env st \<Longrightarrow> sched_inv env (notifyAgentIdleLocked e a st)"
  by (rule inv_quiet [OF _ quiet_notify])

lemma inv_next_run: "sched_inv env st \<Longrightarrow> sched_inv env (fst (next_run_id st))"
  by (simp add: next_run_id_def)

lemma inv_pending:
  "sched_inv env st \<Longrightarrow> \<forall>q \<in> set qs. qS q = sid \<Longrightarrow> sched_inv env (st\<lparr>scPending := mput sid qs (scPending st)\<rparr>)"
  "sched_inv env st \<Longrightarrow> sched_inv env (st\<lparr>scPending := mdel sid (scPending st)\<rparr>)"
  by (auto simp: sched_inv_def known_def pending_of_def runningLocked_def)

lemma inv_enqueue: "sched_inv env st \<Longrightarrow> qS q \<in> set (scRegistry st) \<Longrightarrow> sched_inv env (st\<lparr>scQueue := scQueue st @ [q]\<rparr>)"
  by (auto simp: sched_inv_def known_def pending_of_def runningLocked_def)

lemma inv_queue_subset: "sched_inv env st \<Longrightarrow> set qs \<subseteq> set (scQueue st) \<Longrightarrow> sched_inv env (st\<lparr>scQueue := qs\<rparr>)"
  by (auto simp: sched_inv_def known_def pending_of_def runningLocked_def)

lemma inv_start:
  assumes "sched_inv env st" "admitLocked env (qS q) st" "qS q \<in> set (scRegistry st)"
  shows "sched_inv env (startLocked env q st)"
proof -
  have "known (startLocked env q st)" using assms by (intro known_start) (auto simp: sched_inv_def)
  moreover have "runningLocked (startLocked env q st) \<le> max 0 (seMaxConcurrent env)"
    using start_bounds(1) [OF assms(2)] assms(1) by (auto simp: sched_inv_def)
  ultimately show ?thesis using assms(1) by (simp add: sched_inv_def startLocked_simps pending_of_def)
qed

lemma inv_drain:
  assumes "sched_inv env st"
  shows "sched_inv env (drainLocked env st)"
proof -
  let ?st1 = "drain_resuming env [] (scResuming st) st"
  have k: "known st" using assms by (simp add: sched_inv_def)
  note f = drain_resuming_frame [of env "[]" "scResuming st" st]
  have k1: "known ?st1" using k f by (simp add: known_def)
  have "runningLocked ?st1 \<le> max (runningLocked st) (seMaxConcurrent env)"
    using drain_resuming_bounds [OF k] by blast
  then have "runningLocked ?st1 \<le> max 0 (seMaxConcurrent env)"
    using assms by (auto simp: sched_inv_def max_def split: if_splits)
  then have inv1: "sched_inv env ?st1"
    using assms f k1 by (auto simp: sched_inv_def pending_of_def)
  have *: "known (drainLocked env st) \<and> runningLocked (drainLocked env st) \<le> max (runningLocked ?st1) (seMaxConcurrent env) \<and>
    scRegistry (drainLocked env st) = scRegistry ?st1 \<and> scPending (drainLocked env st) = scPending ?st1 \<and>
    scStoppedRuns (drainLocked env st) = scStoppedRuns ?st1 \<and>
    stop_notes s r (scLog (drainLocked env st)) = stop_notes s r (scLog ?st1) \<and>
    set (scQueue (drainLocked env st)) \<subseteq> set (scQueue ?st1)" for s r
    using drain_queue_inv [OF k1, of "[]" "scQueue ?st1" "drainLocked env st" env] inv1
    by (simp add: drainLocked_def Let_def sched_inv_def)
  have "runningLocked ?st1 \<le> max 0 (seMaxConcurrent env)" using inv1 by (simp add: sched_inv_def)
  then have "runningLocked (drainLocked env st) \<le> max 0 (seMaxConcurrent env)"
    using conjunct1 [OF conjunct2 [OF * [of "[]" "[]"]]] by (simp add: max_def split: if_splits)
  then show ?thesis using inv1 * unfolding sched_inv_def pending_of_def by auto
qed

lemma keys_mdel_list: "keys (mdel k m) = filter (\<lambda>j. j \<noteq> k) (keys m)"
  by (induction m) auto

lemma inv_end_active:
  assumes "sched_inv env st"
  shows "sched_inv env (forgetPausedLocked sid (st\<lparr>scActive := mdel sid (scActive st)\<rparr>))"
proof -
  have keys: "keys (mdel sid (scActive st)) = filter (\<lambda>k. k \<noteq> sid) (keys (scActive st))"
    by (simp add: keys_mdel_list)
  have "length (filter (\<lambda>k. \<not> mtrue (mdel sid (scPaused st)) k) (keys (mdel sid (scActive st)))) \<le>
      length (filter (\<lambda>k. \<not> mtrue (scPaused st) k) (keys (scActive st)))"
    unfolding keys filter_filter by (rule filter_mono_le) auto
  then show ?thesis using assms
    by (auto simp: sched_inv_def forgetPausedLocked_def known_def pending_of_def runningLocked_def)
qed

lemma inv_update_active:
  assumes "sched_inv env st" "mget (scActive st) sid \<noteq> None"
  shows "sched_inv env (st\<lparr>scActive := mput sid a (scActive st)\<rparr>)"
proof -
  have "sid \<in> set (keys (scActive st))" using assms(2) by (metis mget_eq_None)
  then have "keys (mput sid a (scActive st)) = keys (scActive st)" by (simp only: keys_mput_list if_True)
  then show ?thesis using assms(1)
    unfolding sched_inv_def known_def pending_of_def runningLocked_def by simp
qed

lemma inv_pause:
  assumes "sched_inv env st"
  shows "sched_inv env (st\<lparr>scPaused := mput sid True (scPaused st)\<rparr>)"
proof -
  have "length (filter (\<lambda>k. \<not> mtrue (mput sid True (scPaused st)) k) (keys (scActive st))) \<le>
      length (filter (\<lambda>k. \<not> mtrue (scPaused st) k) (keys (scActive st)))"
    by (rule filter_mono_le) (auto split: if_splits)
  then show ?thesis using assms by (auto simp: sched_inv_def known_def pending_of_def runningLocked_def)
qed

lemma inv_unpause:
  assumes "sched_inv env st" "registry_Get sid st = None \<or> admitLocked env sid st"
  shows "sched_inv env (st\<lparr>scPaused := mdel sid (scPaused st)\<rparr>)"
proof -
  let ?w = "\<lparr>rwSession = sid, rwReady = 0\<rparr>"
  have k: "known st" using assms(1) by (simp add: sched_inv_def)
  have "runningLocked (resumed ?w (scResuming st) st) \<le> max (runningLocked st) (seMaxConcurrent env)"
    by (rule resume_bounds(1) [OF k]) (use assms(2) in simp)
  moreover have "runningLocked (resumed ?w (scResuming st) st) = runningLocked (st\<lparr>scPaused := mdel sid (scPaused st)\<rparr>)"
    by (simp add: runningLocked_def resumed_def)
  ultimately show ?thesis using assms(1) by (auto simp: sched_inv_def known_def pending_of_def)
qed

lemma inv_publish_stopped:
  assumes "sched_inv env st"
  shows "sched_inv env (publishRunStoppedLocked e sid r reason detail turns held st)"
proof (cases "mtrue (scStoppedRuns st) (nul_key sid r)")
  case False
  let ?data = "run_stopped_data e sid r reason detail turns held st"
  have "stop_notes sid r (scLog st) \<le> (if mtrue (scStoppedRuns st) (nul_key sid r) then 1 else 0)"
    using assms by (simp only: sched_inv_def)
  with False have zero: "stop_notes sid r (scLog st) = 0" by simp
  have "stop_notes s q (scLog st @ [New RunStopped sid r ?data]) \<le>
      (if mtrue (mput (nul_key sid r) True (scStoppedRuns st)) (nul_key s q) then 1 else 0)" for s q
  proof (cases "s = sid \<and> q = r")
    case True
    with zero show ?thesis by (simp add: stop_notes_def)
  next
    case False
    then have "stop_notes s q [New RunStopped sid r ?data] = 0" by (auto simp: stop_notes_def)
    moreover have "stop_notes s q (scLog st) \<le> (if mtrue (scStoppedRuns st) (nul_key s q) then 1 else 0)"
      using assms by (simp only: sched_inv_def)
    ultimately show ?thesis by (auto split: if_splits)
  qed
  then show ?thesis using assms False
    unfolding sched_inv_def publishRunStoppedLocked_def Let_def pub_def known_def pending_of_def runningLocked_def by simp
qed (use assms in \<open>simp add: publishRunStoppedLocked_def Let_def\<close>)


text \<open>Delivering and returning the waiting messages of a chat.\<close>

lemma no_stop_concat:
  "(\<And>m. m \<in> set ms \<Longrightarrow> list_all P (f m)) \<Longrightarrow> list_all P (concat (map f ms))"
  by (auto simp: list_all_iff)

lemma quiet_deliver: "quiet (st\<lparr>scPending := mdel sid (scPending st)\<rparr>) (fst (deliverPendingLocked sid st)) \<or> fst (deliverPendingLocked sid st) = st"
proof (cases "pending_of sid st")
  case (Cons q qs)
  then show ?thesis
    by (auto simp: deliverPendingLocked_def Let_def intro!: quiet_trans [OF quiet_on_session quiet_pub] no_stop_concat)
qed (simp add: deliverPendingLocked_def)

lemma quiet_return: "quiet (st\<lparr>scPending := mdel sid (scPending st)\<rparr>) (fst (returnPendingLocked sid st)) \<or> fst (returnPendingLocked sid st) = st"
proof (cases "pending_of sid st")
  case (Cons q qs)
  then show ?thesis
    by (auto simp: returnPendingLocked_def Let_def intro!: quiet_trans [OF quiet_on_session quiet_pub] no_stop_concat)
qed (simp add: returnPendingLocked_def)

lemma pending_frame:
  "scRegistry (fst (deliverPendingLocked sid st)) = scRegistry st" "scActive (fst (deliverPendingLocked sid st)) = scActive st"
  "scQueue (fst (deliverPendingLocked sid st)) = scQueue st" "scRegistry (fst (returnPendingLocked sid st)) = scRegistry st"
  "scActive (fst (returnPendingLocked sid st)) = scActive st" "scQueue (fst (returnPendingLocked sid st)) = scQueue st"
  "scPaused (fst (deliverPendingLocked sid st)) = scPaused st" "scPaused (fst (returnPendingLocked sid st)) = scPaused st"
  using quiet_deliver [of sid st] quiet_return [of sid st] by (auto simp: quiet_def)

lemma inv_deliver: "sched_inv env st \<Longrightarrow> sched_inv env (fst (deliverPendingLocked sid st))"
  using quiet_deliver [of sid st] inv_quiet [OF inv_pending(2)] by metis

lemma inv_return: "sched_inv env st \<Longrightarrow> sched_inv env (fst (returnPendingLocked sid st))"
  using quiet_return [of sid st] inv_quiet [OF inv_pending(2)] by metis

lemma inv_append_pending: "sched_inv env st \<Longrightarrow> sched_inv env (append_pending sid m source st)"
  unfolding append_pending_def by (rule inv_pending(1)) (auto simp: sched_inv_def)

lemma delivered_sessions: "sched_inv env st \<Longrightarrow> q \<in> set (snd (deliverPendingLocked sid st)) \<Longrightarrow> qS q = sid"
  by (cases "pending_of sid st") (auto simp: sched_inv_def deliverPendingLocked_def Let_def)

lemma active_registered: "sched_inv env st \<Longrightarrow> mget (scActive st) sid = Some a \<Longrightarrow> sid \<in> set (scRegistry st)"
  by (metis mget_eq_None option.distinct(1) sched_inv_def known_def subsetD)

section \<open>Every operation keeps the invariant\<close>

lemmas sched_intros = inv_pub inv_on_session inv_set_run inv_AppendUser inv_reposition inv_notify inv_next_run inv_deliver
  inv_return inv_append_pending inv_drain inv_publish_stopped inv_end_active

lemma inv_next_message: "sched_inv env st \<Longrightarrow> sched_inv env (fst (next_message_id st))"
  by (simp add: next_message_id_def)

lemma quiet_QueueUser: "quiet st (fst (QueueUserAttachments e sid t atts st))"
proof (cases "mget (scSessions st) sid")
  case (Some s)
  have q: "quiet st (fst (next_message_id x))" if "quiet st x" for x
    using quiet_trans [OF that quiet_next_message] .
  show ?thesis
  proof (cases "seBinding e s")
    case (BoundTo a1 a2 a3 a4 a5)
    have "quiet st (pub (if a5 then [New ''session.updated'' sid [] [(''session_id'', VStr sid), (''agent_id'', VStr a1),
         (''connection_id'', VStr a3), (''notice'', VStr ''Agent profile deleted; using agent_b.'')]] else [])
         (on_session sid (\<lambda>s. fst (ApplyAgentConfig a1 a2 a3 a4 s)) st))"
      by (rule quiet_trans [OF quiet_on_session quiet_pub]) simp
    from q [OF this] BoundTo Some show ?thesis
      by (simp add: QueueUserAttachments_def Let_def split_beta)
  qed (use Some q [OF quiet_refl] in \<open>simp_all add: QueueUserAttachments_def Let_def split_beta\<close>)
qed (simp add: QueueUserAttachments_def)

lemma quiet_AddUser: "quiet st (fst (AddUserAttachments e sid t atts st))"
  using quiet_QueueUser [of st e sid t atts] quiet_trans [OF _ quiet_AppendUser]
  by (auto simp: AddUserAttachments_def split: prod.split sum.split)

lemma inv_submit_held: "sched_inv env st \<Longrightarrow> sched_inv env (fst (submit_held env sid t atts source st))"
  using inv_quiet [OF _ quiet_QueueUser [of st env sid t atts]]
  by (auto simp: submit_held_def Let_def split: prod.split sum.split intro!: sched_intros)

lemma inv_submit_busy: "sched_inv env st \<Longrightarrow> sched_inv env (fst (submit_busy env sid t atts source st))"
  using inv_quiet [OF _ quiet_QueueUser [of st env sid t atts]]
  by (auto simp: submit_busy_def Let_def split: prod.split sum.split option.split intro!: sched_intros)

lemma inv_enqueue_eq: "sched_inv env st \<Longrightarrow> scQueue st = qs \<Longrightarrow> qS q \<in> set (scRegistry st) \<Longrightarrow> sched_inv env (st\<lparr>scQueue := qs @ [q]\<rparr>)"
  using inv_enqueue by blast

lemma registry_frame [simp]:
  "scRegistry (forgetPausedLocked sid st) = scRegistry st" "scRegistry (pub evs st) = scRegistry st"
  "scRegistry (set_run i r st) = scRegistry st" "scRegistry (on_session i f st) = scRegistry st"
  "scQueue (set_run i r st) = scQueue st" "scQueue (on_session i f st) = scQueue st"
  by (auto simp: forgetPausedLocked_def pub_def set_run_def on_session_def split: option.split)

lemma inv_submit_run:
  assumes "sched_inv env st" "sid \<in> set (scRegistry st)"
  shows "sched_inv env (fst (submit_run env sid t atts source st))"
proof -
  let ?st0 = "if pending_of sid st \<noteq> [] then fst (returnPendingLocked sid st) else st"
  have st0: "sched_inv env ?st0" "sid \<in> set (scRegistry ?st0)" using assms by (auto simp: pending_frame intro!: sched_intros)
  obtain st1 res where add: "AddUserAttachments env sid t atts ?st0 = (st1, res)" by force
  have q1: "quiet ?st0 st1" using quiet_AddUser [of ?st0 env sid t atts] by (simp only: add fst_conv)
  have "sched_inv env st1" by (rule inv_quiet [OF st0(1) q1])
  moreover have "sid \<in> set (scRegistry st1)" using q1 st0(2) unfolding quiet_def by metis
  ultimately show ?thesis
    by (cases res) (auto simp: submit_run_def add Let_def next_run_id_def intro!: sched_intros inv_start inv_enqueue_eq)
qed

lemma inv_replace_session:
  "sched_inv env st \<Longrightarrow> mget (scSessions st) sid = Some s \<Longrightarrow> sched_inv env (st\<lparr>scSessions := mput sid s1 (scSessions st)\<rparr>)"
  using inv_on_session [of env st sid "\<lambda>_. s1"] by (simp add: on_session_def)

lemma inv_submit:
  assumes "sched_inv env st"
  shows "sched_inv env (fst (submitAttachmentsFrom env sid t atts source reopen st))"
proof (cases "registry_Get sid st")
  case (Some s)
  then have reg: "sid \<in> set (scRegistry st)" and s: "mget (scSessions st) sid = Some s"
    by (auto simp: registry_Get_def split: if_splits)
  show ?thesis
  proof (cases "registry_BeginSubmission (seNetworkBoundary env) reopen s")
    case (Inr p)
    then obtain s1 evs where p: "p = (s1, evs)" by force
    let ?st1 = "pub evs (st\<lparr>scSessions := mput sid s1 (scSessions st)\<rparr>)"
    have "list_all (\<lambda>e. nType e \<noteq> RunStopped) evs"
      using Inr p by (auto simp: registry_BeginSubmission_def Let_def split: if_splits)
    then have "sched_inv env ?st1" by (intro inv_pub inv_replace_session [OF assms s])
    moreover have "sid \<in> set (scRegistry ?st1)" using reg by (simp add: pub_def)
    ultimately have "sched_inv env (fst (if mtrue (scUnreachable ?st1) sid then submit_held env sid t atts source ?st1
        else if session_busy sid ?st1 then submit_busy env sid t atts source ?st1 else submit_run env sid t atts source ?st1))"
      by (simp only: inv_submit_held inv_submit_busy inv_submit_run split: if_split) simp
    then show ?thesis unfolding submitAttachmentsFrom_def Some
      by (simp only: Inr p option.case sum.case prod.case Let_def split_beta fst_conv snd_conv inv_on_session)
  qed (use assms Some in \<open>simp add: submitAttachmentsFrom_def\<close>)
qed (use assms in \<open>simp add: submitAttachmentsFrom_def\<close>)

lemma inv_queue_delivered:
  assumes "sched_inv env st" "sid \<in> set (scRegistry st)"
  shows "sched_inv env (queue_delivered sid a st)"
proof (cases "deliverPendingLocked sid st")
  case (Pair st1 ws)
  have st1: "sched_inv env st1" "scRegistry st1 = scRegistry st"
    using inv_deliver [OF assms(1), of sid] pending_frame(1) [of sid st] Pair by simp_all
  have ws: "q \<in> set ws \<Longrightarrow> qS q = sid" for q using delivered_sessions [OF assms(1), of q sid] Pair by simp
  show ?thesis
    using st1 ws assms Pair
    by (auto simp: queue_delivered_def Let_def next_run_id_def split: list.split intro!: inv_enqueue_eq inv_set_run)
qed

lemma inv_finish:
  assumes "sched_inv env st"
  shows "sched_inv env (finish env entry reason detail turns st)"
proof (cases "mget (scActive st) (qS entry)")
  case (Some a)
  have reg: "qS entry \<in> set (scRegistry st)" by (rule active_registered [OF assms Some])
  show ?thesis
    using assms reg Some
    by (auto simp: finish_def Let_def intro!: inv_reposition inv_drain inv_notify inv_publish_stopped inv_set_run inv_queue_delivered inv_end_active)
qed (use assms in \<open>simp add: finish_def Let_def\<close>)

lemma inv_forceFinish:
  assumes "sched_inv env st"
  shows "sched_inv env (forceFinish env sid expected detail st)"
  using assms
  by (auto simp: forceFinish_def Let_def split: option.split
      intro!: inv_reposition inv_drain inv_notify inv_publish_stopped inv_set_run inv_end_active)

lemma inv_run_returned: "sched_inv env st \<Longrightarrow> sched_inv env (run_returned env entry reason detail turns st)"
  by (simp add: run_returned_def Let_def inv_finish)

lemma inv_stop_active:
  assumes "sched_inv env st" "mget (scActive st) sid = Some a"
  shows "sched_inv env (fst (stop_active sid a requested st))"
  using assms by (auto simp: stop_active_def Let_def split: option.split intro!: inv_pub inv_set_run inv_return inv_update_active)

lemma inv_stop_actives: "sched_inv env st \<Longrightarrow> sched_inv env (fst (stop_actives sids requested st))"
proof (induction sids requested st rule: stop_actives.induct)
  case (2 sid sids requested st)
  show ?case
  proof (cases "mget (scActive st) sid")
    case (Some a)
    obtain st1 w where p: "stop_active sid a requested st = (st1, w)" by force
    have "sched_inv env st1" using inv_stop_active [OF 2(3) Some, of requested] p by simp
    from 2(2) [OF Some _ _ this] p have "sched_inv env (fst (stop_actives sids requested st1))" by simp
    with Some p show ?thesis by (simp add: split_beta)
  qed (use 2 in simp)
qed simp

lemma inv_stop_queued: "sched_inv env st \<Longrightarrow> sched_inv env (stop_queued e requested q st)"
  by (auto simp: stop_queued_def Let_def intro!: inv_publish_stopped inv_set_run inv_pub inv_return)

lemma inv_fold: "(\<And>x s. sched_inv env s \<Longrightarrow> sched_inv env (f x s)) \<Longrightarrow> sched_inv env st \<Longrightarrow> sched_inv env (fold f xs st)"
  by (induction xs arbitrary: st) auto

lemma inv_stopReason: "sched_inv env st \<Longrightarrow> sched_inv env (fst (stopReason env sid everything requested st))"
  unfolding stopReason_def Let_def split_beta fst_conv
  by (intro inv_fold inv_notify inv_reposition inv_queue_subset)
     (auto intro!: inv_fold inv_stop_queued inv_stop_actives inv_return simp del: fold_simps)

lemma recordAbort_events:
  "list_all (\<lambda>e. nType e \<noteq> RunStopped) (snd (snd (recordAbort pp enc tc mid runID reason detail p)))"
  by (cases p) (auto simp: recordAbort_def Let_def)

lemma inv_stop_timed_out:
  assumes "sched_inv env st" "stop_timed_out env pp enc w st = Some st'"
  shows "sched_inv env st'"
proof -
  obtain s where s: "mget (scSessions st) (wrID w) = Some s" "wrItem w"
    using assms(2) by (auto simp: stop_timed_out_def Let_def split: if_splits option.splits)
  let ?ab = "recordAbort pp enc (seTokens env) (snd (next_message_id st)) (arRunID (wrActive w)) (wrReason w) (abortDetail True) (scBook st, s)"
  let ?st1 = "if snd (snd ?ab) = [] then st else fst (next_message_id st)"
  have st': "st' = forceFinish env (wrID w) (wrActive w) (abortDetail True) (pub (snd (snd ?ab))
      (?st1\<lparr>scBook := fst (fst ?ab), scSessions := mput (wrID w) (snd (fst ?ab)) (scSessions ?st1)\<rparr>))"
    using assms(2) s by (simp add: stop_timed_out_def Let_def split_beta)
  have "sched_inv env (?st1\<lparr>scBook := fst (fst ?ab), scSessions := mput (wrID w) (snd (fst ?ab)) (scSessions ?st1)\<rparr>)"
    by (rule inv_quiet [OF inv_replace_session [OF assms(1) s(1), of "snd (fst ?ab)"]]) (simp add: quiet_def next_message_id_def)
  then show ?thesis unfolding st' by (intro inv_forceFinish inv_pub recordAbort_events)
qed

lemma inv_update_active_eq:
  "sched_inv env st \<Longrightarrow> scActive st = m \<Longrightarrow> mget m sid \<noteq> None \<Longrightarrow> sched_inv env (st\<lparr>scActive := mput sid a m\<rparr>)"
  using inv_update_active by blast

lemma inv_returnActive:
  assumes "sched_inv env st"
  shows "sched_inv env (fst (returnActiveMessage sid runID st))"
proof (cases "mget (scActive st) sid")
  case (Some a)
  have act: "scActive (set_run i r x) = scActive x" "scActive (pub evs x) = scActive x" "scActive (on_session i f x) = scActive x" for i r x evs f
    by (auto simp: pub_def set_run_def on_session_def split: option.split)
  show ?thesis using assms Some
    by (auto simp: returnActiveMessage_def Let_def act split: option.split intro!: inv_pub inv_set_run inv_on_session inv_update_active_eq)
qed (use assms in \<open>simp add: returnActiveMessage_def\<close>)

lemma inv_boundary: "sched_inv env st \<Longrightarrow> sched_inv env (takeQueuedAtBoundary sid runID st)"
  by (auto simp: takeQueuedAtBoundary_def split: option.split intro!: inv_deliver)

lemma inv_hold: "sched_inv env st \<Longrightarrow> sched_inv env (HoldModel sid st)"
  by (simp add: HoldModel_def)

lemma inv_release_session:
  assumes "sched_inv env st"
  shows "sched_inv env (release_session env conn sid st)"
proof (cases "registry_Get sid st")
  case (Some s)
  then have reg: "sid \<in> set (scRegistry st)" by (auto simp: registry_Get_def split: if_splits)
  let ?st1 = "pub [New ModelReachable sid [] [(''connection_id'', VStr conn)]] (st\<lparr>scUnreachable := mdel sid (scUnreachable st)\<rparr>)"
  obtain st2 ws where p: "deliverPendingLocked sid ?st1 = (st2, ws)" by force
  have inv1: "sched_inv env ?st1" using assms by (auto intro!: inv_pub)
  have inv2: "sched_inv env st2" "sid \<in> set (scRegistry st2)"
    using inv_deliver [OF inv1, of sid] pending_frame(1) [of sid ?st1] reg p by simp_all
  have ws: "q \<in> set ws \<Longrightarrow> qS q = sid" for q using delivered_sessions [OF inv1, of q sid] p by simp
  show ?thesis
  proof (cases ws)
    case (Cons q qs)
    then have q: "qS q = sid" using ws by simp
    show ?thesis using assms inv1 inv2 Some p Cons q
      by (auto simp: release_session_def Let_def next_run_id_def intro!: inv_pub inv_set_run inv_start inv_enqueue_eq)
  qed (use assms inv1 inv2 Some p in \<open>simp add: release_session_def Let_def\<close>)
qed (use assms in \<open>simp add: release_session_def\<close>)

lemma inv_ReleaseModel: "sched_inv env st \<Longrightarrow> sched_inv env (ReleaseModel env conn st)"
  by (simp add: ReleaseModel_def inv_fold inv_release_session)

lemma inv_releaseForCard: "sched_inv env st \<Longrightarrow> sched_inv env (releaseForCard env sid runID st)"
  by (auto simp: releaseForCard_def split: option.split intro!: inv_reposition inv_drain inv_pause)

lemma inv_reacquire:
  assumes "sched_inv env st"
  shows "sched_inv env (fst (reacquireAfterCard env sid runID st))"
  using assms
  by (auto simp: reacquireAfterCard_def Let_def split: option.split intro!: inv_pub inv_set_run inv_drain inv_unpause)

lemma inv_resume:
  "sched_inv env st \<Longrightarrow> resume_ready sid runID ch st = Some st' \<Longrightarrow> sched_inv env st'"
  "sched_inv env st \<Longrightarrow> sched_inv env (resume_cancelled ch st)"
  by (auto simp: resume_ready_def resume_cancelled_def split: if_splits intro!: inv_pub inv_set_run)

lemma inv_restore: "sched_inv env st \<Longrightarrow> sched_inv env (fst (RestoreQueue sid st))"
  by (auto simp: RestoreQueue_def Let_def map_filter_def split: option.split intro!: inv_on_session inv_pending(1))

section \<open>Steps\<close>

text \<open>The scheduler under every interleaving of its critical sections with the rest of the harness, which
  creates sessions, changes them and the flight book, and removes a session that has no run and no queued run.\<close>

inductive sched_step :: "sched_env \<Rightarrow> sched \<Rightarrow> sched \<Rightarrow> bool" for env :: sched_env where
  ss_register: "mget (scSessions st) sid = None \<Longrightarrow> sched_step env st (st\<lparr>scSessions := mput sid s (scSessions st), scRegistry := scRegistry st @ [sid]\<rparr>)"
| ss_remove: "\<not> Active sid st \<Longrightarrow> sched_step env st (st\<lparr>scRegistry := filter (\<lambda>i. i \<noteq> sid) (scRegistry st)\<rparr>)"
| ss_session: "sched_step env st (on_session sid f st)"
| ss_book: "sched_step env st (st\<lparr>scBook := b\<rparr>)"
| ss_submit: "sched_step env st (fst (submitAttachmentsFrom env sid t atts source reopen st))"
| ss_restore: "sched_step env st (fst (RestoreQueue sid st))"
| ss_returned: "sched_step env st (run_returned env entry reason detail turns st)"
| ss_stop: "sched_step env st (fst (stopReason env sid everything requested st))"
| ss_timeout: "stop_timed_out env pp enc w st = Some st' \<Longrightarrow> sched_step env st st'"
| ss_return_message: "sched_step env st (fst (returnActiveMessage sid runID st))"
| ss_boundary: "sched_step env st (takeQueuedAtBoundary sid runID st)"
| ss_hold: "sched_step env st (HoldModel sid st)"
| ss_release: "sched_step env st (ReleaseModel env conn st)"
| ss_card: "sched_step env st (releaseForCard env sid runID st)"
| ss_reacquire: "sched_step env st (fst (reacquireAfterCard env sid runID st))"
| ss_resumed: "resume_ready sid runID ch st = Some st' \<Longrightarrow> sched_step env st st'"
| ss_cancelled: "sched_step env st (resume_cancelled ch st)"
| ss_reserve: "sched_step env st (ReserveIDs floor st)"
| ss_idle: "sched_step env st (fst (TryAgentIdle env agentID st))"

definition sched_start :: "sched \<Rightarrow> bool" where
  "sched_start st \<longleftrightarrow> st = NewScheduler"

lemma inv_register:
  assumes "sched_inv env st" "mget (scSessions st) sid = None"
  shows "sched_inv env (st\<lparr>scSessions := mput sid s (scSessions st), scRegistry := scRegistry st @ [sid]\<rparr>)"
  using assms by (auto simp: sched_inv_def known_def pending_of_def runningLocked_def)

lemma inv_remove:
  assumes "sched_inv env st" "\<not> Active sid st"
  shows "sched_inv env (st\<lparr>scRegistry := filter (\<lambda>i. i \<noteq> sid) (scRegistry st)\<rparr>)"
proof -
  have "sid \<notin> set (keys (scActive st))" using assms(2) by (metis Active_def mget_eq_None)
  moreover have "\<forall>q \<in> set (scQueue st). qS q \<noteq> sid" using assms(2) by (auto simp: Active_def list_ex_iff)
  ultimately show ?thesis using assms(1)
    by (auto simp: sched_inv_def known_def pending_of_def runningLocked_def)
qed

lemma inv_counters:
  "sched_inv env st \<Longrightarrow> sched_inv env (st\<lparr>scBook := b\<rparr>)" "sched_inv env st \<Longrightarrow> sched_inv env (ReserveIDs floor st)"
  "sched_inv env st \<Longrightarrow> sched_inv env (fst (TryAgentIdle e agentID st))"
  by (simp_all add: ReserveIDs_def TryAgentIdle_def)

lemmas inv_operations = inv_register inv_remove inv_on_session inv_submit inv_restore inv_run_returned inv_stopReason inv_stop_timed_out
  inv_returnActive inv_boundary inv_hold inv_ReleaseModel inv_releaseForCard inv_reacquire inv_resume inv_counters

lemma sched_step_inv: "sched_step env st st' \<Longrightarrow> sched_inv env st \<Longrightarrow> sched_inv env st'"
  by (induction rule: sched_step.induct) (blast intro: inv_operations)+

interpretation runs: invariant_of sched_start "sched_step env" "sched_inv env" for env
proof
  show "sched_start st \<Longrightarrow> sched_inv env st" for st
    by (auto simp: sched_start_def NewScheduler_def sched_inv_def known_def pending_of_def runningLocked_def stop_notes_def)
  show "sched_inv env st \<Longrightarrow> sched_step env st st' \<Longrightarrow> sched_inv env st'" for st st' by (rule sched_step_inv)
qed

lemma drain_queue_resuming: "scResuming (drain_queue env passed qs st) = scResuming st"
  by (induction env passed qs st rule: drain_queue.induct) (simp_all add: startLocked_simps)

section \<open>Properties\<close>


text \<open>A \<open>run.stopped\<close> event is published at most once for a run, whichever of the run's own end, a stop
  before dispatch and the forced end after a timeout come first.\<close>

theorem run_stopped_once:
  "reach sched_start (sched_step env) st \<Longrightarrow> stop_notes sid runID (scLog st) \<le> 1"
  using runs.inv_reach [of env st] unfolding sched_inv_def by (smt (verit) le_zero_eq nle_le)

text \<open>C26. After a drain no waiting run could start: nothing in the run queue is admissible, and neither is a
  run that waits to resume after a card.\<close>

theorem drain_leaves_nothing_admissible:
  "list_all (\<lambda>q. \<not> admitLocked env (qS q) (drainLocked env st)) (scQueue (drainLocked env st)) \<and>
   list_all (\<lambda>w. \<not> admitLocked env (rwSession w) (drainLocked env st)) (scResuming (drainLocked env st))"
proof -
  let ?st1 = "drain_resuming env [] (scResuming st) st"
  have d: "drainLocked env st = drain_queue env [] (scQueue ?st1) ?st1" by (simp add: drainLocked_def Let_def)
  have r: "\<forall>w \<in> set (scResuming ?st1). blocked env (rwSession w) ?st1"
    using drain_resuming_blocked [of st "[]" "scResuming st" env] by auto
  have q: "(\<forall>q \<in> set (scQueue (drainLocked env st)). blocked env (qS q) (drainLocked env st)) \<and>
      (\<forall>sid. blocked env sid ?st1 \<longrightarrow> blocked env sid (drainLocked env st))"
    by (rule drain_queue_blocked [OF _ _ d]) simp_all
  have "scResuming (drainLocked env st) = scResuming ?st1" unfolding d by (rule drain_queue_resuming)
  with r q show ?thesis by (simp add: list_all_iff blocked_def)
qed

text \<open>Draining respects the limit of every connection: the runs that use it do not rise above the limit,
  unless they already were.\<close>

theorem drain_respects_connection_limit:
  assumes "reach sched_start (sched_step env) st"
  shows "fst (connectionRunsLocked i (drainLocked env st)) \<le> max (fst (connectionRunsLocked i st)) (connectionLimit env i)"
proof -
  have inv: "sched_inv env st" by (rule runs.inv_reach [OF assms])
  then have k: "known st" by (simp add: sched_inv_def)
  let ?st1 = "drain_resuming env [] (scResuming st) st"
  note f = drain_resuming_frame [of env "[]" "scResuming st" st]
  have "known ?st1" using k f by (simp add: known_def)
  from drain_queue_inv [OF this, of "[]" "scQueue ?st1" "drainLocked env st" env i] inv f
  have "int (conn_runs i (drainLocked env st)) \<le> max (int (conn_runs i ?st1)) (connectionLimit env i)"
    by (simp add: drainLocked_def Let_def sched_inv_def)
  moreover have "int (conn_runs i ?st1) \<le> max (int (conn_runs i st)) (connectionLimit env i)"
    using drain_resuming_bounds [OF k] by blast
  ultimately show ?thesis by (simp add: connectionRunsLocked_def serving_length conn_runs_def)
qed

text \<open>What \<open>finish\<close> leaves of a chat with waiting messages.\<close>

lemma drain_queue_pending: "scPending (drain_queue env passed qs st) = scPending st"
  by (induction env passed qs st rule: drain_queue.induct) (simp_all add: startLocked_simps)

lemma drain_pending: "scPending (drainLocked env st) = scPending st"
  using drain_resuming_frame [of env "[]" "scResuming st" st] by (simp add: drainLocked_def Let_def drain_queue_pending)

lemma sessions_other:
  "sid \<noteq> i \<Longrightarrow> mget (scSessions (on_session i f st)) sid = mget (scSessions st) sid"
  by (auto simp: on_session_def split: option.split)

lemma sessions_pub [simp]: "scSessions (pub evs st) = scSessions st"
  by (simp add: pub_def)

lemma sessions_fields [simp]:
  "scSessions (fst (next_message_id st)) = scSessions st"
  by (simp add: next_message_id_def)

lemma AppendUser_other: "sid \<noteq> i \<Longrightarrow> mget (scSessions (AppendUser env i m st)) sid = mget (scSessions st) sid"
  unfolding AppendUser_def Let_def sessions_pub by (split option.split, split option.split) (auto simp: sessions_other)

lemma note_prior_other: "sid \<noteq> qS q \<Longrightarrow> mget (scSessions (note_prior_run env q st)) sid = mget (scSessions st) sid"
  unfolding note_prior_run_def Let_def split_beta by (simp only: sessions_pub sessions_other sessions_fields split: if_split) (simp add: sessions_other)

lemma start_session_other:
  assumes "sid \<noteq> qS q"
  shows "mget (scSessions (startLocked env q st)) sid = mget (scSessions st) sid"
proof -
  let ?st1 = "if mID (qUserMessage q) \<noteq> [] then AppendUser env (qS q) (qUserMessage q) st else st"
  have "mget (scSessions (note_prior_run env q ?st1)) sid = mget (scSessions st) sid"
    using assms by (simp add: note_prior_other AppendUser_other)
  then show ?thesis using assms
    unfolding startLocked_def Let_def set_run_def by (simp add: sessions_other)
qed

lemma active_start: "mget (scActive (startLocked env q st)) sid = None \<longleftrightarrow> sid \<noteq> qS q \<and> mget (scActive st) sid = None"
proof -
  obtain a where "scActive (startLocked env q st) = mput (qS q) a (scActive st)" using startLocked_simps(10) by blast
  then show ?thesis by simp
qed

lemma drain_queue_untouched:
  "mget (scActive (drain_queue env passed qs st)) sid = None \<Longrightarrow>
   mget (scActive st) sid = None \<and> mget (scSessions (drain_queue env passed qs st)) sid = mget (scSessions st) sid"
proof (induction env passed qs st rule: drain_queue.induct)
  case (2 env passed q qs st)
  then show ?case by (auto simp: active_start start_session_other split: if_splits)
qed simp

text \<open>The last entry of the queue is still there after a drain, or it is the active run of its chat.\<close>

lemma drain_queue_last:
  "scQueue st = passed @ qs @ [q] \<Longrightarrow> q \<in> set (scQueue (drain_queue env passed (qs @ [q]) st)) \<or>
   (\<exists>a. mget (scActive (drain_queue env passed (qs @ [q]) st)) (qS q) = Some a \<and> arRunID a = qRunID q)"
proof (induction qs arbitrary: passed st)
  case Nil
  obtain a where "scActive (startLocked env q (st\<lparr>scQueue := passed\<rparr>)) = mput (qS q) a (scActive st)" "arRunID a = qRunID q"
    using startLocked_simps(10) [of env q "st\<lparr>scQueue := passed\<rparr>"] by auto
  with Nil show ?case by simp
next
  case (Cons p qs)
  show ?case
  proof (cases "seMaxConcurrent env \<le> runningLocked st \<or> \<not> admitLocked env (qS p) st")
    case True
    with Cons.prems Cons.IH [of st "passed @ [p]"] show ?thesis by auto
  next
    case False
    with Cons.prems Cons.IH [of "startLocked env p (st\<lparr>scQueue := passed @ qs @ [q]\<rparr>)" passed]
    show ?thesis by (simp add: startLocked_simps)
  qed
qed

lemma reposition_frame [simp]:
  "scActive (repositionLocked st) = scActive st" "scQueue (repositionLocked st) = scQueue st" "scPending (repositionLocked st) = scPending st"
  using quiet_reposition [of st] by (simp_all add: quiet_def)

definition idle_chat :: "string \<Rightarrow> sched \<Rightarrow> bool" where
  "idle_chat sid st \<longleftrightarrow> (case mget (scSessions st) sid of None \<Rightarrow> True | Some s \<Rightarrow> \<not> IsRunning s)"

lemma idle_reposition_from: "idle_chat sid (reposition_from n qs st) = idle_chat sid st"
  by (induction n qs st rule: reposition_from.induct)
     (auto simp: idle_chat_def set_run_def on_session_def run_of_def IsRunning_def SetRun_def split: option.split)

lemma idle_set_run: "rsStatus r = ''idle'' \<Longrightarrow> idle_chat sid (set_run sid r st)"
  by (auto simp: idle_chat_def set_run_def on_session_def IsRunning_def SetRun_def split: option.split)

lemma stopped_frame [simp]:
  "scSessions (publishRunStoppedLocked env sid r reason detail turns held st) = scSessions st"
  "scQueue (publishRunStoppedLocked env sid r reason detail turns held st) = scQueue st"
  "scPending (publishRunStoppedLocked env sid r reason detail turns held st) = scPending st"
  "scSessions (notifyAgentIdleLocked env a st) = scSessions st" "scQueue (notifyAgentIdleLocked env a st) = scQueue st"
  "scPending (notifyAgentIdleLocked env a st) = scPending st" "scPending (set_run sid x st) = scPending st"
  by (auto simp: publishRunStoppedLocked_def notifyAgentIdleLocked_def pub_def set_run_def on_session_def Let_def split: option.split)

lemma pending_helpers [simp]:
  "scPending (pub evs st) = scPending st" "scPending (on_session i f st) = scPending st"
  "scIds (pub evs st) = scIds st" "scIds (on_session i f st) = scIds st"
  by (auto simp: pub_def on_session_def split: option.split)

lemma deliver_pending:
  "scPending (fst (deliverPendingLocked sid st)) = (if pending_of sid st = [] then scPending st else mdel sid (scPending st))"
  "scIds (fst (deliverPendingLocked sid st)) = scIds st"
  "snd (deliverPendingLocked sid st) = map (\<lambda>q. q\<lparr>qUserMessage := zero_message\<rparr>) (pending_of sid st)"
  by (cases "pending_of sid st"; simp add: deliverPendingLocked_def Let_def)+

lemma queue_delivered_effect:
  assumes "pending_of sid st = q # qs" "\<not> mtrue (scUnreachable st) sid" "arStopReason a = []" "qS q = sid"
  shows "pending_of sid (queue_delivered sid a st) = [] \<and>
    scQueue (queue_delivered sid a st) = scQueue st @ [q\<lparr>qUserMessage := zero_message, qRunID := ''r'' @ Itoa (scIds st + 1)\<rparr>]"
proof -
  obtain st1 where d: "deliverPendingLocked sid st =
      (st1, q\<lparr>qUserMessage := zero_message\<rparr> # map (\<lambda>q. q\<lparr>qUserMessage := zero_message\<rparr>) qs)"
    using deliver_pending(3) [of sid st] assms(1) by (cases "deliverPendingLocked sid st") simp
  have "scPending st1 = mdel sid (scPending st)" "scIds st1 = scIds st" "scQueue st1 = scQueue st"
    using deliver_pending(1,2) [of sid st] pending_frame(3) [of sid st] d assms(1) by simp_all
  then show ?thesis using assms d by (simp add: queue_delivered_def next_run_id_def pending_of_def)
qed

lemma drain_last:
  assumes "scQueue st = qs @ [q]"
  shows "q \<in> set (scQueue (drainLocked env st)) \<or>
    (\<exists>a. mget (scActive (drainLocked env st)) (qS q) = Some a \<and> arRunID a = qRunID q)"
  using drain_queue_last [of "drain_resuming env [] (scResuming st) st" "[]" qs q env]
    drain_resuming_frame [of env "[]" "scResuming st" st] assms
  by (simp add: drainLocked_def Let_def)

lemma drain_untouched:
  "mget (scActive (drainLocked env st)) sid = None \<Longrightarrow> mget (scSessions (drainLocked env st)) sid = mget (scSessions st) sid"
  using drain_queue_untouched [of env "[]" _ "drain_resuming env [] (scResuming st) st" sid]
    drain_resuming_frame [of env "[]" "scResuming st" st]
  by (simp add: drainLocked_def Let_def)


text \<open>Every declared stop reason has a terminal reason of its own: none falls into the \<open>harness-error\<close>
  that \<open>canonicalTerminalReason\<close> keeps for what it does not know.\<close>

theorem declared_reasons_are_classified:
  "list_all (\<lambda>reason. canonicalTerminalReason reason \<noteq> ''harness-error'') StopReasons"
  by (simp add: StopReasons_def canonicalTerminalReason_def)

lemma return_empties: "pending_of sid (fst (returnPendingLocked sid st)) = []"
  by (cases "pending_of sid st") (auto simp: returnPendingLocked_def Let_def pending_of_def)

lemma return_pending_other: "pending_of i st = [] \<Longrightarrow> pending_of i (fst (returnPendingLocked sid st)) = []"
  by (cases "pending_of sid st") (auto simp: returnPendingLocked_def Let_def pending_of_def)

lemma stop_active_pending:
  "pending_of sid (fst (stop_active sid a requested st)) = []"
  "pending_of i st = [] \<Longrightarrow> pending_of i (fst (stop_active sid a requested st)) = []"
proof -
  have *: "pending_of i (fst (stop_active sid a requested st)) =
      pending_of i (fst (returnPendingLocked sid (st\<lparr>scActive := mput sid (a\<lparr>arStopReason := (if requested = [] then abortReason sid (arRunID a) (scBook st) else requested), arCancelled := True\<rparr>) (scActive st)\<rparr>)))" for i
    by (simp add: stop_active_def Let_def pending_of_def split: option.split)
  show "pending_of sid (fst (stop_active sid a requested st)) = []" by (simp only: * return_empties)
  show "pending_of i st = [] \<Longrightarrow> pending_of i (fst (stop_active sid a requested st)) = []"
    unfolding * by (rule return_pending_other) (simp add: pending_of_def)
qed

lemma stop_active_active:
  "scActive (fst (stop_active sid a requested st)) =
   mput sid (a\<lparr>arStopReason := (if requested = [] then abortReason sid (arRunID a) (scBook st) else requested), arCancelled := True\<rparr>) (scActive st)"
proof -
  have "scActive (pub e x) = scActive x" "scActive (set_run i r x) = scActive x" for e i r x
    by (auto simp: pub_def set_run_def on_session_def split: option.split)
  then show ?thesis by (simp add: stop_active_def Let_def pending_frame split: option.split)
qed

lemma stop_queued_frame:
  "scActive (stop_queued e requested q st) = scActive st" "scQueue (stop_queued e requested q st) = scQueue st"
  "pending_of i st = [] \<Longrightarrow> pending_of i (stop_queued e requested q st) = []"
proof -
  have "scActive (pub evs x) = scActive x" "scActive (set_run j r x) = scActive x"
    "scActive (publishRunStoppedLocked e s rr re d t h x) = scActive x" for evs j r x s rr re d t h
    by (auto simp: pub_def set_run_def on_session_def publishRunStoppedLocked_def Let_def split: option.split)
  then show "scActive (stop_queued e requested q st) = scActive st" by (simp add: stop_queued_def Let_def pending_frame)
  show "scQueue (stop_queued e requested q st) = scQueue st" by (simp add: stop_queued_def Let_def pending_frame pub_def)
  show "pending_of i st = [] \<Longrightarrow> pending_of i (stop_queued e requested q st) = []"
    using return_pending_other [of i st "qS q"] by (simp add: stop_queued_def Let_def pending_of_def)
qed

lemma fold_stop_queued:
  "scActive (fold (stop_queued e requested) qs st) = scActive st" "scQueue (fold (stop_queued e requested) qs st) = scQueue st"
  "pending_of i st = [] \<Longrightarrow> pending_of i (fold (stop_queued e requested) qs st) = []"
  by (induction qs arbitrary: st) (simp_all add: stop_queued_frame)

lemma fold_notify_frame:
  "scActive (fold (notifyAgentIdleLocked e) as st) = scActive st" "scQueue (fold (notifyAgentIdleLocked e) as st) = scQueue st"
  "scPending (fold (notifyAgentIdleLocked e) as st) = scPending st"
  by (induction as arbitrary: st) (simp_all add: notifyAgentIdleLocked_def)

lemma abortReason_nonempty: "abortReason sid r b \<noteq> []"
  by (simp add: abortReason_def Let_def split: option.split)

lemma stop_actives_none: "mget (scActive st) sid = None \<Longrightarrow> fst (stop_actives (filter (\<lambda>i. i = sid) ids) requested st) = st"
  by (induction ids) simp_all

lemma stop_actives_some:
  assumes "set xs \<subseteq> {sid}" "xs \<noteq> []" "mget (scActive st) sid = Some a"
  shows "\<exists>b. mget (scActive (fst (stop_actives xs requested st))) sid = Some b \<and> arCancelled b \<and> arStopReason b \<noteq> [] \<and>
    arRunID b = arRunID a \<and> pending_of sid (fst (stop_actives xs requested st)) = []"
  using assms
proof (induction xs arbitrary: st a)
  case (Cons x xs)
  let ?st1 = "fst (stop_active sid a requested st)"
  let ?a = "a\<lparr>arStopReason := (if requested = [] then abortReason sid (arRunID a) (scBook st) else requested), arCancelled := True\<rparr>"
  have act: "mget (scActive ?st1) sid = Some ?a" by (simp only: stop_active_active) simp
  have step: "fst (stop_actives (x # xs) requested st) = fst (stop_actives xs requested ?st1)"
    using Cons.prems by (simp add: split_beta)
  show ?case
  proof (cases xs)
    case Nil
    with step act show ?thesis by (simp add: stop_active_pending abortReason_nonempty)
  next
    case (Cons y ys)
    with Cons.IH [OF _ _ act] Cons.prems show ?thesis unfolding step by simp
  qed
qed simp

text \<open>Stopping a chat leaves nothing of it to start: no queued run and no waiting message, and a run
  that is still active is cancelled and has a stop reason.\<close>

theorem stop_leaves_nothing_waiting:
  "list_all (\<lambda>q. qS q \<noteq> sid) (scQueue (fst (stopReason env sid False requested st))) \<and>
   pending_of sid (fst (stopReason env sid False requested st)) = [] \<and>
   (case mget (scActive (fst (stopReason env sid False requested st))) sid of
      None \<Rightarrow> mget (scActive st) sid = None
    | Some a \<Rightarrow> arCancelled a \<and> arStopReason a \<noteq> [] \<and> map_option arRunID (mget (scActive st) sid) = Some (arRunID a))"
proof -
  let ?sids = "filter (\<lambda>i. False \<or> i = sid) (keys (scActive st))"
  obtain st1 ws where s1: "stop_actives ?sids requested st = (st1, ws)" by force
  let ?gone = "filter (\<lambda>q. False \<or> qS q = sid) (scQueue st1)"
  define st2 where "st2 = fold (stop_queued env requested) ?gone st1"
  define st3 where "st3 = (if mget (scActive st2) sid = None \<and> pending_of sid st2 \<noteq> [] then fst (returnPendingLocked sid st2) else st2)"
  have "\<exists>as. fst (stopReason env sid False requested st) =
      fold (notifyAgentIdleLocked env) as (repositionLocked (st3\<lparr>scQueue := filter (\<lambda>q. qS q \<noteq> sid) (scQueue st3)\<rparr>))"
    unfolding stopReason_def Let_def st3_def st2_def using s1 by (auto simp: split_beta)
  then obtain as where fin: "fst (stopReason env sid False requested st) =
      fold (notifyAgentIdleLocked env) as (repositionLocked (st3\<lparr>scQueue := filter (\<lambda>q. qS q \<noteq> sid) (scQueue st3)\<rparr>))" ..
  have act: "scActive st3 = scActive st1" by (simp add: st3_def st2_def fold_stop_queued pending_frame)
  show ?thesis
  proof (cases "mget (scActive st) sid")
    case None
    then have "st1 = st" using s1 stop_actives_none [of st sid "keys (scActive st)" requested] by simp
    with None have "pending_of sid st3 = []" by (simp add: st3_def st2_def fold_stop_queued return_empties)
    with None act \<open>st1 = st\<close> show ?thesis
      by (simp add: fin fold_notify_frame pending_of_def list_all_iff)
  next
    case (Some a)
    then have "sid \<in> set (keys (scActive st))" by (metis mget_eq_None option.distinct(1))
    then have "?sids \<noteq> []" "set ?sids \<subseteq> {sid}" by (auto simp: filter_empty_conv)
    from stop_actives_some [OF this(2,1) Some, of requested, unfolded s1 fst_conv] obtain b where
      b: "mget (scActive st1) sid = Some b" "arCancelled b" "arStopReason b \<noteq> []" "arRunID b = arRunID a" "pending_of sid st1 = []"
      by blast
    then have "pending_of sid st3 = []" by (simp add: st3_def st2_def fold_stop_queued)
    with b Some act show ?thesis by (simp add: fin fold_notify_frame pending_of_def list_all_iff)
  qed
qed

section \<open>A scheduler at work\<close>

text \<open>Two chats on one connection that takes one run at a time.\<close>

definition two_chats_env :: sched_env where
  "two_chats_env = \<lparr>seMaxConcurrent = 1, seQueueDepth = 0, seWallClock = 0, seConnections = [], seIdleHook = False,
     seBinding = \<lambda>_. SameBinding, sePrepare = \<lambda>_ _ _. ([], 0, True), seFirstName = \<lambda>_ _. None, seUrlHost = \<lambda>_. None,
     seHostname = \<lambda>_. None, seToLower = \<lambda>s. s, seTokens = int, seNetworkBoundary = []\<rparr>"

definition demo_registered :: sched where
  "demo_registered = NewScheduler\<lparr>scSessions := [(''s1'', idle_session ''s1'' ''k''), (''s2'', idle_session ''s2'' ''k'')],
     scRegistry := [''s1'', ''s2'']\<rparr>"

definition demo_started :: sched where
  "demo_started = fst (submitAttachmentsFrom two_chats_env ''s2'' ''go'' [] [] False
     (fst (submitAttachmentsFrom two_chats_env ''s1'' ''hi'' [] [] False demo_registered)))"

lemma demo_reach: "reach sched_start (sched_step two_chats_env) demo_started"
proof -
  let ?one = "NewScheduler\<lparr>scSessions := [(''s1'', idle_session ''s1'' ''k'')], scRegistry := [''s1'']\<rparr>"
  have start: "reach sched_start (sched_step two_chats_env) NewScheduler" by (rule reach_init) (simp add: sched_start_def)
  have one: "sched_step two_chats_env NewScheduler ?one"
    using ss_register [of NewScheduler "''s1''" two_chats_env "idle_session ''s1'' ''k''"] by (simp add: NewScheduler_def)
  have two: "sched_step two_chats_env ?one demo_registered"
    using ss_register [of ?one "''s2''" two_chats_env "idle_session ''s2'' ''k''"] by (simp add: NewScheduler_def demo_registered_def)
  have three: "sched_step two_chats_env demo_registered (fst (submitAttachmentsFrom two_chats_env ''s1'' ''hi'' [] [] False demo_registered))"
    by (rule ss_submit)
  have four: "sched_step two_chats_env (fst (submitAttachmentsFrom two_chats_env ''s1'' ''hi'' [] [] False demo_registered)) demo_started"
    unfolding demo_started_def by (rule ss_submit)
  show ?thesis by (rule start [THEN reach_step, OF one, THEN reach_step, OF two, THEN reach_step, OF three, THEN reach_step, OF four])
qed

lemma demo_started_active: "keys (scActive demo_started) = [''s1''] \<and> map qS (scQueue demo_started) = [''s2'']"
  by code_simp


theorem run_stopped_once_witness: "stop_notes ''s1'' ''r1'' (scLog demo_started) \<le> 1"
  by (rule run_stopped_once [OF demo_reach])

theorem drain_respects_connection_limit_witness:
  "fst (connectionRunsLocked ''k'' (drainLocked two_chats_env demo_started)) \<le>
   max (fst (connectionRunsLocked ''k'' demo_started)) 1"
  using drain_respects_connection_limit [OF demo_reach, of "''k''"]
  by (simp add: connectionLimit_def Connection_def two_chats_env_def)

definition demo_entry :: "string \<Rightarrow> string \<Rightarrow> queued_run" where
  "demo_entry sid runID = \<lparr>qS = sid, qRunID = runID, qUserMessageID = ''m'', qUserMessage = zero_message, qSource = []\<rparr>"

definition demo_waiting :: sched where
  "demo_waiting = demo_registered\<lparr>scActive := [(''s1'', \<lparr>arSerial = 0, arCancelled = False, arStopReason = [], arRunID = ''r1'',
       arUserMessageID = [], arSource = [], arReturned = False\<rparr>)],
     scQueue := [demo_entry ''s2'' ''r2''], scPending := [(''s1'', [demo_entry ''s1'' []])], scIds := 2\<rparr>"

end
