(* ===== verification/Paths.thy ===== *)
theory Paths
  imports Go_Strings
begin

text \<open>
  Where a chat may read and write: the roots of a session (\<open>ReadRoot\<close>, \<open>WriteRoot\<close> in \<open>internal/session/session.go\<close>), the resolution of a
  path of a file tool and the three refusals that hold for every write (\<open>internal/tools/jail.go\<close>): the plans folder, \<open>.agentb/\<close> and
  \<open>plan.json\<close>. The path functions of the operating system are parameters (\<open>path_ops\<close>): \<open>filepath.Abs\<close>, \<open>Rel\<close> and the others differ between
  Windows and Unix, and \<open>RealPath\<close> asks the file system.
\<close>

section \<open>Paths of the operating system\<close>

record path_ops =
  poAbs :: "string \<Rightarrow> string option"
  poRel :: "string \<Rightarrow> string \<Rightarrow> string option"
  poJoin :: "string \<Rightarrow> string \<Rightarrow> string"
  poClean :: "string \<Rightarrow> string"
  poIsAbs :: "string \<Rightarrow> bool"
  poFromSlash :: "string \<Rightarrow> string"
  poToSlash :: "string \<Rightarrow> string"
  poBase :: "string \<Rightarrow> string"
  poDir :: "string \<Rightarrow> string"
  poSep :: char
  poReal :: "string \<Rightarrow> string option"
  poNamed :: "string \<Rightarrow> string"
  poEqualFold :: "string \<Rightarrow> string \<Rightarrow> bool"
  poLower :: "string \<Rightarrow> string"

definition climbs :: "path_ops \<Rightarrow> string \<Rightarrow> bool" where
  "climbs ops rel \<longleftrightarrow> rel = ''..'' \<or> HasPrefix rel (''..'' @ [poSep ops])"

text \<open>\<open>within\<close> of the tools, and \<open>PathWithin\<close> of the session, which also follows links.\<close>

definition within :: "path_ops \<Rightarrow> string \<Rightarrow> string \<Rightarrow> bool" where
  "within ops root candidate =
     (case poRel ops root candidate of None \<Rightarrow> False | Some rel \<Rightarrow> \<not> climbs ops rel \<and> \<not> poIsAbs ops rel)"

definition PathWithin :: "path_ops \<Rightarrow> string \<Rightarrow> string \<Rightarrow> bool" where
  "PathWithin ops root candidate =
     (if within ops (poClean ops root) (poClean ops candidate) then True
      else case (poReal ops root, poReal ops candidate) of
             (Some r, Some c) \<Rightarrow> within ops r c
           | _ \<Rightarrow> False)"

definition SamePath :: "path_ops \<Rightarrow> string \<Rightarrow> string \<Rightarrow> bool" where
  "SamePath ops left right =
     (let real = (\<lambda>p. case poReal ops p of Some r \<Rightarrow> r | None \<Rightarrow> p)
      in poEqualFold ops (poClean ops (real left)) (poClean ops (real right)))"

definition FileKey :: "path_ops \<Rightarrow> string \<Rightarrow> string" where
  "FileKey ops path =
     (let a = (case poAbs ops path of Some a \<Rightarrow> a | None \<Rightarrow> path) in poLower ops (poToSlash ops (poClean ops a)))"

section \<open>The folders of a chat\<close>

text \<open>\<open>cfPlanDirError\<close> is what \<open>validatePlanDirLocked\<close> finds on disk, \<open>cfPlanRepos\<close> the repositories of the registered plans.\<close>

record chat_folders =
  cfRole :: string
  cfWorkspace :: string
  cfPlansRoot :: string
  cfPlanDir :: string
  cfPlanRepo :: string
  cfPlanRepos :: "string list"
  cfSkillsRoot :: string
  cfSkillStateRoot :: string
  cfPlanDirError :: "string option"
  cfTouched :: "(string, bool) gomap"
  cfWritten :: "string list"

fun longest_root :: "path_ops \<Rightarrow> string \<Rightarrow> string \<Rightarrow> string list \<Rightarrow> string" where
  "longest_root ops candidate best [] = best"
| "longest_root ops candidate best (r # rs) =
     (let root = poClean ops r
      in longest_root ops candidate
           (if root \<noteq> ''.'' \<and> PathWithin ops root candidate \<and> length root > length best then root else best) rs)"

definition planRepoRootLocked :: "path_ops \<Rightarrow> string \<Rightarrow> chat_folders \<Rightarrow> string" where
  "planRepoRootLocked ops candidate c = longest_root ops candidate [] (cfPlanRepos c)"

definition touchPlanRepoLocked :: "path_ops \<Rightarrow> string \<Rightarrow> chat_folders \<Rightarrow> chat_folders" where
  "touchPlanRepoLocked ops r c =
     (let root = poClean ops r
      in c\<lparr>cfTouched := mput root True (cfTouched c),
           cfWritten := filter (\<lambda>w. \<not> poEqualFold ops w root) (cfWritten c) @ [root]\<rparr>)"

definition under :: "path_ops \<Rightarrow> string \<Rightarrow> string \<Rightarrow> bool" where
  "under ops root candidate \<longleftrightarrow> poIsAbs ops candidate \<and> root \<noteq> [] \<and> PathWithin ops root candidate"

definition ReadRoot :: "path_ops \<Rightarrow> string \<Rightarrow> chat_folders \<Rightarrow> chat_folders \<times> (string + string)" where
  "ReadRoot ops path c =
     (let candidate = poFromSlash ops path;
          shared = (if cfRole c \<in> set [''b'', ''c'', ''e''] \<and> poIsAbs ops candidate
                    then (let root = planRepoRootLocked ops candidate c
                          in if root \<noteq> [] then (touchPlanRepoLocked ops root c, Inr root) else (c, Inr (cfWorkspace c)))
                    else (c, Inr (cfWorkspace c)))
      in if under ops (cfSkillStateRoot c) candidate then (c, Inr (cfSkillStateRoot c))
         else if under ops (cfSkillsRoot c) candidate then (c, Inr (cfSkillsRoot c))
         else if under ops (cfPlansRoot c) candidate then (c, Inr (cfPlansRoot c))
         else if cfRole c = ''d'' \<and> cfPlanDir c \<noteq> [] then
           (case cfPlanDirError c of
              Some e \<Rightarrow> (c, Inl e)
            | None \<Rightarrow>
                if \<not> poIsAbs ops candidate \<or> PathWithin ops (cfPlanDir c) candidate then (c, Inr (cfPlanDir c))
                else if cfPlanRepo c \<noteq> [] \<and> PathWithin ops (cfPlanRepo c) candidate
                then (touchPlanRepoLocked ops (cfPlanRepo c) c, Inr (cfPlanRepo c))
                else shared)
         else shared)"

definition outside_error :: string where
  "outside_error = ''path is outside the folder''"

text \<open>\<open>WriteRoot\<close>: the roles other than the planner, then the planner with and without a plan folder.\<close>

definition write_root_worker :: "path_ops \<Rightarrow> string \<Rightarrow> chat_folders \<Rightarrow> chat_folders \<times> (string + string)" where
  "write_root_worker ops candidate c =
     (if poIsAbs ops candidate then
        (let root = planRepoRootLocked ops candidate c
         in if root \<noteq> [] then
              (if SamePath ops candidate (poJoin ops root ''plan.md'') then (c, Inl ''only the bound planner can write plan.md'')
               else (touchPlanRepoLocked ops root c, Inr root))
            else (c, Inr (cfWorkspace c)))
      else (c, Inr (cfWorkspace c)))"

definition write_root_planner :: "path_ops \<Rightarrow> string \<Rightarrow> chat_folders \<Rightarrow> chat_folders \<times> (string + string)" where
  "write_root_planner ops candidate c =
     (let climbing = \<not> poIsAbs ops candidate \<and> climbs ops (poClean ops candidate)
      in if cfPlanDir c \<noteq> [] then
           (case cfPlanDirError c of
              Some e \<Rightarrow> (c, Inl e)
            | None \<Rightarrow>
                if climbing then (c, Inl outside_error)
                else if poIsAbs ops candidate then
                  (if PathWithin ops (cfPlanDir c) candidate then (c, Inr (cfPlanDir c))
                   else if cfPlanRepo c \<noteq> [] \<and> PathWithin ops (cfPlanRepo c) candidate
                   then (touchPlanRepoLocked ops (cfPlanRepo c) c, Inr (cfPlanRepo c))
                   else (c, Inr (cfWorkspace c)))
                else (c, Inr (cfPlanDir c)))
         else if poIsAbs ops candidate then (c, Inr (cfWorkspace c))
         else if climbing then (c, Inl outside_error)
         else (c, Inr (cfWorkspace c)))"

definition WriteRoot :: "path_ops \<Rightarrow> string \<Rightarrow> chat_folders \<Rightarrow> chat_folders \<times> (string + string)" where
  "WriteRoot ops path c =
     (let candidate = poFromSlash ops path
      in if under ops (cfSkillStateRoot c) candidate then (c, Inr (cfSkillStateRoot c))
         else if under ops (cfSkillsRoot c) candidate then (c, Inr (cfSkillsRoot c))
         else if under ops (cfPlansRoot c) candidate \<and> (cfRole c \<noteq> ''d'' \<or> cfPlanDir c = [] \<or> \<not> PathWithin ops (cfPlanDir c) candidate)
         then (c, Inl outside_error)
         else if cfRole c = ''c'' \<and> cfPlanDir c \<noteq> [] \<and> poIsAbs ops candidate \<and> SamePath ops candidate (poJoin ops (cfPlanDir c) ''plan.md'')
         then (c, Inl ''the worker cannot write plan.md'')
         else if cfRole c \<noteq> ''d'' then write_root_worker ops candidate c
         else write_root_planner ops candidate c)"

definition PlanFileFor :: "path_ops \<Rightarrow> string \<Rightarrow> chat_folders \<Rightarrow> string option" where
  "PlanFileFor ops path c =
     (if cfPlanDir c = [] \<or> path = [] then None
      else let p = poFromSlash ops path;
               candidate = poClean ops (if poIsAbs ops p then p else poJoin ops (cfPlanDir c) p)
           in if \<not> poEqualFold ops (poBase ops candidate) ''plan.md'' \<or> \<not> SamePath ops (poDir ops candidate) (cfPlanDir c)
              then None else Some candidate)"

section \<open>The jail\<close>

definition resolvePath :: "path_ops \<Rightarrow> string \<Rightarrow> string \<Rightarrow> bool \<Rightarrow> string + string" where
  "resolvePath ops workspace path enforceWorkspace =
     (let named = poNamed ops path; given = (if named = [] then ''.'' else named)
      in case poAbs ops workspace of
           None \<Rightarrow> Inl ''abs''
         | Some root \<Rightarrow>
             let p = poFromSlash ops given;
                 candidate = poClean ops (if poIsAbs ops p then p else poJoin ops root p)
             in if \<not> enforceWorkspace then Inr candidate
                else case (poReal ops root, poReal ops candidate) of
                       (None, _) \<Rightarrow> Inl ''real''
                     | (Some _, None) \<Rightarrow> Inl ''real''
                     | (Some r, Some c) \<Rightarrow> if within ops r c then Inr c else Inl outside_error)"

definition Resolve :: "path_ops \<Rightarrow> string \<Rightarrow> string \<Rightarrow> string + string" where
  "Resolve ops workspace path = resolvePath ops workspace path True"

definition resolveForSessionTool :: "path_ops \<Rightarrow> string \<Rightarrow> string \<Rightarrow> string + string" where
  "resolveForSessionTool ops root path = resolvePath ops root path False"

definition forms :: "path_ops \<Rightarrow> string \<Rightarrow> string list" where
  "forms ops path =
     (case poAbs ops path of Some a \<Rightarrow> [a] | None \<Rightarrow> []) @ (case poReal ops path of Some r \<Rightarrow> [r] | None \<Rightarrow> [])"

definition inside :: "path_ops \<Rightarrow> string list \<Rightarrow> string list \<Rightarrow> bool" where
  "inside ops roots targets = list_ex (\<lambda>root. list_ex (within ops root) targets) roots"

definition resolveForWorkerWrite :: "path_ops \<Rightarrow> chat_folders \<Rightarrow> string \<Rightarrow> string \<Rightarrow> string + string" where
  "resolveForWorkerWrite ops c root path =
     (case resolveForSessionTool ops root path of
        Inl e \<Rightarrow> Inl e
      | Inr resolved \<Rightarrow>
          let targets = forms ops resolved; plans = forms ops (cfPlansRoot c)
          in if cfPlansRoot c = [] then Inr resolved
             else if \<not> inside ops plans targets then Inr resolved
             else if cfRole c = ''d'' \<and> cfPlanDir c \<noteq> [] then
               (if list_ex (\<lambda>t. inside ops plans [t] \<and> \<not> inside ops (forms ops (cfPlanDir c)) [t]) targets
                then Inl outside_error else Inr resolved)
             else Inl outside_error)"

definition policy_file :: "path_ops \<Rightarrow> string \<Rightarrow> string \<Rightarrow> bool" where
  "policy_file ops root candidate =
     (case poRel ops root (poClean ops candidate) of
        None \<Rightarrow> False
      | Some rel \<Rightarrow> poEqualFold ops (hd (split_on (CHR ''/'') (poToSlash ops rel))) ''.agentb'')"

definition policy_error :: string where
  "policy_error = ''repo-policy immutability rule: model file tools cannot write .agentb/''"

definition refuseRepoPolicyWrite :: "path_ops \<Rightarrow> string \<Rightarrow> string \<Rightarrow> string option" where
  "refuseRepoPolicyWrite ops workspace path =
     (case poAbs ops workspace of
        None \<Rightarrow> Some ''abs''
      | Some root \<Rightarrow>
          let p = poFromSlash ops path; candidate = (if poIsAbs ops p then p else poJoin ops root p)
          in if policy_file ops root candidate then Some policy_error
             else case (poReal ops root, poReal ops candidate) of
                    (Some r, Some c) \<Rightarrow> if policy_file ops r c then Some policy_error else None
                  | _ \<Rightarrow> None)"

definition refusePlanManifestWrite :: "path_ops \<Rightarrow> chat_folders \<Rightarrow> string \<Rightarrow> string option" where
  "refusePlanManifestWrite ops c path =
     (if cfRole c \<noteq> ''d'' \<or> cfPlanDir c = [] then None
      else if poEqualFold ops (poClean ops path) (poJoin ops (poClean ops (cfPlanDir c)) ''plan.json'')
      then Some ''plan manifest immutability rule: model file tools cannot write plan.json''
      else None)"

text \<open>The guards that \<open>write_file\<close> and \<open>edit_file\<close> run before they touch a file, in the order of the code. The result is the root and
  the resolved path.\<close>

definition write_target :: "path_ops \<Rightarrow> string \<Rightarrow> chat_folders \<Rightarrow> chat_folders \<times> (string + string \<times> string)" where
  "write_target ops path c =
     (case (if cfRole c = ''d'' then refuseRepoPolicyWrite ops ''.'' path else None) of
        Some e \<Rightarrow> (c, Inl e)
      | None \<Rightarrow>
          (case WriteRoot ops path c of
             (c1, Inl e) \<Rightarrow> (c1, Inl e)
           | (c1, Inr root) \<Rightarrow>
               (case refuseRepoPolicyWrite ops root path of
                  Some e \<Rightarrow> (c1, Inl e)
                | None \<Rightarrow>
                    (case resolveForWorkerWrite ops c1 root path of
                       Inl e \<Rightarrow> (c1, Inl e)
                     | Inr resolved \<Rightarrow>
                         (case refuseRepoPolicyWrite ops root resolved of
                            Some e \<Rightarrow> (c1, Inl e)
                          | None \<Rightarrow>
                              (case refusePlanManifestWrite ops c1 resolved of
                                 Some e \<Rightarrow> (c1, Inl e)
                               | None \<Rightarrow> (c1, Inr (root, resolved))))))))"

section \<open>What the guards give\<close>

text \<open>No form of the path lies in the plans folder, except in the planner's own plan; the path is not repository policy under its root as
  written or as the file system resolves it, and not the manifest of the plan.\<close>

definition plan_closed :: "path_ops \<Rightarrow> chat_folders \<Rightarrow> string \<Rightarrow> bool" where
  "plan_closed ops c resolved \<longleftrightarrow>
     cfPlansRoot c = [] \<or>
     list_all (\<lambda>t. \<not> inside ops (forms ops (cfPlansRoot c)) [t] \<or>
                   cfRole c = ''d'' \<and> cfPlanDir c \<noteq> [] \<and> inside ops (forms ops (cfPlanDir c)) [t]) (forms ops resolved)"

definition may_write :: "path_ops \<Rightarrow> chat_folders \<Rightarrow> string \<Rightarrow> string \<Rightarrow> bool" where
  "may_write ops c root resolved \<longleftrightarrow>
     plan_closed ops c resolved \<and> refusePlanManifestWrite ops c resolved = None \<and> refuseRepoPolicyWrite ops root resolved = None"

lemma touch_folders [simp]:
  "cfRole (touchPlanRepoLocked ops r c) = cfRole c" "cfPlansRoot (touchPlanRepoLocked ops r c) = cfPlansRoot c"
  "cfPlanDir (touchPlanRepoLocked ops r c) = cfPlanDir c" "cfWorkspace (touchPlanRepoLocked ops r c) = cfWorkspace c"
  by (simp_all add: touchPlanRepoLocked_def Let_def)

lemma WriteRoot_folders:
  "cfRole (fst (WriteRoot ops path c)) = cfRole c \<and> cfPlansRoot (fst (WriteRoot ops path c)) = cfPlansRoot c \<and>
   cfPlanDir (fst (WriteRoot ops path c)) = cfPlanDir c"
  by (simp add: WriteRoot_def write_root_worker_def write_root_planner_def Let_def split: option.split)

lemma inside_singletons: "inside ops roots targets \<longleftrightarrow> list_ex (\<lambda>t. inside ops roots [t]) targets"
  by (auto simp: inside_def list_ex_iff)

lemma resolveForWorkerWrite_closed:
  "resolveForWorkerWrite ops c root path = Inr resolved \<Longrightarrow> plan_closed ops c resolved"
  using inside_singletons [of ops "forms ops (cfPlansRoot c)" "forms ops resolved"]
  by (auto simp: resolveForWorkerWrite_def plan_closed_def Let_def list_all_iff list_ex_iff split: sum.splits if_splits)

lemma write_target_folders:
  "cfRole (fst (write_target ops path c)) = cfRole c \<and> cfPlansRoot (fst (write_target ops path c)) = cfPlansRoot c \<and>
   cfPlanDir (fst (write_target ops path c)) = cfPlanDir c"
  using WriteRoot_folders [of ops path c]
  by (auto simp: write_target_def split: option.split prod.split sum.split)

lemma write_target_allowed:
  assumes "write_target ops path c = (c1, Inr (root, resolved))"
  shows "may_write ops c1 root resolved"
  using assms
  by (auto simp: write_target_def may_write_def dest: resolveForWorkerWrite_closed split: option.splits prod.splits sum.splits)

end
