(* ===== verification/Text_Edits.thy ===== *)
theory Text_Edits
  imports Go_Strings
begin

text \<open>
  The text side of the file tools: line endings, the three tiers in which \<open>edit_file\<close> looks for the text
  to replace, the unified diff it reports (\<open>internal/tools/edit_file.go\<close>), and the one-row table of the
  similarity that a near miss is measured with. Lines are counted from one, as the code reports them.
\<close>

section \<open>Searching in texts\<close>

abbreviation LF :: char where "LF \<equiv> CHR 0x0A"
abbreviation CR :: char where "CR \<equiv> CHR 0x0D"
abbreviation TAB :: char where "TAB \<equiv> CHR 0x09"

abbreviation lines_of :: "string \<Rightarrow> string list" where
  "lines_of \<equiv> split_on LF"

text \<open>\<open>strings.Index\<close>, \<open>strings.Count\<close> and \<open>strings.Replace(s, old, new, 1)\<close>.\<close>

fun index_of :: "string \<Rightarrow> string \<Rightarrow> nat option" where
  "index_of needle [] = (if needle = [] then Some 0 else None)"
| "index_of needle (c # s) = (if prefix needle (c # s) then Some 0 else map_option Suc (index_of needle s))"

function count_in :: "string \<Rightarrow> string \<Rightarrow> nat" where
  "count_in needle s =
     (if needle = [] then rune_count s + 1
      else if s = [] then 0
      else if prefix needle s then 1 + count_in needle (drop (length needle) s)
      else count_in needle (tl s))"
  by pat_completeness auto
termination
  by (relation "measure (\<lambda>(n, s). length s)") (auto simp: prefix_def)

declare count_in.simps [simp del]

definition replace_first :: "string \<Rightarrow> string \<Rightarrow> string \<Rightarrow> string" where
  "replace_first old new s =
     (case index_of old s of None \<Rightarrow> s | Some i \<Rightarrow> take i s @ new @ drop (i + length old) s)"

text \<open>\<open>strings.TrimRight(s, " \t")\<close> and \<open>strings.TrimLeft(s, " \t")\<close>.\<close>

definition blank :: "char \<Rightarrow> bool" where
  "blank c \<longleftrightarrow> c = CHR '' '' \<or> c = TAB"

definition trim_right :: "string \<Rightarrow> string" where
  "trim_right s = rev (dropWhile blank (rev s))"

definition trim_left :: "string \<Rightarrow> string" where
  "trim_left s = dropWhile blank s"

definition normalizeLF :: "string \<Rightarrow> string" where
  "normalizeLF s = replace_all [CR] [LF] (replace_all [CR, LF] [LF] s)"

definition lineAt :: "string \<Rightarrow> nat \<Rightarrow> nat" where
  "lineAt s i = count_in [LF] (take i s) + 1"

fun occurrence_lines :: "string \<Rightarrow> string \<Rightarrow> nat \<Rightarrow> nat \<Rightarrow> nat list" where
  "occurrence_lines s needle offset 0 = []"
| "occurrence_lines s needle offset (Suc limit) =
     (case index_of needle (drop offset s) of
        None \<Rightarrow> []
      | Some i \<Rightarrow> lineAt s (offset + i) # occurrence_lines s needle (offset + i + length needle) limit)"

definition occurrenceLines :: "string \<Rightarrow> string \<Rightarrow> nat \<Rightarrow> nat list" where
  "occurrenceLines s needle limit = occurrence_lines s needle 0 limit"

text \<open>\<open>fmt\<close> of a number that is never negative.\<close>

definition decimal :: "nat \<Rightarrow> string" where
  "decimal n = Itoa (int n)"

definition multipleError :: "nat \<Rightarrow> nat list \<Rightarrow> string" where
  "multipleError count lines =
     ''old_string matches '' @ decimal count @ '' places (lines '' @ join '', '' (map decimal lines) @
     ''); include more surrounding lines so it matches once.''"

section \<open>Indentation and punctuation\<close>

function shrink :: "string \<Rightarrow> string \<Rightarrow> string" where
  "shrink p common = (if prefix common p \<or> common = [] then common else shrink p (butlast common))"
  by pat_completeness auto
termination
  by (relation "measure (\<lambda>(p, c). length c)") auto

declare shrink.simps [simp del]

definition indent_of :: "string \<Rightarrow> string" where
  "indent_of line = take (length line - length (trim_left line)) line"

fun common_from :: "string option \<Rightarrow> string list \<Rightarrow> string option" where
  "common_from common [] = common"
| "common_from common (line # ls) =
     (if TrimSpace line = [] then common_from common ls
      else case common of
             None \<Rightarrow> common_from (Some (indent_of line)) ls
           | Some c \<Rightarrow> common_from (Some (shrink (indent_of line) c)) ls)"

definition commonIndent :: "string list \<Rightarrow> string" where
  "commonIndent ls = (case common_from None ls of None \<Rightarrow> [] | Some c \<Rightarrow> c)"

definition stripIndent :: "string \<Rightarrow> string \<Rightarrow> string" where
  "stripIndent line indent = (if HasPrefix line indent then drop (length indent) line else trim_left line)"

text \<open>The replacer for typographic quotes and dashes, three bytes each.\<close>

definition punctuation :: "(string \<times> string) list" where
  "punctuation =
     [([CHR 0xE2, CHR 0x80, CHR 0x98], [CHR 0x27]), ([CHR 0xE2, CHR 0x80, CHR 0x99], [CHR 0x27]),
      ([CHR 0xE2, CHR 0x80, CHR 0x9C], [CHR 0x22]), ([CHR 0xE2, CHR 0x80, CHR 0x9D], [CHR 0x22]),
      ([CHR 0xE2, CHR 0x80, CHR 0x93], ''-''), ([CHR 0xE2, CHR 0x80, CHR 0x94], ''-'')]"

function punctuationNormalizer :: "string \<Rightarrow> string" where
  "punctuationNormalizer [] = []"
| "punctuationNormalizer (c # s) =
     (case find (\<lambda>p. prefix (fst p) (c # s)) punctuation of
        None \<Rightarrow> c # punctuationNormalizer s
      | Some p \<Rightarrow> snd p @ punctuationNormalizer (drop 2 s))"
  by pat_completeness auto
termination
  by (relation "measure length") auto

definition indentCompare :: "string \<Rightarrow> string" where
  "indentCompare s =
     (let v = trim_right s;
          leading = take (length v - length (trim_left v)) v;
          columns = sum_list (map (\<lambda>c. if c = TAB then 4 else 1) leading)
      in replicate columns (CHR '' '') @ drop (length leading) v)"

definition normalizedCompare :: "string \<Rightarrow> bool \<Rightarrow> string" where
  "normalizedCompare s indent =
     (let v = punctuationNormalizer (trim_right s) in if indent then indentCompare v else v)"

definition spacesToTabs :: "string \<Rightarrow> string" where
  "spacesToTabs s =
     (let leading = takeWhile (\<lambda>c. c = CHR '' '') s
      in replicate (length leading div 4) TAB @ replicate (length leading mod 4) (CHR '' '') @ drop (length leading) s)"

definition indentDelta :: "string \<Rightarrow> string \<Rightarrow> string" where
  "indentDelta old new_indent =
     (if TAB \<in> set new_indent \<or> TAB \<in> set old then ''tabs''
      else let delta = int (length new_indent) - int (length old)
           in (if delta < 0 then [] else ''+'') @ Itoa delta @ '' spaces'')"

definition collapse :: "string \<Rightarrow> string" where
  "collapse s = join '' '' (Fields (punctuationNormalizer (trim_right s)))"

text \<open>A line of the replacement at the indentation of the file.\<close>

definition reindent :: "string \<Rightarrow> string \<Rightarrow> string \<Rightarrow> string" where
  "reindent oldIndent fileIndent line =
     (if TrimSpace line = [] then line
      else let relative = stripIndent line oldIndent
           in fileIndent @ (if TAB \<in> set fileIndent then spacesToTabs relative else relative))"

section \<open>The three tiers\<close>

record edit_match =
  emText :: string
  emStart :: nat
  emEnd :: nat
  emNote :: string

definition exactTier :: "string \<Rightarrow> string \<Rightarrow> string \<Rightarrow> string + edit_match option" where
  "exactTier body old replacement =
     (let count = count_in old body
      in if count > 1 then Inl (multipleError count (occurrenceLines body old 5))
         else if count = 1 then
           (let start = lineAt body (case index_of old body of None \<Rightarrow> 0 | Some i \<Rightarrow> i)
            in Inr (Some \<lparr>emText = replace_first old replacement body, emStart = start,
                          emEnd = start + count_in [LF] old, emNote = ''strategy: exact''\<rparr>))
         else Inr None)"

text \<open>The places where a window of as many lines as \<open>old\<close> has matches.\<close>

definition places :: "(string list \<Rightarrow> bool) \<Rightarrow> nat \<Rightarrow> string list \<Rightarrow> nat list" where
  "places fits n ls = filter (\<lambda>i. fits (take n (drop i ls))) [0..<Suc (length ls) - n]"

definition same_window :: "bool \<Rightarrow> string list \<Rightarrow> string list \<Rightarrow> bool" where
  "same_window indent oldLines window =
     (if indent
      then list_all2 (\<lambda>w l. normalizedCompare (stripIndent w (commonIndent window)) True =
                            normalizedCompare (stripIndent l (commonIndent oldLines)) True) window oldLines
      else list_all2 (\<lambda>w l. normalizedCompare w False = normalizedCompare l False) window oldLines)"

definition splice_lines :: "nat \<Rightarrow> nat \<Rightarrow> string list \<Rightarrow> string list \<Rightarrow> string" where
  "splice_lines i n new_lines ls = join [LF] (take i ls @ new_lines @ drop (i + n) ls)"

definition whitespaceTier :: "string \<Rightarrow> string \<Rightarrow> string \<Rightarrow> bool \<Rightarrow> string + edit_match option" where
  "whitespaceTier body old replacement indent =
     (let fileLines = lines_of body; oldLines = lines_of old; n = length oldLines;
          matches = places (same_window indent oldLines) n fileLines
      in case matches of
           [] \<Rightarrow> Inr None
         | _ # _ # _ \<Rightarrow> Inl (multipleError (length matches) (map Suc (take 5 matches)))
         | [i] \<Rightarrow>
             let fileIndent = commonIndent (take n (drop i fileLines)); oldIndent = commonIndent oldLines;
                 adjusted = map (reindent oldIndent fileIndent) (if replacement \<noteq> [] then lines_of replacement else []);
                 newText = (if indent then join [LF] adjusted else replacement);
                 message = (if indent then ''strategy: whitespace-normalized; indentation adjusted ('' @ indentDelta oldIndent fileIndent @ '')''
                            else ''strategy: whitespace-normalized (trailing whitespace or Unicode punctuation)'')
             in Inr (Some \<lparr>emText = splice_lines i n (if replacement \<noteq> [] then lines_of newText else []) fileLines,
                           emStart = i + 1, emEnd = i + n, emNote = message\<rparr>))"

definition anchored :: "string list \<Rightarrow> string list \<Rightarrow> bool" where
  "anchored oldLines window \<longleftrightarrow>
     collapse (hd window) = collapse (hd oldLines) \<and> collapse (last window) = collapse (last oldLines)"

definition anchors_error :: "nat \<Rightarrow> nat list \<Rightarrow> string" where
  "anchors_error count lines =
     ''block anchors match '' @ decimal count @ '' places (lines '' @ join '', '' (map decimal lines) @
     ''); include unique first and last lines''"

definition blockAnchorTier :: "string \<Rightarrow> string \<Rightarrow> string \<Rightarrow> string + edit_match option" where
  "blockAnchorTier body old replacement =
     (let fileLines = lines_of body; oldLines = lines_of old; n = length oldLines
      in if n < 3 \<or> n > length fileLines then Inr None
         else let matches = places (anchored oldLines) n fileLines
              in case matches of
                   [] \<Rightarrow> Inr None
                 | _ # _ # _ \<Rightarrow> Inl (anchors_error (length matches) (map Suc (take 5 matches)))
                 | [i] \<Rightarrow>
                     let oldIndent = commonIndent oldLines; fileIndent = commonIndent (take n (drop i fileLines));
                         newLines = map (reindent oldIndent fileIndent) (if replacement \<noteq> [] then lines_of replacement else [])
                     in Inr (Some \<lparr>emText = splice_lines i n newLines fileLines, emStart = i + 1, emEnd = i + n,
                                   emNote = ''strategy: block-anchor; loose middle accepted''\<rparr>))"

text \<open>The tiers in the order of \<open>EditFile.Call\<close>: the first that matches decides, and an ambiguous tier refuses.\<close>

definition or_next :: "string + edit_match option \<Rightarrow> string + edit_match option \<Rightarrow> string + edit_match option" where
  "or_next r s = (case r of Inl e \<Rightarrow> Inl e | Inr (Some m) \<Rightarrow> Inr (Some m) | Inr None \<Rightarrow> s)"

definition edit_tiers :: "string \<Rightarrow> string \<Rightarrow> string \<Rightarrow> string + edit_match option" where
  "edit_tiers body old replacement =
     or_next (exactTier body old replacement)
       (or_next (whitespaceTier body old replacement False)
          (or_next (whitespaceTier body old replacement True) (blockAnchorTier body old replacement)))"


section \<open>The diff an edit reports\<close>

record diff_hunk =
  dhPrefix :: nat
  dhOld :: "string list"
  dhNew :: "string list"

fun common_prefix :: "'a list \<Rightarrow> 'a list \<Rightarrow> nat" where
  "common_prefix (x # xs) (y # ys) = (if x = y then Suc (common_prefix xs ys) else 0)"
| "common_prefix xs ys = 0"

definition diff_blocks :: "string list \<Rightarrow> string list \<Rightarrow> diff_hunk" where
  "diff_blocks beforeLines afterLines =
     (let p = common_prefix beforeLines afterLines;
          s = common_prefix (rev (drop p beforeLines)) (rev (drop p afterLines));
          beforeEnd = length beforeLines - s; afterEnd = length afterLines - s
      in \<lparr>dhPrefix = p, dhOld = drop p (take beforeEnd beforeLines), dhNew = drop p (take afterEnd afterLines)\<rparr>)"

text \<open>\<open>shown\<close> is the cleaned path.\<close>

definition unifiedDiff :: "string \<Rightarrow> string \<Rightarrow> string \<Rightarrow> string" where
  "unifiedDiff shown before after =
     (let h = diff_blocks (lines_of before) (lines_of after); start = decimal (dhPrefix h + 1)
      in TrimSuffix
           (''--- a/'' @ shown @ [LF] @ ''+++ b/'' @ shown @ [LF] @
            ''@@ -'' @ start @ '','' @ decimal (length (dhOld h)) @ '' +'' @ start @ '','' @ decimal (length (dhNew h)) @ '' @@'' @ [LF] @
            concat (map (\<lambda>l. ''-'' @ l @ [LF]) (dhOld h)) @ concat (map (\<lambda>l. ''+'' @ l @ [LF]) (dhNew h))) [LF])"

section \<open>The similarity of a near miss\<close>

text \<open>One row of the table per rune of the first text; \<open>prior\<close> is the entry above and left, \<open>left\<close> the one to the left.\<close>

fun row_step :: "'a \<Rightarrow> nat \<Rightarrow> nat \<Rightarrow> 'a list \<Rightarrow> nat list \<Rightarrow> nat list" where
  "row_step x prior left (y # ys) (r # rs) =
     (let v = (if x = y then prior + 1 else if left > r then left else r) in v # row_step x r v ys rs)"
| "row_step x prior left ys rs = []"

definition table_length :: "'a list \<Rightarrow> 'a list \<Rightarrow> nat" where
  "table_length ar br = last (0 # fold (\<lambda>x. row_step x 0 0 br) ar (replicate (length br) 0))"

text \<open>The quotient that \<open>similarity\<close> rounds to a float, as numerator and denominator.\<close>

definition similarity :: "string \<Rightarrow> string \<Rightarrow> nat \<times> nat" where
  "similarity a b =
     (let ar = map fst (runes (collapse a)); br = map fst (runes (collapse b))
      in if length ar + length br = 0 then (1, 1)
         else if length ar * length br > 4 * 1024 * 4 * 1024 then (0, 1)
         else (2 * table_length ar br, length ar + length br))"

section \<open>Line endings on disk\<close>

definition BOM :: string where
  "BOM = [CHR 0xEF, CHR 0xBB, CHR 0xBF]"

text \<open>What \<open>EditFile.Call\<close> makes of the bytes of a file before the edit and of the text after it.\<close>

definition decode_file :: "string \<Rightarrow> bool \<times> bool \<times> string" where
  "decode_file raw0 =
     (let bom = HasPrefix raw0 BOM; raw = (if bom then drop 3 raw0 else raw0)
      in (bom, Contains raw [CR, LF], normalizeLF raw))"

definition encode_file :: "bool \<Rightarrow> bool \<Rightarrow> string \<Rightarrow> string" where
  "encode_file bom crlf updated =
     (let output = (if crlf then replace_all [LF] [CR, LF] updated else updated)
      in if bom then BOM @ output else output)"

section \<open>Where a match lies\<close>

lemma index_of_Some:
  "index_of needle s = Some i \<Longrightarrow> i + length needle \<le> length s \<and> s = take i s @ needle @ drop (i + length needle) s"
proof (induction s arbitrary: i)
  case (Cons c s)
  show ?case
  proof (cases "prefix needle (c # s)")
    case True
    with Cons.prems have "i = 0" by simp
    moreover obtain zs where "c # s = needle @ zs" using True by (auto simp: prefix_def)
    then have "length needle \<le> length (c # s)" "c # s = needle @ drop (length needle) (c # s)" by simp_all
    ultimately show ?thesis by simp
  next
    case False
    with Cons.prems obtain j where "index_of needle s = Some j" "i = Suc j" by auto
    with Cons.IH show ?thesis by simp
  qed
qed (auto split: if_splits)

lemma index_of_None: "index_of needle s = None \<longleftrightarrow> \<not> Contains s needle"
  by (induction s) (auto simp: sublist_Cons_right)

lemma count_in_zero: "count_in needle s = 0 \<longleftrightarrow> \<not> Contains s needle"
proof (induction needle s rule: count_in.induct)
  case (1 needle s)
  then show ?case
    by (cases s) (auto simp: count_in.simps [of needle] sublist_Cons_right)
qed

lemma count_LF: "length (lines_of s) = Suc (count_in [LF] s)"
proof (induction s)
  case (Cons c s)
  then show ?case
    by (cases "lines_of s"; cases "c = LF") (auto simp: count_in.simps [of "[LF]" "c # s"] count_in.simps [of "[LF]" "LF # s"])
qed (simp add: count_in.simps)

lemma split_on_append:
  "split_on c (a @ b) = butlast (split_on c a) @ (last (split_on c a) @ hd (split_on c b)) # tl (split_on c b)"
proof (induction a)
  case Nil
  then show ?case by (cases "split_on c b") auto
next
  case (Cons x a)
  show ?case
  proof (cases "x = c")
    case False
    have "split_on c a = hd (split_on c a) # tl (split_on c a)" by simp
    with False Cons show ?thesis
      by (cases "split_on c a"; cases "tl (split_on c a)") auto
  qed (use Cons in auto)
qed

lemma split_on_last_clean: "c \<notin> set (last (split_on c a))" and split_on_hd_clean: "c \<notin> set (hd (split_on c a))"
  using split_on_parts [of _ c a] by (auto intro: last_in_set hd_in_set)

lemma split_on_middle:
  "split_on c (a @ x @ b) =
     butlast (split_on c a) @ split_on c (last (split_on c a) @ x @ hd (split_on c b)) @ tl (split_on c b)"
proof -
  let ?A = "split_on c a" and ?B = "split_on c b" and ?X = "split_on c x"
  have 1: "split_on c (hd ?B) = [hd ?B]" "split_on c (last ?A) = [last ?A]"
    by (simp_all add: split_on_absent split_on_hd_clean split_on_last_clean)
  have 2: "split_on c (x @ hd ?B) = butlast ?X @ [last ?X @ hd ?B]"
    by (simp add: split_on_append [of c x] 1)
  have 3: "split_on c (x @ b) = split_on c (x @ hd ?B) @ tl ?B"
    by (simp only: 2) (simp add: split_on_append [of c x])
  have "split_on c (last ?A @ x @ hd ?B) = (last ?A @ hd (split_on c (x @ hd ?B))) # tl (split_on c (x @ hd ?B))"
    by (simp add: split_on_append [of c "last ?A"] 1)
  then show ?thesis
    by (simp add: split_on_append [of c a] 3)
qed

lemma length_split_middle:
  "length (split_on c (last (split_on c a) @ x @ hd (split_on c b))) = length (split_on c x)"
proof -
  let ?A = "split_on c a" and ?B = "split_on c b" and ?X = "split_on c x"
  have 1: "split_on c (hd ?B) = [hd ?B]" "split_on c (last ?A) = [last ?A]"
    by (simp_all add: split_on_absent split_on_hd_clean split_on_last_clean)
  show ?thesis
    by (simp add: split_on_append [of c "last ?A"] split_on_append [of c x] 1)
qed

text \<open>Lines outside the place of an edit, for a replacement inside the text and for a splice of whole lines.\<close>

definition outside_kept :: "string \<Rightarrow> nat \<Rightarrow> nat \<Rightarrow> string \<Rightarrow> bool" where
  "outside_kept body start last_line updated \<longleftrightarrow>
     (\<exists>ns. lines_of updated = take (start - 1) (lines_of body) @ ns @ drop last_line (lines_of body))"

lemma outside_kept_replace:
  assumes "body = a @ old @ b"
  shows "outside_kept body (length (lines_of a)) (length (lines_of a) + count_in [LF] old) (a @ new @ b)"
    "length (lines_of a) + count_in [LF] old \<le> length (lines_of body)"
proof -
  let ?A = "lines_of a" and ?B = "lines_of b"
  let ?O = "lines_of (last ?A @ old @ hd ?B)"
  have t: "lines_of body = butlast ?A @ ?O @ tl ?B"
    unfolding assms by (rule split_on_middle)
  have l: "length ?O = Suc (count_in [LF] old)"
    by (simp only: length_split_middle count_LF)
  have b: "length (butlast ?A) = length ?A - 1" "0 < length ?A" by simp_all
  have "take (length ?A - 1) (lines_of body) = butlast ?A"
    by (simp add: t)
  moreover have "drop (length ?A + count_in [LF] old) (lines_of body) = tl ?B"
    using b by (simp add: t l del: length_greater_0_conv)
  ultimately show "outside_kept body (length ?A) (length ?A + count_in [LF] old) (a @ new @ b)"
    unfolding outside_kept_def by (metis split_on_middle)
  show "length ?A + count_in [LF] old \<le> length (lines_of body)"
    using b by (simp add: t l del: length_greater_0_conv)
qed

definition LF_free :: "string list \<Rightarrow> bool" where
  "LF_free ls \<longleftrightarrow> (\<forall>l \<in> set ls. LF \<notin> set l)"

lemma LF_free_lines [simp]: "LF_free (lines_of s)"
  by (auto simp: LF_free_def dest: split_on_parts)

lemma outside_kept_splice:
  assumes "LF_free new_lines" "i + n \<le> length (lines_of body)"
  shows "outside_kept body (Suc i) (i + n) (splice_lines i n new_lines (lines_of body))"
proof -
  let ?all = "take i (lines_of body) @ new_lines @ drop (i + n) (lines_of body)"
  have free: "\<forall>w \<in> set ?all. LF \<notin> set w"
    using assms(1) LF_free_lines [of body] by (auto simp: LF_free_def dest: in_set_takeD in_set_dropD)
  show ?thesis
  proof (cases "?all = []")
    case True
    then show ?thesis by (auto simp: outside_kept_def splice_lines_def)
  next
    case False
    from split_on_join [OF this free] show ?thesis
      by (auto simp: outside_kept_def splice_lines_def)
  qed
qed

lemma shrink_subset: "set (shrink p c) \<subseteq> set c"
proof (induction p c rule: shrink.induct)
  case (1 p c)
  then show ?case by (subst shrink.simps) (auto dest: in_set_butlastD)
qed

lemma indent_of_subset: "set (indent_of l) \<subseteq> set l"
  by (auto simp: indent_of_def dest: in_set_takeD)

lemma common_from_clean:
  "LF_free ls \<Longrightarrow> pred_option (\<lambda>c. LF \<notin> set c) common \<Longrightarrow> pred_option (\<lambda>c. LF \<notin> set c) (common_from common ls)"
proof (induction common ls rule: common_from.induct)
  case (2 common line ls)
  have "LF \<notin> set line" "LF_free ls" using "2.prems" by (simp_all add: LF_free_def)
  then have "LF \<notin> set (indent_of line)" "LF \<notin> set (shrink (indent_of line) c)" if "LF \<notin> set c" for c
    using indent_of_subset [of line] shrink_subset [of "indent_of line" c] that by auto
  with 2 \<open>LF \<notin> set line\<close> \<open>LF_free ls\<close> indent_of_subset [of line] show ?case
    by (auto split: option.split)
qed simp

lemma commonIndent_clean: "LF_free ls \<Longrightarrow> LF \<notin> set (commonIndent ls)"
  using common_from_clean [of ls None] by (cases "common_from None ls") (auto simp: commonIndent_def)

lemma reindent_clean:
  assumes "LF \<notin> set line" "LF \<notin> set fileIndent"
  shows "LF \<notin> set (reindent oldIndent fileIndent line)"
proof -
  have "LF \<notin> set (stripIndent line oldIndent)"
    using assms(1) by (auto simp: stripIndent_def trim_left_def dest: in_set_dropD set_dropWhileD)
  moreover have "LF \<notin> set (spacesToTabs s)" if "LF \<notin> set s" for s
    using that by (auto simp: spacesToTabs_def Let_def dest: in_set_dropD)
  ultimately show ?thesis
    using assms by (auto simp: reindent_def Let_def)
qed

lemma reindented_LF_free:
  assumes "LF_free window"
  shows "LF_free (map (reindent oldIndent (commonIndent window)) (lines_of replacement))"
  using LF_free_lines [of replacement] reindent_clean [OF _ commonIndent_clean [OF assms]]
  by (auto simp: LF_free_def)

lemma LF_free_Nil [simp]: "LF_free []"
  by (simp add: LF_free_def)

lemma LF_free_window: "LF_free (take n (drop i (lines_of s)))"
  using LF_free_lines [of s] by (auto simp: LF_free_def dest: in_set_takeD in_set_dropD)

lemma places_bound: "i \<in> set (places fits n ls) \<Longrightarrow> i + n \<le> length ls"
  by (auto simp: places_def)

text \<open>What a tier that compares whole lines promises.\<close>

definition line_match :: "(string list \<Rightarrow> bool) \<Rightarrow> string \<Rightarrow> string \<Rightarrow> edit_match \<Rightarrow> bool" where
  "line_match fits body old m \<longleftrightarrow>
     places fits (length (lines_of old)) (lines_of body) = [emStart m - 1] \<and> 1 \<le> emStart m \<and>
     emEnd m + 1 = emStart m + length (lines_of old) \<and> emEnd m \<le> length (lines_of body) \<and>
     outside_kept body (emStart m) (emEnd m) (emText m)"

lemma line_match_splice:
  assumes "places fits (length (lines_of old)) (lines_of body) = [i]" "LF_free new_lines"
  shows "line_match fits body old
    \<lparr>emText = splice_lines i (length (lines_of old)) new_lines (lines_of body), emStart = Suc i, emEnd = i + length (lines_of old), emNote = message\<rparr>"
proof -
  have "i + length (lines_of old) \<le> length (lines_of body)"
    using places_bound [of i fits "length (lines_of old)" "lines_of body"] assms(1) by simp
  then show ?thesis
    using assms outside_kept_splice [OF assms(2), of i "length (lines_of old)" body] by (simp add: line_match_def splice_lines_def)
qed

lemma whitespaceTier_match:
  assumes "whitespaceTier body old replacement indent = Inr (Some m)"
  shows "line_match (same_window indent (lines_of old)) body old m"
proof -
  let ?ms = "places (same_window indent (lines_of old)) (length (lines_of old)) (lines_of body)"
  obtain i where i: "?ms = [i]"
    using assms by (cases ?ms rule: remdups_adj.cases) (auto simp: whitespaceTier_def Let_def)
  show ?thesis
    using assms unfolding whitespaceTier_def Let_def i
    by (auto intro!: line_match_splice [OF i] simp: LF_free_def dest: split_on_parts)
qed

lemma blockAnchorTier_match:
  assumes "blockAnchorTier body old replacement = Inr (Some m)"
  shows "line_match (anchored (lines_of old)) body old m"
proof -
  let ?ms = "places (anchored (lines_of old)) (length (lines_of old)) (lines_of body)"
  obtain i where i: "?ms = [i]"
    using assms by (cases ?ms rule: remdups_adj.cases) (auto simp: blockAnchorTier_def Let_def split: if_splits)
  show ?thesis
    using assms unfolding blockAnchorTier_def Let_def i
    by (auto intro!: line_match_splice [OF i] reindented_LF_free LF_free_window split: if_splits)
qed

lemma exactTier_match:
  assumes "exactTier body old replacement = Inr (Some m)"
  shows "count_in old body = 1 \<and> (\<exists>a b. body = a @ old @ b \<and> emText m = a @ replacement @ b \<and> emStart m = length (lines_of a)) \<and>
    1 \<le> emStart m \<and> emEnd m + 1 = emStart m + length (lines_of old) \<and> emEnd m \<le> length (lines_of body) \<and>
    outside_kept body (emStart m) (emEnd m) (emText m)"
proof -
  have count: "count_in old body = 1"
    using assms by (auto simp: exactTier_def Let_def split: if_splits)
  then obtain i where i: "index_of old body = Some i"
    using count_in_zero [of old body] index_of_None [of old body] by force
  let ?a = "take i body" and ?b = "drop (i + length old) body"
  have m: "m = \<lparr>emText = ?a @ replacement @ ?b, emStart = length (lines_of ?a), emEnd = length (lines_of ?a) + count_in [LF] old, emNote = ''strategy: exact''\<rparr>"
    using assms i count by (simp add: exactTier_def Let_def replace_first_def lineAt_def count_LF)
  have body: "body = ?a @ old @ ?b" using index_of_Some [OF i] by simp
  note kept = outside_kept_replace(1) [OF body, of replacement] outside_kept_replace(2) [OF body]
  have "1 \<le> length (lines_of ?a)" by (simp add: count_LF)
  then show ?thesis
    using count body kept by (auto simp: m count_LF)
qed

text \<open>C18. An edit touches one place. A text that occurs exactly once is always replaced, at that occurrence, and an edit that finds nothing
  means that the text does not occur. In every tier the lines before the reported first line and after the reported last line stay as they
  were, the reported lines are as many as the text to replace has, and when the text does not occur literally, the reported place is the
  only one that the deciding tier accepts.\<close>

theorem edit_touches_one_place:
  "case edit_tiers body old replacement of
     Inl e \<Rightarrow> count_in old body \<noteq> 1
   | Inr None \<Rightarrow> \<not> Contains body old
   | Inr (Some m) \<Rightarrow>
       1 \<le> emStart m \<and> emEnd m + 1 = emStart m + length (lines_of old) \<and> emEnd m \<le> length (lines_of body) \<and>
       outside_kept body (emStart m) (emEnd m) (emText m) \<and>
       (if Contains body old then count_in old body = 1 \<and> (\<exists>a b. body = a @ old @ b \<and> emText m = a @ replacement @ b)
        else list_ex (\<lambda>fits. places (fits (lines_of old)) (length (lines_of old)) (lines_of body) = [emStart m - 1])
               [same_window False, same_window True, anchored])"
proof (cases "exactTier body old replacement")
  case (Inl e)
  then have "count_in old body \<noteq> 1" by (auto simp: exactTier_def Let_def split: if_splits)
  with Inl show ?thesis by (simp add: edit_tiers_def or_next_def)
next
  case (Inr r)
  show ?thesis
  proof (cases r)
    case (Some m)
    with Inr exactTier_match [of body old replacement m] have "Contains body old" by auto
    with Inr Some exactTier_match [of body old replacement m] show ?thesis by (auto simp: edit_tiers_def or_next_def)
  next
    case None
    with Inr have zero: "count_in old body = 0" by (auto simp: exactTier_def Let_def split: if_splits)
    then have no: "\<not> Contains body old" "count_in old body \<noteq> 1" using iffD1 [OF count_in_zero zero] by simp_all
    show ?thesis
      using whitespaceTier_match [of body old replacement] blockAnchorTier_match [of body old replacement] Inr None no
      by (auto simp: edit_tiers_def or_next_def line_match_def split: sum.splits option.splits)
  qed
qed

section \<open>The diff is a patch\<close>

text \<open>Reading a diff of one hunk and applying it: the block to remove must stand where the header says.\<close>

definition apply_patch :: "string \<Rightarrow> string \<Rightarrow> string option" where
  "apply_patch d before =
     (let ls = lines_of d; ours = lines_of before;
          start = nat (digits_value 0 (takeWhile is_digit (drop 4 (ls ! 2))));
          olds = map tl (takeWhile (\<lambda>l. HasPrefix l ''-'') (drop 3 ls));
          news = map tl (dropWhile (\<lambda>l. HasPrefix l ''-'') (drop 3 ls))
      in if length ls < 3 \<or> start = 0 \<or> take (length olds) (drop (start - 1) ours) \<noteq> olds then None
         else Some (join [LF] (take (start - 1) ours @ news @ drop (start - 1 + length olds) ours)))"

lemma common_prefix_take: "take (common_prefix xs ys) xs = take (common_prefix xs ys) ys"
  by (induction xs ys rule: common_prefix.induct) auto

lemma common_prefix_le: "common_prefix xs ys \<le> length xs" "common_prefix xs ys \<le> length ys"
  by (induction xs ys rule: common_prefix.induct) auto

lemma diff_blocks_split:
  fixes bs as :: "string list"
  defines "h \<equiv> diff_blocks bs as"
  shows "\<exists>post. bs = take (dhPrefix h) bs @ dhOld h @ post \<and> as = take (dhPrefix h) bs @ dhNew h @ post \<and> dhPrefix h \<le> length bs"
proof -
  define p where "p = common_prefix bs as"
  define s where "s = common_prefix (rev (drop p bs)) (rev (drop p as))"
  have p: "take p bs = take p as" "p \<le> length bs" "p \<le> length as"
    by (simp_all add: p_def common_prefix_take common_prefix_le)
  have s: "s \<le> length bs - p" "s \<le> length as - p"
    using common_prefix_le [of "rev (drop p bs)" "rev (drop p as)"] by (simp_all add: s_def)
  have "take s (rev (drop p bs)) = take s (rev (drop p as))"
    unfolding s_def by (rule common_prefix_take)
  then have t: "drop (length bs - s) bs = drop (length as - s) as"
    using s p by (simp add: take_rev drop_drop)
  have cut: "xs = take p xs @ drop p (take (length xs - s) xs) @ drop (length xs - s) xs" if "p \<le> length xs - s" for xs :: "string list"
    using that by (metis append_take_drop_id append.assoc min.absorb1 take_take)
  have h: "dhPrefix h = p" "dhOld h = drop p (take (length bs - s) bs)" "dhNew h = drop p (take (length as - s) as)"
    by (simp_all add: h_def diff_blocks_def Let_def p_def s_def)
  show ?thesis
    using cut [of bs] cut [of as] s p by (auto simp: h t intro: exI [of _ "drop (length as - s) as"])
qed

text \<open>The text of a diff is its lines.\<close>

lemma concat_lines_join:
  "ls \<noteq> [] \<Longrightarrow> concat (map (\<lambda>l. l @ [LF]) ls) = join [LF] ls @ [LF]"
  by (induction ls rule: join.induct [of _ "[LF]"]) auto

definition diff_lines :: "string \<Rightarrow> diff_hunk \<Rightarrow> string list" where
  "diff_lines shown h =
     [''--- a/'' @ shown, ''+++ b/'' @ shown,
      ''@@ -'' @ decimal (dhPrefix h + 1) @ '','' @ decimal (length (dhOld h)) @ '' +'' @ decimal (dhPrefix h + 1) @ '','' @
        decimal (length (dhNew h)) @ '' @@''] @
     map (\<lambda>l. ''-'' @ l) (dhOld h) @ map (\<lambda>l. ''+'' @ l) (dhNew h)"

lemma unifiedDiff_lines:
  "unifiedDiff shown before after = join [LF] (diff_lines shown (diff_blocks (lines_of before) (lines_of after)))"
proof -
  let ?h = "diff_blocks (lines_of before) (lines_of after)"
  have "unifiedDiff shown before after = TrimSuffix (concat (map (\<lambda>l. l @ [LF]) (diff_lines shown ?h))) [LF]"
    by (simp add: unifiedDiff_def diff_lines_def Let_def comp_def)
  also have "\<dots> = TrimSuffix (join [LF] (diff_lines shown ?h) @ [LF]) [LF]"
    by (subst concat_lines_join) (simp_all add: diff_lines_def)
  finally show ?thesis by (simp add: TrimSuffix_def)
qed

lemma digit_not_LF: "LF \<notin> set (decimal n)"
proof
  assume "LF \<in> set (decimal n)"
  then have "is_digit LF" using nat_digits_are_digits [of n] by (auto simp: decimal_def Itoa_def list_all_iff)
  then show False by (simp add: is_digit_def byte_def)
qed

lemma takeWhile_Itoa:
  "\<not> is_digit c \<Longrightarrow> takeWhile is_digit (decimal n @ c # s) = decimal n"
  using nat_digits_are_digits [of n] by (simp add: decimal_def Itoa_def list_all_iff takeWhile_append)

lemma diff_lines_free:
  assumes "LF \<notin> set shown" "LF_free (dhOld h)" "LF_free (dhNew h)"
  shows "\<forall>w \<in> set (diff_lines shown h). LF \<notin> set w"
  using assms digit_not_LF by (auto simp: diff_lines_def LF_free_def)

lemma diff_blocks_free: "LF_free bs \<Longrightarrow> LF_free as \<Longrightarrow> LF_free (dhOld (diff_blocks bs as)) \<and> LF_free (dhNew (diff_blocks bs as))"
  by (auto simp: diff_blocks_def Let_def LF_free_def dest: in_set_takeD in_set_dropD)

lemma diff_body:
  "takeWhile (\<lambda>l. HasPrefix l ''-'') (map (\<lambda>l. ''-'' @ l) olds @ map (\<lambda>l. ''+'' @ l) news) = map (\<lambda>l. ''-'' @ l) olds"
  "dropWhile (\<lambda>l. HasPrefix l ''-'') (map (\<lambda>l. ''-'' @ l) olds @ map (\<lambda>l. ''+'' @ l) news) = map (\<lambda>l. ''+'' @ l) news"
  by (induction olds; cases news; simp)+


section \<open>The table computes a longest common subsequence\<close>

definition is_lcs :: "nat \<Rightarrow> 'a list \<Rightarrow> 'a list \<Rightarrow> bool" where
  "is_lcs n xs ys \<longleftrightarrow>
     (\<exists>zs. subseq zs xs \<and> subseq zs ys \<and> length zs = n) \<and> (\<forall>zs. subseq zs xs \<and> subseq zs ys \<longrightarrow> length zs \<le> n)"

lemma subseq_snoc: "subseq zs (xs @ [x]) \<longleftrightarrow> subseq zs xs \<or> (\<exists>ws. zs = ws @ [x] \<and> subseq ws xs)"
proof
  assume "subseq zs (xs @ [x])"
  then obtain us vs where z: "zs = us @ vs" "subseq us xs" "subseq vs [x]"
    by (auto elim: subseq_appendE)
  from z(3) have "vs = [] \<or> vs = [x]" by (cases vs) (auto simp: subseq_Cons2_iff split: if_splits elim: subseq_Cons2_neq)
  with z show "subseq zs xs \<or> (\<exists>ws. zs = ws @ [x] \<and> subseq ws xs)" by auto
qed (auto intro: list_emb_append2 list_emb_append_mono)

lemma subseq_snoc_both:
  assumes "subseq (us @ [u]) (xs @ [x])"
  shows "subseq us xs"
proof -
  have "subseq us xs" if "subseq (us @ [u]) xs"
    by (rule subseq_order.trans [OF _ that]) (simp add: subseq_snoc)
  then show ?thesis using assms by (auto simp: subseq_snoc)
qed

lemma is_lcs_Nil: "is_lcs 0 [] ys" "is_lcs 0 xs []"
  by (auto simp: is_lcs_def)

lemma is_lcs_snoc_same:
  assumes "is_lcs n xs ys"
  shows "is_lcs (Suc n) (xs @ [x]) (ys @ [x])"
proof -
  obtain zs where zs: "subseq zs xs" "subseq zs ys" "length zs = n" using assms by (auto simp: is_lcs_def)
  have "length ws \<le> Suc n" if "subseq ws (xs @ [x])" "subseq ws (ys @ [x])" for ws
  proof (cases ws rule: rev_cases)
    case (snoc us u)
    have "subseq us xs" "subseq us ys" using that unfolding snoc by (auto dest: subseq_snoc_both)
    then show ?thesis using assms snoc by (simp add: is_lcs_def)
  qed simp
  moreover have "subseq (zs @ [x]) (xs @ [x]) \<and> subseq (zs @ [x]) (ys @ [x]) \<and> length (zs @ [x]) = Suc n"
    using zs by (simp add: subseq_snoc)
  ultimately show ?thesis unfolding is_lcs_def by blast
qed

lemma is_lcs_snoc_other:
  assumes "x \<noteq> y" "is_lcs p (xs @ [x]) ys" "is_lcs q xs (ys @ [y])"
  shows "is_lcs (max p q) (xs @ [x]) (ys @ [y])"
proof -
  have "length ws \<le> max p q" if "subseq ws (xs @ [x])" "subseq ws (ys @ [y])" for ws
  proof -
    have "subseq ws xs \<or> subseq ws ys" using that assms(1) unfolding subseq_snoc by auto
    then show ?thesis using that assms(2,3) unfolding is_lcs_def by (auto simp: le_max_iff_disj)
  qed
  moreover have "\<exists>zs. subseq zs (xs @ [x]) \<and> subseq zs (ys @ [y]) \<and> length zs = max p q"
    using assms(2,3) unfolding is_lcs_def max_def by (auto simp: subseq_snoc)
  ultimately show ?thesis unfolding is_lcs_def by blast
qed

text \<open>A row of the table holds the lengths for every prefix of the second text.\<close>

definition lcs_row :: "'a list \<Rightarrow> 'a list \<Rightarrow> 'a list \<Rightarrow> nat list \<Rightarrow> bool" where
  "lcs_row xs ps ys row \<longleftrightarrow> length row = length ys \<and> (\<forall>j < length ys. is_lcs (row ! j) xs (ps @ take (Suc j) ys))"

lemma lcs_row_Cons: "lcs_row xs ps (y # ys) (r # rs) \<longleftrightarrow> is_lcs r xs (ps @ [y]) \<and> lcs_row xs (ps @ [y]) ys rs"
  unfolding lcs_row_def by (auto simp: less_Suc_eq_0_disj)

lemma row_step_row:
  "lcs_row xs ps ys rs \<Longrightarrow> is_lcs prior xs ps \<Longrightarrow> is_lcs left (xs @ [x]) ps \<Longrightarrow> lcs_row (xs @ [x]) ps ys (row_step x prior left ys rs)"
proof (induction x prior left ys rs arbitrary: ps rule: row_step.induct)
  case (1 x prior left y ys r rs)
  define v where "v = (if x = y then prior + 1 else if left > r then left else r)"
  have r: "is_lcs r xs (ps @ [y])" "lcs_row xs (ps @ [y]) ys rs" using "1.prems"(1) by (simp_all add: lcs_row_Cons)
  have "is_lcs v (xs @ [x]) (ps @ [y])"
    using is_lcs_snoc_same [OF "1.prems"(2), of x] is_lcs_snoc_other [OF _ "1.prems"(3) r(1)]
    by (cases "x = y") (auto simp: v_def max_def split: if_splits)
  with "1.IH" [OF v_def r(2) r(1)] show ?case
    by (simp add: Let_def lcs_row_Cons flip: v_def)
qed (auto simp: lcs_row_def)

lemma table_rows: "lcs_row xs [] ys row \<Longrightarrow> lcs_row (xs @ zs) [] ys (fold (\<lambda>x. row_step x 0 0 ys) zs row)"
proof (induction zs arbitrary: xs row)
  case (Cons z zs)
  have "lcs_row (xs @ [z]) [] ys (row_step z 0 0 ys row)"
    by (rule row_step_row [OF Cons.prems]) (simp_all add: is_lcs_Nil)
  from Cons.IH [OF this] show ?case by simp
qed simp

text \<open>C33. The one-row table of \<open>similarity\<close> computes the length of a longest common subsequence of the two texts, never more than either
  length, and the similarity is one exactly for texts that are equal up to white space and punctuation.\<close>

theorem similarity_table_is_lcs:
  "is_lcs (table_length xs ys) xs ys \<and> table_length xs ys \<le> min (length xs) (length ys) \<and>
   (2 * table_length xs ys = length xs + length ys \<longleftrightarrow> xs = ys)"
proof -
  have "lcs_row [] [] ys (replicate (length ys) 0)"
    by (simp add: lcs_row_def is_lcs_Nil)
  from table_rows [OF this, of xs] have row: "lcs_row xs [] ys (fold (\<lambda>x. row_step x 0 0 ys) xs (replicate (length ys) 0))" by simp
  have lcs: "is_lcs (table_length xs ys) xs ys"
  proof (cases ys rule: rev_cases)
    case Nil
    with row show ?thesis by (simp add: table_length_def lcs_row_def is_lcs_Nil)
  next
    case (snoc us u)
    with row show ?thesis by (auto simp: table_length_def lcs_row_def last_conv_nth dest: spec [of _ "length us"])
  qed
  then obtain zs where zs: "subseq zs xs" "subseq zs ys" "length zs = table_length xs ys" by (auto simp: is_lcs_def)
  have le: "length zs \<le> length xs" "length zs \<le> length ys" using zs by (auto dest: list_emb_length)
  have "length xs \<le> table_length xs ys" if "xs = ys" using lcs that by (auto simp: is_lcs_def)
  moreover have "xs = ys" if "length zs = length xs" "length zs = length ys" using zs that by (metis subseq_same_length)
  ultimately show ?thesis using lcs le zs(3) by (auto simp: mult_2)
qed

section \<open>Line endings\<close>

lemma replace_all_single: "replace_all [c] new s = concat (map (\<lambda>x. if x = c then new else [x]) s)"
proof (induction s)
  case (Cons x s)
  then show ?case by (subst replace_all.simps) auto
qed (simp add: replace_all.simps)

lemma replace_all_absent: "\<not> Contains s old \<Longrightarrow> replace_all old new s = s"
proof (induction s)
  case (Cons c s)
  then show ?case by (subst replace_all.simps) (auto simp: sublist_Cons_right)
qed (simp add: replace_all.simps)

lemma CRLF_to_LF: "CR \<notin> set s \<Longrightarrow> replace_all [CR, LF] [LF] (replace_all [LF] [CR, LF] s) = s"
proof (induction s)
  case (Cons c s)
  then show ?case
    by (cases "c = LF") (auto simp: replace_all_single replace_all.simps [of "[CR, LF]" _ "_ # _"] prefix_Cons)
qed (simp add: replace_all.simps)

lemma normalizeLF_clean: "CR \<notin> set s \<Longrightarrow> normalizeLF s = s"
proof -
  assume "CR \<notin> set s"
  then have "\<not> Contains s [CR, LF]" "\<not> Contains s [CR]" by (auto simp: sublist_def)
  then show ?thesis by (simp add: normalizeLF_def replace_all_absent)
qed

lemma normalizeLF_CRLF: "CR \<notin> set s \<Longrightarrow> normalizeLF (replace_all [LF] [CR, LF] s) = s"
proof -
  assume s: "CR \<notin> set s"
  then have "\<not> Contains s [CR]" by (auto simp: sublist_def)
  with s show ?thesis by (simp add: normalizeLF_def CRLF_to_LF replace_all_absent)
qed

lemma CRLF_present: "LF \<in> set s \<Longrightarrow> Contains (replace_all [LF] [CR, LF] s) [CR, LF]"
proof -
  assume "LF \<in> set s"
  then obtain a b where "s = a @ LF # b" by (auto dest: split_list)
  then show ?thesis by (auto simp: replace_all_single sublist_def intro!: exI)
qed

text \<open>A file whose lines all end the same way.\<close>

definition uniform_file :: "bool \<Rightarrow> bool \<Rightarrow> string \<Rightarrow> string \<Rightarrow> bool" where
  "uniform_file bom crlf contents raw \<longleftrightarrow>
     CR \<notin> set contents \<and> raw = encode_file bom crlf contents \<and> (if bom then True else \<not> HasPrefix raw BOM) \<and> (if crlf then LF \<in> set contents else True)"

text \<open>An edit keeps the line endings and the byte order mark of a file whose lines all end the same way: what is decoded of it is its text,
  with the marks to restore, and encoding the text again gives the same bytes.\<close>

theorem line_endings_round_trip:
  assumes "uniform_file bom crlf contents raw"
  shows "decode_file raw = (bom, crlf, contents) \<and> (case decode_file raw of (b, c, t) \<Rightarrow> encode_file b c t = raw)"
proof -
  have u: "CR \<notin> set contents" "raw = encode_file bom crlf contents" using assms by (simp_all add: uniform_file_def)
  let ?out = "if crlf then replace_all [LF] [CR, LF] contents else contents"
  have "HasPrefix raw BOM = bom \<and> (if bom then drop 3 raw else raw) = ?out"
    using assms by (auto simp: uniform_file_def encode_file_def Let_def BOM_def)
  moreover have "Contains ?out [CR, LF] = crlf"
    using assms CRLF_present [of contents] by (cases crlf) (auto simp: uniform_file_def sublist_def)
  moreover have "normalizeLF ?out = contents" using u by (simp add: normalizeLF_clean normalizeLF_CRLF)
  ultimately have "decode_file raw = (bom, crlf, contents)" by (simp add: decode_file_def Let_def)
  with u(2) show ?thesis by simp
qed

theorem line_endings_round_trip_witness:
  "uniform_file True True [CHR ''a'', LF, CHR ''b''] (BOM @ [CHR ''a'', CR, LF, CHR ''b'']) \<and>
   decode_file (BOM @ [CHR ''a'', CR, LF, CHR ''b'']) = (True, True, [CHR ''a'', LF, CHR ''b''])"
proof -
  have "uniform_file True True [CHR ''a'', LF, CHR ''b''] (BOM @ [CHR ''a'', CR, LF, CHR ''b''])"
    by (simp add: uniform_file_def encode_file_def replace_all_single)
  then show ?thesis using line_endings_round_trip by blast
qed

text \<open>With mixed line endings the guarantee fails: one CRLF makes every line end with CRLF, in lines that the edit does not touch as well.\<close>

lemma mixed_line_endings_change:
  "case decode_file [CHR ''a'', LF, CHR ''b'', CR, LF] of (b, c, t) \<Rightarrow> encode_file b c t = [CHR ''a'', CR, LF, CHR ''b'', CR, LF]"
proof -
  have "Contains [CHR ''a'', LF, CHR ''b'', CR, LF] [CR, LF]" by (auto simp: sublist_def intro: exI [of _ "[CHR ''a'', LF, CHR ''b'']"])
  then show ?thesis
    by (simp add: decode_file_def BOM_def normalizeLF_def encode_file_def replace_all_single replace_all.simps [of "[CR, LF]"])
qed

text \<open>Occurrences are counted without overlap, so a text that occurs twice with an overlap counts as unique.\<close>

lemma overlapping_text_counts_once: "count_in ''aa'' ''aaa'' = 1 \<and> edit_tiers ''aaa'' ''aa'' ''b'' =
    Inr (Some \<lparr>emText = ''ba'', emStart = 1, emEnd = 1, emNote = ''strategy: exact''\<rparr>)"
  by (simp add: count_in.simps edit_tiers_def or_next_def exactTier_def Let_def replace_first_def lineAt_def)
end
