(* ===== verification/File_Undo.thy ===== *)
theory File_Undo
  imports Text_Edits "HOL-Library.Char_ord" "HOL-Library.List_Lexorder"
begin

text \<open>
  The undo store of the file tools (\<open>internal/tools/file_undo.go\<close>): before a tool of a run changes a file the store
  keeps the bytes the file had when the run first touched it, after the change it notes what the run left, and an undo
  restores the files that are still as the run left them. The store is a log per run on disk (\<open>changes.jsonl\<close>), the
  saved bytes beside it, and a cache of the entries in memory. Files and directories are values of the state; what the
  operating system answers is a parameter of every operation (\<open>undo_env\<close>), so every error branch of the code is a branch
  of the model. Log lines are records: their JSON form is read back as it was written.
\<close>

section \<open>Disk and records\<close>

datatype node = Regular (nBytes: string) (nMode: nat) | Irregular

type_synonym disk = "(string, node) gomap"

record undo_record =
  urKind :: string
  urPath :: string
  urDisplay :: string
  urBlob :: string
  urDigest :: string
  urExisted :: bool
  urMode :: nat
  urBytes :: int
  urAt :: int

definition zero_record :: undo_record where
  "zero_record = \<lparr>urKind = [], urPath = [], urDisplay = [], urBlob = [], urDigest = [], urExisted = False, urMode = 0, urBytes = 0, urAt = 0\<rparr>"

record undo_entry =
  ueBefore :: undo_record
  ueAfter :: undo_record
  ueSaved :: bool
  ueUndone :: bool

definition zero_entry :: undo_entry where
  "zero_entry = \<lparr>ueBefore = zero_record, ueAfter = zero_record, ueSaved = False, ueUndone = False\<rparr>"

type_synonym undo_entries = "(string, undo_entry) gomap"

record undo_dir =
  udLog :: "undo_record list"
  udBlobs :: "(string, string) gomap"
  udTime :: int

definition new_dir :: undo_dir where
  "new_dir = \<lparr>udLog = [], udBlobs = [], udTime = 0\<rparr>"

record undo_store =
  usRoot :: string
  usMaxRuns :: nat
  usMaxBytes :: int
  usDirs :: "(string \<times> string, undo_dir) gomap"
  usRuns :: "(string \<times> string, undo_entries) gomap"

definition fileUndoRuns :: nat where
  "fileUndoRuns = 20"

definition fileUndoBytes :: int where
  "fileUndoBytes = 256 * 1024 * 1024"

definition NewFileUndoStore :: "string \<Rightarrow> undo_store" where
  "NewFileUndoStore root = \<lparr>usRoot = root, usMaxRuns = fileUndoRuns, usMaxBytes = fileUndoBytes, usDirs = [], usRuns = []\<rparr>"

definition SetRoot :: "string \<Rightarrow> undo_store \<Rightarrow> undo_store" where
  "SetRoot root st = st\<lparr>usRoot := root, usRuns := []\<rparr>"

text \<open>How an append to the log can end: before the directory exists, with the directory but no record, with the record on disk
  but an error of \<open>Sync\<close> or \<open>Chtimes\<close>, or well.\<close>

datatype log_append = NotMade string | MadeOnly string | Torn string | Appended

text \<open>What the operating system answers: \<open>unHash\<close> is SHA-256 in hexadecimal, \<open>unNow\<close> the clock, \<open>unStat\<close> and \<open>unRead\<close> errors other than
  a missing file, \<open>unWrite\<close> and \<open>unRemove\<close> those of replacing and removing a file, \<open>unBlob\<close> those of the store's own files,
  \<open>unLoad\<close> those of opening and scanning a log, \<open>unClear\<close> those of removing a run's directory, \<open>unSize\<close> the bytes of a
  directory.\<close>

record undo_env =
  unHash :: "string \<Rightarrow> string"
  unNow :: int
  unStat :: "string \<Rightarrow> string option"
  unRead :: "string \<Rightarrow> string option"
  unWrite :: "string \<Rightarrow> string option"
  unRemove :: "string \<Rightarrow> string option"
  unAppend :: "undo_record \<Rightarrow> log_append"
  unBlobWrite :: "string \<Rightarrow> string option"
  unBlobRead :: "string \<Rightarrow> string option"
  unLoad :: "string \<times> string \<Rightarrow> string option"
  unClear :: "string \<times> string \<Rightarrow> string option"
  unSize :: "undo_dir \<Rightarrow> int"

datatype read_result = Got string | Missing | ReadFailed string

definition read_file :: "undo_env \<Rightarrow> disk \<Rightarrow> string \<Rightarrow> read_result" where
  "read_file env d path =
     (case unRead env path of
        Some e \<Rightarrow> ReadFailed e
      | None \<Rightarrow> (case mget d path of None \<Rightarrow> Missing | Some (Regular b m) \<Rightarrow> Got b | Some Irregular \<Rightarrow> ReadFailed ''is a directory''))"

definition safeStoreName :: "undo_env \<Rightarrow> string \<Rightarrow> string" where
  "safeStoreName env s = take 32 (unHash env s)"

definition runDir :: "undo_env \<Rightarrow> string \<Rightarrow> string \<Rightarrow> string \<times> string" where
  "runDir env sid rid = (safeStoreName env sid, safeStoreName env rid)"

definition dir_of :: "string \<times> string \<Rightarrow> undo_store \<Rightarrow> undo_dir" where
  "dir_of k st = mget_or new_dir (usDirs st) k"

section \<open>The log\<close>

definition replay_record :: "undo_record \<Rightarrow> undo_entries \<Rightarrow> undo_entries" where
  "replay_record r es =
     (if urPath r = [] then es
      else let e0 = mget_or zero_entry es (urPath r);
               e1 = (if urKind r = ''before'' then e0\<lparr>ueBefore := r\<rparr> else e0);
               e2 = (if urKind r = ''after'' then e1\<lparr>ueAfter := r, ueSaved := True\<rparr> else e1);
               e3 = (if urKind r = ''undone'' then e2\<lparr>ueUndone := True\<rparr> else e2)
           in mput (urPath r) e3 es)"

definition replay_log :: "undo_record list \<Rightarrow> undo_entries" where
  "replay_log rs = fold replay_record rs []"

definition loadLocked :: "undo_env \<Rightarrow> string \<Rightarrow> string \<Rightarrow> undo_store \<Rightarrow> undo_store \<times> (string + undo_entries)" where
  "loadLocked env sid rid st =
     (case mget (usRuns st) (sid, rid) of
        Some es \<Rightarrow> (st, Inr es)
      | None \<Rightarrow>
          (case unLoad env (runDir env sid rid) of
             Some e \<Rightarrow> (st, Inl e)
           | None \<Rightarrow>
               let es = replay_log (udLog (dir_of (runDir env sid rid) st))
               in (st\<lparr>usRuns := mput (sid, rid) es (usRuns st)\<rparr>, Inr es)))"

definition appendLocked :: "undo_env \<Rightarrow> string \<Rightarrow> string \<Rightarrow> undo_record \<Rightarrow> undo_store \<Rightarrow> undo_store \<times> string option" where
  "appendLocked env sid rid r st =
     (let k = runDir env sid rid; d = dir_of k st;
          put = (\<lambda>d. st\<lparr>usDirs := mput k d (usDirs st)\<rparr>)
      in case unAppend env r of
           NotMade e \<Rightarrow> (st, Some e)
         | MadeOnly e \<Rightarrow> (put d, Some e)
         | Torn e \<Rightarrow> (put (d\<lparr>udLog := udLog d @ [r]\<rparr>), Some e)
         | Appended \<Rightarrow> (put (d\<lparr>udLog := udLog d @ [r], udTime := unNow env\<rparr>), None))"

definition set_entry :: "string \<Rightarrow> string \<Rightarrow> string \<Rightarrow> undo_entry \<Rightarrow> undo_store \<Rightarrow> undo_store" where
  "set_entry sid rid path e st =
     (case mget (usRuns st) (sid, rid) of
        None \<Rightarrow> st
      | Some es \<Rightarrow> st\<lparr>usRuns := mput (sid, rid) (mput path e es) (usRuns st)\<rparr>)"

section \<open>Room\<close>

text \<open>Removing a run's directory drops the cached entries whose directory it is.\<close>

definition drop_dir :: "undo_env \<Rightarrow> string \<times> string \<Rightarrow> undo_store \<Rightarrow> undo_store" where
  "drop_dir env k st =
     st\<lparr>usDirs := mdel k (usDirs st), usRuns := filter (\<lambda>(key, es). runDir env (fst key) (snd key) \<noteq> k) (usRuns st)\<rparr>"

definition by_age :: "(string \<times> string, undo_dir) gomap \<Rightarrow> (string \<times> string) list" where
  "by_age ds = map fst (sort_key (\<lambda>x. udTime (snd x)) ds)"

fun clear_oldest :: "undo_env \<Rightarrow> int \<Rightarrow> string \<times> string \<Rightarrow> (string \<times> string) list \<Rightarrow> int \<Rightarrow> undo_store \<Rightarrow> undo_store \<times> string option" where
  "clear_oldest env need protect ks held st =
     (if held + need > usMaxBytes st \<and> ks \<noteq> [] then
        (let k = hd ks
         in if k = protect then clear_oldest env need protect (tl ks) held st
            else case unClear env k of
                   Some e \<Rightarrow> (st, Some e)
                 | None \<Rightarrow> clear_oldest env need protect (tl ks) (held - unSize env (dir_of k st)) (drop_dir env k st))
      else if held + need > usMaxBytes st then (st, Some ''256 MiB undo store is full'') else (st, None))"

declare clear_oldest.simps [simp del]

definition makeRoomLocked :: "undo_env \<Rightarrow> int \<Rightarrow> string \<times> string \<Rightarrow> undo_store \<Rightarrow> undo_store \<times> string option" where
  "makeRoomLocked env need protect st =
     (let held = sum_list (map (\<lambda>x. unSize env (snd x)) (usDirs st))
      in if need > usMaxBytes st then (st, Some ''file is larger than the 256 MiB undo store'')
         else clear_oldest env need protect (by_age (usDirs st)) held st)"

fun clear_runs :: "undo_env \<Rightarrow> (string \<times> string) list \<Rightarrow> undo_store \<Rightarrow> undo_store \<times> string option" where
  "clear_runs env ks st =
     (if length ks > usMaxRuns st then
        (case unClear env (hd ks) of
           Some e \<Rightarrow> (st, Some e)
         | None \<Rightarrow> clear_runs env (tl ks) (drop_dir env (hd ks) st))
      else (st, None))"

declare clear_runs.simps [simp del]

definition pruneRunsLocked :: "undo_env \<Rightarrow> string \<Rightarrow> undo_store \<Rightarrow> undo_store \<times> string option" where
  "pruneRunsLocked env sid st = clear_runs env (by_age (filter (\<lambda>x. fst (fst x) = safeStoreName env sid) (usDirs st))) st"

section \<open>Prepare, commit and undo\<close>

definition put_blob :: "string \<times> string \<Rightarrow> int \<Rightarrow> string \<Rightarrow> string \<Rightarrow> undo_store \<Rightarrow> undo_store" where
  "put_blob k now name bytes st =
     (let d = dir_of k st in st\<lparr>usDirs := mput k (d\<lparr>udBlobs := mput name bytes (udBlobs d), udTime := now\<rparr>) (usDirs st)\<rparr>)"

definition skipped :: "string \<Rightarrow> string \<Rightarrow> undo_store \<Rightarrow> bool" where
  "skipped sid rid st \<longleftrightarrow> usRoot st = [] \<or> sid = [] \<or> rid = []"

text \<open>The snapshot of an existing file: room, then the blob, then the record that names it.\<close>

definition snapshot_file ::
  "undo_env \<Rightarrow> string \<Rightarrow> string \<Rightarrow> string \<Rightarrow> string \<Rightarrow> disk \<Rightarrow> undo_store \<Rightarrow> undo_store \<times> (string + undo_record)" where
  "snapshot_file env sid rid path display d st =
     (let r0 = zero_record\<lparr>urKind := ''before'', urPath := path, urDisplay := display, urAt := unNow env\<rparr>
      in case unStat env path of
           Some e \<Rightarrow> (st, Inl e)
         | None \<Rightarrow>
             (case mget d path of
                None \<Rightarrow> (st, Inr r0)
              | Some Irregular \<Rightarrow> (st, Inl (''undo snapshot refused non-file '' @ display))
              | Some (Regular b mode) \<Rightarrow>
                  (case read_file env d path of
                     ReadFailed e \<Rightarrow> (st, Inl e)
                   | Missing \<Rightarrow> (st, Inl ''file does not exist'')
                   | Got bytes \<Rightarrow>
                       let r = r0\<lparr>urExisted := True, urMode := mode, urBytes := int (length bytes), urBlob := unHash env path @ ''.before''\<rparr>;
                           (st1, err) = makeRoomLocked env (urBytes r + 4096) (runDir env sid rid) st
                       in case err of
                            Some e \<Rightarrow> (st1, Inl e)
                          | None \<Rightarrow>
                              (case unBlobWrite env (urBlob r) of
                                 Some e \<Rightarrow> (st1, Inl e)
                               | None \<Rightarrow> (put_blob (runDir env sid rid) (unNow env) (urBlob r) bytes st1, Inr r)))))"

definition Prepare :: "undo_env \<Rightarrow> string \<Rightarrow> string \<Rightarrow> string \<Rightarrow> string \<Rightarrow> disk \<Rightarrow> undo_store \<Rightarrow> undo_store \<times> string option" where
  "Prepare env sid rid path display d st =
     (if skipped sid rid st then (st, None)
      else case loadLocked env sid rid st of
             (st1, Inl e) \<Rightarrow> (st1, Some e)
           | (st1, Inr es) \<Rightarrow>
               if mget es path \<noteq> None then (st1, None)
               else (case snapshot_file env sid rid path display d st1 of
                       (st2, Inl e) \<Rightarrow> (st2, Some e)
                     | (st2, Inr r) \<Rightarrow>
                         (case appendLocked env sid rid r st2 of
                            (st3, Some e) \<Rightarrow> (st3, Some e)
                          | (st3, None) \<Rightarrow> pruneRunsLocked env sid (set_entry sid rid path (zero_entry\<lparr>ueBefore := r\<rparr>) st3))))"

definition digestBytes :: "undo_env \<Rightarrow> string \<Rightarrow> string" where
  "digestBytes env b = unHash env b"

definition Commit :: "undo_env \<Rightarrow> string \<Rightarrow> string \<Rightarrow> string \<Rightarrow> disk \<Rightarrow> undo_store \<Rightarrow> undo_store \<times> string option" where
  "Commit env sid rid path d st =
     (if skipped sid rid st then (st, None)
      else case loadLocked env sid rid st of
             (st1, Inl e) \<Rightarrow> (st1, Some e)
           | (st1, Inr es) \<Rightarrow>
               (case mget es path of
                  None \<Rightarrow> (st1, Some ''undo snapshot missing'')
                | Some entry \<Rightarrow>
                    let r0 = zero_record\<lparr>urKind := ''after'', urPath := path, urDisplay := urDisplay (ueBefore entry), urAt := unNow env\<rparr>;
                        finish = (\<lambda>r. case appendLocked env sid rid r st1 of
                                        (st2, Some e) \<Rightarrow> (st2, Some e)
                                      | (st2, None) \<Rightarrow> (set_entry sid rid path (entry\<lparr>ueAfter := r, ueSaved := True\<rparr>) st2, None))
                    in case read_file env d path of
                         ReadFailed e \<Rightarrow> (st1, Some e)
                       | Missing \<Rightarrow> finish r0
                       | Got b \<Rightarrow> finish (r0\<lparr>urDigest := digestBytes env b, urExisted := True\<rparr>)))"

definition matchesAfterLocked :: "undo_env \<Rightarrow> string \<Rightarrow> undo_entry \<Rightarrow> disk \<Rightarrow> bool" where
  "matchesAfterLocked env path entry d =
     (case read_file env d path of
        Missing \<Rightarrow> \<not> urExisted (ueAfter entry)
      | ReadFailed e \<Rightarrow> False
      | Got b \<Rightarrow> urExisted (ueAfter entry) \<and> digestBytes env b = urDigest (ueAfter entry))"

text \<open>Putting back what a file was: the saved bytes with their mode, or no file. A fresh temporary file has mode 0600, which mode 0
  leaves as it is.\<close>

definition restored_node :: "undo_entry \<Rightarrow> string \<Rightarrow> node" where
  "restored_node entry bytes = Regular bytes (if urMode (ueBefore entry) = 0 then 384 else urMode (ueBefore entry))"

definition restore_file :: "undo_env \<Rightarrow> string \<times> string \<Rightarrow> string \<Rightarrow> undo_entry \<Rightarrow> undo_store \<Rightarrow> disk \<Rightarrow> disk \<times> string option" where
  "restore_file env k path entry st d =
     (if urExisted (ueBefore entry) then
        (case unBlobRead env (urBlob (ueBefore entry)) of
           Some e \<Rightarrow> (d, Some e)
         | None \<Rightarrow>
             (case mget (udBlobs (dir_of k st)) (urBlob (ueBefore entry)) of
                None \<Rightarrow> (d, Some ''file does not exist'')
              | Some bytes \<Rightarrow>
                  (case unWrite env path of
                     Some e \<Rightarrow> (d, Some e)
                   | None \<Rightarrow> (mput path (restored_node entry bytes) d, None))))
      else case unRemove env path of Some e \<Rightarrow> (d, Some e) | None \<Rightarrow> (mdel path d, None))"

definition undone_record :: "undo_env \<Rightarrow> string \<Rightarrow> undo_record" where
  "undone_record env path = zero_record\<lparr>urKind := ''undone'', urPath := path, urAt := unNow env\<rparr>"

record undo_result =
  frRestored :: "string list"
  frSkipped :: "string list"

fun undo_paths ::
  "undo_env \<Rightarrow> string \<Rightarrow> string \<Rightarrow> undo_entries \<Rightarrow> string list \<Rightarrow> undo_result \<Rightarrow> disk \<times> undo_store \<Rightarrow> (disk \<times> undo_store) \<times> undo_result \<times> string option" where
  "undo_paths env sid rid es [] res s = (s, res, None)"
| "undo_paths env sid rid es (path # ps) res (d, st) =
     (let entry = mget_or zero_entry es path
      in if \<not> matchesAfterLocked env path entry d
         then undo_paths env sid rid es ps (res\<lparr>frSkipped := frSkipped res @ [urDisplay (ueBefore entry)]\<rparr>) (d, st)
         else case restore_file env (runDir env sid rid) path entry st d of
                (d1, Some e) \<Rightarrow> ((d1, st), res, Some e)
              | (d1, None) \<Rightarrow>
                  let res1 = res\<lparr>frRestored := frRestored res @ [urDisplay (ueBefore entry)]\<rparr>
                  in case appendLocked env sid rid (undone_record env path) st of
                       (st1, Some e) \<Rightarrow> ((d1, st1), res1, Some e)
                     | (st1, None) \<Rightarrow> undo_paths env sid rid es ps res1 (d1, set_entry sid rid path (entry\<lparr>ueUndone := True\<rparr>) st1))"

definition undoable :: "undo_entries \<Rightarrow> string list" where
  "undoable es = filter (\<lambda>p. case mget es p of None \<Rightarrow> False | Some e \<Rightarrow> ueSaved e \<and> \<not> ueUndone e) (remdups (keys es))"

definition no_result :: undo_result where
  "no_result = \<lparr>frRestored = [], frSkipped = []\<rparr>"

definition Undo :: "undo_env \<Rightarrow> string \<Rightarrow> string \<Rightarrow> disk \<times> undo_store \<Rightarrow> (disk \<times> undo_store) \<times> undo_result \<times> string option" where
  "Undo env sid rid s =
     (case s of (d, st) \<Rightarrow>
        (case loadLocked env sid rid st of
           (st1, Inl e) \<Rightarrow> ((d, st1), no_result, Some e)
         | (st1, Inr es) \<Rightarrow> undo_paths env sid rid es (sort (undoable es)) no_result (d, st1)))"

definition entryByIDLocked :: "undo_env \<Rightarrow> string \<Rightarrow> undo_entries \<Rightarrow> (string \<times> undo_entry) option" where
  "entryByIDLocked env fid es = find (\<lambda>(p, e). ueSaved e \<and> \<not> ueUndone e \<and> safeStoreName env p = fid) es"

definition UndoFile ::
  "undo_env \<Rightarrow> string \<Rightarrow> string \<Rightarrow> string \<Rightarrow> disk \<times> undo_store \<Rightarrow> (disk \<times> undo_store) \<times> undo_result \<times> string option" where
  "UndoFile env sid rid fid s =
     (case s of (d, st) \<Rightarrow>
        (case loadLocked env sid rid st of
           (st1, Inl e) \<Rightarrow> ((d, st1), no_result, Some e)
         | (st1, Inr es) \<Rightarrow>
             (case entryByIDLocked env fid es of
                None \<Rightarrow> ((d, st1), no_result, Some ''file change is no longer held'')
              | Some (path, entry) \<Rightarrow>
                  if \<not> matchesAfterLocked env path entry d
                  then ((d, st1), no_result\<lparr>frSkipped := [urDisplay (ueBefore entry)]\<rparr>, None)
                  else (case restore_file env (runDir env sid rid) path entry st1 d of
                          (d1, Some e) \<Rightarrow> ((d1, st1), no_result, Some e)
                        | (d1, None) \<Rightarrow>
                            (case appendLocked env sid rid (undone_record env path) st1 of
                               (st2, Some e) \<Rightarrow> ((d1, st2), no_result, Some e)
                             | (st2, None) \<Rightarrow>
                                 ((d1, set_entry sid rid path (entry\<lparr>ueUndone := True\<rparr>) st2),
                                  no_result\<lparr>frRestored := [urDisplay (ueBefore entry)]\<rparr>, None))))))"

definition DeleteChat :: "undo_env \<Rightarrow> string option \<Rightarrow> string \<Rightarrow> undo_store \<Rightarrow> undo_store \<times> string option" where
  "DeleteChat env err sid st =
     (let st1 = st\<lparr>usRuns := filter (\<lambda>(key, es). fst key \<noteq> sid) (usRuns st)\<rparr>
      in case err of
           Some e \<Rightarrow> (st1, Some e)
         | None \<Rightarrow> (st1\<lparr>usDirs := filter (\<lambda>(k, d). fst k \<noteq> safeStoreName env sid) (usDirs st1)\<rparr>, None))"

section \<open>What the panel shows\<close>

record undo_file =
  ffID :: string
  ffPath :: string
  ffKind :: string
  ffChangedSince :: bool

definition file_kind :: "undo_entry \<Rightarrow> string" where
  "file_kind e = (if \<not> urExisted (ueBefore e) then ''created'' else if \<not> urExisted (ueAfter e) then ''removed'' else ''changed'')"

definition Files :: "undo_env \<Rightarrow> string \<Rightarrow> string \<Rightarrow> disk \<Rightarrow> undo_store \<Rightarrow> undo_store \<times> (string + undo_file list \<times> bool)" where
  "Files env sid rid d st =
     (if udLog (dir_of (runDir env sid rid) st) = [] then (st, Inr ([], False))
      else case loadLocked env sid rid st of
             (st1, Inl e) \<Rightarrow> (st1, Inl e)
           | (st1, Inr es) \<Rightarrow>
               (st1, Inr (sort_key ffPath (map (\<lambda>(p, e). \<lparr>ffID = safeStoreName env p, ffPath = urDisplay (ueBefore e), ffKind = file_kind e,
                                              ffChangedSince = \<not> matchesAfterLocked env p e d\<rparr>)
                                            (filter (\<lambda>(p, e). ueSaved e \<and> \<not> ueUndone e) es)), True)))"

record diff_line =
  dlKind :: string
  dlOld :: nat
  dlNew :: nat
  dlText :: string

definition splitDiffLines :: "string \<Rightarrow> string list" where
  "splitDiffLines s = (if s = [] then [] else lines_of (TrimSuffix s [LF]))"

definition boundedFileDiff :: "string \<Rightarrow> string \<Rightarrow> diff_line list" where
  "boundedFileDiff before after =
     (let oldLines = splitDiffLines before; newLines = splitDiffLines after;
          p = common_prefix oldLines newLines;
          s = common_prefix (rev (drop p oldLines)) (rev (drop p newLines));
          oldEnd = length oldLines - s; newEnd = length newLines - s;
          start = p - 3; limit = min (newEnd + 3) (length newLines)
      in map (\<lambda>i. \<lparr>dlKind = ''context'', dlOld = i + 1, dlNew = i + 1, dlText = oldLines ! i\<rparr>) [start..<p] @
         map (\<lambda>i. \<lparr>dlKind = ''removed'', dlOld = i + 1, dlNew = 0, dlText = oldLines ! i\<rparr>) [p..<oldEnd] @
         map (\<lambda>i. \<lparr>dlKind = ''added'', dlOld = 0, dlNew = i + 1, dlText = newLines ! i\<rparr>) [p..<newEnd] @
         map (\<lambda>i. \<lparr>dlKind = ''context'', dlOld = oldEnd + (i - newEnd) + 1, dlNew = i + 1, dlText = newLines ! i\<rparr>) [newEnd..<limit])"


section \<open>An undo spares later work\<close>

lemma dir_of_append:
  "udBlobs (dir_of k (fst (appendLocked env sid rid r st))) = udBlobs (dir_of k st)"
  "usRuns (fst (appendLocked env sid rid r st)) = usRuns st"
  by (auto simp: appendLocked_def Let_def dir_of_def split: log_append.split)

lemma dir_of_set_entry [simp]: "dir_of k (set_entry sid rid path e st) = dir_of k st"
  by (simp add: set_entry_def dir_of_def split: option.split)

lemma dir_of_load: "usDirs (fst (loadLocked env sid rid st)) = usDirs st"
  by (simp add: loadLocked_def Let_def split: option.split)

text \<open>What an undo makes of one path.\<close>

definition put_back :: "undo_env \<Rightarrow> string \<times> string \<Rightarrow> undo_store \<Rightarrow> undo_entry \<Rightarrow> node option \<Rightarrow> bool" where
  "put_back env k st e found \<longleftrightarrow>
     (if urExisted (ueBefore e)
      then (case mget (udBlobs (dir_of k st)) (urBlob (ueBefore e)) of None \<Rightarrow> False | Some b \<Rightarrow> found = Some (restored_node e b))
      else found = None)"

lemma restore_file_outcome:
  "case restore_file env k path e st d of (d1, err) \<Rightarrow>
     (\<forall>p. p \<noteq> path \<longrightarrow> mget d1 p = mget d p) \<and>
     (case err of None \<Rightarrow> put_back env k st e (mget d1 path) | Some _ \<Rightarrow> d1 = d)"
  by (simp add: restore_file_def put_back_def split: option.split)

lemma matches_local: "mget d p = mget d' p \<Longrightarrow> matchesAfterLocked env p e d = matchesAfterLocked env p e d'"
  by (simp add: matchesAfterLocked_def read_file_def cong: option.case_cong)

lemma put_back_blobs: "udBlobs (dir_of k st) = udBlobs (dir_of k st') \<Longrightarrow> put_back env k st e found = put_back env k st' e found"
  by (simp add: put_back_def)

lemma undo_paths_outcome:
  "undo_paths env sid rid es ps res (d, st) = ((d', st'), res', err) \<Longrightarrow> distinct ps \<Longrightarrow>
   (\<forall>p. mget d' p = mget d p \<or>
      p \<in> set ps \<and> matchesAfterLocked env p (mget_or zero_entry es p) d \<and>
      put_back env (runDir env sid rid) st (mget_or zero_entry es p) (mget d' p)) \<and>
   (err = None \<longrightarrow> (\<forall>p \<in> set ps. matchesAfterLocked env p (mget_or zero_entry es p) d \<longrightarrow>
      put_back env (runDir env sid rid) st (mget_or zero_entry es p) (mget d' p)))"
proof (induction ps arbitrary: res d st)
  case (Cons path ps)
  let ?k = "runDir env sid rid"
  let ?entry = "mget_or zero_entry es path"
  have d: "path \<notin> set ps" "distinct ps" using Cons.prems(2) by simp_all
  show ?case
  proof (cases "matchesAfterLocked env path ?entry d")
    case False
    with Cons.prems(1) have "undo_paths env sid rid es ps (res\<lparr>frSkipped := frSkipped res @ [urDisplay (ueBefore ?entry)]\<rparr>) (d, st) = ((d', st'), res', err)"
      by simp
    from Cons.IH [OF this d(2)] False show ?thesis by auto
  next
    case True
    obtain d1 e1 where r: "restore_file env ?k path ?entry st d = (d1, e1)" by fastforce
    note ro = restore_file_outcome [where env = env and k = ?k and path = path and e = ?entry and st = st and d = d, unfolded r prod.case]
    show ?thesis
    proof (cases e1)
      case (Some e)
      with Cons.prems(1) True r ro show ?thesis by auto
    next
      case None
      with ro have restd: "put_back env ?k st ?entry (mget d1 path)" and frame: "\<forall>p. p \<noteq> path \<longrightarrow> mget d1 p = mget d p" by simp_all
      obtain st1 e2 where a: "appendLocked env sid rid (undone_record env path) st = (st1, e2)" by fastforce
      have blobs: "udBlobs (dir_of ?k st1) = udBlobs (dir_of ?k st)" using dir_of_append(1) [of ?k env sid rid _ st] a by (metis fst_conv)
      show ?thesis
      proof (cases e2)
        case (Some e)
        with Cons.prems(1) True r None a have "d' = d1" "err \<noteq> None" by (auto simp: Let_def)
        with restd frame True show ?thesis by auto
      next
        case None2: None
        let ?st2 = "set_entry sid rid path (?entry\<lparr>ueUndone := True\<rparr>) st1"
        have "undo_paths env sid rid es ps (res\<lparr>frRestored := frRestored res @ [urDisplay (ueBefore ?entry)]\<rparr>) (d1, ?st2) = ((d', st'), res', err)"
          using Cons.prems(1) True r None a None2 by (simp add: Let_def)
        note ih = Cons.IH [OF this d(2)]
        have pb: "put_back env ?k ?st2 e f = put_back env ?k st e f" for e f by (rule put_back_blobs) (simp add: blobs)
        have same: "mget d' path = mget d1 path" using ih d(1) by auto
        have m: "matchesAfterLocked env p (mget_or zero_entry es p) d1 = matchesAfterLocked env p (mget_or zero_entry es p) d" if "p \<noteq> path" for p
          using frame that by (intro matches_local) simp
        show ?thesis
        proof (intro conjI allI impI ballI)
          fix p
          show "mget d' p = mget d p \<or> p \<in> set (path # ps) \<and> matchesAfterLocked env p (mget_or zero_entry es p) d \<and>
              put_back env ?k st (mget_or zero_entry es p) (mget d' p)"
            using spec [OF conjunct1 [OF ih], of p] same restd True spec [OF frame, of p] m [of p] by (cases "p = path") (simp_all add: pb)
        next
          fix p assume "err = None" "p \<in> set (path # ps)" "matchesAfterLocked env p (mget_or zero_entry es p) d"
          then show "put_back env ?k st (mget_or zero_entry es p) (mget d' p)"
            using ih same restd m [of p] by (cases "p = path") (auto simp: pb)
        qed
      qed
    qed
  qed
qed simp

lemma undoable_iff: "p \<in> set (undoable es) \<longleftrightarrow> (case mget es p of None \<Rightarrow> False | Some e \<Rightarrow> ueSaved e \<and> \<not> ueUndone e)"
  by (cases "mget es p") (auto simp: undoable_def dest: mget_in_keys)

lemma distinct_undoable [simp]: "distinct (sort (undoable es))"
  by (simp add: undoable_def)


section \<open>An undo gives back what a run found\<close>

lemma mget_filter_keys: "mget (filter (\<lambda>(k, v). P k) m) key = (if P key then mget m key else None)"
  by (induction m) auto

text \<open>Making room never splits a run: its directory and its cached entries are both kept or both gone.\<close>

definition kept_or_gone :: "undo_env \<Rightarrow> string \<Rightarrow> string \<Rightarrow> undo_store \<Rightarrow> undo_store \<Rightarrow> bool" where
  "kept_or_gone env sid rid st st' \<longleftrightarrow>
     dir_of (runDir env sid rid) st' = dir_of (runDir env sid rid) st \<and> mget (usRuns st') (sid, rid) = mget (usRuns st) (sid, rid) \<or>
     dir_of (runDir env sid rid) st' = new_dir \<and> mget (usRuns st') (sid, rid) = None"

lemma kept_or_gone_refl [simp]: "kept_or_gone env sid rid st st"
  by (simp add: kept_or_gone_def)

lemma kept_or_gone_trans: "kept_or_gone env sid rid a b \<Longrightarrow> kept_or_gone env sid rid b c \<Longrightarrow> kept_or_gone env sid rid a c"
  by (auto simp: kept_or_gone_def)

lemma drop_dir_run:
  "dir_of k (drop_dir env k' st) = (if k = k' then new_dir else dir_of k st)"
  "mget (usRuns (drop_dir env k' st)) (sid, rid) = (if runDir env sid rid = k' then None else mget (usRuns st) (sid, rid))"
  using mget_filter_keys [of "\<lambda>key. runDir env (fst key) (snd key) \<noteq> k'" "usRuns st" "(sid, rid)"]
  by (auto simp: drop_dir_def dir_of_def)

lemma kept_or_gone_drop: "kept_or_gone env sid rid st (drop_dir env k st)"
  by (auto simp: kept_or_gone_def drop_dir_run)

lemma kept_or_gone_clear_runs: "kept_or_gone env sid rid st (fst (clear_runs env ks st))"
proof (induction env ks st rule: clear_runs.induct)
  case (1 env ks st)
  then show ?case
    by (subst clear_runs.simps) (auto split: option.split intro: kept_or_gone_trans kept_or_gone_drop)
qed

definition run_kept :: "undo_env \<Rightarrow> string \<Rightarrow> string \<Rightarrow> undo_store \<Rightarrow> undo_store \<Rightarrow> bool" where
  "run_kept env sid rid st st' \<longleftrightarrow>
     dir_of (runDir env sid rid) st' = dir_of (runDir env sid rid) st \<and> mget (usRuns st') (sid, rid) = mget (usRuns st) (sid, rid)"

lemma run_kept_clear_oldest:
  "protect = runDir env sid rid \<Longrightarrow> run_kept env sid rid st (fst (clear_oldest env need protect ks held st))"
proof (induction env need protect ks held st rule: clear_oldest.induct)
  case (1 env need protect ks held st)
  show ?case
  proof (cases "held + need > usMaxBytes st \<and> ks \<noteq> []")
    case False
    then show ?thesis by (subst clear_oldest.simps) (auto simp: run_kept_def)
  next
    case True
    show ?thesis
    proof (cases "hd ks = protect")
      case True2: True
      with True 1 show ?thesis by (subst clear_oldest.simps) (simp add: Let_def)
    next
      case False
      have "run_kept env sid rid st (drop_dir env (hd ks) st)" using False "1.prems" by (auto simp: run_kept_def drop_dir_run)
      with True False 1 show ?thesis
        by (subst clear_oldest.simps) (auto simp: Let_def run_kept_def split: option.split)
    qed
  qed
qed

lemma run_kept_makeRoom: "run_kept env sid rid st (fst (makeRoomLocked env need (runDir env sid rid) st))"
  by (simp add: makeRoomLocked_def Let_def run_kept_clear_oldest) (simp add: run_kept_def)

text \<open>The snapshot leaves the log and the cached entries, and what it recorded puts the file back.\<close>

lemma snapshot_file_outcome:
  "case snapshot_file env sid rid path display d st of (st', r) \<Rightarrow>
     udLog (dir_of (runDir env sid rid) st') = udLog (dir_of (runDir env sid rid) st) \<and>
     mget (usRuns st') (sid, rid) = mget (usRuns st) (sid, rid) \<and>
     (case r of
        Inl e \<Rightarrow> True
      | Inr r \<Rightarrow> urPath r = path \<and> urKind r = ''before'' \<and>
          (case mget d path of
             None \<Rightarrow> put_back env (runDir env sid rid) st' (e\<lparr>ueBefore := r\<rparr>) None
           | Some n \<Rightarrow> put_back env (runDir env sid rid) st' (e\<lparr>ueBefore := r\<rparr>) (Some (Regular (nBytes n) (if nMode n = 0 then 384 else nMode n)))))"
proof (cases "unStat env path")
  case (Some x)
  then show ?thesis by (simp add: snapshot_file_def Let_def)
next
  case None
  show ?thesis
  proof (cases "mget d path")
    case None2: None
    with None show ?thesis by (simp add: snapshot_file_def Let_def put_back_def zero_record_def)
  next
    case (Some n)
    note s = run_kept_makeRoom [of env sid rid st "int (length (nBytes n)) + 4096"]
    from None Some s show ?thesis
      by (cases n; cases "unRead env path")
         (simp_all add: snapshot_file_def Let_def read_file_def split_beta run_kept_def put_blob_def dir_of_def put_back_def restored_node_def zero_record_def
           split: option.split)
  qed
qed

text \<open>After a snapshot that succeeded, the run is gone altogether or the entry puts the file back.\<close>

definition found_node :: "node option \<Rightarrow> node option" where
  "found_node n = map_option (\<lambda>n. Regular (nBytes n) (if nMode n = 0 then 384 else nMode n)) n"

lemma put_back_found:
  assumes "snapshot_file env sid rid path display d st = (st', Inr r)"
  shows "put_back env (runDir env sid rid) st' (e\<lparr>ueBefore := r\<rparr>) (found_node (mget d path))"
  using snapshot_file_outcome [where env = env and sid = sid and rid = rid and path = path and display = display and d = d and st = st and e = e]
  by (simp add: assms found_node_def split: option.splits)

lemma load_cached:
  assumes "loadLocked env sid rid st = (st1, Inr es)"
  shows "mget (usRuns st1) (sid, rid) = Some es" "dir_of k st1 = dir_of k st"
  using assms by (auto simp: loadLocked_def Let_def dir_of_def split: option.splits)

lemma set_entry_cached:
  "mget (usRuns (set_entry sid rid path e st)) (sid, rid) = map_option (mput path e) (mget (usRuns st) (sid, rid))"
  by (simp add: set_entry_def split: option.split)

lemma Prepare_held:
  assumes "\<not> skipped sid rid st" "loadLocked env sid rid st = (st0, Inr es)" "mget es path = None" "Prepare env sid rid path display d st = (st', None)"
  shows "case mget (usRuns st') (sid, rid) of
      None \<Rightarrow> dir_of (runDir env sid rid) st' = new_dir
    | Some es' \<Rightarrow> (case mget es' path of None \<Rightarrow> False | Some e \<Rightarrow> \<not> ueUndone e \<and> put_back env (runDir env sid rid) st' e (found_node (mget d path)))"
proof -
  let ?k = "runDir env sid rid"
  obtain st2 r where s: "snapshot_file env sid rid path display d st0 = (st2, Inr r)"
    and p: "\<exists>st3. appendLocked env sid rid r st2 = (st3, None) \<and> pruneRunsLocked env sid (set_entry sid rid path (zero_entry\<lparr>ueBefore := r\<rparr>) st3) = (st', None)"
    using assms by (auto simp: Prepare_def split: prod.splits sum.splits option.splits)
  then obtain st3 where a: "appendLocked env sid rid r st2 = (st3, None)"
    and pr: "pruneRunsLocked env sid (set_entry sid rid path (zero_entry\<lparr>ueBefore := r\<rparr>) st3) = (st', None)" by blast
  let ?st4 = "set_entry sid rid path (zero_entry\<lparr>ueBefore := r\<rparr>) st3"
  have c: "mget (usRuns st2) (sid, rid) = Some es"
    using snapshot_file_outcome [where env = env and sid = sid and rid = rid and path = path and display = display and d = d and st = st0]
      load_cached(1) [OF assms(2)] by (simp add: s)
  have b: "udBlobs (dir_of ?k st3) = udBlobs (dir_of ?k st2)" "usRuns st3 = usRuns st2"
    using dir_of_append(1) [of ?k env sid rid r st2] dir_of_append(2) [of env sid rid r st2] a by simp_all
  have back4: "put_back env ?k ?st4 (zero_entry\<lparr>ueBefore := r\<rparr>) (found_node (mget d path))"
    using put_back_found [OF s, of zero_entry] put_back_blobs [of ?k ?st4 st2] b by simp
  have "kept_or_gone env sid rid ?st4 st'"
    using kept_or_gone_clear_runs [of env sid rid ?st4] pr by (metis pruneRunsLocked_def fst_conv)
  then show ?thesis
    using back4 b c put_back_blobs [of ?k st' ?st4] by (auto simp: kept_or_gone_def set_entry_cached zero_entry_def)
qed

lemma Commit_held:
  assumes "\<not> skipped sid rid st" "Commit env sid rid path d st = (st', None)"
    and "case mget (usRuns st) (sid, rid) of
           None \<Rightarrow> dir_of (runDir env sid rid) st = new_dir
         | Some es \<Rightarrow> (case mget es path of None \<Rightarrow> False | Some e \<Rightarrow> \<not> ueUndone e \<and> put_back env (runDir env sid rid) st e found)"
  shows "\<exists>es e. mget (usRuns st') (sid, rid) = Some es \<and> mget es path = Some e \<and> ueSaved e \<and> \<not> ueUndone e \<and> matchesAfterLocked env path e d \<and>
    put_back env (runDir env sid rid) st' e found"
proof -
  let ?k = "runDir env sid rid"
  obtain st1 es where l: "loadLocked env sid rid st = (st1, Inr es)"
    using assms(1,2) by (auto simp: Commit_def split: prod.splits sum.splits)
  obtain e where e: "mget es path = Some e"
    using assms(1,2) l by (auto simp: Commit_def split: option.splits)
  have cached: "mget (usRuns st) (sid, rid) = Some es"
    using assms(3) l e by (cases "mget (usRuns st) (sid, rid)") (auto simp: loadLocked_def Let_def replay_log_def new_dir_def split: option.splits)
  then have st1: "st1 = st" using l by (simp add: loadLocked_def)
  let ?r0 = "zero_record\<lparr>urKind := ''after'', urPath := path, urDisplay := urDisplay (ueBefore e), urAt := unNow env\<rparr>"
  obtain r st2 where a: "appendLocked env sid rid r st = (st2, None)"
    and s: "st' = set_entry sid rid path (e\<lparr>ueAfter := r, ueSaved := True\<rparr>) st2"
    and r: "case read_file env d path of Missing \<Rightarrow> r = ?r0 | Got b \<Rightarrow> r = ?r0\<lparr>urDigest := digestBytes env b, urExisted := True\<rparr> | ReadFailed _ \<Rightarrow> False"
    using assms(1,2) l e st1
    by (cases "read_file env d path") (auto simp: Commit_def Let_def split: prod.splits option.splits)
  have "usRuns st2 = usRuns st" "udBlobs (dir_of ?k st2) = udBlobs (dir_of ?k st)"
    using dir_of_append(1) [of ?k env sid rid r st] dir_of_append(2) [of env sid rid r st] a by simp_all
  moreover have "matchesAfterLocked env path (e\<lparr>ueAfter := r, ueSaved := True\<rparr>) d"
    using r by (cases "read_file env d path") (auto simp: matchesAfterLocked_def zero_record_def)
  moreover have "put_back env ?k st e found" "\<not> ueUndone e" using assms(3) cached e by simp_all
  ultimately show ?thesis
    using cached e unfolding s by (auto simp: set_entry_cached put_back_def restored_node_def split: option.splits)
qed

lemma usRoot_kept:
  "usRoot (fst (clear_runs env ks st)) = usRoot st"
  "usRoot (fst (clear_oldest env need protect ks held st)) = usRoot st"
proof -
  show "usRoot (fst (clear_runs env ks st)) = usRoot st"
    by (induction env ks st rule: clear_runs.induct) (subst clear_runs.simps, auto simp: drop_dir_def split: option.split)
  show "usRoot (fst (clear_oldest env need protect ks held st)) = usRoot st"
    by (induction env need protect ks held st rule: clear_oldest.induct)
       (subst clear_oldest.simps, auto simp: drop_dir_def Let_def split: option.split)
qed

lemma usRoot_snapshot: "usRoot (fst (snapshot_file env sid rid path display d st)) = usRoot st"
  by (simp add: snapshot_file_def makeRoomLocked_def Let_def split_beta usRoot_kept put_blob_def split: option.split node.split read_result.split)

lemma usRoot_Prepare: "usRoot (fst (Prepare env sid rid path display d st)) = usRoot st"
proof -
  have l: "usRoot (fst (loadLocked env sid rid st)) = usRoot st" by (simp add: loadLocked_def Let_def split: option.split)
  have a: "usRoot (fst (appendLocked env sid rid r x)) = usRoot x" for r x by (simp add: appendLocked_def Let_def split: log_append.split)
  have s: "usRoot (set_entry sid rid path e x) = usRoot x" for e x by (simp add: set_entry_def split: option.split)
  show ?thesis
    using l by (auto simp: Prepare_def pruneRunsLocked_def usRoot_kept s split: prod.split sum.split option.split)
       (metis a fst_conv usRoot_snapshot)+
qed

text \<open>An undo gives back what a run found: when a run takes its first snapshot of a path, changes the file, and records the change, then an undo
  that reports no error leaves at that path what the snapshot saw, the same bytes with the same mode, or no file. In between the store may have
  made room for the snapshot by removing other runs, and whatever else the run changed is undone with it.\<close>

theorem undo_gives_back:
  assumes "\<not> skipped sid rid st" and "loadLocked env sid rid st = (st0, Inr es)" and "mget es path = None"
    and "Prepare env sid rid path display d st = (st1, None)"
    and "Commit env sid rid path d1 st1 = (st2, None)"
    and "Undo env sid rid (d1, st2) = ((d2, st3), res, None)"
  shows "mget d2 path = found_node (mget d path)"
proof -
  let ?k = "runDir env sid rid"
  have "\<not> skipped sid rid st1" using assms(1) usRoot_Prepare [of env sid rid path display d st] by (simp add: assms(4) skipped_def)
  from Commit_held [OF this assms(5) Prepare_held [OF assms(1-4)]]
  obtain es2 e where h: "mget (usRuns st2) (sid, rid) = Some es2" "mget es2 path = Some e" "ueSaved e" "\<not> ueUndone e"
      "matchesAfterLocked env path e d1" "put_back env ?k st2 e (found_node (mget d path))" by blast
  have "undo_paths env sid rid es2 (sort (undoable es2)) no_result (d1, st2) = ((d2, st3), res, None)"
    using assms(6) h(1) by (simp add: Undo_def loadLocked_def)
  from undo_paths_outcome [OF this distinct_undoable] have "put_back env ?k st2 e (mget d2 path)"
    using h undoable_iff [of path es2] by (auto simp: mget_or_def)
  with h(6) show ?thesis by (auto simp: put_back_def split: if_splits option.splits)
qed

definition calm_env :: undo_env where
  "calm_env = \<lparr>unHash = (\<lambda>s. s), unNow = 7, unStat = (\<lambda>_. None), unRead = (\<lambda>_. None), unWrite = (\<lambda>_. None), unRemove = (\<lambda>_. None),
     unAppend = (\<lambda>_. Appended), unBlobWrite = (\<lambda>_. None), unBlobRead = (\<lambda>_. None), unLoad = (\<lambda>_. None), unClear = (\<lambda>_. None), unSize = (\<lambda>_. 100)\<rparr>"

theorem undo_gives_back_witness:
  "\<exists>st1 st2 d2 st3 res.
     Prepare calm_env ''s'' ''r'' ''f'' ''f'' [(''f'', Regular ''old'' 420)] (NewFileUndoStore ''/u'') = (st1, None) \<and>
     Commit calm_env ''s'' ''r'' ''f'' [(''f'', Regular ''new'' 420)] st1 = (st2, None) \<and>
     Undo calm_env ''s'' ''r'' ([(''f'', Regular ''new'' 420)], st2) = ((d2, st3), res, None) \<and>
     mget d2 ''f'' = Some (Regular ''old'' 420)"
proof -
  define st where "st = NewFileUndoStore ''/u''"
  define st1 where "st1 = fst (Prepare calm_env ''s'' ''r'' ''f'' ''f'' [(''f'', Regular ''old'' 420)] st)"
  define st2 where "st2 = fst (Commit calm_env ''s'' ''r'' ''f'' [(''f'', Regular ''new'' 420)] st1)"
  have p: "Prepare calm_env ''s'' ''r'' ''f'' ''f'' [(''f'', Regular ''old'' 420)] st = (st1, None)" unfolding st1_def st_def by code_simp
  have c: "Commit calm_env ''s'' ''r'' ''f'' [(''f'', Regular ''new'' 420)] st1 = (st2, None)" unfolding st2_def st1_def st_def by code_simp
  have "snd (snd (Undo calm_env ''s'' ''r'' ([(''f'', Regular ''new'' 420)], st2))) = None" unfolding st2_def st1_def st_def by code_simp
  then obtain d2 st3 res where u: "Undo calm_env ''s'' ''r'' ([(''f'', Regular ''new'' 420)], st2) = ((d2, st3), res, None)" by (metis prod.collapse)
  have n: "\<not> skipped ''s'' ''r'' st" "loadLocked calm_env ''s'' ''r'' st = (fst (loadLocked calm_env ''s'' ''r'' st), Inr [])" unfolding st_def by code_simp+
  have "mget d2 ''f'' = found_node (Some (Regular ''old'' 420))"
    using undo_gives_back [OF n(1) n(2) _ p c u] by simp
  with p c u show ?thesis unfolding st_def by (auto simp: found_node_def)
qed

section \<open>The log is the state\<close>

definition step_entry :: "undo_record \<Rightarrow> undo_entry \<Rightarrow> undo_entry" where
  "step_entry r e =
     (let e1 = (if urKind r = ''before'' then e\<lparr>ueBefore := r\<rparr> else e);
          e2 = (if urKind r = ''after'' then e1\<lparr>ueAfter := r, ueSaved := True\<rparr> else e1)
      in if urKind r = ''undone'' then e2\<lparr>ueUndone := True\<rparr> else e2)"

lemma mget_replay_record:
  "mget (replay_record r es) p = (if urPath r \<noteq> [] \<and> p = urPath r then Some (step_entry r (mget_or zero_entry es p)) else mget es p)"
  by (simp add: replay_record_def step_entry_def Let_def)

lemma replay_log_snoc: "replay_log (rs @ [r]) = replay_record r (replay_log rs)"
  by (simp add: replay_log_def)

lemma replay_log_no_empty: "mget (replay_log rs) [] = None"
  by (induction rs rule: rev_induct) (auto simp: replay_log_snoc mget_replay_record, simp add: replay_log_def)

text \<open>What is cached of a run reads like its log.\<close>

definition reads_like :: "undo_entries \<Rightarrow> undo_record list \<Rightarrow> bool" where
  "reads_like es rs \<longleftrightarrow> (\<forall>p. mget es p = mget (replay_log rs) p)"

definition in_sync :: "undo_env \<Rightarrow> string \<Rightarrow> string \<Rightarrow> undo_store \<Rightarrow> bool" where
  "in_sync env sid rid st =
     (case mget (usRuns st) (sid, rid) of None \<Rightarrow> True | Some es \<Rightarrow> reads_like es (udLog (dir_of (runDir env sid rid) st)))"

definition untorn :: "undo_env \<Rightarrow> bool" where
  "untorn env \<longleftrightarrow> (\<forall>r e. unAppend env r \<noteq> Torn e)"

lemma reads_like_step:
  assumes "reads_like es rs" "urPath r \<noteq> []" "e = step_entry r (mget_or zero_entry es (urPath r))"
  shows "reads_like (mput (urPath r) e es) (rs @ [r])"
  using assms by (simp add: reads_like_def replay_log_snoc mget_replay_record mget_or_def)

lemma in_sync_load:
  assumes "in_sync env sid rid st" "loadLocked env sid rid st = (st1, r)"
  shows "in_sync env sid rid st1 \<and> (case r of Inl e \<Rightarrow> st1 = st | Inr es \<Rightarrow> reads_like es (udLog (dir_of (runDir env sid rid) st1)))"
  using assms by (auto simp: loadLocked_def in_sync_def dir_of_def reads_like_def Let_def split: option.splits)

lemma in_sync_same:
  "in_sync env sid rid st \<Longrightarrow> udLog (dir_of (runDir env sid rid) st') = udLog (dir_of (runDir env sid rid) st) \<Longrightarrow>
   mget (usRuns st') (sid, rid) = mget (usRuns st) (sid, rid) \<Longrightarrow> in_sync env sid rid st'"
  by (simp add: in_sync_def split: option.splits)

lemma in_sync_kept: "in_sync env sid rid st \<Longrightarrow> kept_or_gone env sid rid st st' \<Longrightarrow> in_sync env sid rid st'"
  by (auto simp: kept_or_gone_def in_sync_def split: option.splits)

text \<open>An append without its entry keeps the two together unless it was torn; with its entry when it went well.\<close>

lemma in_sync_append_failed:
  assumes "untorn env" "in_sync env sid rid st" "appendLocked env sid rid r st = (st', Some e)"
  shows "in_sync env sid rid st'"
  using assms by (auto simp: appendLocked_def Let_def in_sync_def dir_of_def untorn_def mget_or_def split: log_append.splits option.splits)

lemma in_sync_append_entry:
  assumes "in_sync env sid rid st" "mget (usRuns st) (sid, rid) = Some es" "appendLocked env sid rid r st = (st', None)"
    and "urPath r \<noteq> []" "e = step_entry r (mget_or zero_entry es (urPath r))"
  shows "in_sync env sid rid (set_entry sid rid (urPath r) e st')"
proof -
  have l: "udLog (dir_of (runDir env sid rid) st') = udLog (dir_of (runDir env sid rid) st) @ [r]" "usRuns st' = usRuns st"
    using assms(3) by (auto simp: appendLocked_def Let_def dir_of_def split: log_append.splits)
  then show ?thesis
    using assms reads_like_step [of es "udLog (dir_of (runDir env sid rid) st)" r e]
    by (simp add: in_sync_def set_entry_cached)
qed

lemma in_sync_Prepare:
  assumes "untorn env" "in_sync env sid rid st" "path \<noteq> []"
  shows "in_sync env sid rid (fst (Prepare env sid rid path display d st))"
proof (cases "skipped sid rid st")
  case False
  obtain st1 r where l: "loadLocked env sid rid st = (st1, r)" by fastforce
  have s1: "in_sync env sid rid st1" using in_sync_load [OF assms(2) l] by simp
  show ?thesis
  proof (cases r)
    case (Inr es)
    have c: "mget (usRuns st1) (sid, rid) = Some es" using load_cached(1) [OF l [unfolded Inr]] .
    obtain st2 q where s: "snapshot_file env sid rid path display d st1 = (st2, q)" by fastforce
    note so = snapshot_file_outcome [where env = env and sid = sid and rid = rid and path = path and display = display and d = d and st = st1, unfolded s prod.case]
    have s2: "in_sync env sid rid st2" and c2: "mget (usRuns st2) (sid, rid) = Some es" using so c in_sync_same [OF s1, of st2] by auto
    show ?thesis
    proof (cases "mget es path = None \<and> (\<exists>x. q = Inr x)")
      case True
      then obtain x where q: "q = Inr x" by blast
      have x: "urPath x = path" "urKind x = ''before''" using so q by auto
      obtain st3 e3 where a: "appendLocked env sid rid x st2 = (st3, e3)" by fastforce
      have e: "zero_entry\<lparr>ueBefore := x\<rparr> = step_entry x (mget_or zero_entry es (urPath x))"
        using True x by (simp add: step_entry_def mget_or_def)
      show ?thesis
      proof (cases e3)
        case None
        have "in_sync env sid rid (set_entry sid rid path (zero_entry\<lparr>ueBefore := x\<rparr>) st3)"
          using in_sync_append_entry [OF s2 c2 a [unfolded None] _ e] x assms(3) by simp
        then show ?thesis
          using False l Inr s q True a None in_sync_kept [OF _ kept_or_gone_clear_runs] by (simp add: Prepare_def pruneRunsLocked_def)
      next
        case (Some y)
        then show ?thesis using False l Inr s q True a in_sync_append_failed [OF assms(1) s2] by (simp add: Prepare_def)
      qed
    next
      case no: False
      then show ?thesis using False l Inr s s1 s2 by (auto simp: Prepare_def split: sum.split)
    qed
  qed (use False l s1 in \<open>simp add: Prepare_def\<close>)
qed (simp add: Prepare_def assms(2))

lemma in_sync_Commit:
  assumes "untorn env" "in_sync env sid rid st" "path \<noteq> []"
  shows "in_sync env sid rid (fst (Commit env sid rid path d st))"
proof (cases "skipped sid rid st")
  case False
  obtain st1 r where l: "loadLocked env sid rid st = (st1, r)" by fastforce
  have s1: "in_sync env sid rid st1" using in_sync_load [OF assms(2) l] by simp
  show ?thesis
  proof (cases r)
    case (Inr es)
    have c: "mget (usRuns st1) (sid, rid) = Some es" using load_cached(1) [OF l [unfolded Inr]] .
    have step: "in_sync env sid rid (fst (case appendLocked env sid rid x st1 of (st2, Some e) \<Rightarrow> (st2, Some e)
        | (st2, None) \<Rightarrow> (set_entry sid rid path (entry\<lparr>ueAfter := x, ueSaved := True\<rparr>) st2, None)))"
      if "urPath x = path" "urKind x = ''after''" "mget es path = Some entry" for x entry
    proof -
      obtain st2 e2 where a: "appendLocked env sid rid x st1 = (st2, e2)" by fastforce
      have "entry\<lparr>ueAfter := x, ueSaved := True\<rparr> = step_entry x (mget_or zero_entry es (urPath x))"
        using that by (simp add: step_entry_def mget_or_def)
      then show ?thesis
        using in_sync_append_entry [OF s1 c, of x st2] in_sync_append_failed [OF assms(1) s1, of x st2] a that assms(3)
        by (cases e2) auto
    qed
    show ?thesis
      using False l Inr s1 by (auto simp: Commit_def Let_def split: option.split read_result.split intro!: step)
  qed (use False l s1 in \<open>simp add: Commit_def\<close>)
qed (simp add: Commit_def assms(2))

lemma in_sync_undo_paths:
  "undo_paths env sid rid es ps res (d, st) = ((d', st'), res', err) \<Longrightarrow> untorn env \<Longrightarrow> distinct ps \<Longrightarrow> [] \<notin> set ps \<Longrightarrow>
   in_sync env sid rid st \<Longrightarrow> mget (usRuns st) (sid, rid) = Some cs \<Longrightarrow> list_all (\<lambda>p. mget cs p = mget es p) ps \<Longrightarrow> in_sync env sid rid st'"
proof (induction ps arbitrary: res d st cs)
  case (Cons path ps)
  let ?entry = "mget_or zero_entry es path" and ?x = "undone_record env path"
  obtain d1 e1 where r: "restore_file env (runDir env sid rid) path ?entry st d = (d1, e1)" by fastforce
  obtain st1 e2 where a: "appendLocked env sid rid ?x st = (st1, e2)" by fastforce
  have x: "urPath ?x = path" "urKind ?x = ''undone''" by (simp_all add: undone_record_def)
  have same: "mget cs path = mget es path" and path: "path \<noteq> []" using Cons.prems(4,7) by auto
  have entry: "?entry\<lparr>ueUndone := True\<rparr> = step_entry ?x (mget_or zero_entry cs (urPath ?x))"
    using same x by (simp add: step_entry_def mget_or_def)
  let ?st2 = "set_entry sid rid path (?entry\<lparr>ueUndone := True\<rparr>) st1"
  have runs: "usRuns st1 = usRuns st" using dir_of_append(2) [of env sid rid ?x st] a by simp
  have cs2: "mget (usRuns ?st2) (sid, rid) = Some (mput path (?entry\<lparr>ueUndone := True\<rparr>) cs)"
    using Cons.prems(6) by (simp add: set_entry_cached runs)
  have rest: "list_all (\<lambda>p. mget (mput path (?entry\<lparr>ueUndone := True\<rparr>) cs) p = mget es p) ps"
    using Cons.prems(3,7) by (auto simp: list_all_iff)
  have sync: "e2 = None \<Longrightarrow> in_sync env sid rid ?st2"
    using in_sync_append_entry [OF Cons.prems(5,6) _ _ entry] a x path by simp
  consider "\<not> matchesAfterLocked env path ?entry d" | e where "matchesAfterLocked env path ?entry d" "e1 = Some e"
    | e where "matchesAfterLocked env path ?entry d" "e1 = None" "e2 = Some e"
    | "matchesAfterLocked env path ?entry d" "e1 = None" "e2 = None" by (cases e1; cases e2) auto
  then show ?case
  proof cases
    case 1
    then show ?thesis using Cons.prems Cons.IH [OF _ Cons.prems(2) _ _ Cons.prems(5,6)] by simp
  next
    case 2
    then show ?thesis using Cons.prems(1,5) r by simp
  next
    case 3
    then have "in_sync env sid rid st1" using in_sync_append_failed [OF Cons.prems(2,5)] a by simp
    with 3 show ?thesis using Cons.prems(1) r a by (simp add: Let_def)
  next
    case 4
    then show ?thesis
      using Cons.prems r a Cons.IH [OF _ Cons.prems(2) _ _ sync cs2 rest] by (simp add: Let_def)
  qed
qed simp

lemma in_sync_Undo:
  assumes "untorn env" "in_sync env sid rid st"
  shows "in_sync env sid rid (snd (fst (Undo env sid rid (d, st))))"
proof -
  obtain st1 r where l: "loadLocked env sid rid st = (st1, r)" by fastforce
  note s1 = in_sync_load [OF assms(2) l]
  show ?thesis
  proof (cases r)
    case (Inr es)
    obtain d' st' res err where u: "undo_paths env sid rid es (sort (undoable es)) no_result (d, st1) = ((d', st'), res, err)" by (metis prod.exhaust)
    have "mget es [] = None" using s1 Inr replay_log_no_empty by (auto simp: reads_like_def)
    then have "[] \<notin> set (sort (undoable es))" using undoable_iff [of "[]" es] by simp
    with in_sync_undo_paths [OF u assms(1) distinct_undoable _ _ load_cached(1) [OF l [unfolded Inr]]] s1
    have "in_sync env sid rid st'" by (simp add: list_all_iff)
    then show ?thesis by (simp add: Undo_def l Inr u)
  qed (use l s1 in \<open>auto simp: Undo_def\<close>)
qed

end
