(* ===== verification/File_Tools.thy ===== *)
theory File_Tools
  imports Paths File_Undo Events
begin

text \<open>
  The tools that change files: \<open>write_file\<close> and the batch of a helper (\<open>internal/tools/write_file.go\<close>), \<open>edit_file\<close>
  (\<open>internal/tools/edit_file.go\<close>) and the quota of skill state (\<open>internal/session/skill_state.go\<close>), over the disk and the undo store. The
  coordinator keeps who wrote a file last; a chat keeps when it last saw it, and hands every path it wrote to the project hook (\<open>tsTouched\<close>). What the operating system, the syntax checkers, the
  near-miss report and the workbook writer answer is a parameter.
\<close>

section \<open>State and environment\<close>

record tool_state =
  tsDisk :: disk
  tsUndo :: undo_store
  tsSeen :: "(string, int) gomap"
  tsWriters :: "(string, string \<times> int) gomap"
  tsTotals :: "(string, int) gomap"
  tsFolders :: chat_folders
  tsReplaced :: "string list"
  tsTouched :: "string list"
  tsLog :: "bus_note list"

text \<open>\<open>ftModTime\<close> is the modification time of a file on disk, \<open>ftWalk\<close> the bytes below a folder, \<open>ftTemp\<close>, \<open>ftMkdir\<close> and \<open>ftReplace\<close> the errors of
  writing the temporary file, creating the folder and renaming, \<open>ftUndoOn\<close> whether an undo store is set, \<open>ftPlan\<close> the fields of the
  planner's session in the event it publishes.\<close>

record file_env =
  ftUndo :: undo_env
  ftOps :: path_ops
  ftSession :: string
  ftRun :: string
  ftPlanWriteAllowed :: bool
  ftNow :: int
  ftModTime :: "string \<Rightarrow> int option"
  ftLabel :: "string \<Rightarrow> string"
  ftWalk :: "string \<Rightarrow> string + int"
  ftMkdir :: "string \<Rightarrow> string option"
  ftTemp :: "string \<Rightarrow> string option"
  ftReplace :: "string \<Rightarrow> string option"
  ftUndoOn :: bool
  ftPlan :: "(string \<times> val) list"
  ftWorkbook :: "string \<Rightarrow> string + string \<times> string"
  ftNearMiss :: "string \<Rightarrow> string \<Rightarrow> string \<Rightarrow> string"
  ftSyntax :: "string \<Rightarrow> string \<Rightarrow> string \<Rightarrow> string"
  ftDiagnostics :: "string \<Rightarrow> string \<Rightarrow> string \<Rightarrow> string"

definition cleanRel :: "path_ops \<Rightarrow> string \<Rightarrow> string" where
  "cleanRel ops path = poToSlash ops (poClean ops (poFromSlash ops path))"

definition workspaceRel :: "path_ops \<Rightarrow> string \<Rightarrow> string \<Rightarrow> string" where
  "workspaceRel ops workspace resolved =
     (case poRel ops workspace resolved of
        None \<Rightarrow> cleanRel ops resolved
      | Some rel \<Rightarrow> if climbs ops rel \<or> poIsAbs ops rel then cleanRel ops resolved else cleanRel ops rel)"

section \<open>The coordinator\<close>

definition age_seconds :: "int \<Rightarrow> int \<Rightarrow> int" where
  "age_seconds now at = (if now < at then 0 else (now - at) div 1000000000)"

definition LastWriter :: "file_env \<Rightarrow> string \<Rightarrow> tool_state \<Rightarrow> (string \<times> int) option" where
  "LastWriter env path st = mget (tsWriters st) (FileKey (ftOps env) path)"

definition RecordWrite :: "file_env \<Rightarrow> string \<Rightarrow> tool_state \<Rightarrow> tool_state" where
  "RecordWrite env path st =
     st\<lparr>tsWriters := mput (FileKey (ftOps env) path) (ftSession env, ftNow env) (tsWriters st)\<rparr>"

definition Touch :: "file_env \<Rightarrow> string \<Rightarrow> tool_state \<Rightarrow> tool_state" where
  "Touch env path st = st\<lparr>tsSeen := mput (FileKey (ftOps env) path) (ftNow env) (tsSeen st), tsTouched := tsTouched st @ [path]\<rparr>"

definition conflict_event :: "file_env \<Rightarrow> string \<Rightarrow> string \<Rightarrow> int \<Rightarrow> bus_note" where
  "conflict_event env rel other at =
     New ''workspace.conflict'' (ftSession env) []
       [(''path'', VStr rel), (''session_id'', VStr (ftSession env)), (''other_session_id'', VStr other),
        (''other_label'', VStr (ftLabel env other)), (''age_s'', VInt (age_seconds (ftNow env) at))]"

definition conflict_error :: "file_env \<Rightarrow> string \<Rightarrow> int \<Rightarrow> string" where
  "conflict_error env other at =
     ''session '' @ ftLabel env other @ '' wrote this file '' @ Itoa (age_seconds (ftNow env) at) @ ''s ago; re-read before editing.''"

text \<open>Whether another chat wrote the file after this one last saw it.\<close>

definition unseen_write :: "file_env \<Rightarrow> string \<Rightarrow> tool_state \<Rightarrow> (string \<times> int) option" where
  "unseen_write env resolved st =
     (case LastWriter env resolved st of
        None \<Rightarrow> None
      | Some (other, at) \<Rightarrow>
          if other \<noteq> ftSession env \<and> (case mget (tsSeen st) (FileKey (ftOps env) resolved) of None \<Rightarrow> True | Some s \<Rightarrow> at > s)
          then Some (other, at) else None)"

definition changed_note :: "file_env \<Rightarrow> string \<Rightarrow> tool_state \<Rightarrow> string" where
  "changed_note env resolved st =
     (case (mget (tsDisk st) resolved, ftModTime env resolved, mget (tsSeen st) (FileKey (ftOps env) resolved)) of
        (Some _, Some m, Some s) \<Rightarrow> if m > s then ''note: file changed since you last read it.'' @ [LF] else []
      | _ \<Rightarrow> [])"

definition check :: "file_env \<Rightarrow> string \<Rightarrow> tool_state \<Rightarrow> tool_state \<times> (string + string)" where
  "check env resolved st =
     (let c = tsFolders st;
          rel = workspaceRel (ftOps env) (if cfRole c = ''d'' then cfPlanDir c else cfWorkspace c) resolved
      in case unseen_write env resolved st of
           Some (other, at) \<Rightarrow> (st\<lparr>tsLog := tsLog st @ [conflict_event env rel other at]\<rparr>, Inl (conflict_error env other at))
         | None \<Rightarrow> (st, Inr (changed_note env resolved st)))"

definition lastWriterNote :: "file_env \<Rightarrow> string \<Rightarrow> tool_state \<Rightarrow> string" where
  "lastWriterNote env resolved st =
     (case LastWriter env resolved st of
        None \<Rightarrow> []
      | Some (other, at) \<Rightarrow>
          if other = ftSession env then []
          else ''; session '' @ ftLabel env other @ '' wrote it '' @ Itoa (age_seconds (ftNow env) at) @ ''s ago'')"

definition publishPlan :: "file_env \<Rightarrow> tool_state \<Rightarrow> tool_state" where
  "publishPlan env st =
     (if cfRole (tsFolders st) = ''d'' then st\<lparr>tsLog := tsLog st @ [New ''session.updated'' (ftSession env) [] (ftPlan env)]\<rparr> else st)"

definition record_write :: "file_env \<Rightarrow> string \<Rightarrow> tool_state \<Rightarrow> tool_state" where
  "record_write env resolved st = publishPlan env (RecordWrite env resolved (Touch env resolved st))"

definition prepareUndo :: "file_env \<Rightarrow> string \<Rightarrow> tool_state \<Rightarrow> tool_state \<times> string option" where
  "prepareUndo env resolved st =
     (if \<not> ftUndoOn env then (st, None)
      else let (u, err) = Prepare (ftUndo env) (ftSession env) (ftRun env) resolved
                            (workspaceRel (ftOps env) (cfWorkspace (tsFolders st)) resolved) (tsDisk st) (tsUndo st)
           in (st\<lparr>tsUndo := u\<rparr>, err))"

definition commitUndo :: "file_env \<Rightarrow> string \<Rightarrow> tool_state \<Rightarrow> tool_state \<times> string option" where
  "commitUndo env resolved st =
     (if \<not> ftUndoOn env then (st, None)
      else let (u, err) = Commit (ftUndo env) (ftSession env) (ftRun env) resolved (tsDisk st) (tsUndo st)
           in (st\<lparr>tsUndo := u\<rparr>, err))"

section \<open>The quota of skill state\<close>

definition SkillStateLimit :: int where
  "SkillStateLimit = 16 * 1024 * 1024"

text \<open>The reservation holds the quota's lock until the write is committed or given up: it is the folder and its new total, or nothing.\<close>

definition stored_size :: "disk \<Rightarrow> string \<Rightarrow> int" where
  "stored_size d path = (case mget d path of Some (Regular b m) \<Rightarrow> int (length b) | _ \<Rightarrow> 0)"

definition reserve_in :: "file_env \<Rightarrow> string \<Rightarrow> string \<Rightarrow> int \<Rightarrow> tool_state \<Rightarrow> tool_state \<times> (string + (string \<times> int) option)" where
  "reserve_in env root candidate len st =
     (case (case mget (tsTotals st) root of Some t \<Rightarrow> Inr t | None \<Rightarrow> ftWalk env root) of
        Inl e \<Rightarrow> (st, Inl e)
      | Inr t \<Rightarrow>
          (st\<lparr>tsTotals := mput root t (tsTotals st)\<rparr>,
           case unStat (ftUndo env) candidate of
             Some e \<Rightarrow> Inl e
           | None \<Rightarrow>
               if t - stored_size (tsDisk st) candidate + len > SkillStateLimit then Inl ''skill state folder would exceed the 16 MiB limit''
               else Inr (Some (root, t - stored_size (tsDisk st) candidate + len))))"

definition ReserveSkillStateWrite :: "file_env \<Rightarrow> string \<Rightarrow> int \<Rightarrow> tool_state \<Rightarrow> tool_state \<times> (string + (string \<times> int) option)" where
  "ReserveSkillStateWrite env path len st =
     (let ops = ftOps env; profileRoot = poClean ops (cfSkillStateRoot (tsFolders st)); candidate = poClean ops path
      in if profileRoot = ''.'' \<or> \<not> poIsAbs ops candidate \<or> \<not> PathWithin ops profileRoot candidate then (st, Inr None)
         else case poRel ops profileRoot candidate of
                None \<Rightarrow> (st, Inl ''rel'')
              | Some relative \<Rightarrow>
                  let parts = split_on (poSep ops) relative
                  in reserve_in env (if length parts > 1 then poJoin ops profileRoot (hd parts) else profileRoot) candidate len st)"

definition commit_state :: "(string \<times> int) option \<Rightarrow> tool_state \<Rightarrow> tool_state" where
  "commit_state r st = (case r of None \<Rightarrow> st | Some (root, t) \<Rightarrow> st\<lparr>tsTotals := mput root t (tsTotals st)\<rparr>)"

section \<open>Storing the bytes\<close>

text \<open>The tail of both tools: reserve, make the folder (\<open>write_file\<close> only), write a temporary file, snapshot for the undo, rename over the
  target, record the undo, commit the quota, record the writer. A fresh temporary file has mode 0600 and keeps it.\<close>

definition undo_error :: "string \<Rightarrow> string" where
  "undo_error e = ''record undo state: '' @ e"

definition replace_target :: "file_env \<Rightarrow> string \<Rightarrow> string \<Rightarrow> (string \<times> int) option \<Rightarrow> tool_state \<Rightarrow> tool_state \<times> string option" where
  "replace_target env resolved bytes reserved st =
     (case ftReplace env resolved of
        Some e \<Rightarrow> (st, Some e)
      | None \<Rightarrow>
          let st1 = st\<lparr>tsDisk := mput resolved (Regular bytes 384) (tsDisk st), tsReplaced := tsReplaced st @ [resolved]\<rparr>
          in (case commitUndo env resolved st1 of
                (st2, Some e) \<Rightarrow> (st2, Some (undo_error e))
              | (st2, None) \<Rightarrow> (record_write env resolved (commit_state reserved st2), None)))"

definition store_bytes :: "file_env \<Rightarrow> bool \<Rightarrow> string \<Rightarrow> string \<Rightarrow> tool_state \<Rightarrow> tool_state \<times> string option" where
  "store_bytes env folders resolved bytes st =
     (case ReserveSkillStateWrite env resolved (int (length bytes)) st of
        (st1, Inl e) \<Rightarrow> (st1, Some e)
      | (st1, Inr reserved) \<Rightarrow>
          (case (if folders then ftMkdir env resolved else None) of
             Some e \<Rightarrow> (st1, Some e)
           | None \<Rightarrow>
               (case ftTemp env resolved of
                  Some e \<Rightarrow> (st1, Some e)
                | None \<Rightarrow>
                    (case prepareUndo env resolved st1 of
                       (st2, Some e) \<Rightarrow> (st2, Some e)
                     | (st2, None) \<Rightarrow>
                         replace_target env resolved bytes reserved st2))))"

definition with_prefix :: "string \<Rightarrow> string \<Rightarrow> string" where
  "with_prefix pre cause = (if pre \<noteq> [] then pre @ ''error: '' @ cause else cause)"

text \<open>The lock of a plan file announces \<open>plan.updated\<close> when the file was replaced while it was held.\<close>

definition plan_lock :: "file_env \<Rightarrow> string \<Rightarrow> tool_state \<Rightarrow> tool_state \<times> (string + string) \<Rightarrow> tool_state \<times> (string + string)" where
  "plan_lock env path before r =
     (if cfRole (tsFolders before) = ''d'' then
        (case PlanFileFor (ftOps env) path (tsFolders before) of
           None \<Rightarrow> r
         | Some f \<Rightarrow>
             if f \<in> set (drop (length (tsReplaced before)) (tsReplaced (fst r)))
             then ((fst r)\<lparr>tsLog := tsLog (fst r) @ [New ''plan.updated'' [] [] [(''dir'', VStr (poDir (ftOps env) f))]]\<rparr>, snd r)
             else r)
      else r)"

section \<open>write\_file\<close>

definition line_count :: "string \<Rightarrow> nat" where
  "line_count content =
     (if content = [] then 0
      else let n = count_in [LF] content + 1 in if HasSuffix content [LF] then n - 1 else n)"

text \<open>The content on its way to disk: an \<open>.xlsx\<close> path takes tables and becomes a workbook with a summary.\<close>

definition file_content :: "file_env \<Rightarrow> string \<Rightarrow> string \<Rightarrow> string + string \<times> string" where
  "file_content env resolved content =
     (if poEqualFold (ftOps env) (Ext resolved) ''.xlsx'' then ftWorkbook env content else Inr (content, []))"

definition write_message :: "file_env \<Rightarrow> string \<Rightarrow> string \<Rightarrow> string \<Rightarrow> string \<Rightarrow> string \<Rightarrow> string \<Rightarrow> string" where
  "write_message env path root resolved content sheets pre =
     (let shown = cleanRel (ftOps env) path; report = ftDiagnostics env root resolved content
      in if sheets \<noteq> [] then pre @ ''ok: wrote '' @ shown @ '' ('' @ sheets @ '')''
         else pre @ ''ok: wrote '' @ shown @ '' ('' @ decimal (line_count content) @ '' lines)'' @
              (if report \<noteq> [] then [LF, LF] @ report else []))"

definition write_resolved :: "file_env \<Rightarrow> string \<Rightarrow> string \<Rightarrow> string \<Rightarrow> string \<Rightarrow> tool_state \<Rightarrow> tool_state \<times> (string + string)" where
  "write_resolved env path root resolved content0 st =
     (case file_content env resolved content0 of
        Inl e \<Rightarrow> (st, Inl e)
      | Inr (content, sheets) \<Rightarrow>
          if read_file (ftUndo env) (tsDisk st) resolved = Got content
          then (publishPlan env st, Inr (''unchanged: '' @ cleanRel (ftOps env) path @ '' already has the requested bytes''))
          else (case check env resolved st of
                  (st1, Inl e) \<Rightarrow> (st1, Inl e)
                | (st1, Inr pre) \<Rightarrow>
                    (case store_bytes env True resolved content st1 of
                       (st2, Some e) \<Rightarrow> (st2, Inl (with_prefix pre e))
                     | (st2, None) \<Rightarrow>
                         (st2, Inr (write_message env path root resolved content sheets pre)))))"

definition WriteFile_Call :: "file_env \<Rightarrow> (string, val) gomap \<Rightarrow> tool_state \<Rightarrow> tool_state \<times> (string + string)" where
  "WriteFile_Call env args st =
     (if cfRole (tsFolders st) = ''d'' \<and> \<not> ftPlanWriteAllowed env then (st, Inl ''plan-page writes require accepting a proposal'')
      else let path = str_of (mget args ''path'')
           in if path = [] then (st, Inl ''path is required'')
              else plan_lock env path st
                (case mget args ''content'' of
                   Some (VStr content) \<Rightarrow>
                     (case write_target (ftOps env) path (tsFolders st) of
                        (c1, Inl e) \<Rightarrow> (st\<lparr>tsFolders := c1\<rparr>, Inl e)
                      | (c1, Inr (root, resolved)) \<Rightarrow> write_resolved env path root resolved content (st\<lparr>tsFolders := c1\<rparr>))
                 | _ \<Rightarrow> (st, Inl ''content is required'')))"

section \<open>edit\_file\<close>

definition display_path :: "path_ops \<Rightarrow> string \<Rightarrow> string \<Rightarrow> string \<Rightarrow> string" where
  "display_path ops path root resolved =
     (case poRel ops root resolved of
        None \<Rightarrow> cleanRel ops path
      | Some rel \<Rightarrow> if climbs ops rel then cleanRel ops path else cleanRel ops rel)"

definition stale_read :: "file_env \<Rightarrow> (string, val) gomap \<Rightarrow> string \<Rightarrow> string \<Rightarrow> string \<Rightarrow> tool_state \<Rightarrow> string option" where
  "stale_read env args shown resolved raw st =
     (case mget args ''read_sha256'' of
        Some (VStr declared) \<Rightarrow>
          (let d = TrimSpace declared; current = unHash (ftUndo env) raw
           in if d = [] \<or> poEqualFold (ftOps env) d current then None
              else Some (shown @ '' changed since you read it: you read sha256='' @ d @ '' and it is now sha256='' @ current @
                     lastWriterNote env resolved st @ ''. Re-read it and edit the current text.''))
      | _ \<Rightarrow> None)"

definition not_found :: "file_env \<Rightarrow> string \<Rightarrow> string \<Rightarrow> string \<Rightarrow> string \<Rightarrow> string" where
  "not_found env path body old replacement =
     (if replacement \<noteq> [] \<and> count_in replacement body = 1 then
        (let l = lineAt body (case index_of replacement body of None \<Rightarrow> 0 | Some i \<Rightarrow> i)
         in ''old_string not found, but new_string already exists at lines '' @ decimal l @ [CHR 0xE2, CHR 0x80, CHR 0x93] @
            decimal (l + count_in [LF] replacement) @ ''; this edit may already be applied.'')
      else ftNearMiss env path body old)"

definition edit_report :: "nat \<Rightarrow> nat \<Rightarrow> string \<Rightarrow> string \<Rightarrow> string" where
  "edit_report start last_line replacement strategy =
     (let newLines = (if replacement = [] then 0 else count_in [LF] replacement + 1);
          delta = int newLines - (int last_line - int start + 1);
          span = decimal start @ [CHR 0xE2, CHR 0x80, CHR 0x93] @ decimal last_line
      in (if replacement = [] then ''ok: deleted lines '' @ span
          else ''ok: replaced lines '' @ span @ '' with '' @ decimal newLines @ '' lines ('' @ (if delta < 0 then [] else ''+'') @ Itoa delta @ '')'') @
         (if strategy \<noteq> [] then ''; '' @ strategy else []))"

text \<open>The bytes that an edit of \<open>raw\<close> gives, with the match.\<close>

definition edited_bytes :: "file_env \<Rightarrow> string \<Rightarrow> string \<Rightarrow> string \<Rightarrow> string \<Rightarrow> string + string \<times> edit_match" where
  "edited_bytes env path raw old0 replacement0 =
     (let (bom, crlf, body) = decode_file raw; old = normalizeLF old0; replacement = normalizeLF replacement0
      in if CHR 0x00 \<in> set (take 8192 raw) then Inl (''binary file refused: '' @ cleanRel (ftOps env) path)
         else case edit_tiers body old replacement of
                Inl e \<Rightarrow> Inl e
              | Inr None \<Rightarrow> Inl (not_found env path body old replacement)
              | Inr (Some m) \<Rightarrow> Inr (encode_file bom crlf (emText m), m))"

definition edit_message :: "file_env \<Rightarrow> string \<Rightarrow> string \<Rightarrow> string \<Rightarrow> string \<Rightarrow> string \<Rightarrow> string \<Rightarrow> string \<Rightarrow> edit_match \<Rightarrow> string" where
  "edit_message env root resolved shown pre raw replacement bytes m =
     (let syntax = ftSyntax env resolved shown bytes; report = ftDiagnostics env root resolved bytes
      in pre @ edit_report (emStart m) (emEnd m) (normalizeLF replacement) (emNote m) @ [LF, LF] @
         unifiedDiff (cleanRel (ftOps env) shown) (snd (snd (decode_file raw))) (emText m) @
         (if syntax \<noteq> [] then [LF, LF] @ syntax else []) @ (if report \<noteq> [] then [LF, LF] @ report else []))"

definition edit_resolved ::
  "file_env \<Rightarrow> (string, val) gomap \<Rightarrow> string \<Rightarrow> string \<Rightarrow> string \<Rightarrow> string \<Rightarrow> string \<Rightarrow> tool_state \<Rightarrow> tool_state \<times> (string + string)" where
  "edit_resolved env args path root resolved old replacement st =
     (let shown = display_path (ftOps env) path root resolved
      in case check env resolved st of
           (st1, Inl e) \<Rightarrow> (st1, Inl e)
         | (st1, Inr pre) \<Rightarrow>
             (case read_file (ftUndo env) (tsDisk st1) resolved of
                ReadFailed e \<Rightarrow> (st1, Inl (with_prefix pre e))
              | Missing \<Rightarrow> (st1, Inl (with_prefix pre ''file does not exist''))
              | Got raw \<Rightarrow>
                  (case stale_read env args shown resolved raw st1 of
                     Some e \<Rightarrow> (st1, Inl (with_prefix pre e))
                   | None \<Rightarrow>
                       (case edited_bytes env path raw old replacement of
                          Inl e \<Rightarrow> (st1, Inl (with_prefix pre e))
                        | Inr (bytes, m) \<Rightarrow>
                            (case store_bytes env False resolved bytes st1 of
                               (st2, Some e) \<Rightarrow> (st2, Inl (with_prefix pre e))
                             | (st2, None) \<Rightarrow>
                                 (st2, Inr (edit_message env root resolved shown pre raw replacement bytes m)))))))"

definition edit_arguments :: "string \<Rightarrow> (string, val) gomap \<Rightarrow> string + string \<times> string" where
  "edit_arguments path args =
     (if path = [] then Inl ''path is required''
      else case mget args ''old_string'' of
             Some (VStr old) \<Rightarrow>
               (case mget args ''new_string'' of
                  Some (VStr replacement) \<Rightarrow>
                    if old = [] then Inl ''old_string is empty; use write_file to create a file, or give the exact text to replace.''
                    else Inr (old, replacement)
                | _ \<Rightarrow> Inl ''new_string is required'')
           | _ \<Rightarrow> Inl ''old_string is required'')"

definition EditFile_Call :: "file_env \<Rightarrow> (string, val) gomap \<Rightarrow> tool_state \<Rightarrow> tool_state \<times> (string + string)" where
  "EditFile_Call env args st =
     (if cfRole (tsFolders st) = ''d'' \<and> \<not> ftPlanWriteAllowed env then (st, Inl ''plan-page writes require accepting a proposal'')
      else let path = str_of (mget args ''path'')
           in plan_lock env path st
                (case edit_arguments path args of
                   Inl e \<Rightarrow> (st, Inl e)
                 | Inr (old, replacement) \<Rightarrow>
                     (case write_target (ftOps env) path (tsFolders st) of
                        (c1, Inl e) \<Rightarrow> (st\<lparr>tsFolders := c1\<rparr>, Inl e)
                      | (c1, Inr (root, resolved)) \<Rightarrow> edit_resolved env args path root resolved old replacement (st\<lparr>tsFolders := c1\<rparr>))))"

section \<open>A helper's batch\<close>

record batch_change =
  bcPath :: string
  bcData :: string
  bcMode :: nat
  bcRemove :: bool

text \<open>Faults by the position in the batch: a failed write leaves some node at its path, a failed removal leaves the file, a failed rollback is
  ignored.\<close>

record batch_env =
  beFiles :: file_env
  beWrite :: "nat \<Rightarrow> (string \<times> node option) option"
  beRemove :: "nat \<Rightarrow> string option"
  beRollback :: "nat \<Rightarrow> bool"

definition set_node :: "string \<Rightarrow> node option \<Rightarrow> disk \<Rightarrow> disk" where
  "set_node path n d = (case n of None \<Rightarrow> mdel path d | Some x \<Rightarrow> mput path x d)"

text \<open>\<open>os.WriteFile\<close> keeps the mode of a file that exists.\<close>

definition write_over :: "string \<Rightarrow> string \<Rightarrow> nat \<Rightarrow> disk \<Rightarrow> disk" where
  "write_over path bytes mode d =
     mput path (Regular bytes (case mget d path of Some (Regular b m) \<Rightarrow> m | _ \<Rightarrow> mode)) d"

fun batch_before :: "batch_env \<Rightarrow> batch_change list \<Rightarrow> tool_state \<Rightarrow> tool_state \<times> (string + (string \<times> nat) option list)" where
  "batch_before env [] st = (st, Inr [])"
| "batch_before env (c # cs) st =
     (let u = ftUndo (beFiles env);
          prior = (case unStat u (bcPath c) of
                     Some e \<Rightarrow> Inl e
                   | None \<Rightarrow>
                       (case mget (tsDisk st) (bcPath c) of
                          None \<Rightarrow> Inr None
                        | Some n \<Rightarrow>
                            (case read_file u (tsDisk st) (bcPath c) of
                               Got b \<Rightarrow> Inr (Some (b, nMode n))
                             | Missing \<Rightarrow> Inr None
                             | ReadFailed e \<Rightarrow> Inl e)))
      in case prior of
           Inl e \<Rightarrow> (st, Inl e)
         | Inr p \<Rightarrow>
             (case prepareUndo (beFiles env) (bcPath c) st of
                (st1, Some e) \<Rightarrow> (st1, Inl e)
              | (st1, None) \<Rightarrow>
                  (case batch_before env cs st1 of
                     (st2, Inl e) \<Rightarrow> (st2, Inl e)
                   | (st2, Inr ps) \<Rightarrow> (st2, Inr (p # ps)))))"

definition apply_change :: "batch_env \<Rightarrow> nat \<Rightarrow> batch_change \<Rightarrow> disk \<Rightarrow> disk \<times> string option" where
  "apply_change env i c d =
     (if bcRemove c then
        (case mget d (bcPath c) of
           None \<Rightarrow> (d, None)
         | Some n \<Rightarrow> (case beRemove env i of Some e \<Rightarrow> (d, Some e) | None \<Rightarrow> (mdel (bcPath c) d, None)))
      else
        (case ftMkdir (beFiles env) (bcPath c) of
           Some e \<Rightarrow> (d, Some e)
         | None \<Rightarrow>
             (case beWrite env i of
                Some (e, left) \<Rightarrow> (set_node (bcPath c) left d, Some e)
              | None \<Rightarrow> (write_over (bcPath c) (bcData c) (if bcMode c = 0 then 420 else bcMode c) d, None))))"

fun roll_back :: "batch_env \<Rightarrow> batch_change list \<Rightarrow> (string \<times> nat) option list \<Rightarrow> nat \<Rightarrow> disk \<Rightarrow> disk" where
  "roll_back env cs before 0 d = d"
| "roll_back env cs before (Suc i) d =
     (let path = bcPath (cs ! i);
          d1 = (if \<not> beRollback env i then d
                else case before ! i of Some (b, m) \<Rightarrow> write_over path b m d | None \<Rightarrow> mdel path d)
      in roll_back env cs before i d1)"

fun apply_changes :: "batch_env \<Rightarrow> nat \<Rightarrow> batch_change list \<Rightarrow> disk \<Rightarrow> disk \<times> (nat \<times> string) option" where
  "apply_changes env i [] d = (d, None)"
| "apply_changes env i (c # cs) d =
     (case apply_change env i c d of
        (d1, Some e) \<Rightarrow> (d1, Some (i, e))
      | (d1, None) \<Rightarrow> apply_changes env (Suc i) cs d1)"

fun commit_changes :: "batch_env \<Rightarrow> batch_change list \<Rightarrow> tool_state \<Rightarrow> tool_state \<times> string option" where
  "commit_changes env [] st = (st, None)"
| "commit_changes env (c # cs) st =
     (case commitUndo (beFiles env) (bcPath c) st of
        (st1, Some e) \<Rightarrow> (st1, Some (undo_error e))
      | (st1, None) \<Rightarrow> commit_changes env cs (record_write (beFiles env) (bcPath c) st1))"

definition ApplyBatch :: "batch_env \<Rightarrow> batch_change list \<Rightarrow> tool_state \<Rightarrow> tool_state \<times> string option" where
  "ApplyBatch env cs st =
     (case batch_before env cs st of
        (st1, Inl e) \<Rightarrow> (st1, Some e)
      | (st1, Inr before) \<Rightarrow>
          (case apply_changes env 0 cs (tsDisk st1) of
             (d1, Some (i, e)) \<Rightarrow> (st1\<lparr>tsDisk := roll_back env cs before (Suc i) d1\<rparr>, Some e)
           | (d1, None) \<Rightarrow> commit_changes env cs (st1\<lparr>tsDisk := d1\<rparr>)))"


section \<open>Where the tools write\<close>

lemma prepareUndo_disk: "tsDisk (fst (prepareUndo env p st)) = tsDisk st" "tsFolders (fst (prepareUndo env p st)) = tsFolders st"
  "tsWriters (fst (prepareUndo env p st)) = tsWriters st" "tsSeen (fst (prepareUndo env p st)) = tsSeen st"
  by (simp_all add: prepareUndo_def split_beta)

lemma commitUndo_disk: "tsDisk (fst (commitUndo env p st)) = tsDisk st" "tsFolders (fst (commitUndo env p st)) = tsFolders st"
  "tsWriters (fst (commitUndo env p st)) = tsWriters st" "tsSeen (fst (commitUndo env p st)) = tsSeen st"
  by (simp_all add: commitUndo_def split_beta)

lemma reserve_in_disk: "tsDisk (fst (reserve_in env root p n st)) = tsDisk st" "tsUndo (fst (reserve_in env root p n st)) = tsUndo st"
  "tsFolders (fst (reserve_in env root p n st)) = tsFolders st"
  by (simp_all add: reserve_in_def split: sum.split)

lemma Reserve_disk: "tsDisk (fst (ReserveSkillStateWrite env p n st)) = tsDisk st" "tsUndo (fst (ReserveSkillStateWrite env p n st)) = tsUndo st"
  "tsFolders (fst (ReserveSkillStateWrite env p n st)) = tsFolders st"
  by (simp_all add: ReserveSkillStateWrite_def Let_def reserve_in_disk split: option.split)

lemma publishPlan_disk [simp]: "tsDisk (publishPlan env st) = tsDisk st" "tsWriters (publishPlan env st) = tsWriters st"
  "tsSeen (publishPlan env st) = tsSeen st" "tsUndo (publishPlan env st) = tsUndo st" "tsFolders (publishPlan env st) = tsFolders st"
  by (simp_all add: publishPlan_def)

lemma record_write_disk [simp]: "tsDisk (record_write env p st) = tsDisk st" "tsUndo (record_write env p st) = tsUndo st"
  by (simp_all add: record_write_def RecordWrite_def Touch_def)

lemma commit_state_disk [simp]: "tsDisk (commit_state r st) = tsDisk st" "tsUndo (commit_state r st) = tsUndo st"
  by (simp_all add: commit_state_def split: option.split prod.split)

lemma check_disk: "tsDisk (fst (check env p st)) = tsDisk st" "tsUndo (fst (check env p st)) = tsUndo st"
  "tsWriters (fst (check env p st)) = tsWriters st" "tsFolders (fst (check env p st)) = tsFolders st"
  by (simp_all add: check_def Let_def split: option.split prod.split)

lemma plan_lock_disk [simp]: "tsDisk (fst (plan_lock env p b r)) = tsDisk (fst r)" "snd (plan_lock env p b r) = snd r"
  "tsUndo (fst (plan_lock env p b r)) = tsUndo (fst r)" "tsWriters (fst (plan_lock env p b r)) = tsWriters (fst r)"
  by (simp_all add: plan_lock_def split: option.split)

text \<open>Storing changes at most the target; without an error the target holds the bytes and this chat is the last writer.\<close>

definition stored :: "file_env \<Rightarrow> string \<Rightarrow> string \<Rightarrow> disk \<Rightarrow> tool_state \<times> string option \<Rightarrow> bool" where
  "stored env resolved bytes d r =
     (case r of (st', err) \<Rightarrow>
        if err = None
        then tsDisk st' = mput resolved (Regular bytes 384) d \<and> LastWriter env resolved st' = Some (ftSession env, ftNow env)
        else tsDisk st' = d \<or> tsDisk st' = mput resolved (Regular bytes 384) d)"

lemma stored_failed: "tsDisk st' = d \<Longrightarrow> stored env resolved bytes d (st', Some e)"
  by (simp add: stored_def)

lemma replace_target_effect: "stored env resolved bytes (tsDisk st) (replace_target env resolved bytes reserved st)"
  by (simp add: stored_def replace_target_def Let_def split_beta commitUndo_disk record_write_def RecordWrite_def LastWriter_def Touch_def split: option.split)

lemma store_bytes_effect: "stored env resolved bytes (tsDisk st) (store_bytes env folders resolved bytes st)"
proof -
  let ?st1 = "fst (ReserveSkillStateWrite env resolved (int (length bytes)) st)"
  have "stored env resolved bytes (tsDisk st) (replace_target env resolved bytes reserved (fst (prepareUndo env resolved ?st1)))" for reserved
    using replace_target_effect [of env resolved bytes "fst (prepareUndo env resolved ?st1)" reserved]
    by (simp add: prepareUndo_disk Reserve_disk)
  then show ?thesis
    by (simp add: store_bytes_def split_beta stored_failed prepareUndo_disk Reserve_disk split: option.split sum.split)
qed

definition at_most :: "string \<Rightarrow> disk \<Rightarrow> disk \<Rightarrow> bool" where
  "at_most path d d' \<longleftrightarrow> (\<forall>p. p = path \<or> mget d' p = mget d p)"

lemma at_most_refl [simp]: "at_most path d d"
  by (simp add: at_most_def)

lemma store_bytes_at_most: "at_most resolved (tsDisk st) (tsDisk (fst (store_bytes env folders resolved bytes st)))"
  using store_bytes_effect [of env resolved bytes st folders]
  by (auto simp: stored_def split_beta at_most_def split: if_splits)

lemma write_resolved_at_most: "at_most resolved (tsDisk st) (tsDisk (fst (write_resolved env path root resolved content st)))"
proof -
  obtain st1 r where c: "check env resolved st = (st1, r)" by fastforce
  have d: "tsDisk st1 = tsDisk st" using check_disk(1) [of env resolved st] c by simp
  have sb: "at_most resolved (tsDisk st) (tsDisk (fst (store_bytes env True resolved bytes st1)))" for bytes
    using store_bytes_at_most [of resolved st1 env True bytes] d by simp
  show ?thesis
    by (simp add: write_resolved_def c Let_def split_beta d sb split: sum.split option.split)
qed

lemma edit_resolved_at_most: "at_most resolved (tsDisk st) (tsDisk (fst (edit_resolved env args path root resolved old new st)))"
proof -
  obtain st1 r where c: "check env resolved st = (st1, r)" by fastforce
  have d: "tsDisk st1 = tsDisk st" using check_disk(1) [of env resolved st] c by simp
  have sb: "at_most resolved (tsDisk st) (tsDisk (fst (store_bytes env False resolved bytes st1)))" for bytes
    using store_bytes_at_most [of resolved st1 env False bytes] d by simp
  show ?thesis
    by (simp add: edit_resolved_def c Let_def split_beta d sb split: sum.split option.split read_result.split)
qed


section \<open>Stale work is refused\<close>

lemma check_refuses: "unseen_write env resolved st \<noteq> None \<Longrightarrow> isl (snd (check env resolved st))"
  by (auto simp: check_def Let_def)

lemma unseen_write_folders [simp]: "unseen_write env resolved (st\<lparr>tsFolders := c\<rparr>) = unseen_write env resolved st"
  by (simp add: unseen_write_def LastWriter_def split: option.split)

lemma conflicting_write: "unseen_write env resolved st \<noteq> None \<Longrightarrow> tsDisk (fst (write_resolved env path root resolved content st)) = tsDisk st"
  using check_refuses [of env resolved st] check_disk(1) [of env resolved st]
  by (auto simp: write_resolved_def split_beta split: sum.split)

lemma conflicting_edit:
  "unseen_write env resolved st \<noteq> None \<Longrightarrow>
   tsDisk (fst (edit_resolved env args path root resolved old new st)) = tsDisk st \<and> isl (snd (edit_resolved env args path root resolved old new st))"
  using check_refuses [of env resolved st] check_disk(1) [of env resolved st]
  by (auto simp: edit_resolved_def Let_def split_beta split: sum.split)

lemma stale_edit:
  assumes "read_file (ftUndo env) (tsDisk st) resolved = Got raw" "\<And>shown x. stale_read env args shown resolved raw x \<noteq> None"
  shows "tsDisk (fst (edit_resolved env args path root resolved old new st)) = tsDisk st \<and> isl (snd (edit_resolved env args path root resolved old new st))"
proof -
  obtain e where "stale_read env args (display_path (ftOps env) path root resolved) resolved raw (fst (check env resolved st)) = Some e"
    using assms(2) by blast
  with assms(1) check_disk(1) [of env resolved st] show ?thesis
    by (simp add: edit_resolved_def Let_def split_beta split: sum.split)
qed

definition digest_moved :: "file_env \<Rightarrow> (string, val) gomap \<Rightarrow> string \<Rightarrow> bool" where
  "digest_moved env args raw =
     (case mget args ''read_sha256'' of
        Some (VStr declared) \<Rightarrow> TrimSpace declared \<noteq> [] \<and> \<not> poEqualFold (ftOps env) (TrimSpace declared) (unHash (ftUndo env) raw)
      | _ \<Rightarrow> False)"

lemma digest_moved_stale: "digest_moved env args raw \<Longrightarrow> stale_read env args shown resolved raw x \<noteq> None"
  by (auto simp: digest_moved_def stale_read_def Let_def split: option.splits val.splits)


section \<open>A successful edit\<close>

lemma edit_resolved_ok:
  assumes "edit_resolved env args path root resolved old new st = (st', Inr msg)"
  shows "\<exists>raw m. read_file (ftUndo env) (tsDisk st) resolved = Got raw \<and>
    edit_tiers (snd (snd (decode_file raw))) (normalizeLF old) (normalizeLF new) = Inr (Some m) \<and>
    (\<exists>st1 folders. tsDisk st1 = tsDisk st \<and> tsUndo st1 = tsUndo st \<and> tsFolders st1 = tsFolders st \<and>
       store_bytes env folders resolved (encode_file (fst (decode_file raw)) (fst (snd (decode_file raw))) (emText m)) st1 = (st', None))"
proof -
  obtain st1 r where c: "check env resolved st = (st1, r)" by fastforce
  note cd = check_disk [of env resolved st, unfolded c fst_conv]
  obtain pre where r: "r = Inr pre" using assms c by (cases r) (auto simp: edit_resolved_def Let_def)
  obtain raw where raw: "read_file (ftUndo env) (tsDisk st) resolved = Got raw"
    using assms c r cd by (cases "read_file (ftUndo env) (tsDisk st) resolved") (auto simp: edit_resolved_def Let_def)
  obtain bom crlf body where dec: "decode_file raw = (bom, crlf, body)" by (cases "decode_file raw") auto
  obtain bytes m where b: "edited_bytes env path raw old new = Inr (bytes, m)" and s: "store_bytes env False resolved bytes st1 = (st', None)"
    using assms c r raw cd
    by (cases "edited_bytes env path raw old new") (auto simp: edit_resolved_def Let_def split: option.splits prod.splits)
  have "edit_tiers body (normalizeLF old) (normalizeLF new) = Inr (Some m)" "bytes = encode_file bom crlf (emText m)"
    using b by (auto simp: edited_bytes_def dec Let_def split: if_splits sum.splits option.splits)
  then show ?thesis using raw s cd by (auto simp: dec)
qed

lemma edit_arguments_ok: "edit_arguments path args = Inr (old, new) \<Longrightarrow> old = str_of (mget args ''old_string'') \<and> new = str_of (mget args ''new_string'')"
  by (auto simp: edit_arguments_def str_of_def split: if_splits option.splits val.splits)

lemma EditFile_Call_ok:
  assumes "EditFile_Call env args st = (st', Inr msg)"
  shows "\<exists>c1 root resolved st2. write_target (ftOps env) (str_of (mget args ''path'')) (tsFolders st) = (c1, Inr (root, resolved)) \<and>
    edit_resolved env args (str_of (mget args ''path'')) root resolved (str_of (mget args ''old_string'')) (str_of (mget args ''new_string''))
      (st\<lparr>tsFolders := c1\<rparr>) = (st2, Inr msg) \<and>
    st' = fst (plan_lock env (str_of (mget args ''path'')) st (st2, Inr msg))"
proof -
  let ?path = "str_of (mget args ''path'')"
  define r where "r = (case edit_arguments ?path args of
                   Inl e \<Rightarrow> (st, Inl e)
                 | Inr (old, replacement) \<Rightarrow>
                     (case write_target (ftOps env) ?path (tsFolders st) of
                        (c1, Inl e) \<Rightarrow> (st\<lparr>tsFolders := c1\<rparr>, Inl e)
                      | (c1, Inr (root, resolved)) \<Rightarrow> edit_resolved env args ?path root resolved old replacement (st\<lparr>tsFolders := c1\<rparr>)))"
  have "plan_lock env ?path st r = (st', Inr msg)"
    using assms unfolding EditFile_Call_def Let_def r_def by (simp split: if_splits)
  then have st': "st' = fst (plan_lock env ?path st r)" and r: "snd r = Inr msg" by (simp, metis plan_lock_disk(2) snd_conv)
  obtain old new where a: "edit_arguments ?path args = Inr (old, new)" using r by (auto simp: r_def split: sum.splits)
  obtain c1 root resolved where w: "write_target (ftOps env) ?path (tsFolders st) = (c1, Inr (root, resolved))"
    using r a by (auto simp: r_def split: sum.splits prod.splits)
  show ?thesis using st' r edit_arguments_ok [OF a] by (cases r) (auto simp: r_def a w)
qed

text \<open>A successful edit is what it reports: when \<open>edit_file\<close> succeeds, the file held some bytes whose text one tier matched, the disk has changed in
  that file alone, to the matched text in the same encoding, and this chat is recorded as its last writer.\<close>

theorem successful_edit_is_stored:
  "case EditFile_Call env args st of
     (st', Inl e) \<Rightarrow> True
   | (st', Inr msg) \<Rightarrow>
       (case write_target (ftOps env) (str_of (mget args ''path'')) (tsFolders st) of
          (c1, Inl e) \<Rightarrow> False
        | (c1, Inr (root, resolved)) \<Rightarrow>
            (\<exists>raw m. read_file (ftUndo env) (tsDisk st) resolved = Got raw \<and>
               edit_tiers (snd (snd (decode_file raw))) (normalizeLF (str_of (mget args ''old_string''))) (normalizeLF (str_of (mget args ''new_string''))) = Inr (Some m) \<and>
               tsDisk st' = mput resolved (Regular (encode_file (fst (decode_file raw)) (fst (snd (decode_file raw))) (emText m)) 384) (tsDisk st) \<and>
               LastWriter env resolved st' = Some (ftSession env, ftNow env)))"
proof -
  let ?path = "str_of (mget args ''path'')" and ?old = "str_of (mget args ''old_string'')" and ?new = "str_of (mget args ''new_string'')"
  obtain st' r where e: "EditFile_Call env args st = (st', r)" by fastforce
  show ?thesis
  proof (cases r)
    case (Inr msg)
    obtain c1 root resolved st2 where w: "write_target (ftOps env) ?path (tsFolders st) = (c1, Inr (root, resolved))"
      and ed: "edit_resolved env args ?path root resolved ?old ?new (st\<lparr>tsFolders := c1\<rparr>) = (st2, Inr msg)"
      and lock: "st' = fst (plan_lock env ?path st (st2, Inr msg))"
      using EditFile_Call_ok [OF e [unfolded Inr]] by blast
    from edit_resolved_ok [OF ed] obtain raw m st1 folders where
      k: "read_file (ftUndo env) (tsDisk st) resolved = Got raw" "edit_tiers (snd (snd (decode_file raw))) (normalizeLF ?old) (normalizeLF ?new) = Inr (Some m)"
        "tsDisk st1 = tsDisk st"
        "store_bytes env folders resolved (encode_file (fst (decode_file raw)) (fst (snd (decode_file raw))) (emText m)) st1 = (st2, None)" by auto
    have "stored env resolved (encode_file (fst (decode_file raw)) (fst (snd (decode_file raw))) (emText m)) (tsDisk st) (st2, None)"
      using store_bytes_effect [of env resolved _ st1 folders] k(3,4) by metis
    then show ?thesis using k(1,2) by (auto simp: e Inr w stored_def lock LastWriter_def)
  qed (simp add: e)
qed

section \<open>An undo reverts the tools\<close>

lemma Undo_untouched:
  assumes "snd (loadLocked env sid rid st) = Inr es" "mget es p = None"
  shows "mget (fst (fst (Undo env sid rid (d, st)))) p = mget d p"
proof -
  obtain st1 where l: "loadLocked env sid rid st = (st1, Inr es)" using assms(1) by (metis prod.collapse)
  obtain d' st' res err where u: "undo_paths env sid rid es (sort (undoable es)) no_result (d, st1) = ((d', st'), res, err)" by (metis prod.exhaust)
  have "p \<notin> set (sort (undoable es))" using assms(2) undoable_iff [of p es] by simp
  with undo_paths_outcome [OF u distinct_undoable] show ?thesis by (auto simp: Undo_def l u)
qed

text \<open>The undo store is on and the run has not touched the file.\<close>

definition first_touch :: "file_env \<Rightarrow> string \<Rightarrow> undo_store \<Rightarrow> bool" where
  "first_touch env path u \<longleftrightarrow>
     ftUndoOn env \<and> \<not> skipped (ftSession env) (ftRun env) u \<and>
     (case snd (loadLocked (ftUndo env) (ftSession env) (ftRun env) u) of Inl e \<Rightarrow> False | Inr es \<Rightarrow> mget es path = None)"

definition reverted :: "file_env \<Rightarrow> string \<Rightarrow> disk \<Rightarrow> tool_state \<Rightarrow> bool" where
  "reverted env path d st \<longleftrightarrow>
     (case Undo (ftUndo env) (ftSession env) (ftRun env) (tsDisk st, tsUndo st) of
        ((d2, u2), res, Some e) \<Rightarrow> True
      | ((d2, u2), res, None) \<Rightarrow> map_option nBytes (mget d2 path) = map_option nBytes (mget d path))"

lemma store_bytes_undo:
  assumes "store_bytes env folders resolved bytes st = (st', None)" "ftUndoOn env"
  shows "\<exists>u display. Prepare (ftUndo env) (ftSession env) (ftRun env) resolved display (tsDisk st) (tsUndo st) = (u, None) \<and>
     Commit (ftUndo env) (ftSession env) (ftRun env) resolved (tsDisk st') u = (tsUndo st', None)"
proof -
  obtain st1 r where R: "ReserveSkillStateWrite env resolved (int (length bytes)) st = (st1, r)" by fastforce
  note k = Reserve_disk [of env resolved "int (length bytes)" st, unfolded R fst_conv]
  let ?P = "Prepare (ftUndo env) (ftSession env) (ftRun env) resolved (workspaceRel (ftOps env) (cfWorkspace (tsFolders st)) resolved) (tsDisk st) (tsUndo st)"
  have p: "prepareUndo env resolved st1 = (st1\<lparr>tsUndo := fst ?P\<rparr>, snd ?P)"
    by (simp add: prepareUndo_def assms(2) k split_beta)
  obtain reserved where r: "r = Inr reserved" using assms(1) R by (cases r) (auto simp: store_bytes_def)
  have P: "snd ?P = None" and t: "replace_target env resolved bytes reserved (st1\<lparr>tsUndo := fst ?P\<rparr>) = (st', None)"
    using assms(1) by (simp_all add: store_bytes_def R r p split: option.splits)
  let ?st3 = "st1\<lparr>tsUndo := fst ?P, tsDisk := mput resolved (Regular bytes 384) (tsDisk st1), tsReplaced := tsReplaced st1 @ [resolved]\<rparr>"
  let ?C = "Commit (ftUndo env) (ftSession env) (ftRun env) resolved (tsDisk ?st3) (fst ?P)"
  have c: "commitUndo env resolved ?st3 = (?st3\<lparr>tsUndo := fst ?C\<rparr>, snd ?C)"
    by (simp add: commitUndo_def assms(2) split_beta)
  have "snd ?C = None" "tsUndo st' = fst ?C" "tsDisk st' = tsDisk ?st3"
    using t by (auto simp: replace_target_def Let_def c split: option.splits)
  with P have "?P = (fst ?P, None)" "Commit (ftUndo env) (ftSession env) (ftRun env) resolved (tsDisk st') (fst ?P) = (tsUndo st', None)"
    by (metis prod.collapse)+
  then show ?thesis by blast
qed

lemma store_bytes_reverted:
  assumes "store_bytes env folders resolved bytes st1 = (st', None)" "tsDisk st1 = tsDisk st" "tsUndo st1 = tsUndo st"
    and "first_touch env resolved (tsUndo st)"
  shows "reverted env resolved (tsDisk st) st'"
proof -
  from assms(4) obtain u0 es where l: "ftUndoOn env" "\<not> skipped (ftSession env) (ftRun env) (tsUndo st)"
      "loadLocked (ftUndo env) (ftSession env) (ftRun env) (tsUndo st) = (u0, Inr es)" "mget es resolved = None"
    by (cases "loadLocked (ftUndo env) (ftSession env) (ftRun env) (tsUndo st)") (auto simp: first_touch_def split: sum.splits)
  obtain u display where pc: "Prepare (ftUndo env) (ftSession env) (ftRun env) resolved display (tsDisk st) (tsUndo st) = (u, None)"
      "Commit (ftUndo env) (ftSession env) (ftRun env) resolved (tsDisk st') u = (tsUndo st', None)"
    using store_bytes_undo [OF assms(1) l(1)] assms(2,3) by auto
  have "map_option nBytes (mget d2 resolved) = map_option nBytes (mget (tsDisk st) resolved)"
    if "Undo (ftUndo env) (ftSession env) (ftRun env) (tsDisk st', tsUndo st') = ((d2, u2), res, None)" for d2 u2 res
    using undo_gives_back [OF l(2-4) pc that] by (simp add: found_node_def option.map_comp comp_def)
  then show ?thesis by (auto simp: reverted_def split: prod.split option.split)
qed

lemma untouched_reverted:
  assumes "tsDisk st' = tsDisk st" "tsUndo st' = tsUndo st" "first_touch env resolved (tsUndo st)"
  shows "reverted env resolved (tsDisk st) st'"
proof -
  from assms(3) obtain es where "snd (loadLocked (ftUndo env) (ftSession env) (ftRun env) (tsUndo st)) = Inr es" "mget es resolved = None"
    by (auto simp: first_touch_def split: sum.splits)
  from Undo_untouched [OF this, of "tsDisk st"] show ?thesis
    by (auto simp: reverted_def assms split: prod.split option.split)
qed

lemma write_resolved_reverted:
  assumes "write_resolved env path root resolved content st = (st', Inr msg)" "first_touch env resolved (tsUndo st)"
  shows "reverted env resolved (tsDisk st) st'"
proof -
  obtain st1 r where c: "check env resolved st = (st1, r)" by fastforce
  note cd = check_disk [of env resolved st, unfolded c fst_conv]
  obtain bytes sheets where f: "file_content env resolved content = Inr (bytes, sheets)"
    using assms(1) by (cases "file_content env resolved content") (auto simp: write_resolved_def)
  show ?thesis
  proof (cases "read_file (ftUndo env) (tsDisk st) resolved = Got bytes")
    case True
    with assms(1) have "st' = publishPlan env st" by (simp add: write_resolved_def f)
    then show ?thesis using untouched_reverted [of st' st env resolved] assms(2) by simp
  next
    case False
    with assms(1) have "store_bytes env True resolved bytes st1 = (st', None)"
      by (auto simp: write_resolved_def f c split: sum.splits option.splits prod.splits)
    from store_bytes_reverted [OF this cd(1,2) assms(2)] show ?thesis .
  qed
qed

lemma edit_resolved_reverted:
  assumes "edit_resolved env args path root resolved old new st = (st', Inr msg)" "first_touch env resolved (tsUndo st)"
  shows "reverted env resolved (tsDisk st) st'"
  using edit_resolved_ok [OF assms(1)] store_bytes_reverted assms(2) by blast

lemma WriteFile_Call_ok:
  assumes "WriteFile_Call env args st = (st', Inr msg)"
  shows "\<exists>c1 root resolved content st2. write_target (ftOps env) (str_of (mget args ''path'')) (tsFolders st) = (c1, Inr (root, resolved)) \<and>
    write_resolved env (str_of (mget args ''path'')) root resolved content (st\<lparr>tsFolders := c1\<rparr>) = (st2, Inr msg) \<and>
    st' = fst (plan_lock env (str_of (mget args ''path'')) st (st2, Inr msg))"
proof -
  let ?path = "str_of (mget args ''path'')"
  define r where "r = (case mget args ''content'' of
                   Some (VStr content) \<Rightarrow>
                     (case write_target (ftOps env) ?path (tsFolders st) of
                        (c1, Inl e) \<Rightarrow> (st\<lparr>tsFolders := c1\<rparr>, Inl e)
                      | (c1, Inr (root, resolved)) \<Rightarrow> write_resolved env ?path root resolved content (st\<lparr>tsFolders := c1\<rparr>))
                 | _ \<Rightarrow> (st, Inl ''content is required''))"
  have "plan_lock env ?path st r = (st', Inr msg)"
    using assms unfolding WriteFile_Call_def Let_def r_def by (simp split: if_splits)
  then have st': "st' = fst (plan_lock env ?path st r)" and r: "snd r = Inr msg" by (simp, metis plan_lock_disk(2) snd_conv)
  obtain content where a: "mget args ''content'' = Some (VStr content)" using r by (auto simp: r_def split: option.splits val.splits)
  obtain c1 root resolved where w: "write_target (ftOps env) ?path (tsFolders st) = (c1, Inr (root, resolved))"
    using r a by (auto simp: r_def split: sum.splits prod.splits)
  show ?thesis using st' r by (cases r) (auto simp: r_def a w)
qed

lemma reverted_plan_lock [simp]: "reverted env p d (fst (plan_lock env q st r)) = reverted env p d (fst r)"
  by (simp add: reverted_def)

text \<open>C11. An undo reverts the tools: when a successful \<open>write_file\<close> or \<open>edit_file\<close> is the first of its run to touch a file and the undo store is on, an undo of the
  run that reports no error leaves at that path the bytes it held before the call, or no file when there was none. The tool, the snapshot it takes, the record it
  writes and the undo are the composed operations.\<close>

theorem undo_reverts_the_tools:
  assumes "tool = WriteFile_Call \<or> tool = EditFile_Call" and "tool env args st = (st', Inr msg)"
    and "write_target (ftOps env) (str_of (mget args ''path'')) (tsFolders st) = (c1, Inr (root, resolved))"
    and "first_touch env resolved (tsUndo st)"
    and "Undo (ftUndo env) (ftSession env) (ftRun env) (tsDisk st', tsUndo st') = ((d2, u2), res, None)"
  shows "map_option nBytes (mget d2 resolved) = map_option nBytes (mget (tsDisk st) resolved)"
proof -
  have "reverted env resolved (tsDisk st) st'"
    using assms(1)
  proof
    assume t: "tool = WriteFile_Call"
    show ?thesis using WriteFile_Call_ok [OF assms(2) [unfolded t]] assms(3,4) write_resolved_reverted [where st = "st\<lparr>tsFolders := c1\<rparr>"] by auto
  next
    assume t: "tool = EditFile_Call"
    show ?thesis using EditFile_Call_ok [OF assms(2) [unfolded t]] assms(3,4) edit_resolved_reverted [where st = "st\<lparr>tsFolders := c1\<rparr>"] by auto
  qed
  then show ?thesis by (simp add: reverted_def assms(5))
qed

definition plain_ops :: path_ops where
  "plain_ops = \<lparr>poAbs = Some, poRel = (\<lambda>root p. if p = root then Some ''.'' else if HasPrefix p (root @ ''/'') then Some (drop (length root + 1) p) else Some ''../x''),
     poJoin = (\<lambda>a b. a @ ''/'' @ b), poClean = (\<lambda>p. p), poIsAbs = (\<lambda>p. HasPrefix p ''/''), poFromSlash = (\<lambda>p. p), poToSlash = (\<lambda>p. p),
     poBase = (\<lambda>p. p), poDir = (\<lambda>p. p), poSep = CHR ''/'', poReal = Some, poNamed = (\<lambda>p. p), poEqualFold = (=), poLower = (\<lambda>p. p)\<rparr>"

definition plain_env :: file_env where
  "plain_env = \<lparr>ftUndo = calm_env, ftOps = plain_ops, ftSession = ''s'', ftRun = ''r'', ftPlanWriteAllowed = False, ftNow = 5, ftModTime = (\<lambda>_. None),
     ftLabel = (\<lambda>s. s), ftWalk = (\<lambda>_. Inr 0), ftMkdir = (\<lambda>_. None), ftTemp = (\<lambda>_. None), ftReplace = (\<lambda>_. None), ftUndoOn = True, ftPlan = [],
     ftWorkbook = (\<lambda>_. Inl ''none''), ftNearMiss = (\<lambda>_ _ _. []), ftSyntax = (\<lambda>_ _ _. []), ftDiagnostics = (\<lambda>_ _ _. [])\<rparr>"

definition plain_chat :: chat_folders where
  "plain_chat = \<lparr>cfRole = ''b'', cfWorkspace = ''/w'', cfPlansRoot = ''/p'', cfPlanDir = [], cfPlanRepo = [], cfPlanRepos = [], cfSkillsRoot = [],
     cfSkillStateRoot = ''.'', cfPlanDirError = None, cfTouched = [], cfWritten = []\<rparr>"

definition plain_state :: tool_state where
  "plain_state = \<lparr>tsDisk = [(''/w/a'', Regular ''old'' 420)], tsUndo = NewFileUndoStore ''/u'', tsSeen = [], tsWriters = [], tsTotals = [],
     tsFolders = plain_chat, tsReplaced = [], tsTouched = [], tsLog = []\<rparr>"

definition plain_write :: "(string, val) gomap" where
  "plain_write = [(''path'', VStr ''a''), (''content'', VStr ''new'')]"

text \<open>A worker overwrites a file of its workspace, and the undo brings it back.\<close>

theorem undo_reverts_the_tools_witness:
  "\<exists>st' msg d2 u2 res. WriteFile_Call plain_env plain_write plain_state = (st', Inr msg) \<and>
     mget (tsDisk st') ''/w/a'' = Some (Regular ''new'' 384) \<and>
     Undo calm_env ''s'' ''r'' (tsDisk st', tsUndo st') = ((d2, u2), res, None) \<and> map_option nBytes (mget d2 ''/w/a'') = Some ''old''"
proof -
  define st' where "st' = fst (WriteFile_Call plain_env plain_write plain_state)"
  have ok: "isl (snd (WriteFile_Call plain_env plain_write plain_state)) = False" "mget (tsDisk st') ''/w/a'' = Some (Regular ''new'' 384)"
    unfolding st'_def by code_simp+
  then obtain msg where m: "WriteFile_Call plain_env plain_write plain_state = (st', Inr msg)"
    unfolding st'_def by (metis prod.collapse isl_def sum.collapse(2))
  have w: "write_target (ftOps plain_env) (str_of (mget plain_write ''path'')) (tsFolders plain_state) = (plain_chat, Inr (''/w'', ''/w/a''))" by code_simp
  have f: "first_touch plain_env ''/w/a'' (tsUndo plain_state)" by code_simp
  have "snd (snd (Undo calm_env ''s'' ''r'' (tsDisk st', tsUndo st'))) = None" unfolding st'_def by code_simp
  then obtain d2 u2 res where u: "Undo calm_env ''s'' ''r'' (tsDisk st', tsUndo st') = ((d2, u2), res, None)" by (metis prod.collapse)
  have "map_option nBytes (mget d2 ''/w/a'') = map_option nBytes (mget (tsDisk plain_state) ''/w/a'')"
    using undo_reverts_the_tools [where tool = WriteFile_Call, OF disjI1 [OF refl] m w f] u by (simp add: plain_env_def)
  moreover have "map_option nBytes (mget (tsDisk plain_state) ''/w/a'') = Some ''old''" by code_simp
  ultimately show ?thesis using m ok(2) u by auto
qed

section \<open>A batch is all or nothing\<close>

lemma mget_set_node [simp]: "mget (set_node p n d) q = (if q = p then n else mget d q)"
  by (simp add: set_node_def split: option.split)

lemma apply_change_frame: "p \<noteq> bcPath c \<Longrightarrow> mget (fst (apply_change env i c d)) p = mget d p"
  by (simp add: apply_change_def write_over_def split: option.split prod.split)

lemma apply_changes_failed:
  "apply_changes env i cs d = (d', Some (j, e)) \<Longrightarrow>
   i \<le> j \<and> j < i + length cs \<and> (\<forall>p. p \<notin> bcPath ` set (take (Suc (j - i)) cs) \<longrightarrow> mget d' p = mget d p)"
proof (induction cs arbitrary: i d)
  case (Cons c cs)
  obtain d1 e1 where a: "apply_change env i c d = (d1, e1)" by fastforce
  have f: "mget d1 p = mget d p" if "p \<noteq> bcPath c" for p using apply_change_frame [OF that, of env i d] a by simp
  show ?case
  proof (cases e1)
    case (Some x)
    with Cons.prems a f show ?thesis by auto
  next
    case None
    with Cons.prems a have "apply_changes env (Suc i) cs d1 = (d', Some (j, e))" by simp
    from Cons.IH [OF this] have ih: "Suc i \<le> j" "j < Suc i + length cs"
      "\<And>p. p \<notin> bcPath ` set (take (Suc (j - Suc i)) cs) \<Longrightarrow> mget d' p = mget d1 p" by auto
    have "Suc (j - i) = Suc (Suc (j - Suc i))" using ih(1) by simp
    then show ?thesis using ih f by auto
  qed
qed simp

text \<open>The bytes at a path, if there is a file, and what a batch makes of them.\<close>

definition content :: "disk \<Rightarrow> string \<Rightarrow> string option" where
  "content d p = map_option nBytes (mget d p)"

definition batch_result :: "batch_change list \<Rightarrow> (string \<Rightarrow> string option) \<Rightarrow> string \<Rightarrow> string option" where
  "batch_result cs f = fold (\<lambda>c f. f(bcPath c := (if bcRemove c then None else Some (bcData c)))) cs f"

lemma content_simps [simp]: "content (mput p n d) = (content d)(p := Some (nBytes n))" "content (mdel p d) = (content d)(p := None)"
  "content (write_over p b m d) = (content d)(p := Some b)"
  by (auto simp: content_def fun_eq_iff write_over_def)

lemma apply_changes_content: "apply_changes env i cs d = (d', None) \<Longrightarrow> content d' = batch_result cs (content d)"
proof (induction cs arbitrary: i d)
  case (Cons c cs)
  obtain d1 where a: "apply_change env i c d = (d1, None)" and r: "apply_changes env (Suc i) cs d1 = (d', None)"
    using Cons.prems by (auto split: prod.splits option.splits)
  have "content d1 = (content d)(bcPath c := (if bcRemove c then None else Some (bcData c)))"
    using a by (auto simp: apply_change_def content_def write_over_def fun_eq_iff split: if_splits option.splits)
  then have "batch_result cs (content d1) = batch_result (c # cs) (content d)" by (simp only: batch_result_def fold.simps comp_def)
  with Cons.IH [OF r] show ?case by (rule trans)
qed (simp add: batch_result_def)

lemma roll_back_content:
  assumes "\<forall>i. beRollback env i" "n \<le> length cs" "\<And>k. k < n \<Longrightarrow> map_option fst (before ! k) = f (bcPath (cs ! k))"
  shows "content (roll_back env cs before n d) p = (if p \<in> bcPath ` set (take n cs) then f p else content d p)"
  using assms(2,3)
proof (induction n arbitrary: d)
  case (Suc n)
  let ?d1 = "case before ! n of Some (b, m) \<Rightarrow> write_over (bcPath (cs ! n)) b m d | None \<Rightarrow> mdel (bcPath (cs ! n)) d"
  have "content ?d1 = (content d)(bcPath (cs ! n) := f (bcPath (cs ! n)))"
    using Suc.prems(2) [of n] by (auto split: option.split)
  with Suc.IH [of ?d1] Suc.prems assms(1) show ?case by (auto simp: take_Suc_conv_app_nth Let_def)
qed simp

lemma batch_before_priors:
  "batch_before env cs st = (st', r) \<Longrightarrow> tsDisk st' = tsDisk st \<and>
   (case r of Inl e \<Rightarrow> True | Inr before \<Rightarrow> length before = length cs \<and>
     (\<forall>k < length cs. map_option fst (before ! k) = content (tsDisk st) (bcPath (cs ! k))))"
proof (induction cs arbitrary: st st' r)
  case (Cons c cs)
  obtain st1 e1 where p: "prepareUndo (beFiles env) (bcPath c) st = (st1, e1)" by fastforce
  have d1: "tsDisk st1 = tsDisk st" using prepareUndo_disk(1) [of "beFiles env" "bcPath c" st] p by simp
  obtain st2 r2 where b: "batch_before env cs st1 = (st2, r2)" by fastforce
  note ih = Cons.IH [OF b]
  show ?case
    using Cons.prems ih d1
    by (auto simp: Let_def p b read_file_def content_def nth_Cons' split: option.splits sum.splits node.splits if_splits)
qed simp

lemma commit_changes_disk: "tsDisk (fst (commit_changes env cs st)) = tsDisk st"
proof (induction cs arbitrary: st)
  case (Cons c cs)
  then show ?case using commitUndo_disk(1) [of "beFiles env" "bcPath c" st] by (simp add: split_beta split: option.split)
qed simp


definition plain_batch_env :: batch_env where
  "plain_batch_env = \<lparr>beFiles = plain_env, beWrite = (\<lambda>i. if i = 1 then Some (''disk full'', Some (Regular ''half'' 420)) else None), beRemove = (\<lambda>_. None),
     beRollback = (\<lambda>_. True)\<rparr>"

definition plain_batch :: "batch_change list" where
  "plain_batch = [\<lparr>bcPath = ''/w/a'', bcData = ''new'', bcMode = 0, bcRemove = False\<rparr>, \<lparr>bcPath = ''/w/b'', bcData = ''more'', bcMode = 0, bcRemove = False\<rparr>]"

end
