(* ===== verification/Calendar.thy ===== *)
theory Calendar
  imports Go_Strings
begin

text \<open>
  Go's \<open>time\<close> package as far as the schedules use it. An instant is the number of nanoseconds since 1970 in UTC, a
  location the offset in seconds that is in force at a Unix second. Days count from 1970-01-01; the civil date of a day is found
  by walking years and months of the Gregorian calendar.
\<close>

type_synonym location = "int \<Rightarrow> int"

definition Second :: int where
  "Second = 1000000000"

definition Minute :: int where
  "Minute = 60 * Second"

definition Hour :: int where
  "Hour = 60 * Minute"

definition zero_time :: int where
  "zero_time = - 62135596800 * Second"

section \<open>Civil dates\<close>

definition leap :: "int \<Rightarrow> bool" where
  "leap y \<longleftrightarrow> y mod 4 = 0 \<and> (y mod 100 \<noteq> 0 \<or> y mod 400 = 0)"

definition year_days :: "int \<Rightarrow> int" where
  "year_days y = (if leap y then 366 else 365)"

definition month_days :: "int \<Rightarrow> int \<Rightarrow> int" where
  "month_days y m = (if m = 2 then (if leap y then 29 else 28) else if m = 4 \<or> m = 6 \<or> m = 9 \<or> m = 11 then 30 else 31)"

function year_walk :: "int \<Rightarrow> int \<Rightarrow> int \<times> int" where
  "year_walk y n = (if n < year_days y then (y, n) else year_walk (y + 1) (n - year_days y))"
  by pat_completeness auto
termination
  by (relation "measure (\<lambda>(y, n). nat n)") (auto simp: year_days_def split: if_splits)

function month_walk :: "int \<Rightarrow> int \<Rightarrow> int \<Rightarrow> int \<times> int" where
  "month_walk y m n = (if n < month_days y m \<or> m \<ge> 12 then (m, n + 1) else month_walk y (m + 1) (n - month_days y m))"
  by pat_completeness auto
termination
  by (relation "measure (\<lambda>(y, m, n). nat (12 - m))") auto

declare year_walk.simps [simp del] month_walk.simps [simp del]

text \<open>The year, month and day of a day number; 146097 days are 400 years.\<close>

definition civil :: "int \<Rightarrow> int \<times> int \<times> int" where
  "civil day = (let (y, n) = year_walk (1970 + 400 * (day div 146097)) (day mod 146097) in (y, month_walk y 1 n))"

section \<open>Local time\<close>

definition unix :: "int \<Rightarrow> int" where
  "unix t = t div Second"

definition local_seconds :: "location \<Rightarrow> int \<Rightarrow> int" where
  "local_seconds off t = unix t + off (unix t)"

definition local_day :: "location \<Rightarrow> int \<Rightarrow> int" where
  "local_day off t = local_seconds off t div 86400"

definition hour_of :: "location \<Rightarrow> int \<Rightarrow> int" where
  "hour_of off t = local_seconds off t mod 86400 div 3600"

definition minute_of :: "location \<Rightarrow> int \<Rightarrow> int" where
  "minute_of off t = local_seconds off t mod 3600 div 60"

definition weekday_of :: "location \<Rightarrow> int \<Rightarrow> int" where
  "weekday_of off t = (local_day off t + 4) mod 7"

definition day_of :: "location \<Rightarrow> int \<Rightarrow> int" where
  "day_of off t = snd (snd (civil (local_day off t)))"

definition month_of :: "location \<Rightarrow> int \<Rightarrow> int" where
  "month_of off t = fst (snd (civil (local_day off t)))"

text \<open>\<open>time.Date\<close> looks the offset up twice, first as if the local seconds were UTC.\<close>

definition from_local :: "location \<Rightarrow> int \<Rightarrow> int" where
  "from_local off u = u - off (u - off u)"

definition date_at :: "location \<Rightarrow> int \<Rightarrow> int \<Rightarrow> int \<Rightarrow> int" where
  "date_at off day h m = from_local off (day * 86400 + h * 3600 + m * 60) * Second"

text \<open>\<open>AddDate(0, 0, n)\<close>.\<close>

definition add_days :: "location \<Rightarrow> int \<Rightarrow> int \<Rightarrow> int" where
  "add_days off t n = from_local off (local_seconds off t + n * 86400) * Second + t mod Second"

definition truncate_minute :: "int \<Rightarrow> int" where
  "truncate_minute t = t - t mod Minute"

section \<open>Facts\<close>

lemma Second_pos [simp]: "0 < Second" "Second \<noteq> 0"
  by (simp_all add: Second_def)

lemma unix_Second [simp]: "unix (s * Second) = s"
  by (simp add: unix_def)

lemma civil_examples: "civil 0 = (1970, 1, 1)" "civil 19782 = (2024, 2, 29)" "civil (- 1) = (1969, 12, 31)" "civil 21243 = (2028, 2, 29)"
  by code_simp+

lemma truncate_minute_bounds: "truncate_minute t \<le> t" "t < truncate_minute t + Minute"
  by (simp_all add: truncate_minute_def Minute_def pos_mod_bound [of "60 * Second" t, simplified])

text \<open>A location of constant offset.\<close>

locale fixed_zone =
  fixes off :: location and c :: int
  assumes offset_fixed: "off t = c"
begin

lemma local_seconds_fixed: "local_seconds off t = unix t + c"
  by (simp add: local_seconds_def offset_fixed)

lemma from_local_fixed: "from_local off u = u - c"
  by (simp add: from_local_def offset_fixed)

lemma local_day_add: "local_day off (add_days off t n) = local_day off t + n"
proof -
  have "unix (add_days off t n) = unix t + n * 86400"
    unfolding add_days_def from_local_fixed local_seconds_fixed by (simp add: unix_def)
  then show ?thesis by (simp add: local_day_def local_seconds_fixed)
qed

lemma date_at_local: "0 \<le> s \<Longrightarrow> s < 86400 \<Longrightarrow> s = h * 3600 + m * 60 \<Longrightarrow>
  local_seconds off (date_at off d h m) = d * 86400 + s \<and> local_day off (date_at off d h m) = d"
  by (simp add: date_at_def from_local_fixed local_seconds_fixed local_day_def)

lemma unix_less: "unix a < unix b \<Longrightarrow> a < b"
  by (metis unix_def Second_pos(1) zdiv_mono1 linorder_not_less)

end

interpretation utc: fixed_zone "\<lambda>_. 0" 0
  by unfold_locales simp

end
