(* ===== verification/Cron.thy ===== *)
theory Cron
  imports Calendar "HOL-Library.Char_ord" "HOL-Library.List_Lexorder"
begin

text \<open>
  Scheduled jobs (\<open>internal/cron/cron.go\<close>): the accepted schedules and the instant each names next, the list of jobs with its operations, the tick
  that runs what is due, and the record of a finished run. Time is \<open>Calendar\<close>; the location, the lower-case and case-folding functions, RFC 3339, the
  random id, the faults of the disk and the run of a job are parameters.
\<close>

section \<open>Schedules\<close>

record cron_env =
  ceOffset :: location
  ceLower :: "string \<Rightarrow> string"
  ceFold :: "string \<Rightarrow> string \<Rightarrow> bool"
  ceRFC3339 :: "string \<Rightarrow> int option"
  ceQuote :: "string \<Rightarrow> string"
  ceStamp :: "int \<Rightarrow> string"
  ceSaveError :: "string option"
  ceMkdirError :: "string option"
  ceOutputError :: "string option"
  ceRemoved :: "string \<Rightarrow> bool"

record spec =
  spNext :: int
  spRepeating :: bool

definition accepted_schedules :: string where
  "accepted_schedules = ''accepted schedules: in 30m, in 2h, in 1d, an ISO timestamp, every 30m/2h/1d, a bare duration, daily/every day at 9am, weekdays/weekends at 9am, every monday 9am, or a five-field cron expression''"

text \<open>A duration is an \<open>int64\<close> of nanoseconds: the products wrap.\<close>

definition duration :: "string \<Rightarrow> int option" where
  "duration s =
     (if length s < 2 then None
      else case Atoi (butlast s) of (n, ok) \<Rightarrow>
             if \<not> ok \<or> n \<le> 0 then None
             else if last s = CHR ''m'' then Some (wrap64 (n * Minute))
             else if last s = CHR ''h'' then Some (wrap64 (n * Hour))
             else if last s = CHR ''d'' then Some (wrap64 (wrap64 (n * 24) * Hour))
             else None)"

definition clock_parts :: "string list \<Rightarrow> (int \<times> int) option" where
  "clock_parts parts =
     (case Atoi (hd parts) of (h, ok) \<Rightarrow>
        if \<not> ok then None
        else if length parts = 2 then (case Atoi (parts ! 1) of (m, ok) \<Rightarrow> if ok then Some (h, m) else None)
        else if length parts = 1 then Some (h, 0) else None)"

definition clock_hour :: "bool \<Rightarrow> bool \<Rightarrow> int \<times> int \<Rightarrow> (int \<times> int) option" where
  "clock_hour am pm hm =
     (case hm of (h0, m) \<Rightarrow>
        if (am \<or> pm) \<and> (h0 < 1 \<or> h0 > 12) then None
        else let h1 = (if (am \<or> pm) \<and> h0 = 12 then 0 else h0); h = (if pm then h1 + 12 else h1)
             in if h < 24 \<and> m < 60 then Some (h, m) else None)"

definition clock :: "string \<Rightarrow> (int \<times> int) option" where
  "clock s0 =
     (let s1 = TrimSpace s0; pm = HasSuffix s1 ''pm''; am = HasSuffix s1 ''am'';
          s = (if pm \<or> am then TrimSpace (take (length s1 - 2) s1) else s1)
      in case clock_parts (split_on (CHR '':'') s) of None \<Rightarrow> None | Some hm \<Rightarrow> clock_hour am pm hm)"

definition on_days :: "location \<Rightarrow> int list option \<Rightarrow> int \<Rightarrow> bool" where
  "on_days off days t = (case days of None \<Rightarrow> True | Some ws \<Rightarrow> weekday_of off t \<in> set ws)"

definition nextClock :: "location \<Rightarrow> int \<Rightarrow> int \<Rightarrow> int \<Rightarrow> int list option \<Rightarrow> int" where
  "nextClock off now h m days =
     (case find (\<lambda>t. t > now \<and> on_days off days t)
             (map (\<lambda>n. date_at off (local_day off (add_days off now (int n))) h m) [0..<8]) of
        Some t \<Rightarrow> t
      | None \<Rightarrow> zero_time)"

text \<open>One comma-separated part of a cron field, as the check and as the match read it.\<close>

definition part_valid :: "string \<Rightarrow> int \<Rightarrow> int \<Rightarrow> bool" where
  "part_valid part lo hi =
     (part = ''*'' \<or>
      (let p = split_on (CHR ''-'') part
       in length p \<le> 2 \<and> list_all (\<lambda>v. case Atoi v of (n, ok) \<Rightarrow> ok \<and> lo \<le> n \<and> n \<le> hi) p \<and>
          (length p = 2 \<longrightarrow> fst (Atoi (p ! 0)) \<le> fst (Atoi (p ! 1)))))"

definition fieldValid :: "string \<Rightarrow> int \<Rightarrow> int \<Rightarrow> bool" where
  "fieldValid expr lo hi = list_all (\<lambda>part. part_valid part lo hi) (split_on (CHR '','') expr)"

definition part_range :: "string \<Rightarrow> int \<times> int" where
  "part_range part =
     (if CHR ''-'' \<in> set part then (let p = split2 (CHR ''-'') part in (fst (Atoi (p ! 0)), fst (Atoi (p ! 1))))
      else (fst (Atoi part), fst (Atoi part)))"

definition field :: "string \<Rightarrow> int \<Rightarrow> int \<Rightarrow> int \<Rightarrow> bool" where
  "field expr v lo hi =
     list_ex (\<lambda>part. part = ''*'' \<or> (case part_range part of (a, b) \<Rightarrow> a \<ge> lo \<and> b \<le> hi \<and> v \<ge> a \<and> v \<le> b)) (split_on (CHR '','') expr)"

definition cron_limits :: "(int \<times> int) list" where
  "cron_limits = [(0, 59), (0, 23), (1, 31), (1, 12), (0, 6)]"

definition cron_valid :: "string list \<Rightarrow> bool" where
  "cron_valid exprs = list_all (\<lambda>(f, lo, hi). fieldValid f lo hi) (zip exprs cron_limits)"

definition cron_matches :: "location \<Rightarrow> string list \<Rightarrow> int \<Rightarrow> bool" where
  "cron_matches off exprs t \<longleftrightarrow>
     field (exprs ! 0) (minute_of off t) 0 59 \<and> field (exprs ! 1) (hour_of off t) 0 23 \<and> field (exprs ! 2) (day_of off t) 1 31 \<and>
     field (exprs ! 3) (month_of off t) 1 12 \<and> field (exprs ! 4) (weekday_of off t) 0 6"

text \<open>The search of \<open>nextCron\<close> looks at every minute of the next 366 days.\<close>

definition cron_horizon :: nat where
  "cron_horizon = 366 * 24 * 60"

fun cron_search :: "location \<Rightarrow> string list \<Rightarrow> int \<Rightarrow> nat \<Rightarrow> int option" where
  "cron_search off exprs t 0 = None"
| "cron_search off exprs t (Suc n) = (if cron_matches off exprs t then Some t else cron_search off exprs (t + Minute) n)"

definition nextCron :: "location \<Rightarrow> string list \<Rightarrow> int \<Rightarrow> int option" where
  "nextCron off exprs now =
     (if \<not> cron_valid exprs then None else cron_search off exprs (truncate_minute now + Minute) cron_horizon)"

definition weekday_names :: "string list" where
  "weekday_names = [''sunday'', ''monday'', ''tuesday'', ''wednesday'', ''thursday'', ''friday'', ''saturday'']"

text \<open>The clock phrases in the order the code tries them: a prefix and the days it allows.\<close>

definition clock_phrases :: "(string \<times> int list option) list" where
  "clock_phrases =
     [(''every day at '', None), (''daily at '', None), (''weekdays at '', Some [1, 2, 3, 4, 5]), (''weekends at '', Some [6, 0])] @
     map (\<lambda>(i, name). (''every '' @ name @ '' '', Some [int i])) (enumerate 0 weekday_names)"

definition by_phrase :: "cron_env \<Rightarrow> string \<Rightarrow> int \<Rightarrow> string \<times> int list option \<Rightarrow> spec option" where
  "by_phrase env s now phrase =
     (case phrase of (p, days) \<Rightarrow>
        if HasPrefix s p
        then map_option (\<lambda>(h, m). \<lparr>spNext = nextClock (ceOffset env) now h m days, spRepeating = True\<rparr>) (clock (drop (length p) s))
        else None)"

fun first_some :: "('a \<Rightarrow> 'b option) \<Rightarrow> 'a list \<Rightarrow> 'b option" where
  "first_some f [] = None"
| "first_some f (x # xs) = (case f x of None \<Rightarrow> first_some f xs | Some y \<Rightarrow> Some y)"

definition by_duration :: "string \<Rightarrow> int \<Rightarrow> string \<Rightarrow> spec option" where
  "by_duration s now p =
     (if HasPrefix s p then map_option (\<lambda>d. \<lparr>spNext = now + d, spRepeating = True\<rparr>) (duration (TrimSpace (drop (length p) s))) else None)"

definition by_cron :: "cron_env \<Rightarrow> string \<Rightarrow> int \<Rightarrow> spec option" where
  "by_cron env s now =
     (if length (Fields s) = 5 then map_option (\<lambda>t. \<lparr>spNext = t, spRepeating = True\<rparr>) (nextCron (ceOffset env) (Fields s) now) else None)"

definition Parse :: "cron_env \<Rightarrow> string \<Rightarrow> int \<Rightarrow> string + spec" where
  "Parse env raw now =
     (let trimmed = TrimSpace raw; s = ceLower env trimmed; bad = Inl accepted_schedules
      in if HasPrefix s ''in '' then
           (case duration (TrimSpace (drop 3 s)) of None \<Rightarrow> bad | Some d \<Rightarrow> Inr \<lparr>spNext = now + d, spRepeating = False\<rparr>)
         else case ceRFC3339 env trimmed of
                Some ts \<Rightarrow> if ts > now then Inr \<lparr>spNext = ts, spRepeating = False\<rparr> else bad
              | None \<Rightarrow>
                  (case first_some (by_duration s now) [''every '', ''''] of
                     Some sp \<Rightarrow> Inr sp
                   | None \<Rightarrow>
                       (case first_some (by_phrase env s now) clock_phrases of
                          Some sp \<Rightarrow> Inr sp
                        | None \<Rightarrow> (case by_cron env s now of Some sp \<Rightarrow> Inr sp | None \<Rightarrow> bad))))"


section \<open>Jobs\<close>

record job =
  jbID :: string
  jbName :: string
  jbSchedule :: string
  jbPrompt :: string
  jbSkills :: "string list"
  jbDeliver :: string
  jbRepeat :: int
  jbRuns :: int
  jbNext :: int
  jbPaused :: bool
  jbUnattended :: bool
  jbRepeating :: bool
  jbLastFailure :: string

definition zero_job :: job where
  "zero_job = \<lparr>jbID = [], jbName = [], jbSchedule = [], jbPrompt = [], jbSkills = [], jbDeliver = [], jbRepeat = 0, jbRuns = 0, jbNext = zero_time,
     jbPaused = False, jbUnattended = False, jbRepeating = False, jbLastFailure = []\<rparr>"

record cron_args =
  caAction :: string
  caSchedule :: string
  caPrompt :: string
  caName :: string
  caSkill :: string
  caJobID :: string
  caDeliver :: string
  caSkills :: "string list option"
  caRepeat :: int
  caUnattended :: "bool option"

record cron_reply =
  crJob :: job
  crJobs :: "job list"
  crMessage :: string

definition no_reply :: cron_reply where
  "no_reply = \<lparr>crJob = zero_job, crJobs = [], crMessage = []\<rparr>"

record job_result =
  jrAnswer :: string
  jrFailed :: bool
  jrFailure :: string

text \<open>The manager with its folder on disk: \<open>mgSaved\<close> is \<open>jobs.json\<close>, \<open>mgOutput\<close> the output files of every job, newest write last; \<open>mgNotices\<close> and \<open>mgFinished\<close> are
  the calls of the two hooks.\<close>

record manager =
  mgJobs :: "job list"
  mgSaved :: "job list"
  mgOutput :: "(string, (string, string) gomap) gomap"
  mgNotices :: "string list"
  mgFinished :: "(job \<times> job_result \<times> bool) list"

definition maxJobs :: nat where
  "maxJobs = 1000"

definition maxOutputsPerJob :: nat where
  "maxOutputsPerJob = 128"

definition saveLocked :: "cron_env \<Rightarrow> manager \<Rightarrow> manager \<times> string option" where
  "saveLocked env m = (case ceSaveError env of Some e \<Rightarrow> (m, Some e) | None \<Rightarrow> (m\<lparr>mgSaved := mgJobs m\<rparr>, None))"

definition job_index :: "(job \<Rightarrow> bool) \<Rightarrow> job list \<Rightarrow> nat list" where
  "job_index p js = filter (\<lambda>i. p (js ! i)) [0..<length js]"

definition findLocked :: "cron_env \<Rightarrow> string \<Rightarrow> job list \<Rightarrow> string + nat" where
  "findLocked env ref js =
     (case job_index (\<lambda>j. jbID j = ref) js of
        i # _ \<Rightarrow> Inr i
      | [] \<Rightarrow>
          (case job_index (\<lambda>j. ceFold env (jbName j) ref) js of
             [i] \<Rightarrow> Inr i
           | [] \<Rightarrow> Inl (''job '' @ ceQuote env ref @ '' not found'')
           | hits \<Rightarrow> Inl (''job name is ambiguous; candidates: '' @
               join '', '' (map (\<lambda>i. jbID (js ! i) @ '' ('' @ jbName (js ! i) @ '')'') hits))))"

definition finish_save :: "cron_env \<Rightarrow> job \<Rightarrow> string \<Rightarrow> manager \<Rightarrow> manager \<times> cron_reply \<times> string option" where
  "finish_save env j message m = (case saveLocked env m of (m1, err) \<Rightarrow> (m1, no_reply\<lparr>crJob := j, crMessage := message\<rparr>, err))"

definition all_skills :: "cron_args \<Rightarrow> string list option" where
  "all_skills a = (if caSkill a \<noteq> [] then Some ((case caSkills a of None \<Rightarrow> [] | Some ss \<Rightarrow> ss) @ [caSkill a]) else caSkills a)"

definition or_empty :: "string list option \<Rightarrow> string list" where
  "or_empty ss = (case ss of None \<Rightarrow> [] | Some x \<Rightarrow> x)"

definition cron_create :: "cron_env \<Rightarrow> int \<Rightarrow> string \<Rightarrow> cron_args \<Rightarrow> manager \<Rightarrow> manager \<times> cron_reply \<times> string option" where
  "cron_create env now fresh a m =
     (if length (mgJobs m) \<ge> maxJobs then (m, no_reply, Some (''job limit reached ('' @ Itoa (int maxJobs) @ '')''))
      else case Parse env (caSchedule a) now of
             Inl e \<Rightarrow> (m, no_reply, Some e)
           | Inr sp \<Rightarrow>
               if TrimSpace (caPrompt a) = [] then (m, no_reply, Some ''prompt is required'')
               else let name = TrimSpace (caName a);
                        j = zero_job\<lparr>jbID := fresh, jbName := (if name = [] then fresh else name), jbSchedule := caSchedule a, jbPrompt := caPrompt a,
                              jbSkills := or_empty (all_skills a), jbDeliver := caDeliver a, jbRepeat := caRepeat a, jbNext := spNext sp,
                              jbRepeating := spRepeating sp, jbUnattended := (caUnattended a = Some True)\<rparr>
                    in finish_save env j (''created '' @ jbName j) (m\<lparr>mgJobs := mgJobs m @ [j]\<rparr>))"

definition updated_job :: "cron_args \<Rightarrow> spec option \<Rightarrow> job \<Rightarrow> job" where
  "updated_job a sp j =
     (let j1 = (case sp of None \<Rightarrow> j | Some s \<Rightarrow> j\<lparr>jbSchedule := caSchedule a, jbNext := spNext s, jbRepeating := spRepeating s\<rparr>)
      in j1\<lparr>jbPrompt := (if caPrompt a \<noteq> [] then caPrompt a else jbPrompt j1),
            jbName := (if caName a \<noteq> [] then caName a else jbName j1),
            jbSkills := (case all_skills a of None \<Rightarrow> jbSkills j1 | Some ss \<Rightarrow> ss),
            jbDeliver := (if caDeliver a \<noteq> [] then caDeliver a else jbDeliver j1),
            jbRepeat := (if caRepeat a > 0 then caRepeat a else jbRepeat j1),
            jbUnattended := (case caUnattended a of None \<Rightarrow> jbUnattended j1 | Some b \<Rightarrow> b)\<rparr>)"

definition cron_update :: "cron_env \<Rightarrow> int \<Rightarrow> cron_args \<Rightarrow> nat \<Rightarrow> manager \<Rightarrow> manager \<times> cron_reply \<times> string option" where
  "cron_update env now a i m =
     (case (if caSchedule a \<noteq> [] then map_sum id Some (Parse env (caSchedule a) now) else Inr None) of
        Inl e \<Rightarrow> (m, no_reply, Some e)
      | Inr sp \<Rightarrow>
          let j = updated_job a sp (mgJobs m ! i)
          in finish_save env j (''updated '' @ jbName j) (m\<lparr>mgJobs := (mgJobs m)[i := j]\<rparr>))"

section \<open>Running\<close>

text \<open>The run of a job is a parameter: it may call the manager itself, so it maps a manager to a manager, and it names the time at which it returned.\<close>

type_synonym job_runner = "job \<Rightarrow> manager \<Rightarrow> manager \<times> job_result \<times> int"

definition keep_newest :: "cron_env \<Rightarrow> (string, string) gomap \<Rightarrow> (string, string) gomap" where
  "keep_newest env files =
     (if length files > maxOutputsPerJob
      then (let old = take (length files - maxOutputsPerJob) (sort (keys files))
            in filter (\<lambda>(name, body). \<not> (name \<in> set old \<and> ceRemoved env name)) files)
      else files)"

definition output_body :: "job_result \<Rightarrow> string" where
  "output_body r = jrAnswer r @ (if jrFailed r \<and> jrFailure r \<noteq> [] then [char_of (10::nat), char_of (10::nat)] @ ''Failure: '' @ jrFailure r else []) @ [char_of (10::nat)]"

definition write_output :: "cron_env \<Rightarrow> string \<Rightarrow> string \<Rightarrow> job_result \<Rightarrow> manager \<Rightarrow> manager" where
  "write_output env jid stamp r m =
     m\<lparr>mgOutput := mput jid (keep_newest env (mput stamp (output_body r) (mget_or [] (mgOutput m) jid))) (mgOutput m)\<rparr>"

definition silent :: "job_result \<Rightarrow> bool" where
  "silent r \<longleftrightarrow> Contains (jrAnswer r) ''[SILENT]'' \<and> \<not> jrFailed r"

definition counted :: "job_result \<Rightarrow> job \<Rightarrow> job" where
  "counted r j = j\<lparr>jbRuns := jbRuns j + 1, jbLastFailure := (if jrFailed r then jrFailure r else [])\<rparr>"

definition spent :: "job \<Rightarrow> bool" where
  "spent j \<longleftrightarrow> \<not> jbRepeating j \<or> jbRepeat j > 0 \<and> jbRuns j \<ge> jbRepeat j"

text \<open>The error of \<open>Parse\<close> is dropped: its zero \<open>Spec\<close> names the zero time.\<close>

definition rescheduled :: "cron_env \<Rightarrow> int \<Rightarrow> job \<Rightarrow> job" where
  "rescheduled env now j = j\<lparr>jbNext := (case Parse env (jbSchedule j) now of Inl e \<Rightarrow> zero_time | Inr sp \<Rightarrow> spNext sp)\<rparr>"

definition settle_job :: "cron_env \<Rightarrow> int \<Rightarrow> job \<Rightarrow> job_result \<Rightarrow> nat \<Rightarrow> manager \<Rightarrow> manager" where
  "settle_job env now j r i m =
     (let prior = mgJobs m ! i; current = counted r prior;
          notify = (if jrFailed r then \<not> silent r \<and> jbLastFailure prior \<noteq> jrFailure r else \<not> silent r);
          jobs = (if spent current then remove_at i (mgJobs m) else (mgJobs m)[i := rescheduled env now current]);
          m1 = fst (saveLocked env (m\<lparr>mgJobs := jobs\<rparr>))
      in m1\<lparr>mgNotices := mgNotices m1 @ (if notify then [jbName j] else []), mgFinished := mgFinished m1 @ [(j, r, \<not> silent r)]\<rparr>)"

definition runOne :: "cron_env \<Rightarrow> job_runner option \<Rightarrow> job \<Rightarrow> manager \<Rightarrow> manager \<times> string option" where
  "runOne env run j m =
     (case run of
        None \<Rightarrow> (m, Some ''scheduled runner is unavailable'')
      | Some f \<Rightarrow>
          (case f j m of (m1, r, now) \<Rightarrow>
             (case ceMkdirError env of
                Some e \<Rightarrow> (m1, Some e)
              | None \<Rightarrow>
                  (case ceOutputError env of
                     Some e \<Rightarrow> (m1, Some e)
                   | None \<Rightarrow>
                       let m2 = write_output env (jbID j) (ceStamp env now) r m1
                       in (case findLocked env (jbID j) (mgJobs m2) of
                             Inl e \<Rightarrow> (m2, None)
                           | Inr i \<Rightarrow> (settle_job env now j r i m2, None))))))"

definition due_jobs :: "int \<Rightarrow> job list \<Rightarrow> job list" where
  "due_jobs now js = sort_key jbNext (filter (\<lambda>j. \<not> jbPaused j \<and> jbNext j \<le> now) js)"

fun run_due :: "cron_env \<Rightarrow> job_runner option \<Rightarrow> job list \<Rightarrow> manager \<Rightarrow> manager \<times> string option" where
  "run_due env run [] m = (m, None)"
| "run_due env run (j # js) m = (case runOne env run j m of (m1, Some e) \<Rightarrow> (m1, Some e) | (m1, None) \<Rightarrow> run_due env run js m1)"

definition Tick :: "cron_env \<Rightarrow> job_runner option \<Rightarrow> int \<Rightarrow> manager \<Rightarrow> manager \<times> string option" where
  "Tick env run now m = run_due env run (due_jobs now (mgJobs m)) m"

definition on_job :: "cron_env \<Rightarrow> string \<Rightarrow> manager \<Rightarrow> (nat \<Rightarrow> manager \<times> cron_reply \<times> string option) \<Rightarrow> manager \<times> cron_reply \<times> string option" where
  "on_job env ref m f = (case findLocked env ref (mgJobs m) of Inl e \<Rightarrow> (m, no_reply, Some e) | Inr i \<Rightarrow> f i)"

definition Apply :: "cron_env \<Rightarrow> job_runner option \<Rightarrow> int \<Rightarrow> string \<Rightarrow> cron_args \<Rightarrow> manager \<Rightarrow> manager \<times> cron_reply \<times> string option" where
  "Apply env run now fresh a m =
     (if caAction a = ''create'' then cron_create env now fresh a m
      else if caAction a = ''list'' then (m, no_reply\<lparr>crJobs := mgJobs m\<rparr>, None)
      else if caAction a = ''update'' then on_job env (caJobID a) m (\<lambda>i. cron_update env now a i m)
      else if caAction a = ''pause'' \<or> caAction a = ''resume'' then
        on_job env (caJobID a) m (\<lambda>i.
          let j = (mgJobs m ! i)\<lparr>jbPaused := (caAction a = ''pause'')\<rparr>
          in finish_save env j (caAction a @ ''d '' @ jbName j) (m\<lparr>mgJobs := (mgJobs m)[i := j]\<rparr>))
      else if caAction a = ''remove'' then
        on_job env (caJobID a) m (\<lambda>i.
          let j = mgJobs m ! i in finish_save env j (''removed '' @ jbName j) (m\<lparr>mgJobs := remove_at i (mgJobs m)\<rparr>))
      else if caAction a = ''run'' then
        on_job env (caJobID a) m (\<lambda>i.
          let j = mgJobs m ! i
          in case runOne env run j m of (m1, err) \<Rightarrow> (m1, no_reply\<lparr>crJob := j, crMessage := ''started '' @ jbName j\<rparr>, err))
      else (m, no_reply, Some ''action must be create, list, update, pause, resume, run, or remove''))"

text \<open>Reading \<open>jobs.json\<close>: no file, a file that does not decode, or the jobs; another profile starts from its own folder.\<close>

definition load :: "(string + job list) option \<Rightarrow> manager \<Rightarrow> manager \<times> string option" where
  "load file m = (case file of None \<Rightarrow> (m, None) | Some (Inl e) \<Rightarrow> (m, Some e) | Some (Inr js) \<Rightarrow> (m\<lparr>mgJobs := js, mgSaved := js\<rparr>, None))"

definition SetProfileRoot :: "(string + job list) option \<Rightarrow> (string, (string, string) gomap) gomap \<Rightarrow> manager \<Rightarrow> manager \<times> string option" where
  "SetProfileRoot file output m = load file (m\<lparr>mgJobs := [], mgSaved := [], mgOutput := output\<rparr>)"

definition StartNow :: "cron_env \<Rightarrow> string \<Rightarrow> manager \<Rightarrow> string + job" where
  "StartNow env ref m = map_sum id (\<lambda>i. mgJobs m ! i) (findLocked env ref (mgJobs m))"

section \<open>The next instant\<close>

lemma cron_search_find:
  "cron_search off exprs t n = find (cron_matches off exprs) (map (\<lambda>k. t + int k * Minute) [0..<n])"
proof (induction n arbitrary: t)
  case (Suc n)
  have "map (\<lambda>k. t + int k * Minute) [0..<Suc n] = t # map (\<lambda>k. (t + Minute) + int k * Minute) [0..<n]"
    by (simp add: upt_conv_Cons map_Suc_upt [symmetric] algebra_simps del: upt_Suc)
  with Suc show ?case by simp
qed simp

text \<open>The minutes of the next 366 days that an expression names.\<close>

definition cron_instants :: "location \<Rightarrow> string list \<Rightarrow> int \<Rightarrow> int set" where
  "cron_instants off exprs now = {t. now < t \<and> t \<le> now + 366 * 24 * 60 * Minute \<and> t mod Minute = 0 \<and> cron_matches off exprs t}"

lemma next_minutes:
  "now < t \<and> t \<le> now + int n * Minute \<and> t mod Minute = 0 \<longleftrightarrow> (\<exists>k < n. t = truncate_minute now + Minute + int k * Minute)"
proof -
  have M: "0 < Minute" by (simp add: Minute_def)
  define q where "q = now div Minute"
  have now: "truncate_minute now = q * Minute" "q * Minute \<le> now" "now < (q + 1) * Minute"
    using truncate_minute_bounds [of now] by (auto simp: truncate_minute_def q_def minus_mod_eq_div_mult algebra_simps)
  show ?thesis
  proof
    assume a: "now < t \<and> t \<le> now + int n * Minute \<and> t mod Minute = 0"
    then obtain r where t: "t = r * Minute" by (metis mod_0_imp_dvd dvd_def mult.commute)
    have "q * Minute < r * Minute" using a now(2) t by linarith
    then have 1: "q < r" using M by simp
    have "r * Minute < (q + 1 + int n) * Minute" using a now(3) t by (simp add: algebra_simps)
    then have 2: "r < q + 1 + int n" using M by (simp only: mult_less_cancel_right)
    have "t = truncate_minute now + Minute + int (nat (r - q - 1)) * Minute" using 1 by (simp add: t now(1) algebra_simps)
    moreover have "nat (r - q - 1) < n" using 1 2 by linarith
    ultimately show "\<exists>k < n. t = truncate_minute now + Minute + int k * Minute" by blast
  next
    assume "\<exists>k < n. t = truncate_minute now + Minute + int k * Minute"
    then obtain k where k: "k < n" "t = (q + 1 + int k) * Minute" by (auto simp: now(1) algebra_simps)
    have "(q + 1) * Minute \<le> (q + 1 + int k) * Minute" using M by (intro mult_right_mono) auto
    then have "now < t" using now(3) k(2) by linarith
    moreover have "(q + 1 + int k) * Minute \<le> (q + int n) * Minute" using k(1) M by (intro mult_right_mono) auto
    ultimately show "now < t \<and> t \<le> now + int n * Minute \<and> t mod Minute = 0"
      using now k(2) by (simp add: algebra_simps)
  qed
qed

lemma find_Min:
  assumes "\<And>i j. i < j \<Longrightarrow> j < n \<Longrightarrow> f i < f (j :: nat)"
  shows "find P (map f [0..<n]) = (let S = {x. P x \<and> (\<exists>k < n. x = f k)} in if S = {} then None else Some (Min S :: 'a :: linorder))"
proof -
  let ?S = "{x. P x \<and> (\<exists>k < n. x = f k)}"
  have S: "?S = f ` {k. k < n \<and> P (f k)}" by auto
  show ?thesis
  proof (cases "find P (map f [0..<n])")
    case None
    then have "?S = {}" by (auto simp: find_None_iff)
    with None show ?thesis by simp
  next
    case (Some y)
    then obtain i where i: "i < n" "P (f i)" "y = f i" "\<forall>j < i. \<not> P (f j)" by (auto simp: find_Some_iff)
    have "Min ?S = f i"
    proof (rule Min_eqI)
      show "finite ?S" unfolding S by simp
      show "f i \<le> y" if "y \<in> ?S" for y
      proof -
        obtain j where j: "j < n" "P (f j)" "y = f j" using \<open>y \<in> ?S\<close> by auto
        with i(4) have "i \<le> j" by (metis linorder_not_less)
        with assms [of i j] j show ?thesis by (cases "i = j") auto
      qed
    qed (use i in auto)
    with Some i show ?thesis by auto
  qed
qed

lemma next_cron_min:
  "nextCron off exprs now =
     (if cron_valid exprs \<and> cron_instants off exprs now \<noteq> {} then Some (Min (cron_instants off exprs now)) else None)"
proof -
  let ?f = "\<lambda>k. truncate_minute now + Minute + int k * Minute"
  have "{t. cron_matches off exprs t \<and> (\<exists>k < cron_horizon. t = truncate_minute now + Minute + int k * Minute)} = cron_instants off exprs now"
    by (auto simp: cron_instants_def next_minutes [symmetric] cron_horizon_def)
  then have S: "{t. cron_matches off exprs t \<and> (\<exists>k < cron_horizon. t = ?f k)} = cron_instants off exprs now" .
  have "find (cron_matches off exprs) (map ?f [0..<cron_horizon]) =
      (if cron_instants off exprs now = {} then None else Some (Min (cron_instants off exprs now)))"
    by (subst find_Min) (simp_all add: Minute_def S [unfolded Minute_def] Let_def)
  then show ?thesis by (simp add: nextCron_def cron_search_find)
qed

text \<open>C36. A cron expression names its earliest minute: \<open>nextCron\<close> accepts a valid expression exactly when some minute of the next 366 days matches it, and
  returns the first such minute, strictly after now.\<close>

theorem next_cron_is_the_earliest:
  "nextCron off exprs now =
     (if cron_valid exprs \<and> cron_instants off exprs now \<noteq> {} then Some (Min (cron_instants off exprs now)) else None)"
  by (rule next_cron_min)

text \<open>The instants at a clock time on the allowed days.\<close>

definition clock_instant :: "location \<Rightarrow> int \<Rightarrow> int \<Rightarrow> int list option \<Rightarrow> int \<Rightarrow> bool" where
  "clock_instant off h m days t \<longleftrightarrow> t mod Second = 0 \<and> local_seconds off t mod 86400 = h * 3600 + m * 60 \<and> on_days off days t"

definition clock_ok :: "int \<Rightarrow> int \<Rightarrow> int list option \<Rightarrow> bool" where
  "clock_ok h m days \<longleftrightarrow> 0 \<le> h \<and> h < 24 \<and> 0 \<le> m \<and> m < 60 \<and>
     (case days of None \<Rightarrow> True | Some ws \<Rightarrow> ws \<noteq> [] \<and> list_all (\<lambda>w. 0 \<le> w \<and> w < 7) ws)"

context fixed_zone
begin

lemma date_at_eq: "date_at off d h m = (d * 86400 + (h * 3600 + m * 60) - c) * Second"
  by (simp add: date_at_def from_local_fixed)

lemma clock_instant_date:
  assumes "0 \<le> s" "s < 86400" "s = h * 3600 + m * 60"
  shows "clock_instant off h m days t \<longleftrightarrow> on_days off days t \<and> t = date_at off (local_day off t) h m"
proof
  assume a: "clock_instant off h m days t"
  then have t: "t = unix t * Second" by (metis clock_instant_def unix_def mult_div_mod_eq add.right_neutral mult.commute)
  have "local_seconds off t = local_seconds off t div 86400 * 86400 + s"
    using a assms(3) by (metis clock_instant_def div_mult_mod_eq)
  then have "unix t = local_day off t * 86400 + s - c" by (simp add: local_day_def local_seconds_fixed)
  with t assms(3) show "on_days off days t \<and> t = date_at off (local_day off t) h m"
    using a by (simp add: date_at_eq clock_instant_def)
next
  assume a: "on_days off days t \<and> t = date_at off (local_day off t) h m"
  then have "t mod Second = 0" by (metis date_at_eq mod_mult_self2_is_0)
  moreover have "local_seconds off t = local_day off t * 86400 + s"
    using a date_at_local [OF assms(1-3)] by metis
  ultimately show "clock_instant off h m days t" using a assms by (simp add: clock_instant_def)
qed

lemma now_local: "local_day off now * 86400 \<le> unix now + c" "unix now + c < (local_day off now + 1) * 86400"
  unfolding local_day_def local_seconds_fixed by (simp_all add: algebra_simps)

lemma later_than_now: "0 \<le> s \<Longrightarrow> s = h * 3600 + m * 60 \<Longrightarrow> 1 \<le> n \<Longrightarrow> now < date_at off (local_day off now + n) h m"
proof -
  assume a: "0 \<le> s" "s = h * 3600 + m * 60" "1 \<le> n"
  have "(local_day off now + 1) * 86400 \<le> (local_day off now + n) * 86400" using a(3) by simp
  with now_local(2) [of now] a have "unix now < unix (date_at off (local_day off now + n) h m)" by (simp add: date_at_eq)
  then show ?thesis by (rule unix_less)
qed

lemma not_before_today: "now < t \<Longrightarrow> local_day off now \<le> local_day off t"
proof -
  assume "now < t"
  then have "unix now \<le> unix t" by (simp add: unix_def zdiv_mono1)
  then show ?thesis by (simp add: local_day_def local_seconds_fixed zdiv_mono1)
qed

lemma allowed_day:
  assumes "clock_ok h m days"
  shows "\<exists>n. k \<le> n \<and> n < k + 7 \<and> on_days off days (date_at off (d + n) h m)"
proof -
  have day: "weekday_of off (date_at off x h m) = (x + 4) mod 7" for x
    using date_at_local [of "h * 3600 + m * 60" h m x] assms by (simp add: weekday_of_def clock_ok_def)
  show ?thesis
  proof (cases days)
    case (Some ws)
    with assms obtain w where w: "w \<in> set ws" "0 \<le> w" "w < 7" by (cases ws) (auto simp: clock_ok_def)
    let ?n = "k + (w - (d + k + 4)) mod 7"
    have "(d + ?n + 4) mod 7 = w mod 7" by (metis (no_types, opaque_lifting) add.assoc add.commute mod_add_right_eq add_diff_cancel_left' diff_add_cancel)
    then have "on_days off days (date_at off (d + ?n) h m)" using w by (simp add: on_days_def Some day)
    moreover have "0 \<le> (w - (d + k + 4)) mod 7" "(w - (d + k + 4)) mod 7 < 7" by simp_all
    ultimately show ?thesis by (intro exI [of _ ?n]) auto
  qed (auto simp: on_days_def intro: exI [of _ k])
qed

lemma date_at_mono: "x < y \<Longrightarrow> date_at off x h m < date_at off y h m"
  by (simp add: date_at_eq Second_def)

lemma next_clock_first:
  assumes "clock_ok h m days"
  shows "now < nextClock off now h m days \<and> clock_instant off h m days (nextClock off now h m days) \<and>
    (\<forall>t. now < t \<longrightarrow> clock_instant off h m days t \<longrightarrow> nextClock off now h m days \<le> t)"
proof -
  let ?s = "h * 3600 + m * 60" and ?D = "local_day off now"
  let ?f = "\<lambda>n. date_at off (?D + int n) h m"
  let ?P = "\<lambda>t. t > now \<and> on_days off days t"
  have s: "0 \<le> ?s" "?s < 86400" using assms by (simp_all add: clock_ok_def)
  have eq: "nextClock off now h m days = (case find ?P (map ?f [0..<8]) of Some t \<Rightarrow> t | None \<Rightarrow> zero_time)"
    by (simp add: nextClock_def local_day_add)
  obtain n where n: "1 \<le> n" "n < 8" "on_days off days (date_at off (?D + n) h m)" using allowed_day [OF assms, of 1 ?D] by auto
  then have "?P (?f (nat n))" using later_than_now [OF s(1) refl n(1), of now] by simp
  moreover have "?f (nat n) \<in> set (map ?f [0..<8])" unfolding set_map by (rule imageI) (use n(2) in auto)
  ultimately have "find ?P (map ?f [0..<8]) \<noteq> None" unfolding find_None_iff by blast
  then obtain y where y: "find ?P (map ?f [0..<8]) = Some y" by blast
  then obtain i where i0: "i < length (map ?f [0..<8])" "?P (map ?f [0..<8] ! i)" "y = map ?f [0..<8] ! i" "\<forall>j < i. \<not> ?P (map ?f [0..<8] ! j)"
    unfolding find_Some_iff by blast
  have i: "i < 8" "?P (?f i)" "\<forall>j < i. \<not> ?P (?f j)" "find ?P (map ?f [0..<8]) = Some (?f i)" using i0 y by auto
  have ni: "nextClock off now h m days = ?f i" by (simp add: eq i(4))
  have day: "local_day off (?f j) = ?D + int j" for j using date_at_local [OF s refl] by blast
  have "clock_instant off h m days (?f i)" using clock_instant_date [OF s refl] i(2) day [of i] by simp
  moreover have "?f i \<le> t" if t: "now < t" "clock_instant off h m days t" for t
  proof -
    have td: "on_days off days t" "t = date_at off (local_day off t) h m" using clock_instant_date [OF s refl] t(2) by blast+
    define j where "j = nat (local_day off t - ?D)"
    have "t = ?f j" using not_before_today [OF t(1)] td(2) by (simp add: j_def)
    with i(3) t(1) td(1) have "i \<le> j" by (metis linorder_not_less)
    with \<open>t = ?f j\<close> date_at_mono [of "?D + int i" "?D + int j" h m] show ?thesis by (cases "i = j") auto
  qed
  ultimately show ?thesis using i(2) by (simp add: ni)
qed

end

text \<open>A clock phrase names its first instant: in a location of constant offset \<open>nextClock\<close> returns the least instant after now that is at the given
  hour and minute on an allowed day, for every valid clock time and every non-empty set of weekdays.\<close>

theorem next_clock_is_the_first:
  assumes "\<forall>t. off t = c" and "clock_ok h m days"
  shows "nextClock off now h m days = (LEAST t. now < t \<and> clock_instant off h m days t) \<and>
    now < nextClock off now h m days \<and> clock_instant off h m days (nextClock off now h m days)"
proof -
  have z: "fixed_zone off c" using assms(1) by unfold_locales simp
  note first = fixed_zone.next_clock_first [OF z assms(2), of now]
  have "(LEAST t. now < t \<and> clock_instant off h m days t) = nextClock off now h m days"
    by (rule Least_equality) (use first in auto)
  with first show ?thesis by simp
qed

text \<open>Noon on the next Monday or Tuesday, from the start of 1970, a Thursday.\<close>

theorem next_clock_is_the_first_witness:
  "nextClock (\<lambda>_. 0) 0 12 0 (Some [1, 2]) = (LEAST t. 0 < t \<and> clock_instant (\<lambda>_. 0) 12 0 (Some [1, 2]) t) \<and>
   nextClock (\<lambda>_. 0) 0 12 0 (Some [1, 2]) = (4 * 86400 + 43200) * Second"
proof -
  have "clock_ok 12 0 (Some [1, 2])" by (simp add: clock_ok_def)
  from next_clock_is_the_first [OF _ this, of "\<lambda>_. 0" 0 0]
  have "nextClock (\<lambda>_. 0) 0 12 0 (Some [1, 2]) = (LEAST t. 0 < t \<and> clock_instant (\<lambda>_. 0) 12 0 (Some [1, 2]) t)" by simp
  moreover have "nextClock (\<lambda>_. 0) 0 12 0 (Some [1, 2]) = (4 * 86400 + 43200) * Second" by code_simp
  ultimately show ?thesis by (rule conjI)
qed

section \<open>Accepted schedules lie ahead\<close>

definition unit_length :: "char \<Rightarrow> int" where
  "unit_length c = (if c = CHR ''m'' then Minute else if c = CHR ''h'' then Hour else 24 * Hour)"

definition amount_fits :: "string \<Rightarrow> bool" where
  "amount_fits s \<longleftrightarrow> s = [] \<or> fst (Atoi (butlast s)) * unit_length (last s) \<le> max_int64"

text \<open>A schedule whose durations do not overflow and whose clock phrases carry no minus sign.\<close>

definition plain_schedule :: "string \<Rightarrow> bool" where
  "plain_schedule s \<longleftrightarrow>
     list_all (\<lambda>p. HasPrefix s p \<longrightarrow> amount_fits (TrimSpace (drop (length p) s))) [''in '', ''every '', ''''] \<and>
     list_all (\<lambda>(p, days). HasPrefix s p \<longrightarrow> CHR ''-'' \<notin> set s) clock_phrases"

lemma duration_pos:
  assumes "duration s = Some d" "amount_fits s"
  shows "0 < d"
proof -
  obtain n ok where a: "Atoi (butlast s) = (n, ok)" by fastforce
  have n: "s \<noteq> []" "ok" "0 < n" using assms(1) a by (auto simp: duration_def split: if_splits)
  have fit: "n * unit_length (last s) \<le> max_int64" using assms(2) n(1) a by (simp add: amount_fits_def)
  have lo: "min_int64 \<le> n * x" if "0 < x" for x :: int
    using mult_pos_pos [OF n(3) that] by (simp add: min_int64_def)
  have M: "0 < Minute" "0 < Hour" "1 \<le> Hour" by (simp_all add: Minute_def Hour_def Second_def)
  have "n * 24 \<le> n * (24 * Hour)" using n(3) M(3) by simp
  then have day: "wrap64 (n * 24) = n * 24" if "n * (24 * Hour) \<le> max_int64" using that lo [of 24] by (intro wrap64_id; linarith)
  have d: "d = wrap64 (n * Minute) \<and> last s = CHR ''m'' \<or> d = wrap64 (n * Hour) \<and> last s = CHR ''h'' \<or> d = wrap64 (wrap64 (n * 24) * Hour) \<and> last s = CHR ''d''"
    using assms(1) a by (auto simp: duration_def split: if_splits)
  have "d = n * unit_length (last s)"
    using d
  proof (elim disjE conjE)
    assume "d = wrap64 (n * Minute)" "last s = CHR ''m''"
    then show ?thesis using fit lo [OF M(1)] by (simp add: unit_length_def wrap64_id)
  next
    assume "d = wrap64 (n * Hour)" "last s = CHR ''h''"
    then show ?thesis using fit lo [OF M(2)] by (simp add: unit_length_def wrap64_id)
  next
    assume "d = wrap64 (wrap64 (n * 24) * Hour)" "last s = CHR ''d''"
    then show ?thesis using fit lo [of "24 * Hour"] M(2) day by (simp add: unit_length_def wrap64_id mult.assoc)
  qed
  then show ?thesis using n(3) M by (simp add: unit_length_def)
qed

lemma set_TrimSpace: "set (TrimSpace s) \<subseteq> set s"
proof -
  have "set (rev (dropWhile p (rev (dropWhile p xs)))) \<subseteq> set xs" for p and xs :: "(nat \<times> string) list"
    by (auto dest!: set_dropWhileD)
  then have "set (concat (map snd (rev (dropWhile p (rev (dropWhile p xs)))))) \<subseteq> set (concat (map snd xs))" for p and xs :: "(nat \<times> string) list"
    unfolding set_concat set_map by blast
  then show ?thesis using concat_runes [of s] unfolding TrimSpace_def Let_def by metis
qed

lemma Atoi_no_minus: "CHR ''-'' \<notin> set s \<Longrightarrow> 0 \<le> fst (Atoi s)"
proof -
  assume a: "CHR ''-'' \<notin> set s"
  have minus: "c = CHR ''-''" if "byte c = 45" for c
  proof -
    have "c = char_of (byte c)" by (simp add: byte_def)
    moreover have "char_of (45 :: nat) = CHR ''-''" by code_simp
    ultimately show ?thesis by (simp add: that)
  qed
  have pos: "0 \<le> n \<Longrightarrow> list_all is_digit ds \<Longrightarrow> 0 \<le> digits_value n ds" for n ds
    by (induction ds arbitrary: n) (auto simp: is_digit_def)
  show ?thesis
  proof (cases s)
    case (Cons c t)
    with a minus have "byte c \<noteq> 45" by auto
    then show ?thesis using Cons pos [of 0 t] pos [of 0 "c # t"] by (auto simp: Atoi_def Let_def max_int64_def min_int64_def)
  qed (simp add: Atoi_def)
qed

lemma set_split_on: "w \<in> set (split_on c s) \<Longrightarrow> set w \<subseteq> set s"
  by (induction s arbitrary: w) (fastforce split: if_splits list.splits)+

lemma clock_hour_bounds: "clock_hour am pm (h0, m0) = Some (h, m) \<Longrightarrow> 0 \<le> h0 \<Longrightarrow> 0 \<le> m0 \<Longrightarrow> 0 \<le> h \<and> h < 24 \<and> 0 \<le> m \<and> m < 60"
  by (auto simp: clock_hour_def Let_def split: if_splits)

lemma clock_ok_parsed:
  assumes "CHR ''-'' \<notin> set s" "clock s = Some (h, m)"
  shows "0 \<le> h \<and> h < 24 \<and> 0 \<le> m \<and> m < 60"
proof -
  define s1 where "s1 = TrimSpace s"
  define pm where "pm = HasSuffix s1 ''pm''"
  define am where "am = HasSuffix s1 ''am''"
  define s2 where "s2 = (if pm \<or> am then TrimSpace (take (length s1 - 2) s1) else s1)"
  let ?parts = "split_on (CHR '':'') s2"
  have "set s2 \<subseteq> set s" using set_TrimSpace [of s] set_TrimSpace [of "take (length s1 - 2) s1"] by (auto simp: s2_def s1_def dest: in_set_takeD)
  then have clean: "CHR ''-'' \<notin> set w" if "w \<in> set ?parts" for w using set_split_on [OF that] assms(1) by blast
  have "clock s = (case clock_parts ?parts of None \<Rightarrow> None | Some hm \<Rightarrow> clock_hour am pm hm)"
    unfolding clock_def Let_def s2_def am_def pm_def s1_def ..
  then obtain h0 m0 where p: "clock_parts ?parts = Some (h0, m0)" "clock_hour am pm (h0, m0) = Some (h, m)"
    using assms(2) by (auto split: option.splits)
  have "hd ?parts \<in> set ?parts" by simp
  from Atoi_no_minus [OF clean [OF this]] have h0: "0 \<le> h0" using p(1) by (auto simp: clock_parts_def split: prod.splits if_splits)
  have "0 \<le> fst (Atoi (?parts ! 1))" if "length ?parts = 2" using Atoi_no_minus [OF clean [OF nth_mem [of 1 ?parts]]] that by simp
  then have "0 \<le> m0" using p(1) by (auto simp: clock_parts_def split: prod.splits if_splits)
  with h0 clock_hour_bounds [OF p(2)] show ?thesis by blast
qed

lemma first_some_in: "first_some f xs = Some y \<Longrightarrow> \<exists>x \<in> set xs. f x = Some y"
  by (induction xs) (auto split: option.splits)

lemma clock_phrases_days: "(p, Some ws) \<in> set clock_phrases \<Longrightarrow> ws \<noteq> [] \<and> list_all (\<lambda>w. 0 \<le> w \<and> w < 7) ws"
  by (auto simp: clock_phrases_def weekday_names_def)

lemma by_phrase_later:
  assumes "fixed_zone (ceOffset env) c" "x \<in> set clock_phrases" "by_phrase env s now x = Some sp" "plain_schedule s"
  shows "now < spNext sp"
proof -
  obtain p days where x: "x = (p, days)" by fastforce
  from assms(3) obtain h m where h: "HasPrefix s p" "clock (drop (length p) s) = Some (h, m)" "spNext sp = nextClock (ceOffset env) now h m days"
    by (auto simp: by_phrase_def x split: if_splits)
  have "CHR ''-'' \<notin> set (drop (length p) s)"
    using assms(2,4) h(1) x by (auto simp: plain_schedule_def list_all_iff dest: in_set_dropD)
  from clock_ok_parsed [OF this h(2)] have "clock_ok h m days"
    using clock_phrases_days [of p] assms(2) x by (auto simp: clock_ok_def split: option.split)
  from fixed_zone.next_clock_first [OF assms(1) this] h(3) show ?thesis by simp
qed

lemma by_cron_later: "by_cron env s now = Some sp \<Longrightarrow> now < spNext sp"
proof -
  assume "by_cron env s now = Some sp"
  then have n: "nextCron (ceOffset env) (Fields s) now = Some (spNext sp)" by (auto simp: by_cron_def split: if_splits)
  have s: "cron_search (ceOffset env) (Fields s) (truncate_minute now + Minute) cron_horizon = Some (spNext sp)"
    using n by (simp add: nextCron_def split: if_splits)
  have "truncate_minute now + Minute \<le> spNext sp"
    using s by (auto simp: cron_search_find find_Some_iff Minute_def Second_def)
  with truncate_minute_bounds(2) [of now] show ?thesis by linarith
qed

lemma by_duration_later:
  "by_duration s now p = Some sp \<Longrightarrow> p \<in> set [''in '', ''every '', ''''] \<Longrightarrow> plain_schedule s \<Longrightarrow> now < spNext sp"
  using duration_pos by (fastforce simp: by_duration_def plain_schedule_def split: if_splits)

lemma Parse_later:
  assumes "fixed_zone (ceOffset env) c" "plain_schedule (ceLower env (TrimSpace raw))" "Parse env raw now = Inr sp"
  shows "now < spNext sp"
proof -
  define s where "s = ceLower env (TrimSpace raw)"
  have P: "plain_schedule s" using assms(2) by (simp add: s_def)
  note parse = assms(3) [unfolded Parse_def Let_def, folded s_def]
  show ?thesis
  proof (cases "HasPrefix s ''in ''")
    case True
    with parse obtain d where "duration (TrimSpace (drop 3 s)) = Some d" "spNext sp = now + d" by (auto split: option.splits)
    moreover have "amount_fits (TrimSpace (drop 3 s))" using True P by (simp add: plain_schedule_def numeral_3_eq_3)
    ultimately show ?thesis using duration_pos by fastforce
  next
    case no_in: False
    show ?thesis
    proof (cases "ceRFC3339 env (TrimSpace raw)")
      case (Some ts)
      with parse no_in show ?thesis by (auto split: if_splits)
    next
      case None
      show ?thesis
      proof (cases "first_some (by_duration s now) [''every '', '''']")
        case (Some x)
        with first_some_in obtain p where "p \<in> set [''every '', '''']" "by_duration s now p = Some x" by metis
        moreover have "x = sp" using parse no_in None Some by simp
        ultimately show ?thesis using by_duration_later P by auto
      next
        case no_dur: None
        show ?thesis
        proof (cases "first_some (by_phrase env s now) clock_phrases")
          case (Some x)
          moreover have "x = sp" using parse no_in None no_dur Some by simp
          ultimately show ?thesis using first_some_in by_phrase_later [OF assms(1) _ _ P] by metis
        next
          case no_phrase: None
          have "by_cron env s now = Some sp" using parse no_in None no_dur no_phrase by (simp split: option.splits)
          then show ?thesis by (rule by_cron_later)
        qed
      qed
    qed
  qed
qed

text \<open>An accepted schedule lies ahead: in a location of constant offset every schedule that \<open>Parse\<close> accepts names an instant strictly after now, provided its
  duration does not overflow 64 bits and a clock phrase carries no minus sign (the two inputs for which the code accepts an instant in the past).\<close>

theorem accepted_schedule_is_later:
  assumes "\<forall>t. ceOffset env t = c" and "plain_schedule (ceLower env (TrimSpace raw))" and "Parse env raw now = Inr sp"
  shows "now < spNext sp"
  by (rule Parse_later [of env c, OF _ assms(2,3)]) (use assms(1) in unfold_locales, simp)

definition utc_env :: cron_env where
  "utc_env = \<lparr>ceOffset = (\<lambda>_. 0), ceLower = lower_ascii, ceFold = EqualFold_ascii, ceRFC3339 = (\<lambda>_. None), ceQuote = (\<lambda>s. s), ceStamp = Itoa,
     ceSaveError = None, ceMkdirError = None, ceOutputError = None, ceRemoved = (\<lambda>_. True)\<rparr>"

lemmas text_eval = TrimSpace_def decode_rune_def byte_def is_space_def Let_def lower_ascii_def Atoi_def is_digit_def wrap64_def max_int64_def min_int64_def

theorem accepted_schedule_is_later_witness:
  "Parse utc_env ''in 2h'' 0 = Inr \<lparr>spNext = 2 * Hour, spRepeating = False\<rparr> \<and> 0 < 2 * Hour"
proof -
  have sp: "Parse utc_env ''in 2h'' 0 = Inr \<lparr>spNext = 2 * Hour, spRepeating = False\<rparr>"
    by (simp add: Parse_def utc_env_def duration_def Hour_def Minute_def Second_def text_eval)
  have plain: "plain_schedule (ceLower utc_env (TrimSpace ''in 2h''))"
    by (simp add: plain_schedule_def utc_env_def amount_fits_def unit_length_def clock_phrases_def weekday_names_def Hour_def Minute_def Second_def text_eval)
  have "0 < spNext \<lparr>spNext = 2 * Hour, spRepeating = False\<rparr>"
    by (rule accepted_schedule_is_later [OF _ plain sp]) (simp add: utc_env_def)
  with sp show ?thesis by simp
qed

text \<open>The two exceptions: three million hours wrap round into the past, and a negative hour can leave no candidate at all.\<close>

lemma duration_wraps: "duration ''3000000h'' = Some (3000000 * Hour - 2 ^ 64)" "3000000 * Hour - 2 ^ 64 < 0"
  by (simp_all add: duration_def Hour_def Minute_def Second_def text_eval)

lemma negative_hour_is_accepted: "clock ''-200:00'' = Some (- 200, 0)" "nextClock (\<lambda>_. 0) 0 (- 200) 0 None = zero_time"
proof -
  show "clock ''-200:00'' = Some (- 200, 0)" by (simp add: clock_def clock_parts_def clock_hour_def suffix_def text_eval)
  show "nextClock (\<lambda>_. 0) 0 (- 200) 0 None = zero_time" by code_simp
qed

section \<open>The jobs stay well-formed\<close>

definition wf_manager :: "manager \<Rightarrow> bool" where
  "wf_manager m \<longleftrightarrow> length (mgJobs m) \<le> maxJobs \<and> distinct (map jbID (mgJobs m))"

lemma mgJobs_save [simp]: "mgJobs (fst (saveLocked env m)) = mgJobs m" "mgOutput (fst (saveLocked env m)) = mgOutput m"
  by (simp_all add: saveLocked_def split: option.split)

lemma finish_save_state: "fst (finish_save env j msg m) = fst (saveLocked env m)"
  by (simp add: finish_save_def split_beta)

lemma job_index_Cons: "job_index p js = i # is \<Longrightarrow> i < length js \<and> p (js ! i)"
  by (metis (no_types, lifting) job_index_def list.set_intros(1) mem_Collect_eq set_filter atLeastLessThan_iff set_upt)

lemma findLocked_index: "findLocked env ref js = Inr i \<Longrightarrow> i < length js"
  by (auto simp: findLocked_def dest: job_index_Cons split: list.splits)

lemma distinct_ids_update: "distinct (map jbID js) \<Longrightarrow> i < length js \<Longrightarrow> jbID j = jbID (js ! i) \<Longrightarrow> distinct (map jbID (js[i := j]))"
  by (metis list_update_id map_update nth_map)

lemma distinct_ids_remove: "distinct (map jbID js) \<Longrightarrow> distinct (map jbID (remove_at i js))"
proof (induction js arbitrary: i)
  case (Cons x xs)
  then show ?case using set_remove_at [of _ xs] by (cases i) auto
qed (simp add: remove_at_def)

lemma wf_jobs:
  "wf_manager m \<Longrightarrow> i < length (mgJobs m) \<Longrightarrow> jbID j = jbID (mgJobs m ! i) \<Longrightarrow> wf_manager (m\<lparr>mgJobs := (mgJobs m)[i := j]\<rparr>)"
  "wf_manager m \<Longrightarrow> i < length (mgJobs m) \<Longrightarrow> wf_manager (m\<lparr>mgJobs := remove_at i (mgJobs m)\<rparr>)"
  by (auto simp: wf_manager_def distinct_ids_update distinct_ids_remove)

lemma wf_save [simp]: "wf_manager (fst (saveLocked env m)) = wf_manager m"
  by (simp add: wf_manager_def)

lemma wf_notes [simp]: "wf_manager (m\<lparr>mgNotices := x, mgFinished := y\<rparr>) = wf_manager m"
  by (simp add: wf_manager_def)

lemma wf_output: "wf_manager m \<Longrightarrow> wf_manager (write_output env jid stamp r m)"
  by (simp add: wf_manager_def write_output_def)

lemma keep_newest_bounded:
  assumes "distinct (keys files)" "\<And>n. ceRemoved env n"
  shows "length (keep_newest env files) \<le> maxOutputsPerJob"
proof (cases "length files > maxOutputsPerJob")
  case True
  define old where "old = take (length files - maxOutputsPerJob) (sort (keys files))"
  have old: "set old \<subseteq> set (keys files)" "distinct old" "length old = length files - maxOutputsPerJob"
    using assms(1) by (auto simp: old_def dest: in_set_takeD)
  have k: "keep_newest env files = filter (\<lambda>x. fst x \<notin> set old) files"
    using True assms(2) by (simp add: keep_newest_def old_def Let_def case_prod_unfold)
  have "map fst (keep_newest env files) = filter (\<lambda>n. n \<notin> set old) (keys files)"
    by (simp add: k filter_map comp_def)
  then have "length (keep_newest env files) = length (filter (\<lambda>n. n \<notin> set old) (keys files))" by (metis length_map)
  also have "\<dots> = card (set (filter (\<lambda>n. n \<notin> set old) (keys files)))" using assms(1) by (metis distinct_card distinct_filter)
  also have "set (filter (\<lambda>n. n \<notin> set old) (keys files)) = set (keys files) - set old" by auto
  also have "card (set (keys files) - set old) = length files - length old" using old(1,2) assms(1) card_Diff_subset [of "set old" "set (keys files)"] by (simp add: distinct_card [of old] distinct_card [of "keys files", simplified])
  finally show ?thesis using old(3) True by simp
qed (simp add: keep_newest_def)

lemma updated_job_id: "jbID (updated_job a sp j) = jbID j"
  by (simp add: updated_job_def Let_def split: option.split)

lemma wf_settle:
  assumes "wf_manager m" "i < length (mgJobs m)"
  shows "wf_manager (settle_job env now j r i m)"
proof -
  have "jbID (rescheduled env now (counted r (mgJobs m ! i))) = jbID (mgJobs m ! i)" by (simp add: rescheduled_def counted_def)
  then show ?thesis using wf_jobs [OF assms] by (simp add: settle_job_def Let_def)
qed

lemma wf_runOne:
  assumes "wf_manager m" "\<And>f. run = Some f \<Longrightarrow> wf_manager (fst (f j m))"
  shows "wf_manager (fst (runOne env run j m))"
proof (cases run)
  case (Some f)
  obtain m1 r now where f: "f j m = (m1, r, now)" by (cases "f j m") auto
  have m1: "wf_manager m1" using assms(2) [OF Some] f by simp
  have "wf_manager (settle_job env now j r i (write_output env (jbID j) (ceStamp env now) r m1))"
    if "findLocked env (jbID j) (mgJobs (write_output env (jbID j) (ceStamp env now) r m1)) = Inr i" for i
    using wf_settle [OF wf_output [OF m1] findLocked_index [OF that]] .
  then show ?thesis using wf_output [OF m1] m1 by (auto simp: runOne_def Some f Let_def split: option.split sum.split)
qed (simp add: runOne_def assms(1))

lemma wf_run_due:
  "wf_manager m \<Longrightarrow> (\<And>f j x. run = Some f \<Longrightarrow> wf_manager x \<Longrightarrow> wf_manager (fst (f j x))) \<Longrightarrow> wf_manager (fst (run_due env run js m))"
proof (induction js arbitrary: m)
  case (Cons j js)
  have "wf_manager (fst (runOne env run j m))" using wf_runOne Cons.prems by blast
  with Cons.IH Cons.prems(2) show ?case by (auto simp: split_beta split: option.split)
qed simp

text \<open>C37. The jobs stay well-formed: every action of the cron tool and every tick keep at most 1000 jobs, all with different ids, for every
  runner that itself keeps them so (a run may call the tool again) and for an unused id.\<close>

theorem cron_operations_keep_jobs_well_formed:
  assumes "wf_manager m" and "fresh \<notin> jbID ` set (mgJobs m)"
    and "\<And>f j x. run = Some f \<Longrightarrow> wf_manager x \<Longrightarrow> wf_manager (fst (f j x))"
  shows "wf_manager (fst (Apply env run now fresh a m)) \<and> wf_manager (fst (Tick env run now m))"
proof -
  have create: "wf_manager (fst (cron_create env now fresh a m))"
    using assms(1,2) by (auto simp: cron_create_def Let_def finish_save_state wf_manager_def split: sum.split)
  have upd: "wf_manager (fst (cron_update env now a i m))" if "i < length (mgJobs m)" for i
    using wf_jobs(1) [OF assms(1) that] assms(1) by (auto simp: cron_update_def Let_def finish_save_state updated_job_id split: sum.split)
  have on: "wf_manager (fst (on_job env ref m f))" if "\<And>i. i < length (mgJobs m) \<Longrightarrow> wf_manager (fst (f i))" for ref f
    using that findLocked_index assms(1) by (auto simp: on_job_def split: sum.split)
  have one: "wf_manager (fst (runOne env run j m))" for j using wf_runOne assms(1,3) by blast
  have "wf_manager (fst (Apply env run now fresh a m))"
    using create assms(1) upd wf_jobs [OF assms(1)] one
    by (auto simp: Apply_def finish_save_state Let_def split_beta intro!: on)
  moreover have "wf_manager (fst (Tick env run now m))" unfolding Tick_def by (rule wf_run_due [OF assms(1)]) (rule assms(3))
  ultimately show ?thesis ..
qed

definition quiet_runner :: "int \<Rightarrow> job_runner" where
  "quiet_runner now = (\<lambda>j m. (m, \<lparr>jrAnswer = ''done'', jrFailed = False, jrFailure = []\<rparr>, now))"

definition hourly :: job where
  "hourly = zero_job\<lparr>jbID := ''h'', jbName := ''hourly'', jbSchedule := ''1h'', jbPrompt := ''p'', jbNext := 0, jbRepeating := True\<rparr>"

definition once :: job where
  "once = zero_job\<lparr>jbID := ''o'', jbName := ''once'', jbSchedule := ''in 1h'', jbPrompt := ''p'', jbNext := - 5\<rparr>"

definition two_jobs :: manager where
  "two_jobs = \<lparr>mgJobs = [hourly, once], mgSaved = [hourly, once], mgOutput = [], mgNotices = [], mgFinished = []\<rparr>"

theorem cron_operations_keep_jobs_well_formed_witness:
  "wf_manager two_jobs \<and> wf_manager (fst (Tick utc_env (Some (quiet_runner 0)) 0 two_jobs))"
proof -
  have w: "wf_manager two_jobs" by (simp add: wf_manager_def two_jobs_def hourly_def once_def zero_job_def maxJobs_def)
  have f: "''new'' \<notin> jbID ` set (mgJobs two_jobs)" by (simp add: two_jobs_def hourly_def once_def zero_job_def)
  have q: "wf_manager (fst (f j x))" if "Some (quiet_runner 0) = Some f" "wf_manager x" for f j x
    using that by (auto simp: quiet_runner_def)
  have "wf_manager (fst (Tick utc_env (Some (quiet_runner 0)) 0 two_jobs))"
    by (rule cron_operations_keep_jobs_well_formed [OF w f, THEN conjunct2]) (rule q)
  with w show ?thesis ..
qed

section \<open>A tick runs what is due\<close>

lemma find_job_by_id:
  assumes "distinct (map jbID js)" "j \<in> set js"
  shows "\<exists>i. findLocked env (jbID j) js = Inr i \<and> i < length js \<and> js ! i = j"
proof -
  obtain k where k: "k < length js" "js ! k = j" using assms(2) by (metis in_set_conv_nth)
  then have "k \<in> set (job_index (\<lambda>x. jbID x = jbID j) js)" by (auto simp: job_index_def)
  then obtain i is' where i: "job_index (\<lambda>x. jbID x = jbID j) js = i # is'" by (metis list.set_cases)
  with job_index_Cons [OF i] k assms(1) have "i = k" by (metis distinct_map inj_on_eq_iff nth_eq_iff_index_eq nth_mem)
  then show ?thesis using i k by (auto simp: findLocked_def)
qed

text \<open>A job whose schedule keeps naming later instants.\<close>

definition reschedules :: "cron_env \<Rightarrow> job \<Rightarrow> bool" where
  "reschedules env j \<longleftrightarrow> (\<forall>now. \<exists>sp. Parse env (jbSchedule j) now = Inr sp \<and> now < spNext sp)"

lemma settled_jobs:
  assumes "distinct (map jbID (mgJobs m))" "i < length (mgJobs m)" "x \<in> set (mgJobs (settle_job env now j r i m))"
  shows "x \<in> set (mgJobs m) \<and> jbID x \<noteq> jbID (mgJobs m ! i) \<or>
    x = rescheduled env now (counted r (mgJobs m ! i)) \<and> \<not> spent (counted r (mgJobs m ! i))"
proof -
  have other: "jbID x \<noteq> jbID (mgJobs m ! i)" if "x = mgJobs m ! k" "k < length (mgJobs m)" "k \<noteq> i" for k
    using assms(1,2) that by (metis distinct_conv_nth length_map nth_map)
  show ?thesis
  proof (cases "spent (counted r (mgJobs m ! i))")
    case True
    then have "x \<in> set (take i (mgJobs m)) \<or> x \<in> set (drop (Suc i) (mgJobs m))" using assms(3) by (simp add: settle_job_def Let_def remove_at_def)
    then obtain k where "x = mgJobs m ! k" "k < length (mgJobs m)" "k \<noteq> i"
      by (auto simp: in_set_conv_nth)
    with other show ?thesis by (metis nth_mem)
  next
    case False
    then have "x \<in> set ((mgJobs m)[i := rescheduled env now (counted r (mgJobs m ! i))])" using assms(3) by (simp add: settle_job_def Let_def)
    then obtain k where k: "k < length (mgJobs m)" "x = (mgJobs m)[i := rescheduled env now (counted r (mgJobs m ! i))] ! k" by (auto simp: in_set_conv_nth)
    show ?thesis using k other [of k] False by (cases "k = i") (auto simp: assms(2))
  qed
qed

lemma settled_keeps:
  assumes "y \<in> set (mgJobs m)" "jbID y \<noteq> jbID (mgJobs m ! i)" "i < length (mgJobs m)"
  shows "y \<in> set (mgJobs (settle_job env now j r i m))"
proof -
  have "y \<in> set (take i (mgJobs m) @ mgJobs m ! i # drop (Suc i) (mgJobs m))" using assms(1,3) by (metis id_take_nth_drop)
  then have y: "y \<in> set (take i (mgJobs m)) \<or> y \<in> set (drop (Suc i) (mgJobs m))" using assms(2) by auto
  then show ?thesis by (auto simp: settle_job_def Let_def remove_at_def upd_conv_take_nth_drop [OF assms(3)])
qed

lemma settled_distinct:
  assumes "distinct (map jbID (mgJobs m))" "i < length (mgJobs m)"
  shows "distinct (map jbID (mgJobs (settle_job env now j r i m)))"
  using distinct_ids_remove [OF assms(1)] distinct_ids_update [OF assms, of "rescheduled env now (counted r (mgJobs m ! i))"]
  by (simp add: settle_job_def Let_def rescheduled_def counted_def)

lemma rescheduled_sel [simp]: "jbID (rescheduled env now (counted r j)) = jbID j" "jbRepeating (rescheduled env now (counted r j)) = jbRepeating j"
  "jbSchedule (rescheduled env now (counted r j)) = jbSchedule j"
  by (simp_all add: rescheduled_def counted_def)

lemma reschedules_later: "reschedules env j \<Longrightarrow> now < jbNext (rescheduled env now (counted r j))"
  by (fastforce simp: reschedules_def rescheduled_def counted_def dest: spec [of _ now])

lemma run_due_all:
  assumes "\<And>j x. \<exists>r t. f j x = (x, r, t) \<and> now \<le> t" "ceMkdirError env = None" "ceOutputError env = None"
  shows "distinct (map jbID (mgJobs m)) \<Longrightarrow> distinct (map jbID js) \<Longrightarrow> set js \<subseteq> set (mgJobs m) \<Longrightarrow>
    \<forall>x \<in> set (mgJobs m). jbPaused x \<or> now < jbNext x \<or> x \<in> set js \<Longrightarrow> \<forall>x \<in> set (mgJobs m). jbRepeating x \<longrightarrow> reschedules env x \<Longrightarrow>
    \<exists>m'. run_due env (Some f) js m = (m', None) \<and> map fst (mgFinished m') = map fst (mgFinished m) @ js \<and>
      (\<forall>x \<in> set (mgJobs m'). jbPaused x \<or> now < jbNext x)"
proof (induction js arbitrary: m)
  case (Cons j js)
  obtain r t where f: "f j m = (m, r, t)" and t: "now \<le> t" using assms(1) by blast
  define m2 where "m2 = write_output env (jbID j) (ceStamp env t) r m"
  have m2: "mgJobs m2 = mgJobs m" "mgFinished m2 = mgFinished m" by (simp_all add: m2_def write_output_def)
  obtain i where i: "findLocked env (jbID j) (mgJobs m2) = Inr i" "i < length (mgJobs m2)" "mgJobs m2 ! i = j"
    using find_job_by_id [of "mgJobs m2" j env] Cons.prems(1,3) m2 by auto
  define m3 where "m3 = settle_job env t j r i m2"
  have one: "runOne env (Some f) j m = (m3, None)"
    by (simp add: runOne_def f assms(2,3) Let_def m2_def [symmetric] i(1) m3_def)
  have d2: "distinct (map jbID (mgJobs m2))" using Cons.prems(1) m2 by simp
  have mem: "x \<in> set (mgJobs m) \<and> jbID x \<noteq> jbID j \<or> x = rescheduled env t (counted r j) \<and> jbRepeating j" if "x \<in> set (mgJobs m3)" for x
  proof -
    have "\<not> spent (counted r j) \<Longrightarrow> jbRepeating j" by (simp add: spent_def counted_def)
    with settled_jobs [OF d2 i(2) that [unfolded m3_def]] i(3) m2(1) show ?thesis by auto
  qed
  have rep: "jbRepeating j \<Longrightarrow> reschedules env j" using Cons.prems(3,5) by simp
  have "\<exists>m'. run_due env (Some f) js m3 = (m', None) \<and> map fst (mgFinished m') = map fst (mgFinished m3) @ js \<and>
      (\<forall>x \<in> set (mgJobs m'). jbPaused x \<or> now < jbNext x)"
  proof (rule Cons.IH)
    show "distinct (map jbID (mgJobs m3))" using settled_distinct [OF d2 i(2)] by (simp add: m3_def)
    show "distinct (map jbID js)" using Cons.prems(2) by simp
    show "set js \<subseteq> set (mgJobs m3)"
    proof
      fix y assume "y \<in> set js"
      then have "y \<in> set (mgJobs m2)" "jbID y \<noteq> jbID (mgJobs m2 ! i)" using Cons.prems(2,3) i(3) m2 by (auto simp: image_iff)
      from settled_keeps [OF this i(2)] show "y \<in> set (mgJobs m3)" by (simp add: m3_def)
    qed
    show "\<forall>x \<in> set (mgJobs m3). jbPaused x \<or> now < jbNext x \<or> x \<in> set js"
      using mem Cons.prems(4) reschedules_later [OF rep, of t r] t by fastforce
    show "\<forall>x \<in> set (mgJobs m3). jbRepeating x \<longrightarrow> reschedules env x"
      using mem Cons.prems(5) rep by (fastforce simp: reschedules_def)
  qed
  moreover have "map fst (mgFinished m3) = map fst (mgFinished m) @ [j]"
    by (simp add: m3_def settle_job_def Let_def m2 saveLocked_def split: option.split)
  ultimately show ?case by (simp add: one)
qed simp



section \<open>A schedule can stop naming an instant\<close>

text \<open>Midnight of the leap day, evaluated at midnight of the leap day of 1972 (day 789): no minute of the next 366 days matches, so the repeating job gets the zero time and is
  due at every tick from then on.\<close>

definition leap_day :: "string list" where
  "leap_day = [''0'', ''0'', ''29'', ''2'', ''*'']"

lemma month_walk_ge: "m \<le> fst (month_walk y m n)"
proof (induction y m n rule: month_walk.induct)
  case (1 y m n)
  then show ?case by (subst month_walk.simps) (auto intro: order_trans [of m "m + 1"])
qed

lemma month_walk_march: "month_days y 1 + month_days y 2 \<le> n \<Longrightarrow> 3 \<le> fst (month_walk y 1 n)"
proof -
  assume a: "month_days y 1 + month_days y 2 \<le> n"
  have "month_days y 1 = 31" "28 \<le> month_days y 2" by (simp_all add: month_days_def)
  with a have "month_walk y 1 n = month_walk y 2 (n - month_days y 1)" "month_walk y 2 (n - month_days y 1) = month_walk y 3 (n - month_days y 1 - month_days y 2)"
    by (subst month_walk.simps, simp)+
  with month_walk_ge [of 3 y] show ?thesis by simp
qed

lemma no_leap_day:
  assumes "790 \<le> d" "d \<le> 1155"
  shows "snd (civil d) \<noteq> (2, 29)"
proof -
  have start: "year_walk 1970 d = year_walk 1972 (d - 730)"
    using assms by (subst year_walk.simps, simp add: year_days_def leap_def, subst year_walk.simps, simp add: year_days_def leap_def)
  show ?thesis
  proof (cases "d < 1096")
    case True
    then have "year_walk 1972 (d - 730) = (1972, d - 730)" by (subst year_walk.simps) (simp add: year_days_def leap_def)
    moreover have "3 \<le> fst (month_walk 1972 1 (d - 730))" by (rule month_walk_march) (use assms in \<open>simp add: month_days_def leap_def\<close>)
    ultimately show ?thesis using start assms by (auto simp: civil_def)
  next
    case False
    then have "year_walk 1972 (d - 730) = (1973, d - 1096)"
      using assms by (subst year_walk.simps, simp add: year_days_def leap_def, subst year_walk.simps, simp add: year_days_def leap_def)
    moreover have "month_walk 1973 1 (d - 1096) \<noteq> (2, 29)"
    proof (cases "d < 1155")
      case True
      then show ?thesis using False
        by (subst month_walk.simps, simp add: month_days_def, subst month_walk.simps) (simp add: month_days_def leap_def)
    next
      case False
      then have "3 \<le> fst (month_walk 1973 1 (d - 1096))" by (intro month_walk_march) (simp add: month_days_def leap_def)
      then show ?thesis by auto
    qed
    ultimately show ?thesis using start assms by (simp add: civil_def)
  qed
qed

lemma single_field: "field ''0'' v 0 59 = (v = 0)" "field ''0'' v 0 23 = (v = 0)" "field ''29'' v 1 31 = (v = 29)" "field ''2'' v 1 12 = (v = 2)"
  by (auto simp: field_def part_range_def text_eval)

theorem leap_day_has_no_next: "nextCron (\<lambda>_. 0) leap_day (789 * 86400 * Second) = None"
proof -
  have "cron_instants (\<lambda>_. 0) leap_day (789 * 86400 * Second) = {}"
  proof (rule ccontr)
    assume "cron_instants (\<lambda>_. 0) leap_day (789 * 86400 * Second) \<noteq> {}"
    then obtain t where t: "789 * 86400 * Second < t" "t \<le> 789 * 86400 * Second + 366 * 24 * 60 * Minute" "t mod Minute = 0" "cron_matches (\<lambda>_. 0) leap_day t"
      by (auto simp: cron_instants_def)
    let ?u = "unix t"
    have u: "?u * Second = t" using t(3) by (auto simp: unix_def Minute_def dvd_def mod_eq_0_iff_dvd)
    have m: "?u mod 86400 div 3600 = 0" "?u mod 3600 div 60 = 0" "snd (snd (civil (?u div 86400))) = 29" "fst (snd (civil (?u div 86400))) = 2"
      using t(4) by (simp_all add: cron_matches_def leap_day_def single_field hour_of_def minute_of_def day_of_def month_of_def local_day_def local_seconds_def)
    have u60: "?u mod 60 = 0" using t(3) u by (metis Minute_def mod_mult_mult2 mult_eq_0_iff Second_pos(2))
    define x where "x = ?u mod 86400"
    have x: "0 \<le> x" "x mod 3600 = ?u mod 3600" "x mod 60 = ?u mod 60" by (simp_all add: x_def mod_mod_cancel)
    have "x < 3600" using m(1) x(1) by (simp add: x_def [symmetric] div_eq_0_iff)
    then have "x < 60" using m(2) x by (simp add: div_eq_0_iff)
    then have "?u mod 86400 = 0" using u60 x by (simp add: x_def)
    moreover have "789 * 86400 < ?u" "?u \<le> 789 * 86400 + 366 * 86400" using t(1,2) u [symmetric] by (auto simp: Second_def Minute_def)
    ultimately have "790 \<le> ?u div 86400" "?u div 86400 \<le> 1155" by auto
    from no_leap_day [OF this] m(3,4) show False by (simp add: prod_eq_iff)
  qed
  then show ?thesis by (simp add: next_cron_min)
qed

theorem unnamed_instant_is_always_due:
  assumes "Parse env (jbSchedule j) t = Inl e" "\<not> jbPaused j" "zero_time \<le> now"
  shows "rescheduled env t j \<in> set (due_jobs now [rescheduled env t j])"
  using assms by (simp add: rescheduled_def due_jobs_def)
end
