(* ===== verification/Plan_Text.thy ===== *)
theory Plan_Text
  imports Text_Edits
begin

text \<open>
  The text of a plan as the worker reads and marks it (\<open>internal/worker/worker.go\<close>, \<open>lint.go\<close>): item lines with their marker and id, the assignment of
  ids, the marking of one line with its stuck reason, the brief of an item, and the lint that refuses a plan. The regular expressions are functions
  that read the line once from the left; a plan folder is the list of its item files. \<open>quote\<close> stands for the verb \<open>%q\<close>.
\<close>

section \<open>Item lines\<close>

definition re_space :: "char \<Rightarrow> bool" where
  "re_space c \<longleftrightarrow> c \<in> {TAB, LF, CHR 0x0C, CR, CHR '' ''}"

definition is_lower :: "char \<Rightarrow> bool" where
  "is_lower c \<longleftrightarrow> 97 \<le> byte c \<and> byte c \<le> 122"

definition word_char :: "char \<Rightarrow> bool" where
  "word_char c \<longleftrightarrow> is_digit c \<or> is_lower c \<or> 65 \<le> byte c \<and> byte c \<le> 90 \<or> c = CHR ''_''"

definition marker_chars :: string where
  "marker_chars = ''~x! ''"

text \<open>\<open>^(\s*[-*]\s*)\[([ ~x!])\]\s?(.*)$\<close>: what stands before the bracket, the marker, and the rest.\<close>

definition after_bracket :: "string \<Rightarrow> (char \<times> string) option" where
  "after_bracket s =
     (case s of
        a # m # b # rest \<Rightarrow>
          if a = CHR ''['' \<and> m \<in> set marker_chars \<and> b = CHR '']''
          then Some (m, if rest \<noteq> [] \<and> re_space (hd rest) then tl rest else rest) else None
      | _ \<Rightarrow> None)"

definition markerLine :: "string \<Rightarrow> (string \<times> char \<times> string) option" where
  "markerLine line =
     (let lead = takeWhile re_space line
      in case drop (length lead) line of
           [] \<Rightarrow> None
         | c # s \<Rightarrow>
             if c = CHR ''-'' \<or> c = CHR ''*''
             then map_option (\<lambda>(m, rest). (lead @ [c] @ takeWhile re_space s, m, rest)) (after_bracket (dropWhile re_space s))
             else None)"

text \<open>\<open>[0-9]+[a-z]*\<close> at the start: the id and what follows.\<close>

definition leading_id :: "string \<Rightarrow> (string \<times> string) option" where
  "leading_id s =
     (let ds = takeWhile is_digit s; ls = takeWhile is_lower (drop (length ds) s)
      in if ds = [] then None else Some (ds @ ls, drop (length ds + length ls) s))"

definition idToken :: "string \<Rightarrow> (string \<times> string) option" where
  "idToken s =
     (if HasPrefix s ''[['' then
        (case leading_id (drop 2 s) of
           None \<Rightarrow> None
         | Some (i, rest) \<Rightarrow> if HasPrefix rest '']]'' then Some (i, dropWhile re_space (drop 2 rest)) else None)
      else None)"

definition itemID :: "string \<Rightarrow> string" where
  "itemID s =
     (case leading_id (TrimSpace s) of
        None \<Rightarrow> []
      | Some (i, rest) \<Rightarrow> if rest \<noteq> [] \<and> word_char (hd rest) then [] else i)"

record plan_item =
  itLine :: string
  itMarker :: char
  itID :: string
  itText :: string
  itIndex :: nat

definition plan_lines :: "string \<Rightarrow> string list" where
  "plan_lines s = lines_of (replace_all [CR, LF] [LF] s)"

definition item_at :: "nat \<Rightarrow> string \<Rightarrow> char \<Rightarrow> string \<Rightarrow> plan_item" where
  "item_at i line m rest =
     (case idToken rest of
        None \<Rightarrow> \<lparr>itLine = line, itMarker = m, itID = [], itText = TrimSpace rest, itIndex = i\<rparr>
      | Some (tok, after) \<Rightarrow> \<lparr>itLine = line, itMarker = m, itID = tok, itText = TrimSpace after, itIndex = i\<rparr>)"

definition parse_line :: "nat \<Rightarrow> string \<Rightarrow> plan_item option" where
  "parse_line i line = map_option (\<lambda>(pre, m, rest). item_at i line m rest) (markerLine line)"

definition parse_lines :: "string list \<Rightarrow> plan_item list" where
  "parse_lines ls = List.map_filter (\<lambda>(i, line). parse_line i line) (enumerate 0 ls)"

definition Parse_plan :: "string \<Rightarrow> plan_item list" where
  "Parse_plan s = parse_lines (plan_lines s)"

definition plan_newline :: "string \<Rightarrow> string" where
  "plan_newline s = (if Contains s [CR, LF] then [CR, LF] else [LF])"

section \<open>Ids\<close>

text \<open>The smallest number from \<open>n\<close> on that no line uses and no item file is named for.\<close>

lemma decimal_inj: "decimal a = decimal b \<Longrightarrow> a = b"
  by (simp add: decimal_def Itoa_inj)

function next_free :: "string list \<Rightarrow> nat \<Rightarrow> nat" where
  "next_free taken n = (if decimal n \<in> set taken then next_free taken (n + 1) else n)"
  by pat_completeness auto
termination
proof (relation "measure (\<lambda>(taken, n). card {x \<in> set taken. \<exists>k \<ge> n. x = decimal k})")
  fix taken :: "string list" and n
  assume a: "decimal n \<in> set taken"
  have "{x \<in> set taken. \<exists>k \<ge> n + 1. x = decimal k} \<subset> {x \<in> set taken. \<exists>k \<ge> n. x = decimal k}"
  proof
    show "{x \<in> set taken. \<exists>k \<ge> n + 1. x = decimal k} \<subseteq> {x \<in> set taken. \<exists>k \<ge> n. x = decimal k}"
      by (auto intro: exI [of _ "_ :: nat"] dest: Suc_leD)
    have "decimal n \<notin> {x \<in> set taken. \<exists>k \<ge> n + 1. x = decimal k}" by (auto dest: decimal_inj)
    then show "{x \<in> set taken. \<exists>k \<ge> n + 1. x = decimal k} \<noteq> {x \<in> set taken. \<exists>k \<ge> n. x = decimal k}" using a by blast
  qed
  then show "((taken, n + 1), taken, n) \<in> measure (\<lambda>(taken, n). card {x \<in> set taken. \<exists>k \<ge> n. x = decimal k})"
    by (auto intro!: psubset_card_mono)
qed simp

declare next_free.simps [simp del]

definition with_id :: "string \<Rightarrow> string \<Rightarrow> string" where
  "with_id tok line = (case markerLine line of None \<Rightarrow> line | Some (pre, m, rest) \<Rightarrow> pre @ ''['' @ [m] @ ''] [['' @ tok @ '']] '' @ rest)"

fun assign_ids :: "string list \<Rightarrow> plan_item list \<Rightarrow> string list \<Rightarrow> nat \<Rightarrow> string list \<Rightarrow> string list" where
  "assign_ids files [] used n ls = ls"
| "assign_ids files (item # items) used n ls =
     (if itID item \<noteq> [] then assign_ids files items used n ls
      else let wanted = itemID (itText item); fresh = (wanted = [] \<or> wanted \<in> set used);
               k = (if fresh then next_free (used @ files) n else n);
               tok = (if fresh then decimal k else wanted)
           in assign_ids files items (tok # used) k (ls[itIndex item := with_id tok (itLine item)]))"

definition AssignIDs :: "string list \<Rightarrow> string \<Rightarrow> string" where
  "AssignIDs files s =
     join (plan_newline s) (assign_ids files (Parse_plan s) (filter (\<lambda>i. i \<noteq> []) (map itID (Parse_plan s))) 1 (plan_lines s))"

section \<open>Marking\<close>

definition findByID :: "plan_item list \<Rightarrow> string \<Rightarrow> string + plan_item" where
  "findByID items i =
     (case filter (\<lambda>x. itID x = i) items of
        [] \<Rightarrow> Inl (''item [['' @ i @ '']] left plan.md'')
      | [x] \<Rightarrow> Inr x
      | xs \<Rightarrow> Inl (''item [['' @ i @ '']] appears '' @ decimal (length xs) @ '' times in plan.md''))"

definition Next :: "plan_item list \<Rightarrow> plan_item option" where
  "Next items = find (\<lambda>x. itMarker x = CHR '' '') items"

definition oneLine :: "string \<Rightarrow> string" where
  "oneLine s = TrimSpace (join '' '' (Fields s))"

definition stuck_mark :: string where
  "stuck_mark = '' '' @ '' '' @ [CHR 0xE2, CHR 0x80, CHR 0x94] @ '' stuck: ''"

text \<open>\<open>strings.LastIndex\<close> of a non-empty needle.\<close>

fun last_index :: "string \<Rightarrow> string \<Rightarrow> nat option" where
  "last_index needle [] = None"
| "last_index needle (c # s) =
     (case last_index needle s of
        Some i \<Rightarrow> Some (Suc i)
      | None \<Rightarrow> if prefix needle (c # s) then Some 0 else None)"

definition WithReason :: "string \<Rightarrow> string \<Rightarrow> string" where
  "WithReason line reason =
     (let r = oneLine reason; t = trim_right line;
          trimmed = (case last_index stuck_mark t of None \<Rightarrow> t | Some i \<Rightarrow> take i t)
      in if r = [] then trimmed else trimmed @ stuck_mark @ r)"

definition valid_marker :: "string \<Rightarrow> bool" where
  "valid_marker marker \<longleftrightarrow> Contains marker_chars marker \<and> length marker = 1"

text \<open>The line a marker goes to: the one that carries the item's id now, or for an item without an id the line it was read from, if it still reads the same.\<close>

definition line_outside :: "nat \<Rightarrow> string" where
  "line_outside i = ''item line '' @ decimal i @ '' is outside plan.md''"

definition line_changed :: "nat \<Rightarrow> string" where
  "line_changed i = ''plan.md line '' @ decimal i @ '' changed under the worker''"

definition line_unmarked :: "nat \<Rightarrow> string" where
  "line_unmarked i = ''line '' @ decimal i @ '' carries no marker''"

definition marked_line :: "string \<Rightarrow> plan_item \<Rightarrow> string + plan_item \<times> string \<times> string" where
  "marked_line s item0 =
     (case (if itID item0 \<noteq> [] then findByID (Parse_plan s) (itID item0) else Inr item0) of
        Inl e \<Rightarrow> Inl e
      | Inr item \<Rightarrow>
          if itIndex item \<ge> length (plan_lines s) then Inl (line_outside (itIndex item))
          else if plan_lines s ! itIndex item \<noteq> itLine item then Inl (line_changed (itIndex item))
          else case markerLine (itLine item) of
                 None \<Rightarrow> Inl (line_unmarked (itIndex item))
               | Some (pre, m, rest) \<Rightarrow> Inr (item, pre, rest))"

definition marker_error :: "(string \<Rightarrow> string) \<Rightarrow> string \<Rightarrow> string" where
  "marker_error quote marker = ''marker '' @ quote marker @ '' is not one of [ ] [~] [x] [!]''"

definition put_line :: "string \<Rightarrow> nat \<Rightarrow> string \<Rightarrow> string" where
  "put_line s i line = join (plan_newline s) ((plan_lines s)[i := line])"

definition SetMarker :: "(string \<Rightarrow> string) \<Rightarrow> string \<Rightarrow> plan_item \<Rightarrow> string \<Rightarrow> string + string" where
  "SetMarker quote s item marker =
     (if \<not> valid_marker marker then Inl (marker_error quote marker)
      else case marked_line s item of
             Inl e \<Rightarrow> Inl e
           | Inr (x, pre, rest) \<Rightarrow> Inr (put_line s (itIndex x) (pre @ ''['' @ marker @ ''] '' @ rest)))"

definition markLine :: "(string \<Rightarrow> string) \<Rightarrow> string \<Rightarrow> plan_item \<Rightarrow> string \<Rightarrow> string \<Rightarrow> string + string" where
  "markLine quote s item marker reason =
     (if \<not> valid_marker marker then Inl (marker_error quote marker)
      else case marked_line s item of
             Inl e \<Rightarrow> Inl e
           | Inr (x, pre, rest) \<Rightarrow>
               Inr (put_line s (itIndex x) (pre @ ''['' @ marker @ ''] '' @ WithReason rest (if marker \<noteq> ''!'' then [] else reason))))"

section \<open>The brief of an item\<close>

text \<open>A plan folder is its item files: an id and the contents, or an error of reading them.\<close>

type_synonym item_files = "(string, string + string) gomap"

record worker_job =
  wjItemID :: string
  wjIntent :: string
  wjApproach :: string
  wjAcceptance :: string
  wjNegative :: string
  wjRepo :: string
  wjVerify :: string

fun header_field :: "string \<Rightarrow> string list \<Rightarrow> string" where
  "header_field name [] = []"
| "header_field name (line # ls) =
     (if HasPrefix line ''#'' then []
      else if HasPrefix line (name @ '':'') then TrimSpace (drop (length name + 1) line)
      else header_field name ls)"

definition item_field :: "string \<Rightarrow> string \<Rightarrow> string" where
  "item_field body name = header_field name (plan_lines body)"

definition item_section :: "string \<Rightarrow> string \<Rightarrow> string" where
  "item_section body heading =
     (case index_of heading body of
        None \<Rightarrow> []
      | Some i \<Rightarrow>
          let rest = drop (i + length heading) body
          in TrimSpace (case index_of (LF # ''## '') rest of None \<Rightarrow> rest | Some e \<Rightarrow> take e rest))"

definition Brief :: "plan_item \<Rightarrow> item_files \<Rightarrow> string \<Rightarrow> worker_job" where
  "Brief item files repo =
     (let i = (if itID item \<noteq> [] \<and> mget files (itID item) \<noteq> None then itID item else itemID (itText item));
          job = \<lparr>wjItemID = i, wjIntent = itText item, wjApproach = [], wjAcceptance = [], wjNegative = [], wjRepo = repo, wjVerify = []\<rparr>
      in if i = [] then job
         else case mget files i of
                Some (Inr body) \<Rightarrow>
                  job\<lparr>wjVerify := item_field body ''verify'', wjAcceptance := item_section body ''## Acceptance'',
                      wjApproach := item_section body ''## Contract'', wjNegative := item_section body ''## Not in scope''\<rparr>
              | _ \<Rightarrow> job)"

definition NoVerifier :: string where
  "NoVerifier = ''no verifier named''"

definition Retryable :: "plan_item \<Rightarrow> item_files \<Rightarrow> bool" where
  "Retryable item files \<longleftrightarrow>
     itMarker item = CHR ''!'' \<and> HasSuffix (itText item) (stuck_mark @ NoVerifier) \<and>
     wjVerify (Brief (item\<lparr>itText := WithReason (itText item) []\<rparr>) files []) \<noteq> []"

definition NextIn :: "plan_item list \<Rightarrow> item_files \<Rightarrow> plan_item option" where
  "NextIn items files = find (\<lambda>x. itMarker x = CHR '' '' \<or> Retryable x files) items"

definition RemainingIn :: "plan_item list \<Rightarrow> item_files \<Rightarrow> bool" where
  "RemainingIn items files \<longleftrightarrow> NextIn items files \<noteq> None"


section \<open>Lint\<close>

datatype severity = Err | Warn

type_synonym diagnostic = "severity \<times> string"

text \<open>\<open>^[-*] \[(discovery|blocker)\] \S\<close>.\<close>

definition unresolvedEntry :: "string \<Rightarrow> bool" where
  "unresolvedEntry line =
     list_ex (\<lambda>p. HasPrefix line p \<and> drop (length p) line \<noteq> [] \<and> \<not> re_space (line ! length p))
       [''- [discovery] '', ''* [discovery] '', ''- [blocker] '', ''* [blocker] '']"

fun unresolved_from :: "(string \<Rightarrow> string \<Rightarrow> bool) \<Rightarrow> bool \<Rightarrow> bool \<Rightarrow> string list \<Rightarrow> string list" where
  "unresolved_from eqfold inside fenced [] = []"
| "unresolved_from eqfold inside fenced (line # ls) =
     (let t = TrimSpace line
      in if HasPrefix t [CHR 0x60, CHR 0x60, CHR 0x60] \<or> HasPrefix t ''~~~'' then unresolved_from eqfold inside (\<not> fenced) ls
         else if fenced then unresolved_from eqfold inside fenced ls
         else if HasPrefix t ''#'' then unresolved_from eqfold (HasPrefix t ''## '' \<and> eqfold (TrimSpace (drop 3 t)) ''Unresolved'') fenced ls
         else if inside \<and> t \<noteq> [] then t # unresolved_from eqfold inside fenced ls
         else unresolved_from eqfold inside fenced ls)"

definition unresolvedLines :: "(string \<Rightarrow> string \<Rightarrow> bool) \<Rightarrow> string \<Rightarrow> string list" where
  "unresolvedLines eqfold s = unresolved_from eqfold False False (lines_of s)"

definition dots :: string where
  "dots = [CHR 0xE2, CHR 0x80, CHR 0xA6]"

text \<open>\<open>strings.Split\<close> with the separator \<open>&&\<close>.\<close>

fun split_and :: "string \<Rightarrow> string \<Rightarrow> string list" where
  "split_and acc (a # b # s) = (if a = CHR 0x26 \<and> b = CHR 0x26 then acc # split_and [] s else split_and (acc @ [a]) (b # s))"
| "split_and acc s = [acc @ s]"

definition VerifierContradicts :: "string \<Rightarrow> bool" where
  "VerifierContradicts command =
     (let parts = map (\<lambda>p. join '' '' (Fields p)) (split_and [] command)
      in list_ex (\<lambda>p. HasPrefix p ''!'' \<and> TrimSpace (tl p) \<in> set parts) parts)"

definition ItemVerifier :: "string \<Rightarrow> string" where
  "ItemVerifier body = item_field body ''verify''"

text \<open>\<open>^\s*[-*] \[ \] .*?;\s*verify:\s*(.+)$\<close>: the text after the first such clause.\<close>

fun verify_clause :: "string \<Rightarrow> string option" where
  "verify_clause [] = None"
| "verify_clause (c # s) =
     (let clause = dropWhile re_space s
      in if c = CHR '';'' \<and> HasPrefix clause ''verify:'' \<and> drop 7 clause \<noteq> [] then Some (drop 7 clause) else verify_clause s)"

definition openItemVerifier :: "string \<Rightarrow> string option" where
  "openItemVerifier line =
     (let rest = dropWhile re_space line
      in if HasPrefix rest ''- [ ] '' \<or> HasPrefix rest ''* [ ] '' then verify_clause (drop 6 rest) else None)"

definition ContradictoryVerifiers :: "string \<Rightarrow> string \<Rightarrow> string list" where
  "ContradictoryVerifiers path s =
     (if HasPrefix (replace_all [CHR 0x5C] ''/'' path) ''plan/items/'' then filter VerifierContradicts [ItemVerifier (replace_all [CR, LF] [LF] s)]
      else filter VerifierContradicts (map TrimSpace (List.map_filter openItemVerifier (plan_lines s))))"

definition lint_body :: "(string \<Rightarrow> string) \<Rightarrow> (string \<Rightarrow> string \<Rightarrow> bool) \<Rightarrow> plan_item \<Rightarrow> string \<Rightarrow> diagnostic list" where
  "lint_body quote eqfold item body =
     (let s = replace_all [CR, LF] [LF] body; verify = item_field s ''verify''; name = ''item '' @ itID item @ '': '';
          waiting = (itMarker item = CHR '' '')
      in (if waiting \<and> verify = [] then [(Warn, name @ ''names no verifier; Go will mark it [!] and ask for one'')] else []) @
         (if waiting \<and> VerifierContradicts verify then [(Err, name @ ''verifier contradicts itself: '' @ verify)] else []) @
         (if itMarker item = CHR ''x'' then []
          else map (\<lambda>line. (Err, name @ ''unresolved entry outside the vocabulary: '' @ quote line @ '' (use (none), - [discovery] '' @ dots @ '' or - [blocker] '' @ dots @ '')''))
                 (filter (\<lambda>line. \<not> eqfold line ''(none)'' \<and> \<not> unresolvedEntry line) (unresolvedLines eqfold s))))"

fun lint_items :: "(string \<Rightarrow> string) \<Rightarrow> (string \<Rightarrow> string \<Rightarrow> bool) \<Rightarrow> item_files \<Rightarrow> string list \<Rightarrow> plan_item list \<Rightarrow> diagnostic list" where
  "lint_items quote eqfold files seen [] = []"
| "lint_items quote eqfold files seen (item # items) =
     (if itID item = [] then lint_items quote eqfold files seen items
      else if itID item \<in> set seen
      then (Err, ''item '' @ itID item @ '': more than one line carries this id'') # lint_items quote eqfold files seen items
      else (case mget files (itID item) of
              None \<Rightarrow> [(Warn, ''item '' @ itID item @ '': has no item file (plan/items/'' @ itID item @ ''.md), so it names no verifier; Go will mark it [!] and ask for one'')]
            | Some (Inl e) \<Rightarrow> [(Err, ''item '' @ itID item @ '': '' @ e)]
            | Some (Inr body) \<Rightarrow> lint_body quote eqfold item body) @
           lint_items quote eqfold files (itID item # seen) items)"

text \<open>\<open>plan.md\<close> is its text or an error of reading it.\<close>

definition Lint :: "(string \<Rightarrow> string) \<Rightarrow> (string \<Rightarrow> string \<Rightarrow> bool) \<Rightarrow> item_files \<Rightarrow> string + string \<Rightarrow> diagnostic list" where
  "Lint quote eqfold files plan =
     (case plan of
        Inl e \<Rightarrow> [(Err, ''plan.md cannot be read: '' @ e)]
      | Inr s \<Rightarrow> lint_items quote eqfold files [] (Parse_plan s))"

definition Refusal :: "diagnostic list \<Rightarrow> string" where
  "Refusal ds = (case find (\<lambda>d. fst d = Err) ds of None \<Rightarrow> [] | Some d \<Rightarrow> ''plan lint: '' @ snd d)"

section \<open>Reasons do not stack\<close>

lemma take_continuation:
  "decode2 lo hi c s = (r, n) \<Longrightarrow> 1 < n \<Longrightarrow> 128 \<le> lo \<Longrightarrow> list_all (\<lambda>b. 128 \<le> byte b) (tl (take n (c # s)))"
  "decode3 lo hi c s = (r, n) \<Longrightarrow> 1 < n \<Longrightarrow> 128 \<le> lo \<Longrightarrow> list_all (\<lambda>b. 128 \<le> byte b) (tl (take n (c # s)))"
  "decode4 lo hi c s = (r, n) \<Longrightarrow> 1 < n \<Longrightarrow> 128 \<le> lo \<Longrightarrow> list_all (\<lambda>b. 128 \<le> byte b) (tl (take n (c # s)))"
proof -
  show "decode2 lo hi c s = (r, n) \<Longrightarrow> 1 < n \<Longrightarrow> 128 \<le> lo \<Longrightarrow> list_all (\<lambda>b. 128 \<le> byte b) (tl (take n (c # s)))"
    by (induction lo hi c s rule: decode2.induct) (auto simp: in_range_def split: if_splits)
  show "decode3 lo hi c s = (r, n) \<Longrightarrow> 1 < n \<Longrightarrow> 128 \<le> lo \<Longrightarrow> list_all (\<lambda>b. 128 \<le> byte b) (tl (take n (c # s)))"
    by (induction lo hi c s rule: decode3.induct) (auto simp: in_range_def numeral_3_eq_3 split: if_splits)
  show "decode4 lo hi c s = (r, n) \<Longrightarrow> 1 < n \<Longrightarrow> 128 \<le> lo \<Longrightarrow> list_all (\<lambda>b. 128 \<le> byte b) (tl (take n (c # s)))"
    by (induction lo hi c s rule: decode4.induct) (auto simp: in_range_def take_Cons_numeral split: if_splits)
qed

lemma rune_high: "decode_rune c s = (r, n) \<Longrightarrow> 1 < n \<Longrightarrow> list_all (\<lambda>b. 128 \<le> byte b) (take n (c # s))"
proof -
  assume d: "decode_rune c s = (r, n)" "1 < n"
  then have c: "128 \<le> byte c" by (auto simp: decode_rune_def Let_def split: if_splits)
  define P where "P x = (case x of (r, n :: nat) \<Rightarrow> 1 < n \<longrightarrow> list_all (\<lambda>b. 128 \<le> byte b) (tl (take n (c # s))))" for x :: "nat \<times> nat"
  have P1: "P (q, 1)" for q by (simp add: P_def)
  have P2: "P (decode2 lo hi c s)" "P (decode3 lo hi c s)" "P (decode4 lo hi c s)" if "128 \<le> lo" for lo hi
    using take_continuation [OF _ _ that] by (auto simp: P_def split: prod.split)
  have "P (decode_rune c s)" by (simp add: decode_rune_def Let_def P1 [simplified] P2)
  then have "list_all (\<lambda>b. 128 \<le> byte b) (tl (take n (c # s)))" using d by (simp add: P_def)
  then show ?thesis using c d(2) by (cases n) auto
qed

text \<open>The ASCII white space; no byte of another rune is one of them.\<close>

definition white :: "char \<Rightarrow> bool" where
  "white b \<longleftrightarrow> byte b = 32 \<or> 9 \<le> byte b \<and> byte b \<le> 13"

lemma blank_white: "blank b \<Longrightarrow> white b" "white LF" "white CR"
  by (auto simp: blank_def white_def byte_def)

lemma nonspace_bytes: "(r, bs) \<in> set (runes s) \<Longrightarrow> \<not> is_space r \<Longrightarrow> bs \<noteq> [] \<and> (\<forall>b \<in> set bs. \<not> white b)"
proof (induction s rule: runes.induct)
  case (2 c s)
  obtain q n where d: "decode_rune c s = (q, n)" by force
  have n: "0 < n" using decode_rune_size [of c s] d by simp
  show ?case
  proof (cases "(r, bs) = (q, take n (c # s))")
    case True
    show ?thesis
    proof (cases "n = 1")
      case one: True
      have "\<not> white c" using d one True "2.prems"(2) by (auto simp: white_def decode_rune_def Let_def is_space_def split: if_splits)
      then show ?thesis using True one by simp
    next
      case False
      with rune_high [OF d] n have "list_all (\<lambda>b. 128 \<le> byte b) (take n (c # s))" by simp
      then show ?thesis using True n by (force simp: list_all_iff white_def)
    qed
  next
    case False
    with "2.prems"(1) d have "(r, bs) \<in> set (runes (drop n (c # s)))" by (auto simp del: drop.simps)
    from "2.IH" [OF d [symmetric] refl this "2.prems"(2)] show ?thesis .
  qed
qed simp

definition clean :: "string \<Rightarrow> bool" where
  "clean w \<longleftrightarrow> list_all (\<lambda>b. \<not> white b) w"

lemma clean_simps [simp]: "clean []" "clean (b # w) = (\<not> white b \<and> clean w)" "clean (v @ w) = (clean v \<and> clean w)"
  by (simp_all add: clean_def)

lemma fields_of_clean:
  "list_all (\<lambda>(r, bs). is_space r \<or> bs \<noteq> [] \<and> clean bs) xs \<Longrightarrow> clean acc \<Longrightarrow> list_all (\<lambda>w. w \<noteq> [] \<and> clean w) (fields_of xs acc)"
  by (induction xs acc rule: fields_of.induct) auto

text \<open>Two spaces in a row.\<close>

fun double_space :: "string \<Rightarrow> bool" where
  "double_space (a # b # s) \<longleftrightarrow> a = CHR '' '' \<and> b = CHR '' '' \<or> double_space (b # s)"
| "double_space s \<longleftrightarrow> False"

lemma double_space_middle: "double_space t \<Longrightarrow> double_space (a @ t @ b)"
proof (induction a)
  case Nil
  then show ?case by (induction t rule: double_space.induct) auto
next
  case (Cons x a)
  then show ?case by (cases "a @ t @ b") auto
qed

lemma double_space_join: "\<forall>w \<in> set ws. w \<noteq> [] \<and> (\<forall>b \<in> set w. \<not> blank b) \<Longrightarrow> \<not> double_space (join '' '' ws) \<and> (ws \<noteq> [] \<longrightarrow> join '' '' ws \<noteq> [] \<and> \<not> blank (hd (join '' '' ws)))"
proof (induction ws)
  case (Cons w ws)
  have plain: "\<not> double_space u" if "\<forall>b \<in> set u. \<not> blank b" for u
    using that by (induction u rule: double_space.induct) (auto simp: blank_def)
  have glue: "\<not> double_space (u @ CHR '' '' # v)" if "\<forall>b \<in> set u. \<not> blank b" "v \<noteq> []" "\<not> blank (hd v)" "\<not> double_space v" for u v
    using that
  proof (induction u)
    case Nil
    then show ?case by (cases v) (auto simp: blank_def)
  next
    case (Cons x u)
    then show ?case by (cases u) (auto simp: blank_def)
  qed
  show ?case
  proof (cases "ws = []")
    case True
    then show ?thesis using Cons.prems plain by (cases w) auto
  next
    case False
    have "\<not> double_space (w @ CHR '' '' # join '' '' ws)" using glue Cons False by simp
    then show ?thesis using False Cons.prems by (cases w) (auto simp: join_Cons)
  qed
qed simp

lemma TrimSpace_infix: "\<exists>a b. s = a @ TrimSpace s @ b"
proof -
  let ?sp = "\<lambda>x :: nat \<times> string. is_space (fst x)"
  define xs where "xs = dropWhile ?sp (runes s)"
  have "runes s = takeWhile ?sp (runes s) @ rev (dropWhile ?sp (rev xs)) @ rev (takeWhile ?sp (rev xs))"
    unfolding xs_def by (metis rev_append rev_rev_ident takeWhile_dropWhile_id append.assoc)
  then have "concat (map snd (runes s)) = concat (map snd (takeWhile ?sp (runes s))) @ concat (map snd (rev (dropWhile ?sp (rev xs)))) @ concat (map snd (rev (takeWhile ?sp (rev xs))))"
    by (metis concat_append map_append)
  then show ?thesis unfolding concat_runes TrimSpace_def Let_def xs_def by blast
qed

lemma TrimSpace_ends:
  assumes "TrimSpace s \<noteq> []"
  shows "\<not> blank (hd (TrimSpace s)) \<and> \<not> blank (last (TrimSpace s))"
proof -
  let ?sp = "\<lambda>x :: nat \<times> string. is_space (fst x)"
  define ys where "ys = rev (dropWhile ?sp (rev (dropWhile ?sp (runes s))))"
  have t: "TrimSpace s = concat (map snd ys)" by (simp add: TrimSpace_def ys_def Let_def)
  have ne: "ys \<noteq> []" using assms t by auto
  have sub: "set ys \<subseteq> set (runes s)" by (auto simp: ys_def dest!: set_dropWhileD)
  have hdrev: "\<not> ?sp (last ys)" using ne unfolding ys_def by (metis hd_dropWhile last_rev rev_is_Nil_conv)
  have hd: "\<not> ?sp (hd ys)"
  proof -
    have "dropWhile ?sp (runes s) \<noteq> []" using ne unfolding ys_def by force
    moreover have "hd ys = hd (dropWhile ?sp (runes s))"
      using ne unfolding ys_def by (metis hd_append2 rev_is_Nil_conv rev_append rev_rev_ident takeWhile_dropWhile_id)
    ultimately show ?thesis by (metis hd_dropWhile)
  qed
  have mem: "hd ys \<in> set (runes s)" "last ys \<in> set (runes s)" using ne sub by auto
  have h: "snd (hd ys) \<noteq> []" "\<forall>b \<in> set (snd (hd ys)). \<not> white b" using nonspace_bytes [of "fst (hd ys)" "snd (hd ys)" s] mem(1) hd by auto
  have l: "snd (last ys) \<noteq> []" "\<forall>b \<in> set (snd (last ys)). \<not> white b" using nonspace_bytes [of "fst (last ys)" "snd (last ys)" s] mem(2) hdrev by auto
  have "hd (TrimSpace s) = hd (snd (hd ys))" using t ne h(1) by (cases ys) auto
  moreover have "last (TrimSpace s) = last (snd (last ys))" using t ne l(1) by (cases ys rule: rev_cases) auto
  ultimately show ?thesis using h l blank_white(1) hd_in_set [OF h(1)] last_in_set [OF l(1)] by metis
qed

lemma Fields_clean: "w \<in> set (Fields s) \<Longrightarrow> w \<noteq> [] \<and> clean w"
proof -
  have "list_all (\<lambda>(r, bs). is_space r \<or> bs \<noteq> [] \<and> clean bs) (runes s)"
    using nonspace_bytes [of _ _ s] by (auto simp: list_all_iff clean_def)
  from fields_of_clean [OF this, of "[]"] show "w \<in> set (Fields s) \<Longrightarrow> w \<noteq> [] \<and> clean w" by (auto simp: Fields_def list_all_iff)
qed

lemma oneLine_shape: "\<not> double_space (oneLine s)" "oneLine s \<noteq> [] \<Longrightarrow> \<not> blank (hd (oneLine s)) \<and> \<not> blank (last (oneLine s))"
  "LF \<notin> set (oneLine s)" "CR \<notin> set (oneLine s)"
proof -
  have "\<forall>w \<in> set (Fields s). w \<noteq> [] \<and> (\<forall>b \<in> set w. \<not> blank b)"
    using Fields_clean [of _ s] blank_white(1) by (auto simp: clean_def list_all_iff)
  then have "\<not> double_space (join '' '' (Fields s))" using double_space_join by blast
  then show "\<not> double_space (oneLine s)"
    using TrimSpace_infix [of "join '' '' (Fields s)"] double_space_middle by (metis oneLine_def)
  show "oneLine s \<noteq> [] \<Longrightarrow> \<not> blank (hd (oneLine s)) \<and> \<not> blank (last (oneLine s))"
    unfolding oneLine_def by (rule TrimSpace_ends)
  have chars: "set (join '' '' ws) \<subseteq> {CHR '' ''} \<union> \<Union> (set ` set ws)" for ws
    by (induction ws rule: induct_list012) auto
  have "set (oneLine s) \<subseteq> set (join '' '' (Fields s))" using TrimSpace_infix [of "join '' '' (Fields s)"] by (metis oneLine_def set_append Un_iff subsetI)
  moreover have "LF \<notin> \<Union> (set ` set (Fields s))" "CR \<notin> \<Union> (set ` set (Fields s))"
    using Fields_clean [of _ s] blank_white(2,3) by (auto simp: clean_def list_all_iff)
  ultimately show "LF \<notin> set (oneLine s)" "CR \<notin> set (oneLine s)" using chars [of "Fields s"] by auto
qed

lemma last_index_append: "last_index needle y = Some i \<Longrightarrow> last_index needle (x @ y) = Some (length x + i)"
  by (induction x) auto

lemma stuck_mark_none: "\<not> double_space s \<Longrightarrow> last_index stuck_mark s = None"
proof (induction s)
  case (Cons c s)
  then have "\<not> double_space s" by (cases s) auto
  moreover have "\<not> prefix stuck_mark (c # s)" using Cons.prems by (cases s) (auto simp: stuck_mark_def)
  ultimately show ?case using Cons.IH by simp
qed simp

lemma stuck_mark_last:
  assumes "r \<noteq> []" "\<not> blank (hd r)" "\<not> double_space r"
  shows "last_index stuck_mark (t @ stuck_mark @ r) = Some (length t)"
proof -
  obtain c r' where r: "r = c # r'" using assms(1) by (cases r) auto
  have "\<not> double_space (tl stuck_mark @ r)" using assms(2,3) r by (simp add: stuck_mark_def blank_def)
  then have n: "last_index stuck_mark (tl stuck_mark @ r) = None" by (rule stuck_mark_none)
  have eq: "hd stuck_mark # (tl stuck_mark @ r) = stuck_mark @ r" by (simp add: stuck_mark_def)
  have "last_index stuck_mark (hd stuck_mark # (tl stuck_mark @ r)) = Some 0"
    by (subst last_index.simps) (simp only: n option.case eq prefixI [OF refl] if_True)
  then have "last_index stuck_mark (stuck_mark @ r) = Some 0" unfolding eq .
  from last_index_append [OF this] show ?thesis by simp
qed

lemma trim_right_keep: "s \<noteq> [] \<Longrightarrow> \<not> blank (last s) \<Longrightarrow> trim_right s = s"
  by (cases s rule: rev_cases) (auto simp: trim_right_def)

text \<open>Stuck reasons do not stack: giving an item a second reason (or none) leaves the same line as giving it that reason at once, whatever the first
  reason was, as long as it said something.\<close>

theorem reasons_do_not_stack:
  "(if oneLine first = [] then True else WithReason (WithReason line first) reason = WithReason line reason)"
proof (cases "oneLine first = []")
  case False
  define t where "t = (case last_index stuck_mark (trim_right line) of None \<Rightarrow> trim_right line | Some i \<Rightarrow> take i (trim_right line))"
  have w: "WithReason line r = (if oneLine r = [] then t else t @ stuck_mark @ oneLine r)" for r
    by (simp add: WithReason_def t_def Let_def)
  note f = oneLine_shape(1) [of first] oneLine_shape(2) [OF False]
  have "trim_right (t @ stuck_mark @ oneLine first) = t @ stuck_mark @ oneLine first"
    by (rule trim_right_keep) (use False f in auto)
  then have "WithReason (t @ stuck_mark @ oneLine first) reason = (if oneLine reason = [] then t else t @ stuck_mark @ oneLine reason)"
    using stuck_mark_last [OF False, of t] f by (simp add: WithReason_def Let_def)
  then show ?thesis using False by (simp add: w)
qed simp

section \<open>A mark changes one line\<close>

text \<open>A text whose only carriage returns stand before line feeds.\<close>

definition clean_newlines :: "string \<Rightarrow> bool" where
  "clean_newlines s \<longleftrightarrow> CR \<notin> set (replace_all [CR, LF] [LF] s)"

lemma join_CRLF: "list_all (\<lambda>l. LF \<notin> set l) ls \<Longrightarrow> join [CR, LF] ls = replace_all [LF] [CR, LF] (join [LF] ls)"
proof (induction ls)
  case (Cons l ls)
  have keep: "concat (map (\<lambda>x. if x = LF then [CR, LF] else [x]) w) = w" if "LF \<notin> set w" for w
    using that by (induction w) auto
  from Cons show ?case by (cases ls) (auto simp: replace_all_single keep join_Cons)
qed (simp add: replace_all_single)

lemma set_join: "set (join sep ls) \<subseteq> set sep \<union> \<Union> (set ` set ls)"
  by (induction ls rule: induct_list012) auto

lemma plan_lines_join:
  assumes "ls \<noteq> []" "list_all (\<lambda>l. LF \<notin> set l \<and> CR \<notin> set l) ls"
  shows "plan_lines (join (plan_newline s) ls) = ls"
proof -
  have lf: "list_all (\<lambda>l. LF \<notin> set l) ls" "\<forall>l \<in> set ls. LF \<notin> set l" using assms(2) by (auto simp: list_all_iff)
  have cr: "CR \<notin> set (join [LF] ls)" using set_join [of "[LF]" ls] assms(2) by (auto simp: list_all_iff)
  have n: "replace_all [CR, LF] [LF] (join [LF] ls) = join [LF] ls"
    by (rule replace_all_absent) (use cr in \<open>auto simp: sublist_def\<close>)
  show ?thesis
    using n split_on_join [OF assms(1) lf(2)] CRLF_to_LF [OF cr] by (simp add: plan_lines_def plan_newline_def join_CRLF [OF lf(1)])
qed

lemma plan_lines_clean: "clean_newlines s \<Longrightarrow> list_all (\<lambda>l. LF \<notin> set l \<and> CR \<notin> set l) (plan_lines s)"
proof -
  assume c: "clean_newlines s"
  have sub: "w \<in> set (split_on c t) \<Longrightarrow> set w \<subseteq> set t" for w c t
    by (induction t arbitrary: w) (fastforce split: if_splits list.splits)+
  show ?thesis
    unfolding list_all_iff plan_lines_def using c split_on_parts sub by (fastforce simp: clean_newlines_def)
qed

lemma plan_lines_ne [simp]: "plan_lines s \<noteq> []"
  by (simp add: plan_lines_def)

text \<open>Reading lines one by one.\<close>

definition parse_at :: "nat \<Rightarrow> string list \<Rightarrow> plan_item list" where
  "parse_at k ls = List.map_filter (\<lambda>(i, line). parse_line i line) (enumerate k ls)"

lemma parse_at_simps: "parse_at k [] = []" "parse_at k (l # ls) = (case parse_line k l of None \<Rightarrow> [] | Some x \<Rightarrow> [x]) @ parse_at (Suc k) ls"
  by (simp_all add: parse_at_def List.map_filter_def split: option.split)

lemma parse_at_append: "parse_at k (a @ b) = parse_at k a @ parse_at (k + length a) b"
  by (induction a arbitrary: k) (auto simp: parse_at_simps split: option.split)

lemma parse_line_Some: "parse_line i l = Some x \<longleftrightarrow> (\<exists>pre m rest. markerLine l = Some (pre, m, rest) \<and> x = item_at i l m rest)"
  by (auto simp: parse_line_def)

lemma item_at_sel [simp]: "itLine (item_at i l m rest) = l" "itMarker (item_at i l m rest) = m" "itIndex (item_at i l m rest) = i"
  "itID (item_at i l m rest) = (case idToken rest of None \<Rightarrow> [] | Some (t, a) \<Rightarrow> t)"
  by (auto simp: item_at_def split: option.split)

lemma parse_at_index: "x \<in> set (parse_at k ls) \<Longrightarrow> k \<le> itIndex x \<and> itIndex x < k + length ls \<and> parse_line (itIndex x) (ls ! (itIndex x - k)) = Some x"
proof (induction ls arbitrary: k)
  case (Cons l ls)
  show ?case
  proof (cases "parse_line k l = Some x")
    case True
    then have "itIndex x = k" by (auto simp: parse_line_Some)
    then show ?thesis using True by simp
  next
    case False
    then have "x \<in> set (parse_at (Suc k) ls)" using Cons.prems by (auto simp: parse_at_simps split: option.splits)
    from Cons.IH [OF this] show ?thesis by (auto simp: nth_Cons')
  qed
qed (simp add: parse_at_simps)

lemma parse_at_update:
  assumes "i < length ls" "parse_line i (ls ! i) = Some x" "parse_line i l' = Some x'"
  shows "parse_at 0 (ls[i := l']) = map (\<lambda>y. if itIndex y = i then x' else y) (parse_at 0 ls)"
proof -
  let ?a = "take i ls" and ?b = "drop (Suc i) ls"
  have ls: "ls = ?a @ ls ! i # ?b" using assms(1) by (rule id_take_nth_drop)
  have up: "ls[i := l'] = ?a @ l' # ?b" using assms(1) by (rule upd_conv_take_nth_drop)
  have len: "length ?a = i" using assms(1) by simp
  have a: "map (\<lambda>y. if itIndex y = i then x' else y) (parse_at 0 ?a) = parse_at 0 ?a"
    by (rule map_idI) (use parse_at_index [of _ 0 ?a] assms(1) in fastforce)
  have b: "map (\<lambda>y. if itIndex y = i then x' else y) (parse_at (Suc i) ?b) = parse_at (Suc i) ?b"
    by (rule map_idI) (use parse_at_index [of _ "Suc i" ?b] in fastforce)
  have x: "itIndex x = i" using assms(2) by (auto simp: parse_line_Some)
  have "parse_at 0 ls = parse_at 0 ?a @ x # parse_at (Suc i) ?b"
    by (subst ls) (simp add: parse_at_append parse_at_simps len assms(1,2))
  moreover have "parse_at 0 (ls[i := l']) = parse_at 0 ?a @ x' # parse_at (Suc i) ?b"
    by (simp add: up parse_at_append parse_at_simps len assms(1,3))
  ultimately show ?thesis using a b x by simp
qed

lemma Parse_plan_at: "Parse_plan s = parse_at 0 (plan_lines s)"
  by (simp add: Parse_plan_def parse_lines_def parse_at_def)

text \<open>The marker of a line can be rewritten.\<close>

lemma markerLine_rewrite:
  assumes "markerLine l = Some (pre, m, rest)" "m' \<in> set marker_chars"
  shows "markerLine (pre @ ''['' @ [m'] @ ''] '' @ w) = Some (pre, m', w)"
proof -
  define lead where "lead = takeWhile re_space l"
  from assms(1) obtain c s q where c: "drop (length lead) l = c # s" "c = CHR ''-'' \<or> c = CHR ''*''" "pre = lead @ [c] @ takeWhile re_space s"
    by (auto simp: markerLine_def lead_def Let_def split: list.splits if_splits)
  have nc: "\<not> re_space c" using c(2) by (auto simp: re_space_def)
  have sp: "\<forall>x \<in> set lead. re_space x" "\<forall>x \<in> set (takeWhile re_space s). re_space x" by (auto simp: lead_def dest: set_takeWhileD)
  let ?ws = "takeWhile re_space s"
  let ?l = "pre @ ''['' @ [m'] @ ''] '' @ w"
  have l: "?l = lead @ c # (?ws @ ''['' @ [m'] @ ''] '' @ w)" by (simp add: c(3))
  have t: "takeWhile re_space ?l = lead" unfolding l using sp(1) nc by (simp add: takeWhile_append)
  have nb: "\<not> re_space (CHR ''['')" by (simp add: re_space_def)
  have t2: "takeWhile re_space (?ws @ ''['' @ [m'] @ ''] '' @ w) = ?ws" "dropWhile re_space (?ws @ ''['' @ [m'] @ ''] '' @ w) = ''['' @ [m'] @ ''] '' @ w"
    using sp(2) nb by (simp_all add: takeWhile_append dropWhile_append)
  have "after_bracket (''['' @ [m'] @ ''] '' @ w) = Some (m', w)" using assms(2) by (simp add: after_bracket_def re_space_def)
  then show ?thesis unfolding markerLine_def Let_def t using c(2) by (simp add: l t2 [simplified] c(3) del: append_assoc)
qed

text \<open>The id of a line: a number with letters after it, in double brackets.\<close>

definition id_shape :: "string \<Rightarrow> bool" where
  "id_shape t \<longleftrightarrow> (\<exists>ds ls. t = ds @ ls \<and> ds \<noteq> [] \<and> list_all is_digit ds \<and> list_all is_lower ls)"

lemma digit_not_lower: "is_digit c \<Longrightarrow> \<not> is_lower c"
  by (simp add: is_digit_def is_lower_def)

lemma leading_id_shape: "leading_id s = Some (t, rest) \<Longrightarrow> id_shape t \<and> s = t @ rest"
proof -
  assume a: "leading_id s = Some (t, rest)"
  let ?ds = "takeWhile is_digit s"
  let ?ls = "takeWhile is_lower (drop (length ?ds) s)"
  have t: "?ds \<noteq> []" "t = ?ds @ ?ls" "rest = drop (length ?ds + length ?ls) s" using a by (auto simp: leading_id_def Let_def split: if_splits)
  have "s = ?ds @ drop (length ?ds) s" by (metis dropWhile_eq_drop takeWhile_dropWhile_id)
  moreover have "drop (length ?ds) s = ?ls @ drop (length ?ls) (drop (length ?ds) s)" by (metis dropWhile_eq_drop takeWhile_dropWhile_id)
  ultimately have "s = t @ rest" unfolding t by (metis append.assoc drop_drop add.commute)
  moreover have "list_all is_digit ?ds" "list_all is_lower ?ls" by (auto simp: list_all_iff dest: set_takeWhileD)
  ultimately show ?thesis using t(1,2) by (auto simp: id_shape_def)
qed

lemma leading_id_of: "id_shape t \<Longrightarrow> rest = [] \<or> \<not> is_digit (hd rest) \<and> \<not> is_lower (hd rest) \<Longrightarrow> leading_id (t @ rest) = Some (t, rest)"
proof -
  assume "id_shape t" and r: "rest = [] \<or> \<not> is_digit (hd rest) \<and> \<not> is_lower (hd rest)"
  then obtain ds ls where t: "t = ds @ ls" "ds \<noteq> []" "list_all is_digit ds" "list_all is_lower ls" by (auto simp: id_shape_def)
  have stop: "takeWhile is_digit (ls @ rest) = []" using t(4) r digit_not_lower by (cases ls; cases rest) auto
  have 1: "takeWhile is_digit (ds @ ls @ rest) = ds" using t(3) stop by (simp add: takeWhile_append list_all_iff)
  have 2: "takeWhile is_lower (ls @ rest) = ls" using t(4) r by (cases rest) (auto simp: takeWhile_append list_all_iff)
  show ?thesis using t(1,2) by (simp add: leading_id_def Let_def 1 2)
qed

lemma idToken_shape: "idToken s = Some (t, a) \<Longrightarrow> id_shape t \<and> (\<exists>rest. s = ''[['' @ t @ '']]'' @ rest \<and> a = dropWhile re_space rest)"
proof -
  assume i: "idToken s = Some (t, a)"
  then obtain rest where r: "HasPrefix s ''[[''" "leading_id (drop 2 s) = Some (t, rest)" "HasPrefix rest '']]''" "a = dropWhile re_space (drop 2 rest)"
    by (auto simp: idToken_def split: if_splits option.splits)
  have "s = ''[['' @ drop 2 s" "rest = '']]'' @ drop 2 rest" using r(1,3) by (auto simp: prefix_def)
  then show ?thesis using leading_id_shape [OF r(2)] r(4) by (metis append.assoc)
qed

lemma idToken_of: "id_shape t \<Longrightarrow> idToken (''[['' @ t @ '']]'' @ rest) = Some (t, dropWhile re_space rest)"
proof -
  assume t: "id_shape t"
  have "\<not> is_digit (CHR '']'')" "\<not> is_lower (CHR '']'')" by (simp_all add: is_digit_def is_lower_def byte_def)
  then have "leading_id (t @ '']]'' @ rest) = Some (t, '']]'' @ rest)" using leading_id_of [OF t, of "'']]'' @ rest"] by simp
  then show ?thesis by (simp add: idToken_def)
qed

lemma trim_right_append: "p \<noteq> [] \<Longrightarrow> \<not> blank (last p) \<Longrightarrow> trim_right (p @ t) = p @ trim_right t"
  by (cases p rule: rev_cases) (auto simp: trim_right_def dropWhile_append)

lemma last_index_no_space: "CHR '' '' \<notin> set p \<Longrightarrow> last_index stuck_mark (p @ t) = map_option ((+) (length p)) (last_index stuck_mark t)"
proof (induction p)
  case (Cons c p)
  then have "\<not> prefix stuck_mark (c # p @ t)" by (auto simp: stuck_mark_def)
  then show ?case using Cons by (cases "last_index stuck_mark t") auto
qed (cases "last_index stuck_mark t", auto)

lemma WithReason_prefix:
  assumes "CHR '' '' \<notin> set p" "p \<noteq> []" "\<not> blank (last p)"
  shows "WithReason (p @ t) r = p @ WithReason t r"
  by (simp add: WithReason_def Let_def trim_right_append [OF assms(2,3)] last_index_no_space [OF assms(1)] split: option.split)

lemma id_no_space: "id_shape t \<Longrightarrow> CHR '' '' \<notin> set t \<and> t \<noteq> []"
proof -
  assume "id_shape t"
  moreover have "\<not> is_digit (CHR '' '')" "\<not> is_lower (CHR '' '')" by (simp_all add: is_digit_def is_lower_def byte_def)
  ultimately show ?thesis by (auto simp: id_shape_def list_all_iff)
qed

lemma idToken_WithReason:
  assumes "idToken s = Some (t, a)"
  shows "\<exists>a'. idToken (WithReason s r) = Some (t, a')"
proof -
  obtain rest where s: "id_shape t" "s = (''[['' @ t @ '']]'') @ rest" using idToken_shape [OF assms] by auto
  have "WithReason s r = (''[['' @ t @ '']]'') @ WithReason rest r"
    unfolding s(2) by (rule WithReason_prefix) (use id_no_space [OF s(1)] in \<open>auto simp: blank_def\<close>)
  then show ?thesis using idToken_of [OF s(1)] by auto
qed

lemma set_WithReason: "set (WithReason s r) \<subseteq> set s \<union> set stuck_mark \<union> set (oneLine r)"
proof -
  have "set (trim_right s) \<subseteq> set s" by (auto simp: trim_right_def dest: set_dropWhileD)
  then show ?thesis by (auto simp: WithReason_def Let_def dest: in_set_takeD split: option.splits if_splits)
qed

lemma markerLine_chars: "markerLine l = Some (pre, m, rest) \<Longrightarrow> set pre \<union> set rest \<subseteq> set l \<and> m \<in> set marker_chars"
proof -
  assume a: "markerLine l = Some (pre, m, rest)"
  define lead where "lead = takeWhile re_space l"
  from a obtain c s where c: "drop (length lead) l = c # s" "pre = lead @ [c] @ takeWhile re_space s" "after_bracket (dropWhile re_space s) = Some (m, rest)"
    by (auto simp: markerLine_def lead_def Let_def split: list.splits if_splits)
  have "set lead \<subseteq> set l" by (auto simp: lead_def dest: set_takeWhileD)
  moreover have cs: "set (c # s) \<subseteq> set l" using set_drop_subset [of "length lead" l] unfolding c(1) .
  moreover have "set (takeWhile re_space s) \<subseteq> set s" "set (dropWhile re_space s) \<subseteq> set s" by (auto dest: set_takeWhileD set_dropWhileD)
  moreover have "set rest \<subseteq> set (dropWhile re_space s) \<and> m \<in> set marker_chars"
    using c(3) by (auto simp: after_bracket_def split: list.splits if_splits dest: list.set_sel(2))
  ultimately show ?thesis unfolding c(2) by auto
qed

lemma valid_marker_char: "valid_marker marker \<Longrightarrow> \<exists>m. marker = [m] \<and> m \<in> set marker_chars"
  using set_mono_sublist [of marker marker_chars] by (auto simp: valid_marker_def length_Suc_conv)

lemma filter_head: "filter P xs = y # ys \<Longrightarrow> y \<in> set xs \<and> P y"
  by (metis filter_set list.set_intros(1) mem_Collect_eq set_filter)

lemma marker_chars_plain: "m \<in> set marker_chars \<Longrightarrow> m \<noteq> LF \<and> m \<noteq> CR"
  by (auto simp: marker_chars_def)

lemma marked_line_at:
  assumes "itID item \<noteq> []" "marked_line s item = Inr (y, pre, rest)"
  shows "y \<in> set (Parse_plan s) \<and> filter (\<lambda>z. itID z = itID item) (Parse_plan s) = [y] \<and> (\<exists>m. markerLine (itLine y) = Some (pre, m, rest)) \<and>
    itIndex y < length (plan_lines s) \<and> plan_lines s ! itIndex y = itLine y"
proof -
  have f: "findByID (Parse_plan s) (itID item) = Inr y" using assms by (auto simp: marked_line_def split: sum.splits if_splits option.splits)
  then have "filter (\<lambda>z. itID z = itID item) (Parse_plan s) = [y]" by (auto simp: findByID_def split: list.splits)
  moreover from this have "y \<in> set (Parse_plan s)" by (rule filter_head [THEN conjunct1])
  moreover have "(if itIndex y \<ge> length (plan_lines s) then Inl (line_outside (itIndex y))
      else if plan_lines s ! itIndex y \<noteq> itLine y then Inl (line_changed (itIndex y))
      else case markerLine (itLine y) of None \<Rightarrow> Inl (line_unmarked (itIndex y)) | Some (pre, m, rest) \<Rightarrow> Inr (y, pre, rest)) = Inr (y, pre, rest)"
    using assms(2) by (simp add: marked_line_def assms(1) f)
  then have "itIndex y < length (plan_lines s) \<and> plan_lines s ! itIndex y = itLine y \<and> (\<exists>m. markerLine (itLine y) = Some (pre, m, rest))"
    by (cases "markerLine (itLine y)") (auto split: if_splits)
  ultimately show ?thesis by blast
qed

lemma clean_join:
  assumes "list_all (\<lambda>l. LF \<notin> set l \<and> CR \<notin> set l) ls"
  shows "clean_newlines (join (plan_newline s) ls)"
proof -
  have lf: "list_all (\<lambda>l. LF \<notin> set l) ls" using assms by (auto simp: list_all_iff)
  have cr: "CR \<notin> set (join [LF] ls)" using set_join [of "[LF]" ls] assms by (auto simp: list_all_iff)
  have n: "replace_all [CR, LF] [LF] (join [LF] ls) = join [LF] ls"
    by (rule replace_all_absent) (use cr in \<open>auto simp: sublist_def\<close>)
  show ?thesis using n cr CRLF_to_LF [OF cr] by (simp add: clean_newlines_def plan_newline_def join_CRLF [OF lf])
qed

text \<open>What a mark does to the plan, with what becomes of the text of the item.\<close>

lemma markLine_effect:
  assumes "clean_newlines s" and "itID item \<noteq> []" and "markLine quote s item marker reason = Inr s'"
  shows "clean_newlines s' \<and> (\<exists>y. filter (\<lambda>x. itID x = itID item) (Parse_plan s) = [y] \<and> plan_lines s' = (plan_lines s)[itIndex y := plan_lines s' ! itIndex y] \<and>
    (\<exists>y' rest a. Parse_plan s' = map (\<lambda>x. if itID x = itID item then y' else x) (Parse_plan s) \<and> [itMarker y'] = marker \<and> itID y' = itID y \<and> itIndex y' = itIndex y \<and>
       itText y' = TrimSpace a \<and> suffix a (WithReason rest (if marker \<noteq> ''!'' then [] else reason))))"
proof -
  let ?r = "if marker \<noteq> ''!'' then [] else reason"
  have v: "valid_marker marker" using assms(3) by (auto simp: markLine_def split: if_splits)
  then obtain m' where m': "marker = [m']" "m' \<in> set marker_chars" using valid_marker_char by blast
  obtain y pre rest where l: "marked_line s item = Inr (y, pre, rest)" using v assms(3) by (auto simp: markLine_def split: sum.splits)
  define line where "line = pre @ ''['' @ [m'] @ ''] '' @ WithReason rest ?r"
  have s': "s' = put_line s (itIndex y) line" using v l assms(3) by (simp add: markLine_def line_def m'(1))
  from marked_line_at [OF assms(2) l] obtain m where y: "y \<in> set (Parse_plan s)" "filter (\<lambda>z. itID z = itID item) (Parse_plan s) = [y]"
      "markerLine (itLine y) = Some (pre, m, rest)" "itIndex y < length (plan_lines s)" "plan_lines s ! itIndex y = itLine y" by blast
  have py: "parse_line (itIndex y) (itLine y) = Some y" using parse_at_index [of y 0 "plan_lines s"] y(1,5) by (simp add: Parse_plan_at)
  have idy: "itID y = itID item" using filter_head [OF y(2)] by simp
  have "y = item_at (itIndex y) (itLine y) m rest" using py y(3) by (simp add: parse_line_def)
  then have "itID y = (case idToken rest of None \<Rightarrow> [] | Some (t, a) \<Rightarrow> t)" by (metis item_at_sel(4))
  then obtain t a where t: "idToken rest = Some (t, a)" "itID y = t" using assms(2) idy by (cases "idToken rest") auto
  obtain a' where t': "idToken (WithReason rest ?r) = Some (t, a')" using idToken_WithReason [OF t(1)] by blast
  let ?y' = "item_at (itIndex y) line m' (WithReason rest ?r)"
  have txt': "itText ?y' = TrimSpace a'" by (simp add: item_at_def t')
  have suf: "suffix a' (WithReason rest ?r)" 
  proof -
    obtain z where z: "WithReason rest ?r = ''[['' @ t @ '']]'' @ z" "a' = dropWhile re_space z" using idToken_shape [OF t'] by blast
    have "suffix a' z" unfolding z(2) by (rule suffix_dropWhile)
    then show ?thesis unfolding z(1) by (intro suffix_appendI)
  qed
  have pl: "parse_line (itIndex y) line = Some ?y'" using markerLine_rewrite [OF y(3) m'(2)] by (auto simp: parse_line_Some line_def)
  have old: "list_all (\<lambda>l. LF \<notin> set l \<and> CR \<notin> set l) (plan_lines s)" by (rule plan_lines_clean [OF assms(1)])
  then have "LF \<notin> set (itLine y) \<and> CR \<notin> set (itLine y)" using y(4,5) by (metis list_all_length)
  moreover have "set line \<subseteq> set (itLine y) \<union> set (m' # ''[] '') \<union> set stuck_mark \<union> set (oneLine ?r)"
    using markerLine_chars [OF y(3)] set_WithReason [of rest ?r] unfolding line_def by auto
  moreover have "LF \<notin> set (m' # ''[] '')" "CR \<notin> set (m' # ''[] '')" "LF \<notin> set stuck_mark" "CR \<notin> set stuck_mark"
    using marker_chars_plain [OF m'(2)] by (auto simp: stuck_mark_def)
  ultimately have "LF \<notin> set line \<and> CR \<notin> set line" using oneLine_shape(3,4) [of ?r] by blast
  then have new: "list_all (\<lambda>l. LF \<notin> set l \<and> CR \<notin> set l) ((plan_lines s)[itIndex y := line])"
    using old y(4) by (simp add: list_all_length nth_list_update)
  have ls: "plan_lines s' = (plan_lines s)[itIndex y := line]" unfolding s' put_line_def by (rule plan_lines_join [OF _ new]) simp
  have same: "itIndex x = itIndex y \<longleftrightarrow> itID x = itID item" if "x \<in> set (Parse_plan s)" for x
  proof
    assume i: "itIndex x = itIndex y"
    have "parse_line (itIndex x) (plan_lines s ! itIndex x) = Some x" using parse_at_index [of x 0 "plan_lines s"] that by (simp add: Parse_plan_at)
    then have "Some y = Some x" unfolding i y(5) py .
    then have "x = y" by simp
    then show "itID x = itID item" using idy by simp
  next
    assume "itID x = itID item"
    then have "x \<in> set [y]" using that unfolding y(2) [symmetric] by simp
    then show "itIndex x = itIndex y" by simp
  qed
  have "Parse_plan s' = map (\<lambda>x. if itIndex x = itIndex y then ?y' else x) (Parse_plan s)"
    unfolding Parse_plan_at ls by (rule parse_at_update [OF y(4) _ pl]) (simp add: y(5) py)
  then have "Parse_plan s' = map (\<lambda>x. if itID x = itID item then ?y' else x) (Parse_plan s)" using same by simp
  moreover have "clean_newlines s'" unfolding s' put_line_def by (rule clean_join [OF new])
  ultimately show ?thesis using y(2) ls y(4) t(2) t' m'(1) txt' suf by (intro conjI exI [of _ y] exI [of _ ?y'] exI [of _ rest] exI [of _ a']) auto
qed

lemma markLine_accepts:
  assumes "findByID (Parse_plan s) (itID x) = Inr x" "itID x \<noteq> []" "x \<in> set (Parse_plan s)" "valid_marker marker"
  shows "\<exists>s'. markLine quote s x marker reason = Inr s'"
proof -
  have i: "itIndex x < length (plan_lines s)" "parse_line (itIndex x) (plan_lines s ! itIndex x) = Some x"
    using parse_at_index [of x 0 "plan_lines s"] assms(3) by (auto simp: Parse_plan_at)
  then obtain pre m rest where l: "markerLine (plan_lines s ! itIndex x) = Some (pre, m, rest)" "x = item_at (itIndex x) (plan_lines s ! itIndex x) m rest"
    by (auto simp: parse_line_Some)
  have "itLine x = plan_lines s ! itIndex x" using l(2) by (metis item_at_sel(1))
  then show ?thesis using assms i l(1) by (simp add: markLine_def marked_line_def)
qed

text \<open>C40. A mark changes one line: when the worker marks an item that carries an id, every line of the plan but one reads the same, the marked line is the only one with that id, it
  keeps its place and its id and gets the marker, and every other item is read back exactly as before.\<close>

theorem mark_changes_one_line:
  assumes "clean_newlines s" and "itID item \<noteq> []" and "markLine quote s item marker reason = Inr s'"
  shows "\<exists>y. filter (\<lambda>x. itID x = itID item) (Parse_plan s) = [y] \<and> plan_lines s' = (plan_lines s)[itIndex y := plan_lines s' ! itIndex y] \<and>
    (\<exists>y'. Parse_plan s' = map (\<lambda>x. if itID x = itID item then y' else x) (Parse_plan s) \<and> [itMarker y'] = marker \<and> itID y' = itID y \<and> itIndex y' = itIndex y)"
  using markLine_effect [OF assms] by blast

section \<open>Every item gets an id\<close>

lemma next_free_free: "decimal (next_free taken n) \<notin> set taken"
  by (induction taken n rule: next_free.induct) (metis next_free.simps)

lemma id_shape_decimal: "id_shape (decimal n)"
  unfolding id_shape_def
  by (rule exI [of _ "decimal n"], rule exI [of _ "[]"])
     (use nat_digits_are_digits [of n] in \<open>auto simp: decimal_def Itoa_def list_all_iff\<close>)

lemma id_shape_itemID: "itemID s \<noteq> [] \<Longrightarrow> id_shape (itemID s)"
  using leading_id_shape [of "TrimSpace s"] by (auto simp: itemID_def split: option.splits if_splits)

lemma id_shape_plain: "id_shape t \<Longrightarrow> t \<noteq> [] \<and> LF \<notin> set t \<and> CR \<notin> set t"
proof -
  assume "id_shape t"
  moreover have "\<not> is_digit LF" "\<not> is_lower LF" "\<not> is_digit CR" "\<not> is_lower CR" by (simp_all add: is_digit_def is_lower_def byte_def)
  ultimately show ?thesis by (auto simp: id_shape_def list_all_iff)
qed

lemma TrimSpace_skip: "TrimSpace (dropWhile re_space s) = TrimSpace s"
proof (induction s)
  case (Cons c s)
  show ?case
  proof (cases "re_space c")
    case True
    then have b: "byte c \<in> {9, 10, 12, 13, 32}" by (auto simp: re_space_def byte_def)
    then have d: "decode_rune c s = (byte c, 1)" by (auto simp: decode_rune_def)
    have sp: "is_space (byte c)" using b by (auto simp: is_space_def)
    have "TrimSpace (c # s) = TrimSpace s" by (simp add: TrimSpace_def d sp)
    with True Cons show ?thesis by simp
  qed simp
qed simp

lemma with_id_item:
  assumes "parse_line i l = Some x" "itID x = []" "id_shape t"
  shows "\<exists>x'. parse_line i (with_id t l) = Some x' \<and> itID x' = t \<and> itIndex x' = itIndex x \<and> itMarker x' = itMarker x \<and> itText x' = itText x"
proof -
  obtain pre m rest where l: "markerLine l = Some (pre, m, rest)" "x = item_at i l m rest" using assms(1) by (auto simp: parse_line_Some)
  have none: "idToken rest = None"
  proof (rule ccontr)
    assume "idToken rest \<noteq> None"
    then obtain t a where "idToken rest = Some (t, a)" by auto
    with idToken_shape id_shape_plain assms(2) l(2) show False by fastforce
  qed
  let ?w = "''[['' @ t @ '']] '' @ rest"
  have "markerLine (pre @ ''['' @ [m] @ ''] '' @ ?w) = Some (pre, m, ?w)"
    by (rule markerLine_rewrite [OF l(1)]) (use markerLine_chars [OF l(1)] in simp)
  then have m: "markerLine (with_id t l) = Some (pre, m, ?w)" by (simp add: with_id_def l(1))
  have tok: "idToken ?w = Some (t, dropWhile re_space rest)"
    using idToken_of [OF assms(3), of "'' '' @ rest"] by (simp add: re_space_def)
  have "parse_line i (with_id t l) = Some (item_at i (with_id t l) m ?w)" by (simp add: parse_line_def m)
  moreover have "itText (item_at i (with_id t l) m ?w) = itText x" unfolding item_at_def tok l(2) none by (simp add: TrimSpace_skip)
  ultimately show ?thesis using l(2) tok by auto
qed

lemma with_id_plain:
  assumes "LF \<notin> set l \<and> CR \<notin> set l" "id_shape t"
  shows "LF \<notin> set (with_id t l) \<and> CR \<notin> set (with_id t l)"
proof (cases "markerLine l")
  case (Some p)
  obtain pre m rest where p: "markerLine l = Some (pre, m, rest)" using Some by (cases p) auto
  show ?thesis using assms(1) id_shape_plain [OF assms(2)] markerLine_chars [OF p] marker_chars_plain [of m] by (auto simp: with_id_def p)
qed (use assms in \<open>simp add: with_id_def\<close>)

text \<open>What the assignment may change of an item, and that no two lines carry one id.\<close>

definition given_id :: "plan_item \<Rightarrow> plan_item \<Rightarrow> bool" where
  "given_id x y \<longleftrightarrow> itIndex y = itIndex x \<and> itMarker y = itMarker x \<and> itText y = itText x \<and> itID y \<noteq> [] \<and> (itID x \<noteq> [] \<longrightarrow> y = x)"

definition ids_unique :: "plan_item list \<Rightarrow> bool" where
  "ids_unique xs \<longleftrightarrow> (\<forall>a \<in> set xs. \<forall>b \<in> set xs. itID a \<noteq> [] \<longrightarrow> itID a = itID b \<longrightarrow> itIndex a = itIndex b)"

definition plain_line :: "string \<Rightarrow> bool" where
  "plain_line l \<longleftrightarrow> LF \<notin> set l \<and> CR \<notin> set l"

text \<open>The state of the loop: the lines so far are clean, every line without an id is still to come and unchanged, and the used ids are those of the lines.\<close>

definition assigning :: "plan_item list \<Rightarrow> string list \<Rightarrow> string list \<Rightarrow> bool" where
  "assigning xs used ls \<longleftrightarrow> list_all plain_line ls \<and> distinct (map itIndex xs) \<and>
     (\<forall>x \<in> set xs. itIndex x < length ls \<and> parse_line (itIndex x) (ls ! itIndex x) = Some x) \<and>
     (\<forall>x \<in> set (parse_at 0 ls). if itID x = [] then x \<in> set xs else itID x \<in> set used)"

lemma assigning_step:
  assumes "assigning (x # xs) used ls" "itID x = []" "id_shape t" "t \<notin> set used"
  defines "ls' \<equiv> ls[itIndex x := with_id t (itLine x)]"
  shows "assigning xs (t # used) ls' \<and> (ids_unique (parse_at 0 ls) \<longrightarrow> ids_unique (parse_at 0 ls')) \<and>
    (\<exists>x'. parse_at 0 ls' = map (\<lambda>y. if itIndex y = itIndex x then x' else y) (parse_at 0 ls) \<and> given_id x x')"
proof -
  have x: "itIndex x < length ls" "parse_line (itIndex x) (ls ! itIndex x) = Some x" using assms(1) by (simp_all add: assigning_def)
  have line: "itLine x = ls ! itIndex x" using x(2) unfolding parse_line_Some by (metis item_at_sel(1))
  obtain x' where x': "parse_line (itIndex x) (with_id t (itLine x)) = Some x'" "itID x' = t" "itIndex x' = itIndex x" "itMarker x' = itMarker x" "itText x' = itText x"
    using with_id_item [OF x(2) assms(2,3)] line by auto
  have t: "t \<noteq> []" using id_shape_plain [OF assms(3)] by simp
  have p: "parse_at 0 ls' = map (\<lambda>y. if itIndex y = itIndex x then x' else y) (parse_at 0 ls)"
    unfolding ls'_def by (rule parse_at_update [OF x x'(1)])
  have used: "y \<in> set (parse_at 0 ls) \<Longrightarrow> itID y \<noteq> [] \<Longrightarrow> itID y \<in> set used" for y using assms(1) by (auto simp: assigning_def split: if_splits)
  have mem: "y = x' \<or> y \<in> set (parse_at 0 ls) \<and> itIndex y \<noteq> itIndex x" if "y \<in> set (parse_at 0 ls')" for y using that unfolding p by (auto split: if_splits)
  have "ids_unique (parse_at 0 ls')" if u: "ids_unique (parse_at 0 ls)"
    unfolding ids_unique_def
  proof (intro ballI impI)
    fix a b assume ab: "a \<in> set (parse_at 0 ls')" "b \<in> set (parse_at 0 ls')" "itID a \<noteq> []" "itID a = itID b"
    have new: "itID z \<noteq> t" if "z \<in> set (parse_at 0 ls)" for z using used [OF that] assms(4) t by metis
    consider "a = x'" "b = x'" | "a = x'" "b \<in> set (parse_at 0 ls)" | "b = x'" "a \<in> set (parse_at 0 ls)"
      | "a \<in> set (parse_at 0 ls)" "b \<in> set (parse_at 0 ls)" using mem [OF ab(1)] mem [OF ab(2)] by blast
    then show "itIndex a = itIndex b"
    proof cases
      case 4
      then show ?thesis using u ab(3,4) unfolding ids_unique_def by blast
    qed (use new [of a] new [of b] x'(2) ab(4) in \<open>metis\<close>)+
  qed
  moreover have "assigning xs (t # used) ls'"
    unfolding assigning_def
  proof (intro conjI ballI)
    show "list_all plain_line ls'"
      using assms(1) with_id_plain [OF _ assms(3), of "itLine x"] line x(1) by (auto simp: ls'_def assigning_def list_all_length plain_line_def nth_list_update)
    show "distinct (map itIndex xs)" using assms(1) by (simp add: assigning_def)
    show "itIndex y < length ls'" "parse_line (itIndex y) (ls' ! itIndex y) = Some y" if "y \<in> set xs" for y
      using assms(1) that by (auto simp: assigning_def ls'_def nth_list_update)
    show "if itID y = [] then y \<in> set xs else itID y \<in> set (t # used)" if "y \<in> set (parse_at 0 ls')" for y
      using mem [OF that] x'(2) t assms(1) used [of y] by (auto simp: assigning_def split: if_splits)
  qed
  moreover have "given_id x x'" using x' t assms(2) by (simp add: given_id_def)
  ultimately show ?thesis using p by blast
qed

lemma given_id_list:
  assumes "assigning xs used ls"
  shows "list_all2 given_id (parse_at 0 ls) (parse_at 0 (assign_ids files xs used n ls)) \<and>
    (ids_unique (parse_at 0 ls) \<longrightarrow> ids_unique (parse_at 0 (assign_ids files xs used n ls))) \<and> list_all plain_line (assign_ids files xs used n ls) \<and>
    length (assign_ids files xs used n ls) = length ls"
  using assms
proof (induction xs arbitrary: used n ls)
  case Nil
  have "given_id x x" if "x \<in> set (parse_at 0 ls)" for x using Nil that by (auto simp: assigning_def given_id_def split: if_splits)
  then show ?case using Nil by (auto simp: assigning_def list_all2_same)
next
  case (Cons x xs)
  show ?case
  proof (cases "itID x = []")
    case False
    have "assigning xs used ls" using Cons.prems False by (auto simp: assigning_def split: if_splits)
    with Cons.IH False show ?thesis by simp
  next
    case True
    define wanted where "wanted = itemID (itText x)"
    define fresh where "fresh \<longleftrightarrow> wanted = [] \<or> wanted \<in> set used"
    define k where "k = (if fresh then next_free (used @ files) n else n)"
    define t where "t = (if fresh then decimal k else wanted)"
    let ?ls = "ls[itIndex x := with_id t (itLine x)]"
    have eq: "assign_ids files (x # xs) used n ls = assign_ids files xs (t # used) k ?ls"
      using True by (simp add: Let_def wanted_def fresh_def k_def t_def)
    have t: "id_shape t" "t \<notin> set used"
      using id_shape_decimal id_shape_itemID next_free_free [of "used @ files" n] by (auto simp: t_def k_def fresh_def wanted_def)
    note step = assigning_step [OF Cons.prems True t]
    obtain x' where x': "parse_at 0 ?ls = map (\<lambda>y. if itIndex y = itIndex x then x' else y) (parse_at 0 ls)" "given_id x x'" using step by blast
    note ih = Cons.IH [OF conjunct1 [OF step], of k]
    have "list_all2 given_id (parse_at 0 ls) (parse_at 0 (assign_ids files xs (t # used) k ?ls))"
    proof (rule list_all2_all_nthI)
      show len: "length (parse_at 0 ls) = length (parse_at 0 (assign_ids files xs (t # used) k ?ls))"
      proof -
        have "length (parse_at 0 ?ls) = length (parse_at 0 (assign_ids files xs (t # used) k ?ls))" using ih list_all2_lengthD by blast
        then show ?thesis unfolding x'(1) length_map .
      qed
      fix i assume i: "i < length (parse_at 0 ls)"
      let ?a = "parse_at 0 ls ! i" and ?b = "parse_at 0 ?ls ! i" and ?c = "parse_at 0 (assign_ids files xs (t # used) k ?ls) ! i"
      have bc: "given_id ?b ?c" using ih i x'(1) by (simp add: list_all2_conv_all_nth)
      have xp: "parse_line (itIndex x) (ls ! itIndex x) = Some x" using Cons.prems by (simp add: assigning_def)
      show "given_id ?a ?c"
      proof (cases "itIndex ?a = itIndex x")
        case True2: True
        have "parse_line (itIndex ?a) (ls ! itIndex ?a) = Some ?a" using parse_at_index [of ?a 0 ls] i by simp
        then have "Some x = Some ?a" unfolding True2 xp .
        then have "?a = x" by (rule option.inject [THEN iffD1, THEN sym])
        then show ?thesis using bc x' i True by (auto simp: given_id_def)
      next
        case False
        then show ?thesis using bc x'(1) i by simp
      qed
    qed
    then show ?thesis unfolding eq using ih step by simp
  qed
qed

text \<open>Every item gets an id, once: after \<open>AssignIDs\<close> the plan has the same items on the same lines, with the same markers and texts, every one of them with an id; an item that
  had an id is unchanged; and if no two lines carried one id before, none do now.\<close>

theorem every_item_gets_an_id:
  assumes "clean_newlines s"
  shows "list_all2 given_id (Parse_plan s) (Parse_plan (AssignIDs files s)) \<and> length (plan_lines (AssignIDs files s)) = length (plan_lines s) \<and>
    (ids_unique (Parse_plan s) \<longrightarrow> ids_unique (Parse_plan (AssignIDs files s)))"
proof -
  let ?ls = "plan_lines s" and ?used = "filter (\<lambda>i. i \<noteq> []) (map itID (Parse_plan s))"
  have idx: "sorted_wrt (<) (map itIndex (parse_at k ls))" for k ls
  proof (induction ls arbitrary: k)
    case (Cons l ls)
    have "k < itIndex y" if "y \<in> set (parse_at (Suc k) ls)" for y using parse_at_index [OF that] by simp
    moreover have "itIndex x = k" if "parse_line k l = Some x" for x using that by (auto simp: parse_line_Some)
    ultimately show ?case using Cons by (auto simp: parse_at_simps split: option.split)
  qed (simp add: parse_at_simps)
  have "assigning (Parse_plan s) ?used ?ls"
    unfolding assigning_def
  proof (intro conjI ballI)
    show "list_all plain_line ?ls" using plan_lines_clean [OF assms] by (auto simp: plain_line_def list_all_iff)
    show "distinct (map itIndex (Parse_plan s))" unfolding Parse_plan_at using idx strict_sorted_iff by blast
    show "itIndex x < length ?ls" "parse_line (itIndex x) (?ls ! itIndex x) = Some x" if "x \<in> set (Parse_plan s)" for x
      using parse_at_index [of x 0 ?ls] that by (simp_all add: Parse_plan_at)
    show "if itID x = [] then x \<in> set (Parse_plan s) else itID x \<in> set ?used" if "x \<in> set (parse_at 0 ?ls)" for x
      using that by (auto simp: Parse_plan_at)
  qed
  from given_id_list [OF this, of files 1]
  have r: "list_all2 given_id (Parse_plan s) (parse_at 0 (assign_ids files (Parse_plan s) ?used 1 ?ls))"
      "ids_unique (Parse_plan s) \<longrightarrow> ids_unique (parse_at 0 (assign_ids files (Parse_plan s) ?used 1 ?ls))"
      "list_all plain_line (assign_ids files (Parse_plan s) ?used 1 ?ls)" "length (assign_ids files (Parse_plan s) ?used 1 ?ls) = length ?ls"
    by (simp_all add: Parse_plan_at)
  have "assign_ids files (Parse_plan s) ?used 1 ?ls \<noteq> []" using r(4) by (metis length_0_conv plan_lines_ne)
  with r(3) have "plan_lines (AssignIDs files s) = assign_ids files (Parse_plan s) ?used 1 ?ls"
    unfolding AssignIDs_def by (intro plan_lines_join) (auto simp: plain_line_def list_all_iff)
  then show ?thesis using r by (simp add: Parse_plan_at)
qed

section \<open>What the lint lets through\<close>

lemma lint_duplicate:
  "Refusal (lint_items quote eqfold files seen xs) = [] \<Longrightarrow>
   distinct (filter (\<lambda>i. i \<noteq> []) (map itID xs)) \<and> (\<forall>x \<in> set xs. itID x \<noteq> [] \<longrightarrow> itID x \<notin> set seen)"
proof (induction xs arbitrary: seen)
  case (Cons x xs)
  have err: "Refusal ds = [] \<longleftrightarrow> (\<forall>d \<in> set ds. fst d \<noteq> Err)" for ds
    by (auto simp: Refusal_def find_None_iff find_Some_iff split: option.splits)
  show ?case
  proof (cases "itID x = []")
    case True
    then show ?thesis using Cons by simp
  next
    case False
    then have "itID x \<notin> set seen" "Refusal (lint_items quote eqfold files (itID x # seen) xs) = []"
      using Cons.prems by (auto simp: err split: if_splits)
    with Cons.IH [of "itID x # seen"] False show ?thesis by auto
  qed
qed simp

text \<open>Lint keeps duplicates away from Go: a plan that the lint does not refuse has no id on two lines, so the marker of every item with an id finds its line.\<close>

theorem lint_refuses_duplicates:
  assumes "Refusal (Lint quote eqfold files (Inr s)) = []"
  shows "distinct (filter (\<lambda>i. i \<noteq> []) (map itID (Parse_plan s))) \<and>
    list_all (\<lambda>x. itID x = [] \<or> findByID (Parse_plan s) (itID x) = Inr x) (Parse_plan s)"
proof -
  have d: "distinct (filter (\<lambda>i. i \<noteq> []) (map itID (Parse_plan s)))" using lint_duplicate [of quote eqfold files "[]"] assms by (simp add: Lint_def)
  have one: "filter (\<lambda>y. itID y = itID x) xs = [x]" if "distinct (filter (\<lambda>i. i \<noteq> []) (map itID xs))" "x \<in> set xs" "itID x \<noteq> []" for x and xs :: "plan_item list"
    using that
  proof (induction xs)
    case (Cons y xs)
    then show ?case
    proof (cases "x = y")
      case True
      then have "itID x \<notin> itID ` set xs" using Cons.prems by auto
      then show ?thesis using True by (auto simp: filter_empty_conv image_iff)
    next
      case False
      then have "itID y \<noteq> itID x" using Cons.prems by (auto split: if_splits)
      then show ?thesis using False Cons by (auto split: if_splits)
    qed
  qed simp
  have "findByID (Parse_plan s) (itID x) = Inr x" if "x \<in> set (Parse_plan s)" "itID x \<noteq> []" for x
    using one [OF d that] that(2) by (simp add: findByID_def)
  then show ?thesis using d unfolding list_all_iff by blast
qed

section \<open>A plan of two items\<close>

lemmas plan_eval = TrimSpace_def decode_rune_def byte_def is_space_def Let_def is_digit_def is_lower_def re_space_def word_char_def after_bracket_def markerLine_def
  leading_id_def idToken_def item_at_def parse_line_def parse_lines_def Parse_plan_def plan_lines_def replace_all.simps marker_chars_def
  List.map_filter_simps

definition two_items :: string where
  "two_items = ''- [ ] [[1]] a'' @ [LF] @ ''- [ ] b''"

lemma two_items_plan:
  "Parse_plan two_items =
     [\<lparr>itLine = ''- [ ] [[1]] a'', itMarker = CHR '' '', itID = ''1'', itText = ''a'', itIndex = 0\<rparr>,
      \<lparr>itLine = ''- [ ] b'', itMarker = CHR '' '', itID = [], itText = ''b'', itIndex = 1\<rparr>]"
  by (simp add: two_items_def plan_eval)

lemma two_items_clean: "clean_newlines two_items"
  by (simp add: clean_newlines_def two_items_def replace_all.simps byte_def)

lemma two_items_marked:
  "markLine id two_items \<lparr>itLine = ''- [ ] [[1]] a'', itMarker = CHR '' '', itID = ''1'', itText = ''a'', itIndex = 0\<rparr> ''x'' [] =
   Inr (''- [x] [[1]] a'' @ [LF] @ ''- [ ] b'')"
proof -
  have lines: "plan_lines two_items = [''- [ ] [[1]] a'', ''- [ ] b'']" by (simp add: two_items_def plan_eval)
  have m: "markerLine ''- [ ] [[1]] a'' = Some (''- '', CHR '' '', ''[[1]] a'')" by (simp add: plan_eval)
  have nl: "plan_newline two_items = [LF]" by (simp add: plan_newline_def two_items_def sublist_Cons_right)
  have w: "WithReason ''[[1]] a'' [] = ''[[1]] a''" by (simp add: WithReason_def oneLine_def Fields_def stuck_mark_def trim_right_def blank_def plan_eval)
  have v: "valid_marker ''x''" by (simp add: valid_marker_def marker_chars_def sublist_Cons_right)
  show ?thesis by (simp add: markLine_def marked_line_def two_items_plan findByID_def v lines m w nl put_line_def)
qed

theorem mark_changes_one_line_witness:
  "\<exists>s'. markLine id two_items \<lparr>itLine = ''- [ ] [[1]] a'', itMarker = CHR '' '', itID = ''1'', itText = ''a'', itIndex = 0\<rparr> ''x'' [] = Inr s' \<and>
     map itMarker (Parse_plan s') = ''x ''"
  using mark_changes_one_line [OF two_items_clean _ two_items_marked]
  by (auto simp: two_items_marked two_items_plan)

theorem every_item_gets_an_id_witness:
  "clean_newlines two_items \<and> list_all (\<lambda>x. itID x \<noteq> []) (Parse_plan (AssignIDs [] two_items)) \<and> length (Parse_plan (AssignIDs [] two_items)) = 2"
  using every_item_gets_an_id [OF two_items_clean, of "[]"] two_items_clean
  by (auto simp: two_items_plan given_id_def list_all2_Cons1)

theorem lint_refuses_duplicates_witness:
  "Refusal (Lint id (=) [] (Inr two_items)) = [] \<and> list_all (\<lambda>x. itID x = [] \<or> findByID (Parse_plan two_items) (itID x) = Inr x) (Parse_plan two_items)"
proof -
  have r: "Refusal (Lint id (=) [] (Inr two_items)) = []" by (simp add: Lint_def two_items_plan Refusal_def)
  with lint_refuses_duplicates [OF r] show ?thesis by blast
qed
end
