(* ===== verification/Plan_Worker.thy ===== *)
theory Plan_Worker
  imports Plan_Text Session
begin

text \<open>
  The driver of a plan (\<open>internal/worker/driver.go\<close>) with the plan file it marks (\<open>Plan\<close> in \<open>internal/worker/worker.go\<close>, \<open>UpdatePlanFile\<close> in
  \<open>internal/session/planfile.go\<close>): the loop that takes one item after the other, runs it, has its verifier run, marks its line and speaks to the
  planner. Between two accesses to \<open>plan.md\<close> other writers may put any text there. What the outside does in one round of the loop is a record
  \<open>round_env\<close>: the other writers, the faults of the disk, the item files, the run and its events, the verifier, the cancellations. A worker that is still
  waiting for its run, or has rounds left to go, has no result yet.
\<close>

section \<open>The plan file\<close>

text \<open>One access to \<open>plan.md\<close>: what other writers made of the file since the last one, the error of reading it, the error of a missing file and the error of
  writing it with what the failed write leaves.\<close>

record file_access =
  faEdit :: "string option \<Rightarrow> string option"
  faReadError :: "string option"
  faMissing :: string
  faWriteError :: "(string \<times> string option) option"

definition UpdatePlanFile :: "file_access \<Rightarrow> (string \<Rightarrow> bool \<Rightarrow> string + string) \<Rightarrow> string option \<Rightarrow> string option \<times> string option" where
  "UpdatePlanFile fa change f =
     (case faReadError fa of
        Some e \<Rightarrow> (f, Some e)
      | None \<Rightarrow>
          let exists = (f \<noteq> None); data = (case f of None \<Rightarrow> [] | Some s \<Rightarrow> s)
          in (case change data exists of
                Inl e \<Rightarrow> (f, Some e)
              | Inr new \<Rightarrow>
                  if exists \<and> new = data then (f, None)
                  else case faWriteError fa of
                         Some (e, left) \<Rightarrow> (left, Some e)
                       | None \<Rightarrow> (Some new, None)))"

definition plan_Read :: "file_access \<Rightarrow> string option \<Rightarrow> string + string" where
  "plan_Read fa f = (case faReadError fa of Some e \<Rightarrow> Inl e | None \<Rightarrow> (case f of None \<Rightarrow> Inl (faMissing fa) | Some s \<Rightarrow> Inr s))"

definition plan_absent :: string where
  "plan_absent = ''plan.md was not found''"

definition plan_Mark :: "(string \<Rightarrow> string) \<Rightarrow> file_access \<Rightarrow> plan_item \<Rightarrow> string \<Rightarrow> string \<Rightarrow> string option \<Rightarrow> string option \<times> string option" where
  "plan_Mark quote fa item marker reason =
     UpdatePlanFile fa (\<lambda>s exists. if \<not> exists then Inl plan_absent else markLine quote s item marker reason)"

definition plan_AssignIDs :: "file_access \<Rightarrow> string list \<Rightarrow> string option \<Rightarrow> string option \<times> string option" where
  "plan_AssignIDs fa files = UpdatePlanFile fa (\<lambda>s exists. if \<not> exists then Inl plan_absent else Inr (AssignIDs files s))"

section \<open>Outcomes\<close>

record outcome =
  ocItemID :: string
  ocMarker :: string
  ocReason :: string

definition stuck :: "string \<Rightarrow> string \<Rightarrow> outcome" where
  "stuck i reason = \<lparr>ocItemID = i, ocMarker = ''!'', ocReason = reason\<rparr>"

definition clip :: "nat \<Rightarrow> string \<Rightarrow> string" where
  "clip n s = (if length s > n then take (n - 3) s @ ''...'' else s)"

definition classify :: "string \<Rightarrow> bus_note \<Rightarrow> outcome" where
  "classify i ev =
     (let reason = str_of (mget (obj (nData ev)) ''reason''); detail = str_of (mget (obj (nData ev)) ''detail'')
      in if reason = ''done'' then \<lparr>ocItemID = i, ocMarker = ''x'', ocReason = []\<rparr>
         else if reason \<in> {''context_exhausted'', ''tool_errors'', ''cycle'', ''wall_clock''} then stuck i reason
         else if reason = [] then stuck i ''run stopped without a reason''
         else stuck i (clip 160 (if detail \<noteq> [] then reason @ '': '' @ TrimSpace detail else reason)))"

text \<open>What the \<open>select\<close> of \<open>runItem\<close> receives; a status is that of the session's run at that moment. The timer starts with the run, so before that its channel is nil and
  cannot be received from.\<close>

datatype wait_event =
    Cancelled
  | Checked string
  | Expired string
  | Streamed bus_note
  | StreamClosed

definition expired_reason :: "string \<Rightarrow> string" where
  "expired_reason status =
     (if status = ''paused'' then ''waited for approval'' else if status = ''queued'' then ''waited for the model'' else ''worker wall clock'')"

text \<open>The result with whether the run was stopped; \<open>None\<close> while the worker waits.\<close>

fun wait_item :: "string \<Rightarrow> string \<Rightarrow> string \<Rightarrow> bool \<Rightarrow> wait_event list \<Rightarrow> (outcome \<times> bool) option" where
  "wait_item i sid runID begun [] = None"
| "wait_item i sid runID begun (Cancelled # es) = Some (stuck i ''stopped'', False)"
| "wait_item i sid runID begun (Checked status # es) = wait_item i sid runID (begun \<or> status \<noteq> ''queued'' \<and> status \<noteq> []) es"
| "wait_item i sid runID begun (Expired status # es) =
     (if begun then Some (stuck i (expired_reason status), True) else wait_item i sid runID begun es)"
| "wait_item i sid runID begun (StreamClosed # es) = Some (stuck i ''event stream closed'', False)"
| "wait_item i sid runID begun (Streamed ev # es) =
     (if nType ev = RunStarted \<and> nSession ev = sid \<and> (runID = [] \<or> nRun ev = runID) then wait_item i sid runID True es
      else if nType ev \<noteq> RunStopped \<or> nSession ev \<noteq> sid then wait_item i sid runID begun es
      else if runID \<noteq> [] \<and> nRun ev \<noteq> runID then wait_item i sid runID begun es
      else Some (classify i ev, False))"

text \<open>What the verifier gives: whether one is set, its exit and output, whether the item's deadline or the worker's context ended it.\<close>

record verify_env =
  vePresent :: bool
  veOK :: bool
  veOutput :: string
  veExpired :: bool
  veCancelled :: bool

definition verify_failed :: "string \<Rightarrow> string" where
  "verify_failed output = clip 160 (''verifier failed'' @ (if oneLine output \<noteq> [] then '': '' @ oneLine output else []))"

definition verify :: "verify_env \<Rightarrow> worker_job \<Rightarrow> outcome" where
  "verify ve job =
     (if \<not> vePresent ve then stuck (wjItemID job) ''no verifier available''
      else if veOK ve \<and> \<not> veExpired ve then \<lparr>ocItemID = wjItemID job, ocMarker = ''x'', ocReason = []\<rparr>
      else if veCancelled ve then stuck (wjItemID job) ''stopped''
      else if veExpired ve then stuck (wjItemID job) ''verifier did not finish before the item deadline''
      else stuck (wjItemID job) (verify_failed (veOutput ve)))"

section \<open>Speech and events\<close>

definition lastSaid :: "message list \<Rightarrow> string" where
  "lastSaid ms =
     (case find (\<lambda>m. mRole m = ''assistant'' \<and> \<not> mElided m \<and> TrimSpace (mContent m) \<noteq> []) (rev ms) of
        None \<Rightarrow> []
      | Some m \<Rightarrow> clip 400 (TrimSpace (mContent m)))"

definition RouteTarget :: "session option list \<Rightarrow> string \<Rightarrow> session option \<times> string" where
  "RouteTarget sessions planID =
     (case find (\<lambda>x. case x of None \<Rightarrow> False | Some s \<Rightarrow> sRole s = ''d'' \<and> sPlanID s = planID \<and> \<not> sClosed s) sessions of
        Some (Some s) \<Rightarrow> (Some s, ''d'')
      | _ \<Rightarrow> (None, ''operator''))"

definition Route :: "session option list \<Rightarrow> string \<Rightarrow> string" where
  "Route sessions planID = snd (RouteTarget sessions planID)"

definition spoken_in :: "session \<Rightarrow> session option \<Rightarrow> string" where
  "spoken_in s target = (case target of None \<Rightarrow> sID s | Some t \<Rightarrow> sID t)"

definition Ask :: "session \<Rightarrow> worker_job \<Rightarrow> session option \<Rightarrow> string \<Rightarrow> string \<Rightarrow> string \<Rightarrow> bus_note" where
  "Ask s job target runID question routedTo =
     New WorkerJobEvent (spoken_in s target) runID
       [(''plan_id'', VStr (sPlanID s)), (''item'', VStr (wjItemID job)), (''question'', VStr question), (''routed_to'', VStr routedTo),
        (''role'', VStr ''c''), (''worker'', VStr (sID s))]"

definition name_a_verifier :: string where
  "name_a_verifier = ''This item names no verifier command; name one with verify: so the worker can check it.''"

definition AskVerifier :: "session \<Rightarrow> worker_job \<Rightarrow> session option \<Rightarrow> string \<Rightarrow> plan_item \<Rightarrow> item_files \<Rightarrow> bus_note" where
  "AskVerifier s job target routedTo item files =
     (let i = wjItemID job; named = (if i = [] then ''item'' else i);
          path = (if i \<noteq> [] \<and> mget files i \<noteq> None then ''plan/items/'' @ i @ ''.md'' else ''plan.md'')
      in New WorkerJobEvent (spoken_in s target) []
           [(''plan_id'', VStr (sPlanID s)), (''item'', VStr i), (''question'', VStr name_a_verifier), (''routed_to'', VStr routedTo), (''role'', VStr ''c''),
            (''worker'', VStr (sID s)),
            (''proposal'', VObj [(''id'', VStr (''verify-'' @ named)), (''kind'', VStr ''verifier''), (''path'', VStr path), (''old_text'', VStr (WithReason (itText item) [])),
               (''new_text'', VStr []), (''item_id'', VStr named)])])"

definition Publish :: "session \<Rightarrow> string \<Rightarrow> outcome \<Rightarrow> bus_note list" where
  "Publish s runID oc =
     (if ocMarker oc = ''x'' then [New ItemDone (sID s) runID [(''item'', VStr (ocItemID oc)), (''plan_id'', VStr (sPlanID s))]]
      else if ocMarker oc = ''!''
      then [New ItemStuck (sID s) runID [(''item'', VStr (ocItemID oc)), (''plan_id'', VStr (sPlanID s)), (''reason'', VStr (ocReason oc))]]
      else [])"

definition PublishPlanDone :: "session \<Rightarrow> string \<Rightarrow> nat \<Rightarrow> nat \<Rightarrow> bus_note" where
  "PublishPlanDone s runID finished stuck_items =
     New PlanDone (sID s) runID [(''plan_id'', VStr (sPlanID s)), (''done'', VInt (int finished)), (''stuck'', VInt (int stuck_items))]"

section \<open>One item\<close>

record plan_summary =
  smPlanID :: string
  smDone :: nat
  smStuck :: nat
  smWaiting :: nat
  smReasons :: "string list"
  smStopped :: bool

text \<open>What the worker did, in order: a marker it wrote, a run it submitted, a run it stopped, a verifier it ran with whether it passed in time.\<close>

datatype worker_step =
    Marked string string
  | Submitted string
  | RunEnded
  | Verified string bool

text \<open>The worker's session with its job, \<open>plan.md\<close>, and what it published and did.\<close>

record worker =
  wkSession :: session
  wkJob :: worker_job
  wkPlan :: "string option"
  wkBus :: "bus_note list"
  wkDid :: "worker_step list"

definition SetWorkerJob :: "worker_job \<Rightarrow> worker \<Rightarrow> worker" where
  "SetWorkerJob job w = w\<lparr>wkJob := job\<rparr>"

definition did :: "worker_step \<Rightarrow> worker \<Rightarrow> worker" where
  "did step w = w\<lparr>wkDid := wkDid w @ [step]\<rparr>"

definition say :: "bus_note list \<Rightarrow> worker \<Rightarrow> worker" where
  "say notes w = w\<lparr>wkBus := wkBus w @ notes\<rparr>"

text \<open>One round of the loop. The accesses to \<open>plan.md\<close> are numbered 0 to 4 (ids, read, mark, read, mark) and the looks at the item files 0 to 3 (ids, next item, brief, question).
  \<open>rdLeft\<close> is what the run left of the session's messages.\<close>

record round_env =
  rdStopFirst :: bool
  rdDisk :: "nat \<Rightarrow> file_access"
  rdFiles :: "nat \<Rightarrow> item_files"
  rdSubmit :: "string + string"
  rdWait :: "wait_event list"
  rdLeft :: "message list"
  rdVerify :: verify_env
  rdSessions :: "session option list"
  rdStopLast :: bool

definition others_write :: "round_env \<Rightarrow> nat \<Rightarrow> worker \<Rightarrow> worker" where
  "others_write rd k w = w\<lparr>wkPlan := faEdit (rdDisk rd k) (wkPlan w)\<rparr>"

definition give_ids :: "round_env \<Rightarrow> worker \<Rightarrow> worker \<times> string option" where
  "give_ids rd w =
     (let w1 = others_write rd 0 w
      in case plan_AssignIDs (rdDisk rd 0) (keys (rdFiles rd 0)) (wkPlan w1) of (f, err) \<Rightarrow> (w1\<lparr>wkPlan := f\<rparr>, err))"

definition read_plan :: "round_env \<Rightarrow> nat \<Rightarrow> worker \<Rightarrow> worker \<times> (string + plan_item list)" where
  "read_plan rd k w = (let w1 = others_write rd k w in (w1, map_sum id Parse_plan (plan_Read (rdDisk rd k) (wkPlan w1))))"

definition mark_item :: "(string \<Rightarrow> string) \<Rightarrow> round_env \<Rightarrow> nat \<Rightarrow> plan_item \<Rightarrow> string \<Rightarrow> string \<Rightarrow> worker \<Rightarrow> worker \<times> string option" where
  "mark_item quote rd k item marker reason w =
     (let w1 = others_write rd k w
      in case plan_Mark quote (rdDisk rd k) item marker reason (wkPlan w1) of
           (f, Some e) \<Rightarrow> (w1\<lparr>wkPlan := f\<rparr>, Some e)
         | (f, None) \<Rightarrow> (did (Marked (itID item) marker) (w1\<lparr>wkPlan := f\<rparr>), None))"

definition runItem :: "round_env \<Rightarrow> plan_item \<Rightarrow> worker \<Rightarrow> (worker \<times> outcome) option" where
  "runItem rd item w =
     (case rdSubmit rd of
        Inl e \<Rightarrow> Some (w, stuck (wjItemID (wkJob w)) (''could not start: '' @ e))
      | Inr runID \<Rightarrow>
          (case wait_item (wjItemID (wkJob w)) (sID (wkSession w)) runID False (rdWait rd) of
             None \<Rightarrow> None
           | Some (oc, stopped) \<Rightarrow>
               let w1 = did (Submitted (itText item)) (w\<lparr>wkSession := (wkSession w)\<lparr>sMessages := rdLeft rd\<rparr>\<rparr>)
               in Some (if stopped then did RunEnded w1 else w1, oc)))"

definition run_verifier :: "round_env \<Rightarrow> worker \<Rightarrow> worker \<times> outcome" where
  "run_verifier rd w =
     (let oc = verify (rdVerify rd) (wkJob w)
      in (if vePresent (rdVerify rd) then did (Verified (wjVerify (wkJob w)) (veOK (rdVerify rd) \<and> \<not> veExpired (rdVerify rd))) w else w, oc))"

definition work_item :: "round_env \<Rightarrow> plan_item \<Rightarrow> worker \<Rightarrow> (worker \<times> outcome) option" where
  "work_item rd item w =
     (if wjVerify (wkJob w) = [] then Some (w, stuck (wjItemID (wkJob w)) NoVerifier)
      else case runItem rd item w of
             None \<Rightarrow> None
           | Some (w1, oc) \<Rightarrow> Some (if ocMarker oc = ''x'' then run_verifier rd w1 else (w1, oc)))"

definition counted_outcome :: "plan_item \<Rightarrow> outcome \<Rightarrow> plan_summary \<Rightarrow> plan_summary" where
  "counted_outcome item oc sm =
     (if ocMarker oc = ''x'' then sm\<lparr>smDone := smDone sm + 1\<rparr>
      else sm\<lparr>smStuck := smStuck sm + 1, smReasons := smReasons sm @ (if ocReason oc \<noteq> [] then [itText item @ '': '' @ ocReason oc] else [])\<rparr>)"

definition speak :: "round_env \<Rightarrow> plan_item \<Rightarrow> outcome \<Rightarrow> worker \<Rightarrow> worker" where
  "speak rd current oc w =
     (let s = wkSession w; (target, routed) = RouteTarget (rdSessions rd) (sPlanID s); question = lastSaid (sMessages s)
      in say ((if ocReason oc = NoVerifier then [AskVerifier s (wkJob w) target routed current (rdFiles rd 3)]
               else if ocMarker oc \<noteq> ''x'' \<and> question \<noteq> [] then [Ask s (wkJob w) target [] question routed] else []) @
              Publish s [] oc) w)"

section \<open>The loop\<close>

text \<open>How a round ends: the loop goes on, breaks, or returns an error.\<close>

datatype round_end = GoOn | Break | Fail string

definition finish_item :: "(string \<Rightarrow> string) \<Rightarrow> round_env \<Rightarrow> plan_item \<Rightarrow> outcome \<Rightarrow> plan_summary \<Rightarrow> worker \<Rightarrow> worker \<times> plan_summary \<times> round_end" where
  "finish_item quote rd item oc sm w =
     (case read_plan rd 3 w of
        (w1, Inl e) \<Rightarrow> (w1, sm, Fail e)
      | (w1, Inr items) \<Rightarrow>
          (case findByID items (itID item) of
             Inl e \<Rightarrow> (w1, sm, Fail (e @ '' while the worker was on it''))
           | Inr current \<Rightarrow>
               (case mark_item quote rd 4 current (ocMarker oc) (ocReason oc) w1 of
                  (w2, Some e) \<Rightarrow> (w2, sm, Fail e)
                | (w2, None) \<Rightarrow>
                    let w3 = speak rd current oc w2
                    in if rdStopLast rd then (w3, sm\<lparr>smStopped := True\<rparr>, Break) else (w3, sm, GoOn))))"

definition take_item :: "(string \<Rightarrow> string) \<Rightarrow> string \<Rightarrow> round_env \<Rightarrow> plan_item \<Rightarrow> plan_summary \<Rightarrow> worker \<Rightarrow> (worker \<times> plan_summary \<times> round_end) option" where
  "take_item quote repo rd item0 sm w =
     (case mark_item quote rd 2 item0 ''~'' [] w of
        (w1, Some e) \<Rightarrow> Some (w1, sm, Fail e)
      | (w1, None) \<Rightarrow>
          let item = item0\<lparr>itText := WithReason (itText item0) []\<rparr>
          in (case work_item rd item (SetWorkerJob (Brief item (rdFiles rd 2) repo) w1) of
                None \<Rightarrow> None
              | Some (w2, oc) \<Rightarrow> Some (finish_item quote rd item oc (counted_outcome item oc sm) w2)))"

definition plan_round :: "(string \<Rightarrow> string) \<Rightarrow> string \<Rightarrow> round_env \<Rightarrow> plan_summary \<Rightarrow> worker \<Rightarrow> (worker \<times> plan_summary \<times> round_end) option" where
  "plan_round quote repo rd sm w =
     (if rdStopFirst rd then Some (w, sm\<lparr>smStopped := True\<rparr>, Break)
      else case give_ids rd w of
             (w1, Some e) \<Rightarrow> Some (w1, sm, Fail e)
           | (w1, None) \<Rightarrow>
               (case read_plan rd 1 w1 of
                  (w2, Inl e) \<Rightarrow> Some (w2, sm, Fail e)
                | (w2, Inr items) \<Rightarrow>
                    (case NextIn items (rdFiles rd 1) of
                       None \<Rightarrow> Some (w2, sm, Break)
                     | Some item \<Rightarrow> take_item quote repo rd item sm w2)))"

fun plan_rounds :: "(string \<Rightarrow> string) \<Rightarrow> string \<Rightarrow> round_env list \<Rightarrow> plan_summary \<Rightarrow> worker \<Rightarrow> (worker \<times> plan_summary \<times> string option) option" where
  "plan_rounds quote repo [] sm w = None"
| "plan_rounds quote repo (rd # rds) sm w =
     (case plan_round quote repo rd sm w of
        None \<Rightarrow> None
      | Some (w1, sm1, GoOn) \<Rightarrow> plan_rounds quote repo rds sm1 w1
      | Some (w1, sm1, Break) \<Rightarrow> Some (w1, sm1, None)
      | Some (w1, sm1, Fail e) \<Rightarrow> Some (w1, sm1, Some e))"

definition waiting_items :: "string \<Rightarrow> nat" where
  "waiting_items s = length (filter (\<lambda>x. itMarker x = CHR '' '') (Parse_plan s))"

text \<open>After the loop the plan is read once more, through the access \<open>fa\<close>; an error there leaves the count alone.\<close>

definition close_plan :: "file_access \<Rightarrow> plan_summary \<Rightarrow> worker \<Rightarrow> worker \<times> plan_summary" where
  "close_plan fa sm w =
     (let w1 = w\<lparr>wkPlan := faEdit fa (wkPlan w)\<rparr>;
          sm1 = (case plan_Read fa (wkPlan w1) of Inl e \<Rightarrow> sm | Inr s \<Rightarrow> sm\<lparr>smWaiting := waiting_items s\<rparr>)
      in (if \<not> smStopped sm1 \<and> smWaiting sm1 = 0 then say [PublishPlanDone (wkSession w1) [] (smDone sm1) (smStuck sm1)] w1 else w1, sm1))"

section \<open>The driver\<close>

record driver =
  drRunning :: "string list"
  drLast :: "(string, plan_summary) gomap"
  drLastError :: "(string, string) gomap"

definition Running :: "string \<Rightarrow> driver \<Rightarrow> bool" where
  "Running planID d \<longleftrightarrow> planID \<in> set (drRunning d)"

definition zero_summary :: plan_summary where
  "zero_summary = \<lparr>smPlanID = [], smDone = 0, smStuck = 0, smWaiting = 0, smReasons = [], smStopped = False\<rparr>"

definition Result :: "string \<Rightarrow> driver \<Rightarrow> plan_summary \<times> string \<times> bool" where
  "Result planID d =
     (case mget (drLast d) planID of
        None \<Rightarrow> (zero_summary, mget_or [] (drLastError d) planID, False)
      | Some sm \<Rightarrow> (sm, mget_or [] (drLastError d) planID, True))"

definition record_outcome :: "string \<Rightarrow> plan_summary \<Rightarrow> string option \<Rightarrow> driver \<Rightarrow> driver" where
  "record_outcome planID sm err d =
     d\<lparr>drLast := mput planID sm (drLast d),
       drLastError := (case err of None \<Rightarrow> mdel planID (drLastError d) | Some e \<Rightarrow> mput planID e (mdel planID (drLastError d)))\<rparr>"

definition claim_plan :: "string \<Rightarrow> driver \<Rightarrow> driver option" where
  "claim_plan planID d = (if Running planID d then None else Some (d\<lparr>drRunning := planID # drRunning d\<rparr>))"

definition release_plan :: "string \<Rightarrow> driver \<Rightarrow> driver" where
  "release_plan planID d = d\<lparr>drRunning := filter (\<lambda>p. p \<noteq> planID) (drRunning d)\<rparr>"

definition already_running :: string where
  "already_running = ''a worker is already running on this plan''"

definition goPlan ::
  "(string \<Rightarrow> string) \<Rightarrow> string \<Rightarrow> round_env list \<Rightarrow> file_access \<Rightarrow> worker \<Rightarrow> driver \<Rightarrow> (worker \<times> driver \<times> plan_summary \<times> string option) option" where
  "goPlan quote repo rds fa w d =
     (let planID = sPlanID (wkSession w)
      in case claim_plan planID d of
           None \<Rightarrow> Some (w, d, zero_summary, Some already_running)
         | Some d1 \<Rightarrow>
             (case plan_rounds quote repo rds (zero_summary\<lparr>smPlanID := planID\<rparr>) w of
                None \<Rightarrow> None
              | Some (w1, sm, Some e) \<Rightarrow> Some (w1, release_plan planID (record_outcome planID sm (Some e) d1), sm, Some e)
              | Some (w1, sm, None) \<Rightarrow>
                  (case close_plan fa sm w1 of
                     (w2, sm2) \<Rightarrow> Some (w2, release_plan planID (record_outcome planID sm2 None d1), sm2, None))))"

text \<open>\<open>Stop\<close>: whether there was a worker to cancel, and the session whose run is stopped with it.\<close>

definition driver_Stop :: "string \<Rightarrow> string \<Rightarrow> driver \<Rightarrow> bool \<times> string option" where
  "driver_Stop planID sid d = (if \<not> Running planID d then (False, None) else (True, if sid \<noteq> [] then Some sid else None))"

section \<open>What a round does to the record\<close>

lemma did_sel [simp]: "wkDid (did step w) = wkDid w @ [step]" "wkJob (did step w) = wkJob w" "wkSession (did step w) = wkSession w" "wkPlan (did step w) = wkPlan w"
  by (simp_all add: did_def)

lemma others_write_sel [simp]: "wkDid (others_write rd k w) = wkDid w" "wkJob (others_write rd k w) = wkJob w" "wkSession (others_write rd k w) = wkSession w"
  by (simp_all add: others_write_def)

lemma say_sel [simp]: "wkDid (say notes w) = wkDid w" "wkPlan (say notes w) = wkPlan w" "wkSession (say notes w) = wkSession w"
  by (simp_all add: say_def)

lemma SetWorkerJob_sel [simp]: "wkDid (SetWorkerJob job w) = wkDid w" "wkJob (SetWorkerJob job w) = job" "wkPlan (SetWorkerJob job w) = wkPlan w" "wkSession (SetWorkerJob job w) = wkSession w"
  by (simp_all add: SetWorkerJob_def)

lemma speak_sel [simp]: "wkDid (speak rd current oc w) = wkDid w" "wkPlan (speak rd current oc w) = wkPlan w" "wkSession (speak rd current oc w) = wkSession w"
  by (simp_all add: speak_def Let_def split_beta)

lemma outcome_marker: "ocMarker (stuck i r) = ''!''" "ocMarker (classify i ev) \<in> {''x'', ''!''}" "ocMarker (verify ve job) \<in> {''x'', ''!''}"
  by (simp_all add: stuck_def classify_def verify_def Let_def)

lemma wait_item_marker: "wait_item i sid runID begun es = Some (oc, stopped) \<Longrightarrow> ocMarker oc \<in> {''x'', ''!''} \<and> (ocMarker oc = ''x'' \<longrightarrow> \<not> stopped)"
  by (induction i sid runID begun es rule: wait_item.induct) (use outcome_marker in \<open>auto split: if_splits\<close>)

definition unmarked :: "worker_step list \<Rightarrow> bool" where
  "unmarked steps \<longleftrightarrow> (\<forall>i m. Marked i m \<notin> set steps)"

lemma work_item_did:
  assumes "work_item rd item w = Some (w', oc)"
  shows "\<exists>body. wkDid w' = wkDid w @ body \<and> unmarked body \<and> ocMarker oc \<in> {''x'', ''!''} \<and>
    (ocMarker oc = ''x'' \<longrightarrow> wjVerify (wkJob w) \<noteq> [] \<and> body = [Submitted (itText item), Verified (wjVerify (wkJob w)) True])"
proof (cases "wjVerify (wkJob w) = []")
  case True
  then show ?thesis using assms by (auto simp: work_item_def unmarked_def outcome_marker)
next
  case False
  obtain w1 oc1 where r: "runItem rd item w = Some (w1, oc1)" "(w', oc) = (if ocMarker oc1 = ''x'' then run_verifier rd w1 else (w1, oc1))"
    using assms False by (auto simp: work_item_def split: option.splits)
  have j: "wkJob w1 = wkJob w" using r(1) by (auto simp: runItem_def Let_def split: sum.splits option.splits)
  have m: "\<exists>body. wkDid w1 = wkDid w @ body \<and> unmarked body \<and> ocMarker oc1 \<in> {''x'', ''!''} \<and> (ocMarker oc1 = ''x'' \<longrightarrow> body = [Submitted (itText item)])"
    using r(1) wait_item_marker by (fastforce simp: runItem_def Let_def unmarked_def outcome_marker split: sum.splits option.splits if_splits)
  show ?thesis
  proof (cases "ocMarker oc1 = ''x''")
    case True
    have "wkDid w' = wkDid w1 @ (if vePresent (rdVerify rd) then [Verified (wjVerify (wkJob w)) (veOK (rdVerify rd) \<and> \<not> veExpired (rdVerify rd))] else [])"
        "oc = verify (rdVerify rd) (wkJob w)" using r(2) True j by (auto simp: run_verifier_def Let_def)
    then show ?thesis using m True False outcome_marker(3) [of "rdVerify rd" "wkJob w"]
      by (auto simp: verify_def unmarked_def outcome_marker split: if_splits)
  next
    case no: False
    then show ?thesis using r(2) m by auto
  qed
qed

lemma mark_item_did:
  "mark_item quote rd k item marker reason w = (w', err) \<Longrightarrow> wkDid w' = wkDid w @ (if err = None then [Marked (itID item) marker] else []) \<and> wkSession w' = wkSession w \<and> wkJob w' = wkJob w"
  by (auto simp: mark_item_def Let_def split: prod.splits option.splits)

lemma findByID_Inr: "findByID items i = Inr x \<Longrightarrow> itID x = i \<and> x \<in> set items \<and> filter (\<lambda>y. itID y = i) items = [x]"
  using filter_head [of "\<lambda>y. itID y = i" items x "[]"] by (auto simp: findByID_def split: list.splits)

lemma give_ids_did: "give_ids rd w = (w', err) \<Longrightarrow> wkDid w' = wkDid w \<and> wkSession w' = wkSession w"
  by (auto simp: give_ids_def Let_def split: prod.splits)

lemma read_plan_did: "read_plan rd k w = (w', res) \<Longrightarrow> wkDid w' = wkDid w \<and> wkSession w' = wkSession w \<and> wkJob w' = wkJob w"
  by (auto simp: read_plan_def Let_def)

text \<open>A round takes no item, or the next one of the plan as it was read.\<close>

lemma plan_round_cases:
  assumes "plan_round quote repo rd sm w = Some (w', sm', r)"
  obtains (quiet) "wkDid w' = wkDid w" "wkSession w' = wkSession w" "r \<noteq> GoOn" "smDone sm' = smDone sm" "smStuck sm' = smStuck sm"
  | (took) w2 item where "wkDid w2 = wkDid w" "wkSession w2 = wkSession w" "take_item quote repo rd item sm w2 = Some (w', sm', r)"
proof -
  obtain w1 e1 where g: "give_ids rd w = (w1, e1)" by force
  obtain w2 res where p: "read_plan rd 1 w1 = (w2, res)" by force
  note d = give_ids_did [OF g] read_plan_did [OF p]
  show thesis
  proof (cases "\<not> rdStopFirst rd \<and> e1 = None \<and> (\<exists>items item. res = Inr items \<and> NextIn items (rdFiles rd 1) = Some item)")
    case True
    then obtain items item where t: "\<not> rdStopFirst rd" "e1 = None" "res = Inr items" "NextIn items (rdFiles rd 1) = Some item" by blast
    have "take_item quote repo rd item sm w2 = Some (w', sm', r)" using assms t p by (simp add: plan_round_def g del: One_nat_def)
    with d show thesis by (intro took) auto
  next
    case False
    then show thesis using assms d p
      by (intro quiet) (auto simp: plan_round_def g simp del: One_nat_def split: if_splits option.splits sum.splits)
  qed
qed

text \<open>A marker the worker writes is the first of its round, or the verdict on the item it took; a verdict \<open>x\<close> comes right after the item's run and its passed verifier.\<close>

definition round_did :: "worker_step list \<Rightarrow> bool" where
  "round_did steps \<longleftrightarrow> steps = [] \<or>
     (\<exists>i body. unmarked body \<and>
        (steps = Marked i ''~'' # body \<or>
         steps = Marked i ''~'' # body @ [Marked i ''!''] \<or>
         steps = Marked i ''~'' # body @ [Marked i ''x''] \<and> (\<exists>t cmd. cmd \<noteq> [] \<and> body = [Submitted t, Verified cmd True])))"

lemma plan_round_did:
  assumes "plan_round quote repo rd sm w = Some (w', sm', r)"
  shows "\<exists>steps. wkDid w' = wkDid w @ steps \<and> round_did steps"
proof -
  have here: "\<exists>steps. wkDid w' = wkDid w @ steps \<and> round_did steps" if "wkDid w' = wkDid w" using that by (intro exI [of _ "[]"]) (simp add: round_did_def)
  show ?thesis
  proof (cases rule: plan_round_cases [OF assms])
    case (2 w2 item)
    note took = 2(1,3)
    obtain w3 err where m: "mark_item quote rd 2 item ''~'' [] w2 = (w3, err)" by force
    note d3 = mark_item_did [OF m] took(1)
    show ?thesis
    proof (cases err)
      case (Some e)
      then show ?thesis using took(2) d3 here by (simp add: take_item_def m)
    next
      case None
      let ?item = "item\<lparr>itText := WithReason (itText item) []\<rparr>"
      obtain w4 oc where wk: "work_item rd ?item (SetWorkerJob (Brief ?item (rdFiles rd 2) repo) w3) = Some (w4, oc)"
          "(w', sm', r) = finish_item quote rd ?item oc (counted_outcome ?item oc sm) w4"
        using took(2) m None by (auto simp: take_item_def Let_def split: option.splits)
      from work_item_did [OF wk(1)] obtain body where b: "wkDid w4 = wkDid w @ Marked (itID item) ''~'' # body" "unmarked body" "ocMarker oc \<in> {''x'', ''!''}"
          "ocMarker oc = ''x'' \<Longrightarrow> \<exists>t cmd. cmd \<noteq> [] \<and> body = [Submitted t, Verified cmd True]" using d3 None by auto
      have "wkDid w' = wkDid w4 \<or> wkDid w' = wkDid w4 @ [Marked (itID item) (ocMarker oc)]"
        using wk(2) mark_item_did findByID_Inr
        by (fastforce simp: finish_item_def read_plan_def Let_def split: sum.splits prod.splits option.splits if_splits)
      then consider "wkDid w' = wkDid w @ Marked (itID item) ''~'' # body" | "wkDid w' = wkDid w @ Marked (itID item) ''~'' # body @ [Marked (itID item) ''!'']"
        | t cmd where "wkDid w' = wkDid w @ Marked (itID item) ''~'' # body @ [Marked (itID item) ''x'']" "cmd \<noteq> []" "body = [Submitted t, Verified cmd True]"
        using b by auto
      then show ?thesis unfolding round_did_def by cases (use b(2) in blast)+
    qed
  qed (use here in blast)
qed

lemma round_did_x:
  assumes "round_did steps" "steps = pre @ Marked i ''x'' # post"
  shows "\<exists>t cmd. cmd \<noteq> [] \<and> pre = [Marked i ''~'', Submitted t, Verified cmd True] \<and> post = []"
proof -
  from assms obtain j body where b: "unmarked body" "steps = Marked j ''~'' # body \<or> steps = Marked j ''~'' # body @ [Marked j ''!''] \<or>
      steps = Marked j ''~'' # body @ [Marked j ''x''] \<and> (\<exists>t cmd. cmd \<noteq> [] \<and> body = [Submitted t, Verified cmd True])"
    by (auto simp: round_did_def)
  have "Marked i ''x'' \<in> set steps" using assms(2) by simp
  with b have s: "steps = Marked j ''~'' # body @ [Marked j ''x'']" "\<exists>t cmd. cmd \<noteq> [] \<and> body = [Submitted t, Verified cmd True]"
    by (auto simp: unmarked_def)
  then obtain t cmd where e: "cmd \<noteq> []" "body = [Submitted t, Verified cmd True]" by blast
  have "pre @ Marked i ''x'' # post = [Marked j ''~'', Submitted t, Verified cmd True, Marked j ''x'']" using assms(2) s(1) e(2) by simp
  then show ?thesis using e(1) by (auto simp: append_eq_Cons_conv Cons_eq_append_conv)
qed

text \<open>Every item is marked \<open>x\<close> right after its own run and a passed verifier.\<close>

definition earned :: "worker_step list \<Rightarrow> bool" where
  "earned steps \<longleftrightarrow> (\<forall>pre i post. steps = pre @ Marked i ''x'' # post \<longrightarrow>
     (\<exists>before t cmd. pre = before @ [Marked i ''~'', Submitted t, Verified cmd True] \<and> cmd \<noteq> []))"

lemma earned_append:
  assumes "earned steps" "round_did new"
  shows "earned (steps @ new)"
  unfolding earned_def
proof (intro allI impI)
  fix pre i post assume eq: "steps @ new = pre @ Marked i ''x'' # post"
  show "\<exists>before t cmd. pre = before @ [Marked i ''~'', Submitted t, Verified cmd True] \<and> cmd \<noteq> []"
  proof (cases "length pre < length steps")
    case True
    then have "steps = pre @ Marked i ''x'' # take (length steps - Suc (length pre)) post"
      using arg_cong [OF eq, of "take (length steps)"] by (simp add: take_Cons')
    with assms(1) show ?thesis unfolding earned_def by blast
  next
    case False
    then obtain mid where m: "pre = steps @ mid" using eq by (metis append_eq_append_conv_if append_take_drop_id linorder_not_less)
    then have "new = mid @ Marked i ''x'' # post" using eq by simp
    from round_did_x [OF assms(2) this] m show ?thesis by auto
  qed
qed

lemma plan_rounds_earned:
  "plan_rounds quote repo rds sm w = Some (w', sm', err) \<Longrightarrow> \<exists>steps. wkDid w' = wkDid w @ steps \<and> (earned (wkDid w) \<longrightarrow> earned (wkDid w'))"
proof (induction rds arbitrary: sm w)
  case (Cons rd rds)
  obtain w1 sm1 r where p: "plan_round quote repo rd sm w = Some (w1, sm1, r)" using Cons.prems by (auto split: option.splits)
  from plan_round_did [OF p] obtain steps where s: "wkDid w1 = wkDid w @ steps" "round_did steps" by blast
  show ?case
  proof (cases r)
    case GoOn
    with Cons.prems p have "plan_rounds quote repo rds sm1 w1 = Some (w', sm', err)" by simp
    from Cons.IH [OF this] s earned_append show ?thesis by auto
  qed (use Cons.prems p s earned_append in auto)
qed simp

lemma goPlan_cases:
  assumes "goPlan quote repo rds fa w d = Some (w', d', sm, err)"
  defines "p \<equiv> sPlanID (wkSession w)"
  obtains (busy) "Running p d" "w' = w" "d' = d" "sm = zero_summary" "err = Some already_running"
  | (ran) w1 sm1 e where "\<not> Running p d" "plan_rounds quote repo rds (zero_summary\<lparr>smPlanID := p\<rparr>) w = Some (w1, sm1, e)" "err = e"
      "(w', sm) = (if e = None then close_plan fa sm1 w1 else (w1, sm1))" "d' = release_plan p (record_outcome p sm e (d\<lparr>drRunning := p # drRunning d\<rparr>))"
proof (cases "Running p d")
  case True
  with assms(1) show thesis by (intro busy) (auto simp: goPlan_def claim_plan_def p_def Let_def)
next
  case False
  then obtain w1 sm1 e where r: "plan_rounds quote repo rds (zero_summary\<lparr>smPlanID := p\<rparr>) w = Some (w1, sm1, e)"
    using assms(1) by (cases "plan_rounds quote repo rds (zero_summary\<lparr>smPlanID := p\<rparr>) w") (auto simp: goPlan_def claim_plan_def p_def Let_def)
  show thesis
  proof (cases e)
    case None
    obtain w2 sm2 where "close_plan fa sm1 w1 = (w2, sm2)" by force
    with assms(1) False r None show thesis by (intro ran [of w1 sm1 e]) (auto simp: goPlan_def claim_plan_def p_def Let_def)
  next
    case (Some x)
    with assms(1) False r show thesis by (intro ran [of w1 sm1 e]) (auto simp: goPlan_def claim_plan_def p_def Let_def)
  qed
qed

lemma close_plan_sel:
  "close_plan fa sm w = (w', sm') \<Longrightarrow> wkDid w' = wkDid w \<and> smDone sm' = smDone sm \<and> smStuck sm' = smStuck sm \<and> smStopped sm' = smStopped sm"
  by (auto simp: close_plan_def Let_def split: sum.splits if_splits)


section \<open>What a worker leaves behind\<close>

definition marks :: "string \<Rightarrow> worker_step list \<Rightarrow> nat" where
  "marks m steps = length (filter (\<lambda>s. \<exists>i. s = Marked i m) steps)"

lemma marks_simps [simp]:
  "marks m [] = 0" "marks m (a @ b) = marks m a + marks m b" "marks m (Marked i k # b) = (if k = m then 1 else 0) + marks m b"
  by (simp_all add: marks_def)

lemma marks_unmarked: "unmarked body \<Longrightarrow> marks m body = 0"
  by (auto simp: marks_def unmarked_def filter_empty_conv)

text \<open>A round that does not fail counts exactly the verdict it wrote.\<close>

definition counts_marks :: "worker \<Rightarrow> plan_summary \<Rightarrow> worker \<Rightarrow> plan_summary \<Rightarrow> bool" where
  "counts_marks w sm w' sm' \<longleftrightarrow>
     smDone sm' + marks ''x'' (wkDid w) = smDone sm + marks ''x'' (wkDid w') \<and> smStuck sm' + marks ''!'' (wkDid w) = smStuck sm + marks ''!'' (wkDid w')"

lemma finish_item_marks:
  assumes "finish_item quote rd item oc sm w = (w', sm', r)" "\<And>e. r \<noteq> Fail e"
  shows "wkDid w' = wkDid w @ [Marked (itID item) (ocMarker oc)] \<and> smDone sm' = smDone sm \<and> smStuck sm' = smStuck sm"
proof -
  obtain w1 res where p: "read_plan rd 3 w = (w1, res)" by force
  then obtain items where i: "res = Inr items" using assms by (cases res) (auto simp: finish_item_def)
  then obtain current where c: "findByID items (itID item) = Inr current" using assms p by (cases "findByID items (itID item)") (auto simp: finish_item_def)
  obtain w2 e where m: "mark_item quote rd 4 current (ocMarker oc) (ocReason oc) w1 = (w2, e)" by force
  then have "e = None" using assms p i c by (cases e) (auto simp: finish_item_def)
  then show ?thesis using assms(1) p i c m mark_item_did [OF m] read_plan_did [OF p] findByID_Inr [OF c]
    by (auto simp: finish_item_def Let_def split: if_splits)
qed

lemma plan_round_counts:
  assumes "plan_round quote repo rd sm w = Some (w', sm', r)" "\<And>e. r \<noteq> Fail e"
  shows "counts_marks w sm w' sm'"
  using assms(1)
proof (cases rule: plan_round_cases)
  case (took w2 item)
  let ?item = "item\<lparr>itText := WithReason (itText item) []\<rparr>"
  obtain w3 e where m: "mark_item quote rd 2 item ''~'' [] w2 = (w3, e)" by force
  have e: "e = None" using took(3) m assms(2) by (cases e) (auto simp: take_item_def)
  obtain w4 oc where wk: "work_item rd ?item (SetWorkerJob (Brief ?item (rdFiles rd 2) repo) w3) = Some (w4, oc)"
      "finish_item quote rd ?item oc (counted_outcome ?item oc sm) w4 = (w', sm', r)"
    using took(3) m e by (auto simp: take_item_def Let_def split: option.splits)
  obtain body where b: "wkDid w4 = wkDid w3 @ body" "unmarked body" "ocMarker oc \<in> {''x'', ''!''}" using work_item_did [OF wk(1)] by auto
  show ?thesis using finish_item_marks [OF wk(2) assms(2)] b mark_item_did [OF m] e took(1)
    by (auto simp: counts_marks_def counted_outcome_def marks_unmarked)
qed (simp add: counts_marks_def)

lemma plan_rounds_counts:
  "plan_rounds quote repo rds sm w = Some (w', sm', None) \<Longrightarrow> counts_marks w sm w' sm'"
proof (induction rds arbitrary: sm w)
  case (Cons rd rds)
  obtain w1 sm1 r where p: "plan_round quote repo rd sm w = Some (w1, sm1, r)" using Cons.prems by (auto split: option.splits)
  have c: "counts_marks w sm w1 sm1" by (rule plan_round_counts [OF p]) (use Cons.prems p in auto)
  show ?case
  proof (cases r)
    case GoOn
    with Cons.prems p have "plan_rounds quote repo rds sm1 w1 = Some (w', sm', None)" by simp
    from Cons.IH [OF this] c show ?thesis by (simp add: counts_marks_def)
  qed (use Cons.prems p c in auto)
qed simp

text \<open>C39. One worker per plan, and an honest done card: while a worker is on a plan a second one is refused and changes nothing; a worker that returned is no longer
  on its plan, the result it returned (with its error) is what the done card reads, other plans are untouched, and without an error the counts are the markers it wrote.\<close>

theorem worker_leaves_its_result:
  assumes "goPlan quote repo rds fa w d = Some (w', d', sm, err)"
  defines "p \<equiv> sPlanID (wkSession w)"
  shows "(if Running p d then w' = w \<and> d' = d \<and> err = Some already_running
          else \<not> Running p d' \<and> Result p d' = (sm, case err of None \<Rightarrow> [] | Some e \<Rightarrow> e, True) \<and>
            (err = None \<longrightarrow> smDone sm + marks ''x'' (wkDid w) = marks ''x'' (wkDid w') \<and> smStuck sm + marks ''!'' (wkDid w) = marks ''!'' (wkDid w'))) \<and>
    (\<forall>q. q \<noteq> p \<longrightarrow> Running q d' = Running q d \<and> Result q d' = Result q d)"
  using assms(1)
proof (cases rule: goPlan_cases)
  case busy
  then show ?thesis by (simp add: p_def)
next
  case (ran w1 sm1 e)
  have other: "Running q d' = Running q d \<and> Result q d' = Result q d" if "q \<noteq> p" for q
    using that by (simp add: ran(5) p_def Running_def release_plan_def record_outcome_def Result_def split: option.split)
  have own: "\<not> Running p d'" "Result p d' = (sm, case err of None \<Rightarrow> [] | Some e \<Rightarrow> e, True)"
    by (simp_all add: ran(3,5) p_def Running_def release_plan_def record_outcome_def Result_def split: option.split)
  have "smDone sm + marks ''x'' (wkDid w) = marks ''x'' (wkDid w') \<and> smStuck sm + marks ''!'' (wkDid w) = marks ''!'' (wkDid w')" if "err = None"
  proof -
    have "counts_marks w (zero_summary\<lparr>smPlanID := p\<rparr>) w1 sm1" using plan_rounds_counts ran(2,3) that by (simp add: p_def)
    moreover have "close_plan fa sm1 w1 = (w', sm)" using ran(3,4) that by simp
    ultimately show ?thesis using close_plan_sel by (fastforce simp: counts_marks_def zero_summary_def)
  qed
  then show ?thesis using ran(1) own other by (simp add: p_def)
qed


section \<open>The reason on a line\<close>

text \<open>A reason that begins with an ASCII character other than white space and \<open>n\<close>.\<close>

definition plain_reason :: "string \<Rightarrow> bool" where
  "plain_reason r \<longleftrightarrow> r \<noteq> [] \<and> byte (hd r) < 128 \<and> \<not> is_space (byte (hd r)) \<and> hd r \<noteq> CHR ''n''"

lemma runes_ASCII: "byte c < 128 \<Longrightarrow> runes (c # s) = (byte c, [c]) # runes s"
  by (simp add: decode_rune_def)

lemma TrimSpace_starts: "byte c < 128 \<Longrightarrow> \<not> is_space (byte c) \<Longrightarrow> \<exists>z. TrimSpace (c # s) = c # z"
  by (simp add: TrimSpace_def runes_ASCII dropWhile_append Let_def del: runes.simps(2))

lemma fields_of_starts: "acc \<noteq> [] \<Longrightarrow> \<exists>w ws. fields_of xs acc = (acc @ w) # ws"
proof (induction xs acc rule: fields_of.induct)
  case (2 r bs xs acc)
  show ?case
  proof (cases "is_space r")
    case False
    with 2 obtain w ws where "fields_of xs (acc @ bs) = ((acc @ bs) @ w) # ws" by auto
    with False show ?thesis by auto
  qed (use 2 in auto)
qed simp

lemma oneLine_starts:
  assumes "byte c < 128" "\<not> is_space (byte c)"
  shows "\<exists>z. oneLine (c # s) = c # z"
proof -
  obtain w ws where "fields_of (runes s) [c] = ([c] @ w) # ws" using fields_of_starts [of "[c]" "runes s"] by auto
  then have "Fields (c # s) = (c # w) # ws" using assms by (simp add: Fields_def runes_ASCII del: runes.simps(2))
  then obtain z where "join '' '' (Fields (c # s)) = c # z" by (cases ws) auto
  then show ?thesis using TrimSpace_starts [OF assms] by (simp add: oneLine_def)
qed

lemma plain_reason_oneLine: "plain_reason r \<Longrightarrow> oneLine r \<noteq> [] \<and> hd (oneLine r) = hd r"
  using oneLine_starts [of "hd r" "tl r"] by (auto simp: plain_reason_def)

lemma space_bytes: "(r, bs) \<in> set (runes s) \<Longrightarrow> is_space r \<Longrightarrow> \<forall>b \<in> set bs. white b \<or> 128 \<le> byte b"
proof (induction s rule: runes.induct)
  case (2 c s)
  obtain q n where d: "decode_rune c s = (q, n)" by force
  have n: "0 < n" using decode_rune_size [of c s] d by simp
  show ?case
  proof (cases "(r, bs) = (q, take n (c # s))")
    case True
    show ?thesis
    proof (cases "n = 1")
      case one: True
      have "white c \<or> 128 \<le> byte c" using d one True "2.prems"(2) by (cases "byte c < 128") (auto simp: white_def decode_rune_def is_space_def)
      then show ?thesis using True one by simp
    next
      case False
      with rune_high [OF d] n have "list_all (\<lambda>b. 128 \<le> byte b) (take n (c # s))" by simp
      then show ?thesis using True by (simp add: list_all_iff)
    qed
  next
    case False
    with "2.prems"(1) d have "(r, bs) \<in> set (runes (drop n (c # s)))" by (auto simp del: drop.simps)
    from "2.IH" [OF d [symmetric] refl this "2.prems"(2)] show ?thesis .
  qed
qed simp

lemma TrimSpace_outer: "\<exists>a b. s = a @ TrimSpace s @ b \<and> (\<forall>c \<in> set b. white c \<or> 128 \<le> byte c)"
proof -
  let ?sp = "\<lambda>x :: nat \<times> string. is_space (fst x)"
  define xs where "xs = dropWhile ?sp (runes s)"
  define ys where "ys = rev (takeWhile ?sp (rev xs))"
  have "runes s = takeWhile ?sp (runes s) @ rev (dropWhile ?sp (rev xs)) @ ys"
    unfolding xs_def ys_def by (metis rev_append rev_rev_ident takeWhile_dropWhile_id append.assoc)
  then have "concat (map snd (runes s)) = concat (map snd (takeWhile ?sp (runes s))) @ concat (map snd (rev (dropWhile ?sp (rev xs)))) @ concat (map snd ys)"
    by (metis concat_append map_append)
  moreover have "white c \<or> 128 \<le> byte c" if c: "c \<in> set (concat (map snd ys))" for c
  proof -
    obtain x where x: "x \<in> set ys" "c \<in> set (snd x)" using c by auto
    have "x \<in> set xs \<and> ?sp x" using x(1) set_takeWhileD [of x ?sp "rev xs"] by (simp add: ys_def)
    then have "?sp x" "x \<in> set (runes s)" using set_dropWhileD [of x ?sp "runes s"] by (auto simp: xs_def)
    with space_bytes [of "fst x" "snd x" s] x(2) show ?thesis by simp
  qed
  ultimately show ?thesis unfolding concat_runes TrimSpace_def Let_def xs_def by blast
qed

text \<open>An item stuck for another reason does not read as stuck for want of a verifier.\<close>

lemma other_reason:
  assumes "suffix a (WithReason rest r)" "plain_reason r"
  shows "\<not> HasSuffix (TrimSpace a) (stuck_mark @ NoVerifier)"
proof
  assume "HasSuffix (TrimSpace a) (stuck_mark @ NoVerifier)"
  then obtain u where u: "TrimSpace a = u @ stuck_mark @ NoVerifier" by (auto simp: suffix_def)
  obtain p q where pq: "a = p @ TrimSpace a @ q" "\<forall>c \<in> set q. white c \<or> 128 \<le> byte c" using TrimSpace_outer by blast
  obtain v where v: "WithReason rest r = v @ a" using assms(1) by (auto simp: suffix_def)
  let ?R = "oneLine r"
  note R = plain_reason_oneLine [OF assms(2)]
  obtain t where t: "WithReason rest r = t @ stuck_mark @ ?R" using R by (simp add: WithReason_def Let_def)
  have eq: "(v @ p @ u) @ stuck_mark @ NoVerifier @ q = t @ stuck_mark @ ?R" using v pq(1) u t by (metis append.assoc)
  have c: "\<not> white (hd r)" "byte (hd r) < 128" "hd r \<noteq> CHR ''n''" using assms(2) by (auto simp: plain_reason_def white_def is_space_def)
  show False
  proof (cases "length q < length ?R")
    case True
    define R1 where "R1 = take (length ?R - length q) ?R"
    have "suffix q ?R" using eq True by (metis suffix_length_suffix suffixI append.assoc less_imp_le)
    then have R1: "?R = R1 @ q" unfolding R1_def by (auto simp: suffix_def)
    have ne: "R1 \<noteq> []" using True R1 by auto
    then have hd: "hd R1 = hd r" using R R1 by (metis hd_append2)
    have "(v @ p @ u) @ stuck_mark @ NoVerifier = t @ stuck_mark @ R1" using eq R1 by simp
    moreover have "\<not> double_space R1" using oneLine_shape(1) [of r] double_space_middle [of R1 "[]" q] R1 by auto
    then have "last_index stuck_mark (t @ stuck_mark @ R1) = Some (length t)" using ne hd c(1) blank_white(1) by (intro stuck_mark_last) auto
    moreover have "last_index stuck_mark ((v @ p @ u) @ stuck_mark @ NoVerifier) = Some (length (v @ p @ u))"
      by (rule stuck_mark_last) (simp_all add: NoVerifier_def blank_def)
    ultimately have "length t = length (v @ p @ u)" "(v @ p @ u) @ stuck_mark @ NoVerifier = t @ stuck_mark @ R1" by auto
    then have "NoVerifier = R1" by (metis append_eq_append_conv)
    then show False using hd c(3) by (auto simp: NoVerifier_def)
  next
    case False
    have "suffix ?R q" using eq False by (metis suffix_length_suffix suffixI append.assoc linorder_not_less)
    then have "hd ?R \<in> set q" using R by (metis hd_in_set set_mono_suffix subsetD)
    then show False using pq(2) R c by auto
  qed
qed

section \<open>A calm plan is finished\<close>

text \<open>Nobody but the worker writes \<open>plan.md\<close>, the disk answers, the item files stay as they are, a verifier is set, and every run that starts stops, for a reason the catalogue
  declares.\<close>

definition calm_access :: "file_access \<Rightarrow> bool" where
  "calm_access fa \<longleftrightarrow> faEdit fa = id \<and> faReadError fa = None \<and> faWriteError fa = None"

definition calm :: "string \<Rightarrow> item_files \<Rightarrow> round_env \<Rightarrow> bool" where
  "calm sid files rd \<longleftrightarrow> \<not> rdStopFirst rd \<and> \<not> rdStopLast rd \<and> (\<forall>k. calm_access (rdDisk rd k) \<and> rdFiles rd k = files) \<and> vePresent (rdVerify rd) \<and>
     (\<forall>ev. Streamed ev \<in> set (rdWait rd) \<and> nType ev = RunStopped \<longrightarrow> DeclaredStopReason (str_of (mget (obj (nData ev)) ''reason''))) \<and>
     (\<forall>runID i. rdSubmit rd = Inr runID \<longrightarrow> wait_item i sid runID False (rdWait rd) \<noteq> None)"

text \<open>Every item has an id of its own and an item file under it.\<close>

definition plan_ok :: "item_files \<Rightarrow> string \<Rightarrow> bool" where
  "plan_ok files s \<longleftrightarrow> clean_newlines s \<and> distinct (map itID (Parse_plan s)) \<and> list_all (\<lambda>x. itID x \<noteq> [] \<and> mget files (itID x) \<noteq> None) (Parse_plan s)"

definition takeable :: "item_files \<Rightarrow> plan_item \<Rightarrow> bool" where
  "takeable files x \<longleftrightarrow> itMarker x = CHR '' '' \<or> Retryable x files"

definition todo :: "item_files \<Rightarrow> string \<Rightarrow> nat" where
  "todo files s = length (filter (takeable files) (Parse_plan s))"

definition verdict_ok :: "worker_job \<Rightarrow> outcome \<Rightarrow> bool" where
  "verdict_ok job oc \<longleftrightarrow> ocMarker oc = ''x'' \<or> ocMarker oc = ''!'' \<and> (wjVerify job = [] \<or> plain_reason (ocReason oc))"

lemma plain_reason_simps: "plain_reason (c # s) \<longleftrightarrow> byte c < 128 \<and> \<not> is_space (byte c) \<and> c \<noteq> CHR ''n''" "plain_reason s \<Longrightarrow> plain_reason (s @ z)"
    "plain_reason s \<Longrightarrow> plain_reason (clip 160 s)"
  by (auto simp: plain_reason_def clip_def take_Cons' split: if_splits)

lemma declared_plain: "DeclaredStopReason s \<Longrightarrow> s \<noteq> ''done'' \<Longrightarrow> plain_reason s"
  unfolding DeclaredStopReason_def declared_in_iff StopReasons_def by (auto simp: plain_reason_simps byte_def is_space_def)

lemma classify_ok: "DeclaredStopReason (str_of (mget (obj (nData ev)) ''reason'')) \<Longrightarrow> verdict_ok job (classify i ev)"
proof -
  assume d: "DeclaredStopReason (str_of (mget (obj (nData ev)) ''reason''))"
  show ?thesis
  proof (cases "str_of (mget (obj (nData ev)) ''reason'') = ''done''")
    case False
    note p = declared_plain [OF d False]
    then have "str_of (mget (obj (nData ev)) ''reason'') \<noteq> []" by (auto simp: plain_reason_def)
    then show ?thesis using p plain_reason_simps(2,3) False by (simp add: classify_def Let_def verdict_ok_def stuck_def)
  qed (simp add: classify_def verdict_ok_def)
qed

lemma wait_item_ok:
  "wait_item i sid runID begun es = Some (oc, stopped) \<Longrightarrow> (\<And>ev. Streamed ev \<in> set es \<Longrightarrow> nType ev = RunStopped \<Longrightarrow> DeclaredStopReason (str_of (mget (obj (nData ev)) ''reason''))) \<Longrightarrow>
   verdict_ok job oc"
proof (induction i sid runID begun es rule: wait_item.induct)
  case (6 i sid runID begun ev es)
  then show ?case by (auto intro: classify_ok split: if_splits)
qed (auto simp: verdict_ok_def stuck_def expired_reason_def plain_reason_simps byte_def is_space_def split: if_splits)

lemma verify_ok: "vePresent ve \<Longrightarrow> verdict_ok job (verify ve job)"
proof -
  assume v: "vePresent ve"
  have "plain_reason (verify_failed z)" for z
    unfolding verify_failed_def by (intro plain_reason_simps) (simp add: plain_reason_simps byte_def is_space_def)
  then show ?thesis using v by (simp add: verify_def verdict_ok_def stuck_def plain_reason_simps byte_def is_space_def)
qed

lemma calm_parts:
  assumes "calm sid files rd"
  shows "\<not> rdStopFirst rd" "\<not> rdStopLast rd" "rdFiles rd k = files" "faEdit (rdDisk rd k) = id" "faReadError (rdDisk rd k) = None" "faWriteError (rdDisk rd k) = None"
    "vePresent (rdVerify rd)" "others_write rd k w = w"
  using assms by (simp_all add: calm_def calm_access_def others_write_def)

lemma work_item_calm:
  assumes "calm (sID (wkSession w)) files rd"
  shows "\<exists>w' oc. work_item rd item w = Some (w', oc) \<and> verdict_ok (wkJob w) oc \<and> wkPlan w' = wkPlan w \<and> sID (wkSession w') = sID (wkSession w) \<and> sPlanID (wkSession w') = sPlanID (wkSession w)"
proof (cases "wjVerify (wkJob w) = []")
  case True
  then show ?thesis by (simp add: work_item_def verdict_ok_def stuck_def)
next
  case False
  have "\<exists>w1 oc. runItem rd item w = Some (w1, oc) \<and> verdict_ok (wkJob w) oc \<and> wkJob w1 = wkJob w \<and> wkPlan w1 = wkPlan w \<and>
      sID (wkSession w1) = sID (wkSession w) \<and> sPlanID (wkSession w1) = sPlanID (wkSession w)"
  proof (cases "rdSubmit rd")
    case (Inl e)
    then show ?thesis by (simp add: runItem_def verdict_ok_def stuck_def plain_reason_simps byte_def is_space_def)
  next
    case (Inr runID)
    then obtain oc stopped where o: "wait_item (wjItemID (wkJob w)) (sID (wkSession w)) runID False (rdWait rd) = Some (oc, stopped)"
      using assms by (fastforce simp: calm_def)
    have "verdict_ok (wkJob w) oc" using wait_item_ok [OF o] assms by (auto simp: calm_def)
    then show ?thesis by (simp add: runItem_def Inr o Let_def)
  qed
  then obtain w1 oc where r: "runItem rd item w = Some (w1, oc)" "verdict_ok (wkJob w) oc" "wkJob w1 = wkJob w" "wkPlan w1 = wkPlan w"
      "sID (wkSession w1) = sID (wkSession w)" "sPlanID (wkSession w1) = sPlanID (wkSession w)" by blast
  then show ?thesis using False verify_ok [OF calm_parts(7) [OF assms], of "wkJob w"] by (simp add: work_item_def run_verifier_def Let_def)
qed

lemma findByID_distinct: "distinct (map itID items) \<Longrightarrow> x \<in> set items \<Longrightarrow> findByID items (itID x) = Inr x"
proof -
  assume a: "distinct (map itID items)" "x \<in> set items"
  then have "filter (\<lambda>y. itID y = itID x) items = [x]"
  proof (induction items)
    case (Cons z items)
    show ?case
    proof (cases "z = x")
      case True
      then have "itID x \<notin> itID ` set items" using Cons.prems(1) by simp
      then show ?thesis using True by (auto simp: filter_empty_conv image_iff)
    next
      case False
      then have "itID z \<noteq> itID x" using Cons.prems by auto
      then show ?thesis using Cons False by auto
    qed
  qed simp
  then show ?thesis by (simp add: findByID_def)
qed

text \<open>Marking an item of a good plan works and leaves a good plan in which only that item reads differently.\<close>

lemma mark_ok:
  assumes "plan_ok files s" "x \<in> set (Parse_plan s)" "valid_marker m"
  shows "\<exists>s' y. markLine quote s x m reason = Inr s' \<and> plan_ok files s' \<and> Parse_plan s' = map (\<lambda>z. if itID z = itID x then y else z) (Parse_plan s) \<and>
    [itMarker y] = m \<and> itID y = itID x \<and> (m = ''!'' \<longrightarrow> plain_reason reason \<longrightarrow> \<not> HasSuffix (itText y) (stuck_mark @ NoVerifier))"
proof -
  have ok: "clean_newlines s" "distinct (map itID (Parse_plan s))" "itID x \<noteq> []" using assms(1,2) by (auto simp: plan_ok_def list_all_iff)
  obtain s' where s': "markLine quote s x m reason = Inr s'" using markLine_accepts [OF findByID_distinct [OF ok(2) assms(2)] ok(3) assms(2,3)] by blast
  from markLine_effect [OF ok(1,3) s'] obtain y y' rest a where e: "clean_newlines s'" "filter (\<lambda>z. itID z = itID x) (Parse_plan s) = [y]"
      "Parse_plan s' = map (\<lambda>z. if itID z = itID x then y' else z) (Parse_plan s)" "[itMarker y'] = m" "itID y' = itID y" "itText y' = TrimSpace a"
      "suffix a (WithReason rest (if m \<noteq> ''!'' then [] else reason))" by blast
  have id: "itID y' = itID x" using filter_head [OF e(2)] e(5) by simp
  have ids: "map itID (Parse_plan s') = map itID (Parse_plan s)" unfolding e(3) using id by simp
  have "list_all (\<lambda>x. itID x \<noteq> [] \<and> mget files (itID x) \<noteq> None) (Parse_plan s')"
    unfolding e(3) using assms(1,2) id by (auto simp: plan_ok_def list_all_iff)
  then have "plan_ok files s'" using e(1) ids ok(2) by (simp add: plan_ok_def)
  moreover have "\<not> HasSuffix (itText y') (stuck_mark @ NoVerifier)" if "m = ''!''" "plain_reason reason" using other_reason [OF _ that(2)] e(6,7) that(1) by simp
  ultimately show ?thesis using s' e(3,4) id by blast
qed

lemma Brief_by_id: "mget files (itID a) \<noteq> None \<Longrightarrow> itID a \<noteq> [] \<Longrightarrow> itID a = itID b \<Longrightarrow> wjVerify (Brief a files repo) = wjVerify (Brief b files repo')"
  by (simp add: Brief_def Let_def split: option.split sum.split)

text \<open>An item with its verdict is not taken again.\<close>

lemma verdict_settles:
  assumes "verdict_ok (Brief item files repo) oc" "itID y = itID item" "itID item \<noteq> []" "mget files (itID item) \<noteq> None" "[itMarker y] = ocMarker oc"
    "ocMarker oc = ''!'' \<longrightarrow> plain_reason (ocReason oc) \<longrightarrow> \<not> HasSuffix (itText y) (stuck_mark @ NoVerifier)"
  shows "\<not> takeable files y"
proof -
  have v: "wjVerify (Brief (y\<lparr>itText := z\<rparr>) files []) = wjVerify (Brief item files repo)" for z using assms(2-4) by (intro Brief_by_id) auto
  show ?thesis using assms(1,5,6) v by (auto simp: takeable_def Retryable_def verdict_ok_def)
qed

lemma filter_map_one:
  assumes "distinct (map f xs)" "x \<in> set xs" "P x" "\<not> P y"
  shows "length (filter P (map (\<lambda>z. if f z = f x then y else z) xs)) + 1 = length (filter P xs)"
  using assms
proof (induction xs)
  case (Cons z xs)
  show ?case
  proof (cases "z = x")
    case True
    then have "map (\<lambda>z. if f z = f x then y else z) xs = xs" using Cons.prems(1) by (intro map_idI) (auto simp: image_iff)
    then show ?thesis using True Cons.prems by simp
  next
    case False
    then have "f z \<noteq> f x" using Cons.prems by auto
    then show ?thesis using Cons False by auto
  qed
qed simp

lemma mark_item_calm:
  assumes "calm sid files rd" "wkPlan w = Some s" "markLine quote s x m reason = Inr s'"
  shows "mark_item quote rd k x m reason w = (did (Marked (itID x) m) (w\<lparr>wkPlan := Some s'\<rparr>), None)"
  using assms(2,3) by (auto simp: mark_item_def plan_Mark_def UpdatePlanFile_def Let_def calm_parts [OF assms(1)])

lemma read_plan_calm: "calm sid files rd \<Longrightarrow> wkPlan w = Some s \<Longrightarrow> read_plan rd k w = (w, Inr (Parse_plan s))"
  by (simp add: read_plan_def plan_Read_def Let_def calm_parts)

lemma assign_ids_none: "list_all (\<lambda>x. itID x \<noteq> []) xs \<Longrightarrow> assign_ids files xs used n ls = ls"
  by (induction xs arbitrary: used n) auto

lemma give_ids_calm:
  assumes "calm sid files rd" "wkPlan w = Some s" "plan_ok files s"
  shows "\<exists>s'. give_ids rd w = (w\<lparr>wkPlan := Some s'\<rparr>, None) \<and> plan_ok files s' \<and> Parse_plan s' = Parse_plan s"
proof -
  have "AssignIDs (keys files) s = join (plan_newline s) (plan_lines s)"
    unfolding AssignIDs_def using assms(3) by (subst assign_ids_none) (auto simp: plan_ok_def list_all_iff)
  moreover have c: "list_all (\<lambda>l. LF \<notin> set l \<and> CR \<notin> set l) (plan_lines s)" using assms(3) plan_lines_clean by (simp add: plan_ok_def)
  ultimately have p: "Parse_plan (AssignIDs (keys files) s) = Parse_plan s" "clean_newlines (AssignIDs (keys files) s)"
    using plan_lines_join [OF _ c, of s] clean_join [OF c, of s] by (simp_all add: Parse_plan_def)
  then have "plan_ok files (AssignIDs (keys files) s)" using assms(3) by (simp add: plan_ok_def)
  moreover have "give_ids rd w = (w\<lparr>wkPlan := Some (AssignIDs (keys files) s)\<rparr>, None)"
    using assms(2) by (simp add: give_ids_def plan_AssignIDs_def UpdatePlanFile_def Let_def calm_parts [OF assms(1)])
  ultimately show ?thesis using p(1) by blast
qed

lemma valid_markers: "valid_marker ''~''" "valid_marker ''x''" "valid_marker ''!''"
  by (simp_all add: valid_marker_def marker_chars_def sublist_Cons_right)

lemma take_item_calm:
  assumes "calm (sID (wkSession w)) files rd" "wkPlan w = Some s" "plan_ok files s" "x \<in> set (Parse_plan s)" "takeable files x"
  shows "\<exists>w' sm' s'. take_item quote repo rd x sm w = Some (w', sm', GoOn) \<and> wkPlan w' = Some s' \<and> plan_ok files s' \<and> todo files s' + 1 = todo files s \<and>
    sID (wkSession w') = sID (wkSession w) \<and> smDone sm' + smStuck sm' = smDone sm + smStuck sm + 1 \<and> smStopped sm' = smStopped sm"
proof -
  note calm = calm_parts [OF assms(1)]
  obtain s1 y where m1: "markLine quote s x ''~'' [] = Inr s1" "plan_ok files s1" "Parse_plan s1 = map (\<lambda>z. if itID z = itID x then y else z) (Parse_plan s)" "itID y = itID x"
    using mark_ok [OF assms(3,4) valid_markers(1)] by blast
  define w1 where "w1 = did (Marked (itID x) ''~'') (w\<lparr>wkPlan := Some s1\<rparr>)"
  have k1: "mark_item quote rd 2 x ''~'' [] w = (w1, None)" unfolding w1_def by (rule mark_item_calm [OF assms(1,2) m1(1)])
  define item where "item = x\<lparr>itText := WithReason (itText x) []\<rparr>"
  have id: "itID item = itID x" by (simp add: item_def)
  define job where "job = Brief item files repo"
  have c1: "calm (sID (wkSession (SetWorkerJob job w1))) files rd" using assms(1) by (simp add: w1_def)
  from work_item_calm [OF c1, of item] obtain w2 oc where wk: "work_item rd item (SetWorkerJob job w1) = Some (w2, oc)" "verdict_ok job oc" "wkPlan w2 = Some s1"
      "sID (wkSession w2) = sID (wkSession w)" by (auto simp: w1_def)
  have y: "y \<in> set (Parse_plan s1)" unfolding m1(3) using assms(4) by force
  have find: "findByID (Parse_plan s1) (itID item) = Inr y" using findByID_distinct [OF _ y] m1(2,4) id by (simp add: plan_ok_def)
  have vm: "valid_marker (ocMarker oc)" using wk(2) valid_markers by (auto simp: verdict_ok_def)
  obtain s2 z where m2: "markLine quote s1 y (ocMarker oc) (ocReason oc) = Inr s2" "plan_ok files s2" "Parse_plan s2 = map (\<lambda>v. if itID v = itID y then z else v) (Parse_plan s1)"
      "[itMarker z] = ocMarker oc" "itID z = itID y" "ocMarker oc = ''!'' \<longrightarrow> plain_reason (ocReason oc) \<longrightarrow> \<not> HasSuffix (itText z) (stuck_mark @ NoVerifier)"
    using mark_ok [OF m1(2) y vm, of quote "ocReason oc"] by blast
  have c2: "calm (sID (wkSession w2)) files rd" using assms(1) wk(4) by simp
  define w3 where "w3 = speak rd y oc (did (Marked (itID y) (ocMarker oc)) (w2\<lparr>wkPlan := Some s2\<rparr>))"
  have fin: "finish_item quote rd item oc (counted_outcome item oc sm) w2 = (w3, counted_outcome item oc sm, GoOn)"
    by (simp add: finish_item_def read_plan_calm [OF c2 wk(3)] find mark_item_calm [OF c2 wk(3) m2(1)] w3_def Let_def calm(2))
  have files: "itID x \<noteq> []" "mget files (itID x) \<noteq> None" using assms(3,4) by (auto simp: plan_ok_def list_all_iff)
  have "\<not> takeable files z" by (rule verdict_settles [of item files repo oc]) (use wk(2) m2 m1(4) id files in \<open>simp_all add: job_def\<close>)
  moreover have "Parse_plan s2 = map (\<lambda>v. if itID v = itID x then z else v) (Parse_plan s)" unfolding m2(3) m1(3) using m1(4) by simp
  ultimately have "todo files s2 + 1 = todo files s" unfolding todo_def using filter_map_one [of itID "Parse_plan s" x "takeable files" z] assms(3-5) by (simp add: plan_ok_def)
  moreover have "take_item quote repo rd x sm w = Some (w3, counted_outcome item oc sm, GoOn)"
    by (simp add: take_item_def k1 Let_def calm(3) item_def [symmetric] job_def [symmetric] wk(1) fin)
  ultimately show ?thesis using m2(2) wk(4) by (intro exI [of _ w3] exI [of _ "counted_outcome item oc sm"] exI [of _ s2]) (simp add: w3_def counted_outcome_def)
qed

lemma plan_rounds_calm:
  assumes "\<forall>rd \<in> set rds. calm (sID (wkSession w)) files rd" "wkPlan w = Some s" "plan_ok files s" "todo files s < length rds"
  shows "\<exists>w' sm' s'. plan_rounds quote repo rds sm w = Some (w', sm', None) \<and> wkPlan w' = Some s' \<and> todo files s' = 0 \<and>
    smDone sm' + smStuck sm' = smDone sm + smStuck sm + todo files s \<and> smStopped sm' = smStopped sm"
  using assms
proof (induction rds arbitrary: sm w s)
  case (Cons rd rds)
  have c: "calm (sID (wkSession w)) files rd" using Cons.prems(1) by simp
  obtain s1 where g: "give_ids rd w = (w\<lparr>wkPlan := Some s1\<rparr>, None)" "plan_ok files s1" "Parse_plan s1 = Parse_plan s" using give_ids_calm [OF c Cons.prems(2,3)] by blast
  let ?w = "w\<lparr>wkPlan := Some s1\<rparr>"
  have c': "calm (sID (wkSession ?w)) files rd" using c by simp
  have t: "todo files s1 = todo files s" by (simp add: todo_def g(3))
  have n: "NextIn (Parse_plan s1) (rdFiles rd 1) = find (takeable files) (Parse_plan s1)"
    unfolding NextIn_def calm_parts(3) [OF c] takeable_def [abs_def] ..
  have round: "plan_round quote repo rd sm w =
      (case find (takeable files) (Parse_plan s1) of None \<Rightarrow> Some (?w, sm, Break) | Some x \<Rightarrow> take_item quote repo rd x sm ?w)"
    using calm_parts(1) [OF c] read_plan_calm [OF c', of ?w s1 1] n by (simp add: plan_round_def g(1))
  show ?case
  proof (cases "find (takeable files) (Parse_plan s1)")
    case None
    then have "todo files s1 = 0" by (simp add: todo_def find_None_iff filter_empty_conv)
    then show ?thesis using round None t by simp
  next
    case (Some x)
    then have x: "x \<in> set (Parse_plan s1)" "takeable files x" by (auto simp: find_Some_iff)
    from take_item_calm [OF c' _ g(2) x, of quote repo sm] obtain w2 sm2 s2 where k: "take_item quote repo rd x sm ?w = Some (w2, sm2, GoOn)" "wkPlan w2 = Some s2"
        "plan_ok files s2" "todo files s2 + 1 = todo files s1" "sID (wkSession w2) = sID (wkSession w)" "smDone sm2 + smStuck sm2 = smDone sm + smStuck sm + 1" "smStopped sm2 = smStopped sm"
      by auto
    have "\<forall>rd \<in> set rds. calm (sID (wkSession w2)) files rd" "todo files s2 < length rds" using Cons.prems(1,4) k(4,5) t by auto
    from Cons.IH [OF this(1) k(2,3) this(2), of sm2] show ?thesis using round Some k t by auto
  qed
qed simp


section \<open>A plan of one item\<close>

definition demo_plan :: "char \<Rightarrow> string" where
  "demo_plan m = ''- ['' @ [m] @ ''] [[1]] a''"

definition demo_item :: "char \<Rightarrow> plan_item" where
  "demo_item m = \<lparr>itLine = demo_plan m, itMarker = m, itID = ''1'', itText = ''a'', itIndex = 0\<rparr>"

definition demo_files :: item_files where
  "demo_files = [(''1'', Inr ''verify: make'')]"

definition demo_access :: file_access where
  "demo_access = \<lparr>faEdit = id, faReadError = None, faMissing = [], faWriteError = None\<rparr>"

definition demo_round :: round_env where
  "demo_round = \<lparr>rdStopFirst = False, rdDisk = (\<lambda>_. demo_access), rdFiles = (\<lambda>_. demo_files), rdSubmit = Inr ''r1'',
     rdWait = [Streamed (New RunStarted (sID demo_chat) ''r1'' []), Streamed (New RunStopped (sID demo_chat) ''r1'' [(''reason'', VStr ''done'')])],
     rdLeft = [], rdVerify = \<lparr>vePresent = True, veOK = True, veOutput = [], veExpired = False, veCancelled = False\<rparr>, rdSessions = [], rdStopLast = False\<rparr>"

definition demo_worker :: worker where
  "demo_worker = \<lparr>wkSession = demo_chat, wkJob = \<lparr>wjItemID = [], wjIntent = [], wjApproach = [], wjAcceptance = [], wjNegative = [], wjRepo = [], wjVerify = []\<rparr>,
     wkPlan = Some (demo_plan (CHR '' '')), wkBus = [], wkDid = []\<rparr>"

definition demo_driver :: driver where
  "demo_driver = \<lparr>drRunning = [], drLast = [], drLastError = []\<rparr>"

lemma demo_lines: "m \<in> set marker_chars \<Longrightarrow> plan_lines (demo_plan m) = [demo_plan m] \<and> plan_newline (demo_plan m) = [LF] \<and> clean_newlines (demo_plan m)"
  by (auto simp: demo_plan_def plan_eval plan_newline_def clean_newlines_def sublist_Cons_right)

lemma demo_parse: "m \<in> set marker_chars \<Longrightarrow> Parse_plan (demo_plan m) = [demo_item m]"
  by (auto simp: demo_plan_def demo_item_def plan_eval)

lemma demo_mark:
  assumes "m \<in> set marker_chars" "n \<in> set marker_chars"
  shows "markLine id (demo_plan m) (demo_item m) [n] [] = Inr (demo_plan n)"
proof -
  have v: "valid_marker [n]" using assms(2) by (auto simp: valid_marker_def marker_chars_def sublist_Cons_right)
  have l: "markerLine (demo_plan m) = Some (''- '', m, ''[[1]] a'')" using assms(1) by (auto simp: demo_plan_def plan_eval)
  have w: "WithReason ''[[1]] a'' [] = ''[[1]] a''" by (simp add: WithReason_def oneLine_def Fields_def stuck_mark_def trim_right_def blank_def plan_eval)
  show ?thesis using assms demo_lines [OF assms(1)] w
    by (simp add: markLine_def marked_line_def demo_parse v findByID_def demo_item_def l put_line_def) (simp add: demo_plan_def)
qed

lemma demo_calm: "calm (sID demo_chat) demo_files demo_round" "calm_access demo_access"
proof -
  show "calm_access demo_access" by (simp add: calm_access_def demo_access_def)
  have "DeclaredStopReason ''done''" by (simp add: DeclaredStopReason_def declared_in_iff StopReasons_def)
  then show "calm (sID demo_chat) demo_files demo_round"
    by (auto simp: calm_def demo_round_def calm_access_def demo_access_def obj_def str_of_def)
qed

lemma demo_markers: "CHR '' '' \<in> set marker_chars" "CHR ''~'' \<in> set marker_chars" "CHR ''x'' \<in> set marker_chars"
  by (simp_all add: marker_chars_def)

lemma demo_verify: "wjVerify (Brief ((demo_item m)\<lparr>itText := t\<rparr>) demo_files repo) = ''make''"
  by (simp add: Brief_def demo_item_def demo_files_def item_field_def plan_eval)

lemma demo_take:
  "\<exists>w' sm'. take_item id [] demo_round (demo_item (CHR '' '')) sm demo_worker = Some (w', sm', GoOn) \<and> wkPlan w' = Some (demo_plan (CHR ''x'')) \<and>
     sID (wkSession w') = sID demo_chat \<and> wkDid w' = [Marked ''1'' ''~'', Submitted ''a'', Verified ''make'' True, Marked ''1'' ''x'']"
proof -
  let ?m = "CHR '' ''" and ?t = "CHR ''~''" and ?x = "CHR ''x''"
  note calm = calm_parts [OF demo_calm(1)]
  have m1: "mark_item id demo_round 2 (demo_item ?m) ''~'' [] demo_worker = (did (Marked ''1'' ''~'') (demo_worker\<lparr>wkPlan := Some (demo_plan ?t)\<rparr>), None)"
    using mark_item_calm [OF demo_calm(1) _ demo_mark [OF demo_markers(1,2)], of demo_worker 2] by (simp add: demo_worker_def demo_item_def)
  define item where "item = (demo_item ?m)\<lparr>itText := WithReason (itText (demo_item ?m)) []\<rparr>"
  have i: "itText item = ''a''" "itID item = ''1''"
    by (simp_all add: item_def demo_item_def WithReason_def oneLine_def Fields_def stuck_mark_def trim_right_def blank_def plan_eval)
  define job where "job = Brief item demo_files []"
  have v: "wjVerify job = ''make''" unfolding job_def item_def by (rule demo_verify)
  define w1 where "w1 = SetWorkerJob job (did (Marked ''1'' ''~'') (demo_worker\<lparr>wkPlan := Some (demo_plan ?t)\<rparr>))"
  have run: "\<exists>w2. work_item demo_round item w1 = Some (w2, \<lparr>ocItemID = wjItemID job, ocMarker = ''x'', ocReason = []\<rparr>) \<and> wkPlan w2 = Some (demo_plan ?t) \<and>
      sID (wkSession w2) = sID demo_chat \<and> wkDid w2 = [Marked ''1'' ''~'', Submitted ''a'', Verified ''make'' True]"
    by (simp add: work_item_def runItem_def run_verifier_def verify_def classify_def w1_def v demo_round_def demo_worker_def obj_def str_of_def Let_def i)
  then obtain w2 oc where w2: "work_item demo_round item w1 = Some (w2, oc)" "ocMarker oc = ''x''" "ocReason oc = []" "wkPlan w2 = Some (demo_plan ?t)" "sID (wkSession w2) = sID demo_chat"
      "wkDid w2 = [Marked ''1'' ''~'', Submitted ''a'', Verified ''make'' True]" by auto
  have c2: "calm (sID (wkSession w2)) demo_files demo_round" using demo_calm(1) w2(5) by simp
  have f: "findByID (Parse_plan (demo_plan ?t)) ''1'' = Inr (demo_item ?t)" by (simp add: demo_parse [OF demo_markers(2)] findByID_def demo_item_def)
  have m2: "mark_item id demo_round 4 (demo_item ?t) ''x'' [] w2 = (did (Marked ''1'' ''x'') (w2\<lparr>wkPlan := Some (demo_plan ?x)\<rparr>), None)"
    using mark_item_calm [OF c2 w2(4) demo_mark [OF demo_markers(2,3)], of 4] by (simp add: demo_item_def)
  have fin: "finish_item id demo_round item oc sm2 w2 = (speak demo_round (demo_item ?t) oc (did (Marked ''1'' ''x'') (w2\<lparr>wkPlan := Some (demo_plan ?x)\<rparr>)), sm2, GoOn)" for sm2
    by (simp add: finish_item_def read_plan_calm [OF c2 w2(4)] i f w2(2,3) m2 Let_def calm(2))
  show ?thesis using w2 by (simp add: take_item_def m1 Let_def calm(3) item_def [symmetric] job_def [symmetric] w1_def [symmetric] fin)
qed

lemma demo_goes:
  "\<exists>w' d' sm. goPlan id [] [demo_round, demo_round] demo_access demo_worker demo_driver = Some (w', d', sm, None) \<and>
     wkDid w' = [Marked ''1'' ''~'', Submitted ''a'', Verified ''make'' True] @ Marked ''1'' ''x'' # []"
proof -
  let ?sm = "zero_summary\<lparr>smPlanID := sPlanID demo_chat\<rparr>"
  have c: "calm (sID (wkSession demo_worker)) demo_files demo_round" using demo_calm(1) by (simp add: demo_worker_def)
  have ids: "give_ids demo_round w = (w, None)" if "wkPlan w = Some (demo_plan m)" "m \<in> set marker_chars" for w m
  proof -
    have "AssignIDs (keys demo_files) (demo_plan m) = demo_plan m"
      using demo_lines [OF that(2)] by (simp add: AssignIDs_def demo_parse [OF that(2)] demo_item_def)
    then show ?thesis using that(1) by (simp add: give_ids_def plan_AssignIDs_def UpdatePlanFile_def Let_def calm_parts [OF demo_calm(1)])
  qed
  have r: "read_plan demo_round 1 w = (w, Inr [demo_item m])" if "wkPlan w = Some (demo_plan m)" "m \<in> set marker_chars" for w m
    using read_plan_calm [OF demo_calm(1) that(1), of 1] demo_parse [OF that(2)] by simp
  have wd: "wkPlan demo_worker = Some (demo_plan (CHR '' ''))" by (simp add: demo_worker_def)
  obtain w1 sm1 where t: "take_item id [] demo_round (demo_item (CHR '' '')) ?sm demo_worker = Some (w1, sm1, GoOn)" "wkPlan w1 = Some (demo_plan (CHR ''x''))"
      "wkDid w1 = [Marked ''1'' ''~'', Submitted ''a'', Verified ''make'' True, Marked ''1'' ''x'']" using demo_take by blast
  have "plan_round id [] demo_round ?sm demo_worker = Some (w1, sm1, GoOn)"
    using t(1) r [OF wd demo_markers(1)] by (simp add: plan_round_def calm_parts(1) [OF c] ids [OF wd demo_markers(1)] NextIn_def) (simp add: demo_item_def)
  moreover have "plan_round id [] demo_round sm1 w1 = Some (w1, sm1, Break)"
    using r [OF t(2) demo_markers(3)] by (simp add: plan_round_def calm_parts(1) [OF c] ids [OF t(2) demo_markers(3)] NextIn_def) (simp add: demo_item_def Retryable_def)
  ultimately have "plan_rounds id [] [demo_round, demo_round] ?sm demo_worker = Some (w1, sm1, None)" by simp
  moreover obtain w2 sm2 where cl: "close_plan demo_access sm1 w1 = (w2, sm2)" by force
  ultimately show ?thesis using close_plan_sel [OF cl] t(3)
    by (simp add: goPlan_def claim_plan_def Running_def demo_driver_def demo_worker_def Let_def cl)
qed


theorem worker_leaves_its_result_witness:
  "\<exists>w' d' sm. goPlan id [] [demo_round, demo_round] demo_access demo_worker demo_driver = Some (w', d', sm, None) \<and> smDone sm = 1 \<and> Result [] d' = (sm, [], True)"
proof -
  obtain w' d' sm where g: "goPlan id [] [demo_round, demo_round] demo_access demo_worker demo_driver = Some (w', d', sm, None)"
      "wkDid w' = [Marked ''1'' ''~'', Submitted ''a'', Verified ''make'' True] @ Marked ''1'' ''x'' # []" using demo_goes by blast
  have p: "sPlanID (wkSession demo_worker) = []" by (simp add: demo_worker_def demo_chat_def idle_session_def)
  have "\<not> Running [] demo_driver" "wkDid demo_worker = []" by (simp_all add: Running_def demo_driver_def demo_worker_def)
  moreover have "marks ''x'' (wkDid w') = 1" unfolding g(2) by (simp add: marks_def)
  ultimately show ?thesis using worker_leaves_its_result [OF g(1)] g(1) unfolding p by auto
qed

end
