(* ===== verification/Event_Bus.thy ===== *)
theory Event_Bus
  imports Events
begin

text \<open>
  The event bus (\<open>internal/events/bus.go\<close>): events get a sequence number, go to the journal and to every subscriber's queue of 128 events; a subscriber whose queue is full is
  dropped, its drop is announced, and a listener subscribes again. The hooks of the bus (enricher, observer, sinks) are parameters, and the calls of those that only look on are
  kept in \<open>buHooks\<close>; \<open>buLog\<close> is the list of all events the bus has numbered. A channel is its subscriber's number, which is never used twice; its queue stays readable after it was closed.
\<close>

section \<open>The bus\<close>

datatype bus_hook =
    Observed event
  | AfterAppend event nat
  | AppendError event string
  | TransientSink event

record bus =
  buSeq :: int
  buSubs :: "nat list"
  buNames :: "nat \<Rightarrow> string"
  buNext :: nat
  buQueue :: "nat \<Rightarrow> event list"
  buClosed :: "nat list"
  buHooks :: "bus_hook list"
  buLog :: "event list"

text \<open>\<open>beSink\<close> and \<open>beDurable\<close> write the journal; a durable sink also gives the offset of the event. \<open>beNow\<close> is the time stamp of \<open>New\<close>.\<close>

record bus_env =
  beEnrich :: "event \<Rightarrow> event"
  beNow :: string
  beObserve :: bool
  beSink :: "(event \<Rightarrow> string option) option"
  beDurable :: "(event \<Rightarrow> nat \<times> string option) option"
  beAfterAppend :: bool
  beAppendError :: bool
  beTransient :: bool

definition NewBus :: bus where
  "NewBus = \<lparr>buSeq = 0, buSubs = [], buNames = (\<lambda>_. []), buNext = 0, buQueue = (\<lambda>_. []), buClosed = [], buHooks = [], buLog = []\<rparr>"

definition queue_size :: nat where
  "queue_size = 128"

definition new_event :: "bus_env \<Rightarrow> string \<Rightarrow> string \<Rightarrow> string \<Rightarrow> (string \<times> val) list \<Rightarrow> event" where
  "new_event env t s r d = \<lparr>nType = t, nSession = s, nRun = r, nData = VObj d, eSeq = 0, eTS = beNow env\<rparr>"

text \<open>The number, the time stamp if there is none yet, and the subscribers of this moment.\<close>

definition stamp :: "bus_env \<Rightarrow> event \<Rightarrow> bus \<Rightarrow> bus \<times> event \<times> nat list" where
  "stamp env e0 b =
     (let e1 = beEnrich env e0; seq = buSeq b + 1;
          e = e1\<lparr>eSeq := seq, eTS := (if eTS e1 = [] then beNow env else eTS e1)\<rparr>
      in (b\<lparr>buSeq := seq, buLog := buLog b @ [e]\<rparr>, e, buSubs b))"

definition write_out :: "bus_env \<Rightarrow> bool \<Rightarrow> event \<Rightarrow> nat \<times> string option" where
  "write_out env writeSink e =
     (if \<not> writeSink then (0, None)
      else case beSink env of
             Some sink \<Rightarrow> (0, sink e)
           | None \<Rightarrow> (case beDurable env of Some sink \<Rightarrow> sink e | None \<Rightarrow> (0, None)))"

definition hooked :: "bus_env \<Rightarrow> event \<Rightarrow> nat \<times> string option \<Rightarrow> bus_hook list" where
  "hooked env e out =
     (if beObserve env then [Observed e] else []) @
     (case snd out of
        None \<Rightarrow> if nSession e \<noteq> [] \<and> fst out > 0 \<and> beAfterAppend env then [AfterAppend e (fst out)] else []
      | Some err \<Rightarrow> if beAppendError env then [AppendError e err] else [])"

definition drop_subscriber :: "nat \<Rightarrow> bus \<Rightarrow> bus" where
  "drop_subscriber i b = b\<lparr>buSubs := filter (\<lambda>j. j \<noteq> i) (buSubs b), buNames := (buNames b)(i := []), buClosed := i # buClosed b\<rparr>"

definition deliver_to :: "event \<Rightarrow> nat \<Rightarrow> bus \<times> (nat \<times> string) list \<Rightarrow> bus \<times> (nat \<times> string) list" where
  "deliver_to e i bd =
     (case bd of (b, dropped) \<Rightarrow>
        if i \<notin> set (buSubs b) then (b, dropped)
        else if length (buQueue b i) < queue_size then (b\<lparr>buQueue := (buQueue b)(i := buQueue b i @ [e])\<rparr>, dropped)
        else (drop_subscriber i b, dropped @ [(i, buNames b i)]))"

text \<open>One numbered event; then, if the journal failed, one that says so, which is not journalled.\<close>

definition publish_once :: "bus_env \<Rightarrow> bool \<Rightarrow> event \<Rightarrow> bus \<Rightarrow> bus \<times> event \<times> (nat \<times> string) list \<times> string option" where
  "publish_once env writeSink e0 b =
     (case stamp env e0 b of (b1, e, subs) \<Rightarrow>
        let out = write_out env writeSink e
        in case fold (deliver_to e) subs (b1\<lparr>buHooks := buHooks b1 @ hooked env e out\<rparr>, []) of
             (b2, dropped) \<Rightarrow> (b2, e, dropped, snd out))"

definition lost_event :: "bus_env \<Rightarrow> event \<Rightarrow> string \<Rightarrow> event" where
  "lost_event env e err =
     new_event env Error (nSession e) (nRun e)
       [(''where'', VStr ''event_log''), (''message'', VStr (if nType e = RunStopped then ''outcome not saved: '' @ err else err)), (''lost_event_type'', VStr (nType e))]"

definition publish :: "bus_env \<Rightarrow> bool \<Rightarrow> event \<Rightarrow> bus \<Rightarrow> bus \<times> event \<times> (nat \<times> string) list" where
  "publish env writeSink e0 b =
     (case publish_once env writeSink e0 b of
        (b1, e, dropped, None) \<Rightarrow> (b1, e, dropped)
      | (b1, e, dropped, Some err) \<Rightarrow>
          (case publish_once env False (lost_event env e err) b1 of (b2, _, more_dropped, _) \<Rightarrow> (b2, e, dropped @ more_dropped)))"

definition drop_note :: "bus_env \<Rightarrow> nat \<Rightarrow> event" where
  "drop_note env i = new_event env SubscriberDropped [] [] [(''subscriber_id'', VInt (int i)), (''reason'', VStr ''overflow''), (''action'', VStr ''resubscribe'')]"

section \<open>What one event does\<close>

text \<open>An event goes to every subscriber with room; the others are dropped, in the order of the snapshot.\<close>

definition got :: "event \<Rightarrow> bus \<Rightarrow> bus \<Rightarrow> (nat \<times> string) list \<Rightarrow> bool" where
  "got e b b' dropped \<longleftrightarrow>
     (\<forall>i. buQueue b' i = (if i \<in> set (buSubs b) \<and> length (buQueue b i) < queue_size then buQueue b i @ [e] else buQueue b i)) \<and>
     buSubs b' = filter (\<lambda>i. length (buQueue b i) < queue_size) (buSubs b) \<and>
     map fst dropped = filter (\<lambda>i. \<not> length (buQueue b i) < queue_size) (buSubs b) \<and>
     set (buClosed b') = set (buClosed b) \<union> fst ` set dropped \<and> buLog b' = buLog b \<and> buSeq b' = buSeq b \<and> buNext b' = buNext b"

lemma deliver_all:
  assumes "distinct subs" "set subs \<subseteq> set (buSubs b)" "fold (deliver_to e) subs (b, ds) = (b', ds')"
  shows "(\<forall>i. buQueue b' i = (if i \<in> set subs \<and> length (buQueue b i) < queue_size then buQueue b i @ [e] else buQueue b i)) \<and>
    buSubs b' = filter (\<lambda>i. i \<notin> set subs \<or> length (buQueue b i) < queue_size) (buSubs b) \<and>
    map fst ds' = map fst ds @ filter (\<lambda>i. \<not> length (buQueue b i) < queue_size) subs \<and>
    set (buClosed b') = set (buClosed b) \<union> set (filter (\<lambda>i. \<not> length (buQueue b i) < queue_size) subs) \<and> buLog b' = buLog b \<and> buSeq b' = buSeq b \<and> buNext b' = buNext b"
  using assms
proof (induction subs arbitrary: b ds)
  case (Cons i subs)
  obtain b1 ds1 where d: "deliver_to e i (b, ds) = (b1, ds1)" by force
  have i: "i \<in> set (buSubs b)" "i \<notin> set subs" using Cons.prems by auto
  have f: "fold (deliver_to e) subs (b1, ds1) = (b', ds')" using Cons.prems(3) d by simp
  show ?case
  proof (cases "length (buQueue b i) < queue_size")
    case True
    then have b1: "b1 = b\<lparr>buQueue := (buQueue b)(i := buQueue b i @ [e])\<rparr>" "ds1 = ds" using d i by (auto simp: deliver_to_def)
    have s: "set subs \<subseteq> set (buSubs b1)" using Cons.prems(2) b1 by simp
    have o: "j \<in> set subs \<Longrightarrow> buQueue b1 j = buQueue b j" for j using i(2) b1(1) by auto
    have q: "filter (\<lambda>j. \<not> length (buQueue b1 j) < queue_size) subs = filter (\<lambda>j. \<not> length (buQueue b j) < queue_size) subs" using o by (auto intro: filter_cong)
    have p: "filter (\<lambda>j. j \<notin> set subs \<or> length (buQueue b1 j) < queue_size) (buSubs b) = filter (\<lambda>j. j \<notin> set (i # subs) \<or> length (buQueue b j) < queue_size) (buSubs b)"
      by (rule filter_cong) (use o True in auto)
    show ?thesis using Cons.IH [OF _ s f] Cons.prems(1) i(2) True o q p b1 by auto
  next
    case False
    then have b1: "b1 = drop_subscriber i b" "ds1 = ds @ [(i, buNames b i)]" using d i by (auto simp: deliver_to_def)
    have s: "set subs \<subseteq> set (buSubs b1)" using Cons.prems(2) i(2) b1(1) by (auto simp: drop_subscriber_def)
    have p: "filter (\<lambda>j. j \<notin> set subs \<or> length (buQueue b j) < queue_size) (filter (\<lambda>j. j \<noteq> i) (buSubs b)) =
        filter (\<lambda>j. j \<notin> set (i # subs) \<or> length (buQueue b j) < queue_size) (buSubs b)"
      unfolding filter_filter by (rule filter_cong) (use False in auto)
    show ?thesis using Cons.IH [OF _ s f] Cons.prems(1) i(2) False p b1 by (auto simp: drop_subscriber_def)
  qed
qed simp

definition bus_ok :: "bus \<Rightarrow> bool" where
  "bus_ok b \<longleftrightarrow> distinct (buSubs b) \<and> (\<forall>i \<in> set (buSubs b). i < buNext b) \<and> (\<forall>i. length (buQueue b i) \<le> queue_size)"

lemma publish_once_got:
  assumes "publish_once env writeSink e0 b = (b', e, dropped, err)" "bus_ok b"
  shows "\<exists>b1. got e b1 b' dropped \<and> b1 = b\<lparr>buSeq := buSeq b + 1, buLog := buLog b @ [e], buHooks := buHooks b1\<rparr> \<and> eSeq e = buSeq b + 1 \<and>
    e = (beEnrich env e0)\<lparr>eSeq := eSeq e, eTS := eTS e\<rparr> \<and> (\<not> writeSink \<longrightarrow> err = None)"
proof -
  obtain b0 subs where s: "stamp env e0 b = (b0, e, subs)" and f: "fold (deliver_to e) subs (b0\<lparr>buHooks := buHooks b0 @ hooked env e (write_out env writeSink e)\<rparr>, []) = (b', dropped)"
      and err: "err = snd (write_out env writeSink e)"
    using assms(1) by (auto simp: publish_once_def Let_def split: prod.splits)
  let ?b = "b0\<lparr>buHooks := buHooks b0 @ hooked env e (write_out env writeSink e)\<rparr>"
  have st: "subs = buSubs b" "b0 = b\<lparr>buSeq := buSeq b + 1, buLog := buLog b @ [e]\<rparr>" "eSeq e = buSeq b + 1" "e = (beEnrich env e0)\<lparr>eSeq := eSeq e, eTS := eTS e\<rparr>"
    using s by (auto simp: stamp_def Let_def)
  have "distinct subs" "set subs \<subseteq> set (buSubs ?b)" using assms(2) st by (auto simp: bus_ok_def)
  from deliver_all [OF this f] have "got e ?b b' dropped"
    using st(1,2) unfolding got_def by (auto intro: filter_cong simp flip: set_map)
  moreover have "\<not> writeSink \<longrightarrow> err = None" using err by (simp add: write_out_def)
  ultimately show ?thesis using st by (intro exI [of _ ?b]) auto
qed


section \<open>Publishing\<close>

lemma got_ok: "got e b b' dropped \<Longrightarrow> bus_ok b \<Longrightarrow> bus_ok b' \<and> length (buSubs b') + length dropped = length (buSubs b)"
proof -
  assume g: "got e b b' dropped" and ok: "bus_ok b"
  have "length dropped = length (filter (\<lambda>i. \<not> length (buQueue b i) < queue_size) (buSubs b))" using g unfolding got_def by (metis length_map)
  moreover have "length (filter (\<lambda>i. length (buQueue b i) < queue_size) (buSubs b)) + length (filter (\<lambda>i. \<not> length (buQueue b i) < queue_size) (buSubs b)) = length (buSubs b)"
    by (rule filter_filter_not)
  ultimately show ?thesis using g ok by (auto simp: got_def bus_ok_def)
qed

lemma bus_ok_update [simp]: "bus_ok (b\<lparr>buSeq := n, buLog := l, buHooks := h\<rparr>) = bus_ok b" "bus_ok (b\<lparr>buHooks := h\<rparr>) = bus_ok b" "bus_ok (b\<lparr>buSeq := n, buLog := l\<rparr>) = bus_ok b"
  by (simp_all add: bus_ok_def)

lemma publish_once_ok:
  assumes "publish_once env writeSink e0 b = (b', e, dropped, err)" "bus_ok b"
  shows "bus_ok b' \<and> length (buSubs b') + length dropped = length (buSubs b)"
proof -
  obtain b1 where g: "got e b1 b' dropped" "b1 = b\<lparr>buSeq := buSeq b + 1, buLog := buLog b @ [e], buHooks := buHooks b1\<rparr>" using publish_once_got [OF assms] by blast
  have "bus_ok b1 = bus_ok b" "buSubs b1 = buSubs b" by (subst g(2), simp)+
  with got_ok [OF g(1)] assms(2) show ?thesis by simp
qed

lemma publish_ok:
  assumes "publish env writeSink e0 b = (b', e, dropped)" "bus_ok b"
  shows "bus_ok b' \<and> length (buSubs b') + length dropped = length (buSubs b)"
proof -
  obtain b1 e1 d1 err where o: "publish_once env writeSink e0 b = (b1, e1, d1, err)" by (metis prod_cases4)
  show ?thesis
  proof (cases err)
    case None
    with o assms publish_once_ok [OF o assms(2)] show ?thesis by (simp add: publish_def)
  next
    case (Some x)
    obtain b2 e2 d2 err2 where o2: "publish_once env False (lost_event env e1 x) b1 = (b2, e2, d2, err2)" by (metis prod_cases4)
    have "b' = b2" "dropped = d1 @ d2" using assms(1) o o2 Some by (auto simp: publish_def)
    with publish_once_ok [OF o assms(2)] publish_once_ok [OF o2] show ?thesis by simp
  qed
qed

text \<open>Every drop takes a subscriber away, so announcements that drop others come to an end.\<close>

lemma deliver_shrinks: "fold (deliver_to e) subs (b, ds) = (b', ds') \<Longrightarrow> length (buSubs b') + length ds' \<le> length (buSubs b) + length ds"
proof (induction subs arbitrary: b ds)
  case (Cons i subs)
  obtain b1 ds1 where d: "deliver_to e i (b, ds) = (b1, ds1)" by force
  have "length (filter (\<lambda>j. j \<noteq> i) (buSubs b)) < length (buSubs b)" if "i \<in> set (buSubs b)" by (rule length_filter_less [OF that]) simp
  then have "length (buSubs b1) + length ds1 \<le> length (buSubs b) + length ds" using d by (auto simp: deliver_to_def drop_subscriber_def split: if_splits)
  moreover have "fold (deliver_to e) subs (b1, ds1) = (b', ds')" using Cons.prems d by simp
  ultimately show ?case using Cons.IH by fastforce
qed simp

lemma publish_once_shrinks: "publish_once env writeSink e0 b = (b', e, dropped, err) \<Longrightarrow> length (buSubs b') + length dropped \<le> length (buSubs b)"
  using deliver_shrinks by (fastforce simp: publish_once_def stamp_def Let_def split: prod.splits)

lemma publish_shrinks: "publish env writeSink e0 b = (b', e, dropped) \<Longrightarrow> length (buSubs b') + length dropped \<le> length (buSubs b)"
proof -
  assume a: "publish env writeSink e0 b = (b', e, dropped)"
  obtain b1 e1 d1 err where o: "publish_once env writeSink e0 b = (b1, e1, d1, err)" by (metis prod_cases4)
  show ?thesis
  proof (cases err)
    case None
    then show ?thesis using a o publish_once_shrinks [OF o] by (simp add: publish_def)
  next
    case (Some x)
    obtain b2 e2 d2 err2 where o2: "publish_once env False (lost_event env e1 x) b1 = (b2, e2, d2, err2)" by (metis prod_cases4)
    then show ?thesis using a o Some publish_once_shrinks [OF o] publish_once_shrinks [OF o2] by (auto simp: publish_def)
  qed
qed

text \<open>\<open>Publish\<close> announces each dropped subscriber by an event of its own, with \<open>Publish\<close> again: what that one drops is announced before the next of the list.\<close>

function announce_drops :: "bus_env \<Rightarrow> (nat \<times> string) list \<Rightarrow> bus \<Rightarrow> bus" where
  "announce_drops env [] b = b"
| "announce_drops env (d # ds) b =
     (case publish env True (drop_note env (fst d)) b of (b1, e, more_dropped) \<Rightarrow> announce_drops env (more_dropped @ ds) b1)"
  by pat_completeness auto
termination
  by (relation "measure (\<lambda>(env, ds, b). 2 * length (buSubs b) + length ds)") (auto dest!: sym [of "_ :: bus \<times> event \<times> (nat \<times> string) list"] publish_shrinks)

definition PublishTransient :: "bus_env \<Rightarrow> event \<Rightarrow> bus \<Rightarrow> bus \<times> event" where
  "PublishTransient env e0 b =
     (case publish env False e0 b of (b1, e, dropped) \<Rightarrow>
        (announce_drops env dropped (if beTransient env then b1\<lparr>buHooks := buHooks b1 @ [TransientSink e]\<rparr> else b1), e))"

text \<open>The progress event that starts the clock of a run or a tool.\<close>

definition progress_of :: "bus_env \<Rightarrow> event \<Rightarrow> event option" where
  "progress_of env e =
     (if nType e = RunStarted \<or> nType e = RunQueued then Some ((new_event env ToolProgress (nSession e) (nRun e) [(''run_started'', VBool True)])\<lparr>eTS := eTS e\<rparr>)
      else if nType e = ToolCallEvent
      then Some ((new_event env ToolProgress (nSession e) (nRun e)
             [(''tool_started'', VBool True), (''args'', case mget (obj (nData e)) ''args'' of None \<Rightarrow> VNil | Some v \<Rightarrow> v)])\<lparr>eTS := eTS e\<rparr>)
      else None)"

definition Publish_event :: "bus_env \<Rightarrow> event \<Rightarrow> bus \<Rightarrow> bus \<times> event" where
  "Publish_event env e0 b =
     (case publish env True e0 b of (b1, e, dropped) \<Rightarrow>
        let b2 = announce_drops env dropped b1
        in (case progress_of env e of None \<Rightarrow> b2 | Some p \<Rightarrow> fst (PublishTransient env p b2), e))"

definition subscribe :: "string \<Rightarrow> bus \<Rightarrow> bus \<times> nat" where
  "subscribe name b = (b\<lparr>buNext := buNext b + 1, buSubs := buSubs b @ [buNext b], buNames := (buNames b)(buNext b := name)\<rparr>, buNext b)"

definition unsubscribe :: "nat \<Rightarrow> bus \<Rightarrow> bus" where
  "unsubscribe i b = b\<lparr>buSubs := filter (\<lambda>j. j \<noteq> i) (buSubs b), buNames := (buNames b)(i := [])\<rparr>"

definition SubscriberCount :: "bus \<Rightarrow> nat" where
  "SubscriberCount b = length (buSubs b)"

text \<open>A receive from a channel: an event, the end of a closed channel, or nothing yet.\<close>

datatype received = Got event | Ended | Blocked

definition receive :: "nat \<Rightarrow> bus \<Rightarrow> bus \<times> received" where
  "receive i b =
     (case buQueue b i of
        e # q \<Rightarrow> (b\<lparr>buQueue := (buQueue b)(i := q)\<rparr>, Got e)
      | [] \<Rightarrow> (b, if i \<in> set (buClosed b) then Ended else Blocked))"

section \<open>Every subscriber is served or told\<close>

definition announced :: "nat \<Rightarrow> event list \<Rightarrow> nat" where
  "announced i evs = length (filter (\<lambda>e. nType e = SubscriberDropped \<and> mget (obj (nData e)) ''subscriber_id'' = Some (VInt (int i))) evs)"

lemma announced_simps [simp]: "announced i [] = 0" "announced i (a @ b) = announced i a + announced i b"
  by (simp_all add: announced_def)

text \<open>What a stretch of events does: the subscribers that stay have all of them in their queues, the dropped ones are closed with a full queue that holds the first of them.\<close>

definition served :: "bus \<Rightarrow> event list \<Rightarrow> nat list \<Rightarrow> bus \<Rightarrow> bool" where
  "served b new ds b' \<longleftrightarrow> bus_ok b' \<and> buLog b' = buLog b @ new \<and> distinct ds \<and> set ds \<inter> set (buSubs b') = {} \<and> set (buSubs b) = set (buSubs b') \<union> set ds \<and>
     set (buClosed b) \<union> set ds \<subseteq> set (buClosed b') \<and> (\<forall>i. i \<notin> set (buSubs b) \<longrightarrow> buQueue b' i = buQueue b i) \<and>
     (\<forall>i \<in> set (buSubs b'). buQueue b' i = buQueue b i @ new) \<and>
     (\<forall>i \<in> set ds. length (buQueue b' i) = queue_size \<and> prefix (buQueue b' i) (buQueue b i @ new))"

lemma served_refl: "bus_ok b \<Longrightarrow> served b [] [] b"
  by (simp add: served_def)

lemma served_hooks: "served b new ds b' \<Longrightarrow> served b new ds (b'\<lparr>buHooks := h\<rparr>)"
  by (simp add: served_def)

lemma served_trans: "served b n1 d1 b1 \<Longrightarrow> served b1 n2 d2 b2 \<Longrightarrow> served b (n1 @ n2) (d1 @ d2) b2"
proof -
  assume 1: "served b n1 d1 b1" and 2: "served b1 n2 d2 b2"
  have q1: "i \<in> set d1 \<Longrightarrow> buQueue b2 i = buQueue b1 i" for i using 1 2 unfolding served_def by blast
  have q2: "i \<in> set d2 \<Longrightarrow> buQueue b1 i = buQueue b i @ n1" for i using 1 2 unfolding served_def by blast
  have p: "prefix (buQueue b2 i) (buQueue b i @ n1 @ n2) \<and> length (buQueue b2 i) = queue_size" if "i \<in> set d1 \<union> set d2" for i
  proof (cases "i \<in> set d1")
    case True
    then have "prefix (buQueue b1 i) (buQueue b i @ n1)" "length (buQueue b1 i) = queue_size" using 1 unfolding served_def by blast+
    then show ?thesis using q1 [OF True] by (metis append.assoc prefix_prefix)
  next
    case False
    then have d: "i \<in> set d2" using that by blast
    then show ?thesis using 2 q2 [OF d] unfolding served_def by (metis append.assoc)
  qed
  have dis: "set d1 \<inter> set d2 = {}" using 1 2 unfolding served_def by blast
  show ?thesis using 1 2 p dis unfolding served_def by auto
qed

lemma publish_once_served:
  assumes "publish_once env writeSink e0 b = (b', e, dropped, err)" "bus_ok b"
  shows "served b [e] (map fst dropped) b'"
proof -
  obtain b1 where g: "got e b1 b' dropped" "b1 = b\<lparr>buSeq := buSeq b + 1, buLog := buLog b @ [e], buHooks := buHooks b1\<rparr>" using publish_once_got [OF assms] by blast
  have b1: "buQueue b1 = buQueue b" "buSubs b1 = buSubs b" "buClosed b1 = buClosed b" "buLog b1 = buLog b @ [e]" by (subst g(2), simp)+
  have full: "length (buQueue b i) = queue_size" if "\<not> length (buQueue b i) < queue_size" for i using assms(2) that unfolding bus_ok_def by (metis le_neq_implies_less)
  have ok: "bus_ok b'" using publish_once_ok [OF assms] by simp
  have ds: "map fst dropped = filter (\<lambda>i. \<not> length (buQueue b i) < queue_size) (buSubs b)" using g(1) by (simp add: got_def b1)
  have "distinct (map fst dropped)" using assms(2) by (simp add: ds bus_ok_def)
  then show ?thesis using g(1) ok ds full unfolding served_def got_def b1 by (auto simp: ds simp flip: set_map)
qed

text \<open>The enricher may add fields to an event, but neither changes its type nor the subscriber a drop names.\<close>

definition enricher_adds :: "bus_env \<Rightarrow> bool" where
  "enricher_adds env \<longleftrightarrow> (\<forall>e. nType (beEnrich env e) = nType e \<and> mget (obj (nData (beEnrich env e))) ''subscriber_id'' = mget (obj (nData e)) ''subscriber_id'')"

lemma announced_once:
  assumes "publish_once env writeSink e0 b = (b', e, dropped, err)" "bus_ok b" "enricher_adds env"
  shows "announced i [e] = announced i [e0] \<and> nType e = nType e0"
proof -
  have e: "e = (beEnrich env e0)\<lparr>eSeq := eSeq e, eTS := eTS e\<rparr>" using publish_once_got [OF assms(1,2)] by blast
  have "nType e = nType e0" "mget (obj (nData e)) ''subscriber_id'' = mget (obj (nData e0)) ''subscriber_id''" using assms(3) by (subst e, simp add: enricher_adds_def)+
  then show ?thesis by (simp add: announced_def)
qed

lemma publish_served:
  assumes "publish env writeSink e0 b = (b', e, dropped)" "bus_ok b" "enricher_adds env"
  shows "nType e = nType e0 \<and> (\<exists>new. served b (e # new) (map fst dropped) b' \<and> (\<forall>i. announced i (e # new) = announced i [e0]))"
proof -
  obtain b1 e1 d1 err where o: "publish_once env writeSink e0 b = (b1, e1, d1, err)" by (metis prod_cases4)
  note s1 = publish_once_served [OF o assms(2)] and a1 = announced_once [OF o assms(2,3)] and ok1 = publish_once_ok [OF o assms(2), THEN conjunct1]
  show ?thesis
  proof (cases err)
    case None
    then show ?thesis using assms(1) o s1 a1 by (auto simp: publish_def intro!: exI [of _ "[]"])
  next
    case (Some x)
    obtain b2 e2 d2 err2 where o2: "publish_once env False (lost_event env e1 x) b1 = (b2, e2, d2, err2)" by (metis prod_cases4)
    have r: "b' = b2" "e = e1" "dropped = d1 @ d2" using assms(1) o o2 Some by (auto simp: publish_def)
    have "announced i [e2] = 0" for i using announced_once [OF o2 ok1 assms(3), of i] by (simp add: announced_def lost_event_def new_event_def)
    moreover have "announced i (e1 # [e2]) = announced i [e1] + announced i [e2]" for i using announced_simps(2) [of i "[e1]" "[e2]"] by simp
    ultimately show ?thesis using served_trans [OF s1 publish_once_served [OF o2 ok1]] a1 r by (auto intro!: exI [of _ "[e2]"])
  qed
qed

lemma announced_drop_note: "announced i [drop_note env j] = (if i = j then 1 else 0)"
  by (simp add: announced_def drop_note_def new_event_def obj_def)

lemma announce_drops_served:
  assumes "bus_ok b" "enricher_adds env"
  shows "\<exists>new more_ds. served b new more_ds (announce_drops env ds b) \<and> (\<forall>i. announced i new = count_list (map fst ds) i + count_list more_ds i)"
  using assms
proof (induction env ds b rule: announce_drops.induct)
  case (1 env b)
  then show ?case using served_refl by (intro exI [of _ "[]"]) auto
next
  case (2 env d ds b)
  obtain b1 e md where p: "publish env True (drop_note env (fst d)) b = (b1, e, md)" by (metis prod_cases3)
  obtain n1 where s1: "served b (e # n1) (map fst md) b1" "\<And>i. announced i (e # n1) = announced i [drop_note env (fst d)]" using publish_served [OF p "2.prems"] by blast
  have ok: "bus_ok b1" using s1(1) by (simp add: served_def)
  from "2.IH" [OF p [symmetric] refl ok "2.prems"(2)] obtain n2 d2 where s2: "served b1 n2 d2 (announce_drops env (md @ ds) b1)"
      "\<forall>i. announced i n2 = count_list (map fst (md @ ds)) i + count_list d2 i" by blast
  have s: "served b ((e # n1) @ n2) (map fst md @ d2) (announce_drops env (d # ds) b)" using served_trans [OF s1(1) s2(1)] p by simp
  have "announced i ((e # n1) @ n2) = count_list (map fst (d # ds)) i + count_list (map fst md @ d2) i" for i
    unfolding announced_simps(2) s1(2) announced_drop_note using s2(2) by simp
  with s show ?case by blast
qed

definition told :: "bus \<Rightarrow> bus \<Rightarrow> bool" where
  "told b b' \<longleftrightarrow> (\<exists>new ds. served b new ds b' \<and> (\<forall>i. announced i new = count_list ds i))"

lemma told_trans: "told a b \<Longrightarrow> told b c \<Longrightarrow> told a c"
  unfolding told_def using served_trans by (metis announced_simps(2) count_list_append)

lemma published_told:
  assumes "publish env writeSink e0 b = (b1, e, dropped)" "bus_ok b" "enricher_adds env" "\<And>i. announced i [e0] = 0"
  shows "told b (announce_drops env dropped (b1\<lparr>buHooks := h\<rparr>))"
proof -
  obtain n1 where s1: "served b (e # n1) (map fst dropped) b1" "\<forall>i. announced i (e # n1) = 0" using publish_served [OF assms(1-3)] assms(4) by fastforce
  have ok: "bus_ok (b1\<lparr>buHooks := h\<rparr>)" using s1(1) by (simp add: served_def)
  from announce_drops_served [OF ok assms(3), of dropped] obtain n2 d2 where s2: "served (b1\<lparr>buHooks := h\<rparr>) n2 d2 (announce_drops env dropped (b1\<lparr>buHooks := h\<rparr>))"
      "\<forall>i. announced i n2 = count_list (map fst dropped) i + count_list d2 i" by blast
  have "announced i ((e # n1) @ n2) = count_list (map fst dropped @ d2) i" for i unfolding announced_simps(2) using s1(2) s2(2) by simp
  with served_trans [OF served_hooks [OF s1(1), of h] s2(1)] show ?thesis unfolding told_def by blast
qed

lemma count_list_distinct: "distinct xs \<Longrightarrow> count_list xs x = (if x \<in> set xs then 1 else 0)"
  by (induction xs) auto

lemma Publish_event_told:
  assumes "bus_ok b" "enricher_adds env" "nType e0 \<noteq> SubscriberDropped"
  shows "told b (fst (Publish_event env e0 b))"
proof -
  obtain b1 e dropped where p: "publish env True e0 b = (b1, e, dropped)" by (metis prod_cases3)
  have none: "announced i [e0] = 0" for i using assms(3) by (simp add: announced_def)
  define b2 where "b2 = announce_drops env dropped b1"
  have t: "told b b2" using published_told [OF p assms(1,2) none, of "buHooks b1"] by (simp add: b2_def)
  then have ok: "bus_ok b2" by (auto simp: told_def served_def)
  show ?thesis
  proof (cases "progress_of env e")
    case None
    then show ?thesis using t by (simp add: Publish_event_def p b2_def)
  next
    case (Some q)
    obtain b3 e3 d3 where p3: "publish env False q b2 = (b3, e3, d3)" by (metis prod_cases3)
    have "announced i [q] = 0" for i using Some by (auto simp: progress_of_def announced_def new_event_def split: if_splits)
    from published_told [OF p3 ok assms(2) this, of "if beTransient env then buHooks b3 @ [TransientSink e3] else buHooks b3"]
    have "told b2 (fst (PublishTransient env q b2))" by (auto simp: PublishTransient_def p3 split: if_splits)
    then show ?thesis using told_trans [OF t] by (simp add: Publish_event_def p b2_def Some)
  qed
qed

text \<open>C13. Every subscriber is served or told: a published event, with the progress event and the announcements it leads to, reaches every subscriber in order; a subscriber is left out only when its queue of
  128 is full, and then its channel is closed, holds the first of these events, and its drop is announced exactly once. A subscriber that stays is never announced as dropped.\<close>

theorem publish_serves_or_tells:
  assumes "bus_ok b" and "enricher_adds env" and "nType e0 \<noteq> SubscriberDropped" and "i \<in> set (buSubs b)"
  defines "b' \<equiv> fst (Publish_event env e0 b)"
  shows "\<exists>new. buLog b' = buLog b @ new \<and>
    (if i \<in> set (buSubs b') then buQueue b' i = buQueue b i @ new \<and> announced i new = 0
     else i \<in> set (buClosed b') \<and> length (buQueue b' i) = queue_size \<and> prefix (buQueue b' i) (buQueue b i @ new) \<and> announced i new = 1)"
proof -
  obtain new ds where s: "served b new ds b'" "\<forall>i. announced i new = count_list ds i" using Publish_event_told [OF assms(1-3)] by (auto simp: told_def b'_def)
  have c: "count_list ds i = (if i \<in> set ds then 1 else 0)" using s(1) by (simp add: served_def count_list_distinct)
  show ?thesis
  proof (cases "i \<in> set (buSubs b')")
    case True
    then have "i \<notin> set ds" using s(1) by (auto simp: served_def)
    then show ?thesis using True s c by (intro exI [of _ new]) (simp add: served_def)
  next
    case False
    then have "i \<in> set ds" using s(1) assms(4) by (auto simp: served_def)
    then show ?thesis using False s c by (intro exI [of _ new]) (auto simp: served_def)
  qed
qed

section \<open>Publishers, subscribers and receivers at the same time\<close>

text \<open>Publishers take turns (\<open>publishMu\<close>), but between two critical sections of a publisher others subscribe, unsubscribe and receive. \<open>brWork\<close> is the event on its way with the
  subscribers of its snapshot that are still to be served, \<open>brTaken\<close> what was received from each channel, \<open>brStart\<close> how many events there were when it was made.\<close>

record bus_run =
  brBus :: bus
  brWork :: "(event \<times> nat list) option"
  brTaken :: "nat \<Rightarrow> event list"
  brStart :: "nat \<Rightarrow> nat"

inductive bus_step :: "bus_run \<Rightarrow> bus_run \<Rightarrow> bool" where
  step_stamp: "brWork s = None \<Longrightarrow> stamp env e0 (brBus s) = (b, e, subs) \<Longrightarrow> bus_step s (s\<lparr>brBus := b\<lparr>buHooks := hooks\<rparr>, brWork := Some (e, subs)\<rparr>)"
| step_deliver: "brWork s = Some (e, i # is) \<Longrightarrow> deliver_to e i (brBus s, ds) = (b, ds') \<Longrightarrow> bus_step s (s\<lparr>brBus := b, brWork := Some (e, is)\<rparr>)"
| step_end: "brWork s = Some (e, []) \<Longrightarrow> bus_step s (s\<lparr>brWork := None\<rparr>)"
| step_subscribe: "subscribe name (brBus s) = (b, i) \<Longrightarrow> bus_step s (s\<lparr>brBus := b, brStart := (brStart s)(i := length (buLog (brBus s)))\<rparr>)"
| step_unsubscribe: "bus_step s (s\<lparr>brBus := unsubscribe i (brBus s)\<rparr>)"
| step_receive: "receive i (brBus s) = (b, Got e) \<Longrightarrow> bus_step s (s\<lparr>brBus := b, brTaken := (brTaken s)(i := brTaken s i @ [e])\<rparr>)"

definition bus_start :: "bus_run \<Rightarrow> bool" where
  "bus_start s \<longleftrightarrow> s = \<lparr>brBus = NewBus, brWork = None, brTaken = (\<lambda>_. []), brStart = (\<lambda>_. 0)\<rparr>"

definition owed :: "bus_run \<Rightarrow> nat list" where
  "owed s = (case brWork s of None \<Rightarrow> [] | Some (e, is) \<Rightarrow> is)"

definition seen :: "bus_run \<Rightarrow> nat \<Rightarrow> event list" where
  "seen s i = brTaken s i @ buQueue (brBus s) i"

lemma owed_seen_update [simp]:
  "owed (s\<lparr>brBus := b\<rparr>) = owed s" "owed (s\<lparr>brStart := f\<rparr>) = owed s" "owed (s\<lparr>brTaken := f'\<rparr>) = owed s" "seen (s\<lparr>brStart := f\<rparr>) j = seen s j"
  by (simp_all add: owed_def seen_def)

definition channel_ok :: "bus_run \<Rightarrow> nat \<Rightarrow> bool" where
  "channel_ok s i \<longleftrightarrow> (let log = buLog (brBus s); from = brStart s i
     in length (buQueue (brBus s) i) \<le> queue_size \<and> from \<le> length log \<and> prefix (seen s i) (drop from log) \<and>
        (i \<in> set (buSubs (brBus s)) \<longrightarrow> i < buNext (brBus s) \<and> (if i \<in> set (owed s) then log \<noteq> [] \<and> drop from log = seen s i @ [last log] else drop from log = seen s i)) \<and>
        (i \<ge> buNext (brBus s) \<longrightarrow> seen s i = []))"

definition run_ok :: "bus_run \<Rightarrow> bool" where
  "run_ok s \<longleftrightarrow> buSeq (brBus s) = int (length (buLog (brBus s))) \<and> map eSeq (buLog (brBus s)) = map (\<lambda>k. int k + 1) [0..<length (buLog (brBus s))] \<and>
     distinct (owed s) \<and> (\<forall>i \<in> set (owed s). i < buNext (brBus s)) \<and> distinct (buSubs (brBus s)) \<and>
     (case brWork s of None \<Rightarrow> True | Some (e, is) \<Rightarrow> buLog (brBus s) \<noteq> [] \<and> e = last (buLog (brBus s)))"

definition bus_inv :: "bus_run \<Rightarrow> bool" where
  "bus_inv s \<longleftrightarrow> run_ok s \<and> (\<forall>i. channel_ok s i)"

lemma bus_inv_stamp:
  assumes "bus_inv s" "brWork s = None" "stamp env e0 (brBus s) = (b, e, subs)"
  shows "bus_inv (s\<lparr>brBus := b\<lparr>buHooks := hooks\<rparr>, brWork := Some (e, subs)\<rparr>)"
proof -
  have st: "subs = buSubs (brBus s)" "b = (brBus s)\<lparr>buSeq := buSeq (brBus s) + 1, buLog := buLog (brBus s) @ [e]\<rparr>" "eSeq e = buSeq (brBus s) + 1"
    using assms(3) by (auto simp: stamp_def Let_def)
  have c: "channel_ok s i" for i using assms(1) by (simp add: bus_inv_def)
  have run: "run_ok s" using assms(1) by (simp add: bus_inv_def)
  have "\<forall>i \<in> set (buSubs (brBus s)). i < buNext (brBus s)" using c by (auto simp: channel_ok_def Let_def)
  then have "run_ok (s\<lparr>brBus := b\<lparr>buHooks := hooks\<rparr>, brWork := Some (e, subs)\<rparr>)" using run st by (simp add: run_ok_def owed_def)
  moreover have "channel_ok (s\<lparr>brBus := b\<lparr>buHooks := hooks\<rparr>, brWork := Some (e, subs)\<rparr>) i" for i
    using c [of i] assms(2) st(1,2) by (auto simp: channel_ok_def Let_def owed_def seen_def)
  ultimately show ?thesis by (simp add: bus_inv_def)
qed

lemma bus_inv_deliver:
  assumes "bus_inv s" "brWork s = Some (e, i # is)" "deliver_to e i (brBus s, ds) = (b, ds')"
  shows "bus_inv (s\<lparr>brBus := b, brWork := Some (e, is)\<rparr>)"
proof -
  have c: "channel_ok s j" for j using assms(1) by (simp add: bus_inv_def)
  have run: "run_ok s" using assms(1) by (simp add: bus_inv_def)
  have e: "e = last (buLog (brBus s))" "i \<notin> set is" using run assms(2) by (simp_all add: run_ok_def owed_def)
  have b: "buLog b = buLog (brBus s)" "buSeq b = buSeq (brBus s)" "buNext b = buNext (brBus s)" "distinct (buSubs b)" "set (buSubs b) \<subseteq> set (buSubs (brBus s))"
    using assms(3) run by (auto simp: deliver_to_def drop_subscriber_def run_ok_def split: if_splits)
  have "run_ok (s\<lparr>brBus := b, brWork := Some (e, is)\<rparr>)" using run assms(2) b by (simp add: run_ok_def owed_def)
  moreover have "channel_ok (s\<lparr>brBus := b, brWork := Some (e, is)\<rparr>) j" for j
  proof (cases "j = i")
    case True
    then show ?thesis using c [of i] assms(2,3) e
      by (auto simp: channel_ok_def Let_def owed_def seen_def deliver_to_def drop_subscriber_def split: if_splits)
  next
    case False
    then have "buQueue b j = buQueue (brBus s) j" "j \<in> set (buSubs b) \<longleftrightarrow> j \<in> set (buSubs (brBus s))"
      using assms(3) by (auto simp: deliver_to_def drop_subscriber_def split: if_splits)
    then show ?thesis using c [of j] assms(2) b False by (simp add: channel_ok_def Let_def owed_def seen_def)
  qed
  ultimately show ?thesis by (simp add: bus_inv_def)
qed

lemma bus_inv_subscribe:
  assumes "bus_inv s" "subscribe name (brBus s) = (b, i)"
  shows "bus_inv (s\<lparr>brBus := b, brStart := (brStart s)(i := length (buLog (brBus s)))\<rparr>)"
proof -
  have c: "channel_ok s j" for j using assms(1) by (simp add: bus_inv_def)
  have run: "run_ok s" using assms(1) by (simp add: bus_inv_def)
  have i: "i = buNext (brBus s)" "i \<notin> set (buSubs (brBus s))" using assms(2) c [of "buNext (brBus s)"] by (auto simp: subscribe_def channel_ok_def Let_def)
  have o: "i \<notin> set (owed s)" using run i(1) by (auto simp: run_ok_def)
  have empty: "seen s i = []" using c [of i] i(1) by (simp add: channel_ok_def Let_def)
  let ?t = "s\<lparr>brBus := b, brStart := (brStart s)(i := length (buLog (brBus s)))\<rparr>"
  have b: "buLog b = buLog (brBus s)" "buSeq b = buSeq (brBus s)" "buNext b = Suc i" "buQueue b = buQueue (brBus s)" "buSubs b = buSubs (brBus s) @ [i]"
    using assms(2) by (auto simp: subscribe_def)
  have t: "seen (s\<lparr>brBus := b\<rparr>) j = seen s j" for j by (simp add: seen_def b(4))
  have "run_ok ?t" using run i by (cases "brWork s") (auto simp: run_ok_def b less_SucI split_beta)
  moreover have "channel_ok ?t j" for j
    using c [of j] i o empty by (cases "j = i") (auto simp: channel_ok_def Let_def t b)
  ultimately show ?thesis by (simp add: bus_inv_def)
qed

lemma unsubscribe_sel [simp]:
  "buLog (unsubscribe i b) = buLog b" "buSeq (unsubscribe i b) = buSeq b" "buNext (unsubscribe i b) = buNext b" "buQueue (unsubscribe i b) = buQueue b"
  "buSubs (unsubscribe i b) = filter (\<lambda>j. j \<noteq> i) (buSubs b)" "buClosed (unsubscribe i b) = buClosed b"
  by (simp_all add: unsubscribe_def)

lemma bus_inv_step: "bus_step s t \<Longrightarrow> bus_inv s \<Longrightarrow> bus_inv t"
proof (induction rule: bus_step.induct)
  case (step_end s e)
  then show ?case by (auto simp: bus_inv_def run_ok_def channel_ok_def owed_def seen_def Let_def)
next
  case (step_unsubscribe s i)
  let ?t = "s\<lparr>brBus := unsubscribe i (brBus s)\<rparr>"
  have o: "owed ?t = owed s" "\<And>j. seen ?t j = seen s j" by (simp_all add: owed_def seen_def unsubscribe_def)
  have "run_ok ?t" using step_unsubscribe by (cases "brWork s") (simp_all add: bus_inv_def run_ok_def o(1) split_beta)
  moreover have "channel_ok ?t j" for j
  proof -
    have "channel_ok s j" using step_unsubscribe by (simp add: bus_inv_def)
    then show ?thesis by (auto simp: channel_ok_def o Let_def)
  qed
  ultimately show ?case by (simp add: bus_inv_def)
next
  case (step_receive i s b e)
  then obtain q where q: "buQueue (brBus s) i = e # q" "b = (brBus s)\<lparr>buQueue := (buQueue (brBus s))(i := q)\<rparr>" by (auto simp: receive_def split: list.splits if_splits)
  let ?t = "s\<lparr>brBus := b, brTaken := (brTaken s)(i := brTaken s i @ [e])\<rparr>"
  have seen: "seen ?t j = seen s j" for j using q by (auto simp: seen_def)
  have b: "buLog b = buLog (brBus s)" "buSeq b = buSeq (brBus s)" "buNext b = buNext (brBus s)" "buSubs b = buSubs (brBus s)" using q(2) by simp_all
  have len: "length (buQueue b j) \<le> length (buQueue (brBus s) j)" for j using q by auto
  have "run_ok ?t" using step_receive.prems by (cases "brWork s") (simp_all add: bus_inv_def run_ok_def b split_beta)
  moreover have "channel_ok ?t j" for j
  proof -
    have "channel_ok s j" using step_receive.prems by (simp add: bus_inv_def)
    then show ?thesis using len [of j] by (simp add: channel_ok_def seen b Let_def)
  qed
  ultimately show ?case by (simp add: bus_inv_def)
qed (auto intro: bus_inv_stamp bus_inv_deliver bus_inv_subscribe)

interpretation channels: invariant_of bus_start bus_step bus_inv
proof
  show "bus_start s \<Longrightarrow> bus_inv s" for s by (simp add: bus_start_def bus_inv_def run_ok_def channel_ok_def NewBus_def owed_def seen_def)
qed (rule bus_inv_step)

text \<open>C12. A subscriber misses nothing until it is dropped: however publishers, subscribers and receivers interleave, what was received from a channel and what its queue still holds are
  consecutive events of the bus, in order, beginning with the first one after the subscription; a queue never holds more than 128; and a subscriber nobody still owes an event has them all.\<close>

theorem subscriber_misses_nothing:
  assumes "reach bus_start bus_step s"
  shows "prefix (brTaken s i @ buQueue (brBus s) i) (drop (brStart s i) (buLog (brBus s))) \<and>
    map eSeq (buLog (brBus s)) = map (\<lambda>k. int k + 1) [0..<length (buLog (brBus s))] \<and> length (buQueue (brBus s) i) \<le> queue_size \<and>
    (i \<in> set (buSubs (brBus s)) \<and> i \<notin> set (owed s) \<longrightarrow> brTaken s i @ buQueue (brBus s) i = drop (brStart s i) (buLog (brBus s)))"
proof -
  have "bus_inv s" using assms by (rule channels.inv_reach)
  then have "run_ok s" "channel_ok s i" by (simp_all add: bus_inv_def)
  then show ?thesis by (auto simp: run_ok_def channel_ok_def seen_def Let_def)
qed

section \<open>Listeners\<close>

text \<open>\<open>ListenWithDone\<close>: a goroutine that passes the events of its channel on, one in hand at a time, and subscribes again when its channel was closed; what it had in hand is then
  abandoned. \<open>rlOut\<close> is everything it passed on.\<close>

record relay =
  rlRun :: bus_run
  rlIn :: nat
  rlHeld :: "event option"
  rlOut :: "event list"

inductive relay_step :: "string \<Rightarrow> relay \<Rightarrow> relay \<Rightarrow> bool" for name where
  relay_other: "bus_step (rlRun r) t \<Longrightarrow> brTaken t (rlIn r) = brTaken (rlRun r) (rlIn r) \<Longrightarrow> relay_step name r (r\<lparr>rlRun := t\<rparr>)"
| relay_take: "rlHeld r = None \<Longrightarrow> receive (rlIn r) (brBus (rlRun r)) = (b, Got e) \<Longrightarrow>
    relay_step name r (r\<lparr>rlRun := (rlRun r)\<lparr>brBus := b, brTaken := (brTaken (rlRun r))(rlIn r := brTaken (rlRun r) (rlIn r) @ [e])\<rparr>, rlHeld := Some e\<rparr>)"
| relay_put: "rlHeld r = Some e \<Longrightarrow> relay_step name r (r\<lparr>rlHeld := None, rlOut := rlOut r @ [e]\<rparr>)"
| relay_again: "rlIn r \<in> set (buClosed (brBus (rlRun r))) \<Longrightarrow> subscribe name (unsubscribe (rlIn r) (brBus (rlRun r))) = (b, i) \<Longrightarrow>
    relay_step name r (r\<lparr>rlRun := (rlRun r)\<lparr>brBus := b, brStart := (brStart (rlRun r))(i := length (buLog (brBus (rlRun r))))\<rparr>, rlIn := i, rlHeld := None\<rparr>)"

definition relay_start :: "string \<Rightarrow> relay \<Rightarrow> bool" where
  "relay_start name r \<longleftrightarrow> (\<exists>s b i. reach bus_start bus_step s \<and> subscribe name (brBus s) = (b, i) \<and>
     r = \<lparr>rlRun = s\<lparr>brBus := b, brStart := (brStart s)(i := length (buLog (brBus s)))\<rparr>, rlIn = i, rlHeld = None, rlOut = []\<rparr>)"

definition passed :: "relay \<Rightarrow> event list" where
  "passed r = rlOut r @ (case rlHeld r of None \<Rightarrow> [] | Some e \<Rightarrow> [e])"

definition relay_inv :: "relay \<Rightarrow> bool" where
  "relay_inv r \<longleftrightarrow> bus_inv (rlRun r) \<and> rlIn r < buNext (brBus (rlRun r)) \<and> sorted_wrt (<) (map eSeq (passed r)) \<and>
     list_all (\<lambda>e. e \<in> set (buLog (brBus (rlRun r))) \<and> eSeq e \<le> int (brStart (rlRun r) (rlIn r) + length (brTaken (rlRun r) (rlIn r)))) (passed r)"

lemma bus_step_grows: "bus_step s t \<Longrightarrow> set (buLog (brBus s)) \<subseteq> set (buLog (brBus t)) \<and> buNext (brBus s) \<le> buNext (brBus t) \<and> (\<forall>i < buNext (brBus s). brStart t i = brStart s i)"
proof (induction rule: bus_step.induct)
  case (step_stamp s env e0 b e subs hooks)
  then show ?case by (auto simp: stamp_def Let_def)
next
  case (step_deliver s e i "is" ds b ds')
  then show ?case by (auto simp: deliver_to_def drop_subscriber_def split: if_splits)
next
  case (step_subscribe name s b i)
  then show ?case by (auto simp: subscribe_def)
next
  case (step_receive i s b e)
  then show ?case by (auto simp: receive_def split: list.splits if_splits)
qed simp_all

lemma received_event:
  assumes "bus_inv s" "receive i (brBus s) = (b, Got e)"
  shows "e \<in> set (buLog (brBus s)) \<and> eSeq e = int (brStart s i + length (brTaken s i)) + 1"
proof -
  obtain q where q: "buQueue (brBus s) i = e # q" using assms(2) by (auto simp: receive_def split: list.splits if_splits)
  have c: "channel_ok s i" "run_ok s" using assms(1) by (simp_all add: bus_inv_def)
  let ?log = "buLog (brBus s)" and ?k = "brStart s i + length (brTaken s i)"
  obtain z where z: "drop (brStart s i) ?log = (brTaken s i @ e # q) @ z" using c(1) q by (auto simp: channel_ok_def seen_def Let_def prefix_def)
  have len: "?k < length ?log" using arg_cong [OF z, of length] by simp
  have "?log ! ?k = drop (brStart s i) ?log ! length (brTaken s i)" using c(1) by (simp add: channel_ok_def Let_def nth_drop)
  then have n: "?log ! ?k = e" by (simp add: z)
  have "map eSeq ?log ! ?k = map (\<lambda>k. int k + 1) [0..<length ?log] ! ?k" using c(2) by (simp add: run_ok_def)
  then have "eSeq e = int ?k + 1" using len n by simp
  then show ?thesis using n len nth_mem by blast
qed

lemma relay_inv_step: "relay_step name r t \<Longrightarrow> relay_inv r \<Longrightarrow> relay_inv t"
proof (induction rule: relay_step.induct)
  case (relay_other r t)
  have g: "set (buLog (brBus (rlRun r))) \<subseteq> set (buLog (brBus t))" "buNext (brBus (rlRun r)) \<le> buNext (brBus t)" "brStart t (rlIn r) = brStart (rlRun r) (rlIn r)"
    using bus_step_grows [OF relay_other.hyps(1)] relay_other.prems by (auto simp: relay_inv_def)
  have "bus_inv t" using bus_inv_step [OF relay_other.hyps(1)] relay_other.prems by (simp add: relay_inv_def)
  moreover have "passed (r\<lparr>rlRun := t\<rparr>) = passed r" by (simp add: passed_def)
  ultimately show ?case using relay_other.prems relay_other.hyps(2) g by (auto simp: relay_inv_def list_all_iff)
next
  case (relay_take r b e)
  let ?s = "rlRun r"
  let ?t = "?s\<lparr>brBus := b, brTaken := (brTaken ?s)(rlIn r := brTaken ?s (rlIn r) @ [e])\<rparr>"
  have inv: "bus_inv ?s" using relay_take.prems by (simp add: relay_inv_def)
  note e = received_event [OF inv relay_take.hyps(2)]
  have t: "bus_inv ?t" using bus_inv_step [OF step_receive [OF relay_take.hyps(2)] inv] .
  have b: "buLog b = buLog (brBus ?s)" "buNext b = buNext (brBus ?s)" using relay_take.hyps(2) by (auto simp: receive_def split: list.splits if_splits)
  have "passed (r\<lparr>rlRun := ?t, rlHeld := Some e\<rparr>) = passed r @ [e]" by (simp add: passed_def relay_take.hyps(1))
  then show ?case using relay_take.prems e t b by (force simp: relay_inv_def list_all_iff sorted_wrt_append)
next
  case (relay_put r e)
  then have "passed (r\<lparr>rlHeld := None, rlOut := rlOut r @ [e]\<rparr>) = passed r" by (simp add: passed_def)
  then show ?case using relay_put.prems by (simp add: relay_inv_def)
next
  case (relay_again r b i)
  let ?s = "rlRun r"
  let ?u = "?s\<lparr>brBus := unsubscribe (rlIn r) (brBus ?s)\<rparr>"
  let ?t = "?s\<lparr>brBus := b, brStart := (brStart ?s)(i := length (buLog (brBus ?s)))\<rparr>"
  have inv: "bus_inv ?s" using relay_again.prems by (simp add: relay_inv_def)
  have u: "bus_inv ?u" by (rule bus_inv_step [OF step_unsubscribe inv])
  have sub: "subscribe name (brBus ?u) = (b, i)" using relay_again.hyps(2) by simp
  have t: "bus_inv ?t" using bus_inv_step [OF step_subscribe [OF sub] u] by simp
  have b: "buLog b = buLog (brBus ?s)" "buNext b = Suc i" "i = buNext (brBus ?s)" using sub by (auto simp: subscribe_def)
  have c: "channel_ok ?s (rlIn r)" "channel_ok ?s i" using inv by (simp_all add: bus_inv_def)
  have "brStart ?s (rlIn r) + length (brTaken ?s (rlIn r)) \<le> length (buLog (brBus ?s))"
    using c(1) by (auto simp: channel_ok_def seen_def Let_def dest!: prefix_length_le)
  moreover have "brTaken ?s i = []" using c(2) b(3) by (simp add: channel_ok_def seen_def Let_def)
  moreover have "sorted_wrt (<) (map eSeq (rlOut r))" "list_all (\<lambda>e. e \<in> set (buLog (brBus ?s)) \<and> eSeq e \<le> int (brStart ?s (rlIn r) + length (brTaken ?s (rlIn r)))) (rlOut r)"
    using relay_again.prems by (auto simp: relay_inv_def passed_def sorted_wrt_append)
  ultimately show ?case using t b by (auto simp: relay_inv_def passed_def list_all_iff)
qed

interpretation listening: invariant_of "relay_start name" "relay_step name" relay_inv for name
proof
  fix r assume "relay_start name r"
  then obtain s b i where s: "reach bus_start bus_step s" "subscribe name (brBus s) = (b, i)"
      "r = \<lparr>rlRun = s\<lparr>brBus := b, brStart := (brStart s)(i := length (buLog (brBus s)))\<rparr>, rlIn = i, rlHeld = None, rlOut = []\<rparr>" by (auto simp: relay_start_def)
  have "bus_inv (rlRun r)" using bus_inv_step [OF step_subscribe [OF s(2)] channels.inv_reach [OF s(1)]] s(3) by simp
  then show "relay_inv r" using s(2,3) by (auto simp: relay_inv_def passed_def subscribe_def)
qed (rule relay_inv_step)

text \<open>A listener never hears an event twice or out of order: whatever happens to its channels, a named listener passes on events of the bus in strictly increasing order, across every overflow
  and new subscription.\<close>

theorem listener_hears_in_order:
  assumes "reach (relay_start name) (relay_step name) r"
  shows "sorted_wrt (<) (map eSeq (rlOut r)) \<and> set (rlOut r) \<subseteq> set (buLog (brBus (rlRun r)))"
  using listening.inv_reach [OF assms] by (auto simp: relay_inv_def passed_def sorted_wrt_append list_all_iff)

section \<open>A bus with one subscriber\<close>

definition demo_bus_env :: bus_env where
  "demo_bus_env = \<lparr>beEnrich = (\<lambda>e. e), beNow = ''t'', beObserve = False, beSink = None, beDurable = None, beAfterAppend = False, beAppendError = False, beTransient = False\<rparr>"

definition demo_event :: event where
  "demo_event = new_event demo_bus_env RunStopped ''s'' ''r'' []"

definition one_subscriber :: bus where
  "one_subscriber = fst (subscribe ''page'' NewBus)"

lemma one_subscriber_sel: "buSubs one_subscriber = [0]" "buQueue one_subscriber = (\<lambda>_. [])" "buLog one_subscriber = []" "buSeq one_subscriber = 0" "buNext one_subscriber = 1" "bus_ok one_subscriber"
  by (simp_all add: one_subscriber_def subscribe_def NewBus_def bus_ok_def)

theorem publish_serves_or_tells_witness:
  "0 \<in> set (buSubs one_subscriber) \<and> (\<exists>new. buLog (fst (Publish_event demo_bus_env demo_event one_subscriber)) = new \<and>
     buQueue (fst (Publish_event demo_bus_env demo_event one_subscriber)) 0 = new \<and> length new = 1)"
proof -
  let ?b = "fst (Publish_event demo_bus_env demo_event one_subscriber)"
  have p: "0 \<in> set (buSubs ?b)" "length (buLog ?b) = 1"
    by (simp_all add: Publish_event_def publish_def publish_once_def stamp_def write_out_def hooked_def deliver_to_def progress_of_def demo_bus_env_def demo_event_def
        new_event_def one_subscriber_sel queue_size_def Let_def)
  have a: "enricher_adds demo_bus_env" "nType demo_event \<noteq> SubscriberDropped" by (simp_all add: enricher_adds_def demo_bus_env_def demo_event_def new_event_def)
  have s: "0 \<in> set (buSubs one_subscriber)" by (simp add: one_subscriber_sel)
  show ?thesis using publish_serves_or_tells [OF one_subscriber_sel(6) a s] p s by (auto simp: one_subscriber_sel)
qed

definition run0 :: bus_run where
  "run0 = \<lparr>brBus = NewBus, brWork = None, brTaken = (\<lambda>_. []), brStart = (\<lambda>_. 0)\<rparr>"

definition relay0 :: relay where
  "relay0 = \<lparr>rlRun = run0\<lparr>brBus := one_subscriber\<rparr>, rlIn = 0, rlHeld = None, rlOut = []\<rparr>"

definition numbered :: event where
  "numbered = demo_event\<lparr>eSeq := 1\<rparr>"

definition bus1 :: bus where
  "bus1 = one_subscriber\<lparr>buSeq := 1, buLog := [numbered]\<rparr>"

definition bus2 :: bus where
  "bus2 = bus1\<lparr>buQueue := (\<lambda>_. [])(0 := [numbered])\<rparr>"

definition run2 :: bus_run where
  "run2 = run0\<lparr>brBus := bus2, brWork := Some (numbered, [])\<rparr>"

lemma demo_first: "bus_step run0 (run0\<lparr>brBus := one_subscriber\<rparr>)"
proof -
  have "subscribe ''page'' (brBus run0) = (one_subscriber, 0)" by (simp add: run0_def one_subscriber_def subscribe_def NewBus_def)
  from step_subscribe [OF this] show ?thesis by (simp add: run0_def NewBus_def fun_upd_idem)
qed

lemma demo_steps: "bus_step (run0\<lparr>brBus := one_subscriber\<rparr>) (run0\<lparr>brBus := bus1, brWork := Some (numbered, [0])\<rparr>)"
    "bus_step (run0\<lparr>brBus := bus1, brWork := Some (numbered, [0])\<rparr>) run2"
proof -
  have st: "stamp demo_bus_env demo_event one_subscriber = (bus1, numbered, [0])"
    by (simp add: stamp_def demo_bus_env_def demo_event_def new_event_def numbered_def bus1_def one_subscriber_sel Let_def)
  show "bus_step (run0\<lparr>brBus := one_subscriber\<rparr>) (run0\<lparr>brBus := bus1, brWork := Some (numbered, [0])\<rparr>)"
    using step_stamp [of "run0\<lparr>brBus := one_subscriber\<rparr>" demo_bus_env demo_event bus1 numbered "[0]" "buHooks bus1"]
    by (simp add: run0_def st)
  have "deliver_to numbered 0 (bus1, []) = (bus2, [])" by (simp add: deliver_to_def bus1_def bus2_def one_subscriber_sel queue_size_def)
  then show "bus_step (run0\<lparr>brBus := bus1, brWork := Some (numbered, [0])\<rparr>) run2"
    using step_deliver [of "run0\<lparr>brBus := bus1, brWork := Some (numbered, [0])\<rparr>" numbered 0 "[]" "[]" bus2 "[]"] by (simp add: run2_def)
qed

theorem subscriber_misses_nothing_witness:
  "reach bus_start bus_step run2 \<and> brTaken run2 0 @ buQueue (brBus run2) 0 = [numbered]"
proof -
  have r: "reach bus_start bus_step run2"
    by (intro reach_step [where step = bus_step, OF _ demo_steps(2)] reach_step [where step = bus_step, OF _ demo_steps(1)] reach_step [where step = bus_step, OF _ demo_first] reach_init)
      (simp add: bus_start_def run0_def)
  have "0 \<in> set (buSubs (brBus run2))" "0 \<notin> set (owed run2)" "drop (brStart run2 0) (buLog (brBus run2)) = [numbered]"
    by (simp_all add: run2_def bus2_def bus1_def one_subscriber_sel owed_def run0_def)
  with subscriber_misses_nothing [OF r, of 0] r show ?thesis by simp
qed

theorem listener_hears_in_order_witness:
  "\<exists>r. reach (relay_start ''page'') (relay_step ''page'') r \<and> rlOut r = [numbered] \<and> sorted_wrt (<) (map eSeq (rlOut r))"
proof -
  have "subscribe ''page'' (brBus run0) = (one_subscriber, 0)" by (simp add: run0_def one_subscriber_def subscribe_def NewBus_def)
  moreover have "reach bus_start bus_step run0" by (rule reach_init) (simp add: bus_start_def run0_def)
  moreover have "relay0 = \<lparr>rlRun = run0\<lparr>brBus := one_subscriber, brStart := (brStart run0)(0 := length (buLog (brBus run0)))\<rparr>, rlIn = 0, rlHeld = None, rlOut = []\<rparr>"
    by (simp add: relay0_def run0_def NewBus_def fun_upd_idem)
  ultimately have s: "relay_start ''page'' relay0" unfolding relay_start_def by blast
  have t1: "relay_step ''page'' relay0 (relay0\<lparr>rlRun := run0\<lparr>brBus := bus1, brWork := Some (numbered, [0])\<rparr>\<rparr>)"
    by (rule relay_other) (use demo_steps(1) in \<open>simp_all add: relay0_def run0_def\<close>)
  have t2: "relay_step ''page'' (relay0\<lparr>rlRun := run0\<lparr>brBus := bus1, brWork := Some (numbered, [0])\<rparr>\<rparr>) (relay0\<lparr>rlRun := run2\<rparr>)"
    using relay_other [of "relay0\<lparr>rlRun := run0\<lparr>brBus := bus1, brWork := Some (numbered, [0])\<rparr>\<rparr>" run2 "''page''"] demo_steps(2) by (simp add: relay0_def run2_def run0_def)
  have "receive 0 (brBus run2) = (bus2\<lparr>buQueue := (buQueue bus2)(0 := [])\<rparr>, Got numbered)" by (simp add: receive_def run2_def bus2_def)
  then obtain r where t3: "relay_step ''page'' (relay0\<lparr>rlRun := run2\<rparr>) r" "rlHeld r = Some numbered" "rlOut r = []"
    using relay_take [of "relay0\<lparr>rlRun := run2\<rparr>" _ numbered "''page''"] by (force simp: relay0_def)
  have reach: "reach (relay_start ''page'') (relay_step ''page'') (r\<lparr>rlHeld := None, rlOut := rlOut r @ [numbered]\<rparr>)"
    by (intro reach_step [where step = "relay_step ''page''", OF _ relay_put [OF t3(2)]] reach_step [where step = "relay_step ''page''", OF _ t3(1)]
          reach_step [where step = "relay_step ''page''", OF _ t2] reach_step [where step = "relay_step ''page''", OF _ t1] reach_init [where init = "relay_start ''page''"] s)
  from listener_hears_in_order [OF reach] reach t3(3) show ?thesis by (intro exI [of _ "r\<lparr>rlHeld := None, rlOut := rlOut r @ [numbered]\<rparr>"]) simp
qed
end
