(* ===== verification/History.thy ===== *)
theory History
  imports Events
begin

text \<open>
  The history that compaction leaves reachable (\<open>internal/events/history.go\<close>): an index of the recorded messages of a chat with the lineage of its summaries, which the model may ask for
  by reference, and the arguments of old calls with long and private values left out. JSON decoding and encoding are parameters; a location of a body in a log file is kept as it is.
\<close>

section \<open>Sanitized arguments\<close>

definition omitted_keys :: "string list" where
  "omitted_keys = [''content'', ''new_string'', ''note'', ''old_string'']"

definition omitted_text :: string where
  "omitted_text = ''[omitted]''"

definition shorten :: "string \<Rightarrow> string" where
  "shorten t = (if rune_count t > 256 then take_runes 256 t @ [CHR 0xE2, CHR 0x80, CHR 0xA6] else t)"

fun sanitizeHistoryValue :: "val \<Rightarrow> val" and sanitize_field :: "string \<Rightarrow> val \<Rightarrow> val" and sanitize_fields :: "(string \<times> val) list \<Rightarrow> (string \<times> val) list"
    and sanitize_list :: "val list \<Rightarrow> val list" where
  "sanitizeHistoryValue (VObj fs) = VObj (sanitize_fields fs)"
| "sanitizeHistoryValue (VList vs) = VList (sanitize_list vs)"
| "sanitizeHistoryValue v = v"
| "sanitize_field k v =
     (if k \<in> set omitted_keys then VStr omitted_text
      else case v of
             VStr t \<Rightarrow> VStr (shorten t)
           | VObj fs \<Rightarrow> VObj (sanitize_fields fs)
           | VList vs \<Rightarrow> VList (sanitize_list vs)
           | _ \<Rightarrow> v)"
| "sanitize_fields [] = []"
| "sanitize_fields ((k, v) # fs) = (k, sanitize_field k v) # sanitize_fields fs"
| "sanitize_list [] = []"
| "sanitize_list (v # vs) = sanitizeHistoryValue v # sanitize_list vs"

record history_codec =
  hcDecode :: "string \<Rightarrow> val option"
  hcEncode :: "val \<Rightarrow> string option"
  hcMessage :: "val \<Rightarrow> string + message"
  hcEvent :: "string \<Rightarrow> string + bus_note"
  hcCalls :: "val \<Rightarrow> tool_call list"
  hcQuote :: "string \<Rightarrow> string"

definition unavailable :: string where
  "unavailable = [CHR 0x22] @ ''unavailable'' @ [CHR 0x22]"

definition sanitizeHistoryArguments :: "history_codec \<Rightarrow> string \<Rightarrow> string" where
  "sanitizeHistoryArguments hc raw =
     (if TrimSpace raw = [] then ''{}''
      else case hcDecode hc raw of
             None \<Rightarrow> unavailable
           | Some v \<Rightarrow> (case hcEncode hc (sanitizeHistoryValue v) of None \<Rightarrow> unavailable | Some s \<Rightarrow> s))"

section \<open>The index\<close>

record history_call =
  hcallID :: string
  hcallName :: string
  hcallArguments :: string

definition zero_history_call :: history_call where
  "zero_history_call = \<lparr>hcallID = [], hcallName = [], hcallArguments = []\<rparr>"

record history_entry =
  heRef :: string
  heRole :: string
  heCategory :: string
  heTurn :: int
  heName :: string
  heCall :: "history_call option"
  heCalls :: "history_call list"
  heOK :: "bool option"
  heElided :: bool
  heCompacted :: bool

type_synonym history_location = "string \<times> int \<times> int"

record history_record =
  hrMeta :: message
  hrLocation :: history_location
  hrFull :: "message option"

definition zero_history_record :: history_record where
  "zero_history_record = \<lparr>hrMeta = zero_message, hrLocation = ([], 0, 0), hrFull = None\<rparr>"

record history_index =
  hiRecords :: "(string, history_record) gomap"
  hiOrder :: "string list"
  hiLineage :: "(string, string list) gomap"
  hiLatest :: string
  hiElided :: "(string, bool) gomap"
  hiCompacted :: "(string, bool) gomap"
  hiCalls :: "(string, history_call) gomap"

definition newHistoryIndex :: history_index where
  "newHistoryIndex = \<lparr>hiRecords = [], hiOrder = [], hiLineage = [], hiLatest = [], hiElided = [], hiCompacted = [], hiCalls = []\<rparr>"

definition compact_call :: "history_codec \<Rightarrow> tool_call \<Rightarrow> history_call" where
  "compact_call hc c = \<lparr>hcallID = tcID c, hcallName = tcName c, hcallArguments = sanitizeHistoryArguments hc (tcArguments c)\<rparr>"

definition history_append :: "history_codec \<Rightarrow> message \<Rightarrow> history_location \<Rightarrow> bool \<Rightarrow> history_index \<Rightarrow> history_index" where
  "history_append hc m loc keepFull h =
     (if mID m = [] then h
      else let calls = map (compact_call hc) (mToolCalls m);
               meta = m\<lparr>mContent := [], mReasoning := [], mToolCalls := map (\<lambda>c. \<lparr>tcID = hcallID c, tcName = hcallName c, tcArguments = hcallArguments c\<rparr>) calls\<rparr>
           in h\<lparr>hiCalls := fold (\<lambda>c. mput (hcallID c) c) calls (hiCalls h),
                hiOrder := (if mget (hiRecords h) (mID m) = None then hiOrder h @ [mID m] else hiOrder h),
                hiRecords := mput (mID m) \<lparr>hrMeta = meta, hrLocation = loc, hrFull = (if keepFull then Some m else None)\<rparr> (hiRecords h)\<rparr>)"

definition forget_calls :: "message \<Rightarrow> (string, history_call) gomap \<Rightarrow> (string, history_call) gomap" where
  "forget_calls m calls = fold (\<lambda>c. mdel (tcID c)) (mToolCalls m) calls"

definition history_update :: "history_codec \<Rightarrow> string \<Rightarrow> (string \<times> val) list \<Rightarrow> history_index \<Rightarrow> history_index" where
  "history_update hc i patch h0 =
     (let h = (if bool_of (mget patch ''elided'') then h0\<lparr>hiElided := mput i True (hiElided h0)\<rparr> else h0)
      in case mget patch ''tool_calls'' of
           None \<Rightarrow> h
         | Some v \<Rightarrow>
             (case mget (hiRecords h) i of
                None \<Rightarrow> h
              | Some r \<Rightarrow>
                  let updated = hcCalls hc v
                  in h\<lparr>hiCalls := forget_calls (hrMeta r) (hiCalls h),
                       hiRecords := mput i (r\<lparr>hrMeta := (hrMeta r)\<lparr>mToolCalls := updated\<rparr>, hrFull := map_option (\<lambda>m. m\<lparr>mToolCalls := updated\<rparr>) (hrFull r)\<rparr>) (hiRecords h)\<rparr>))"

definition history_remove :: "string \<Rightarrow> history_index \<Rightarrow> history_index" where
  "history_remove i h =
     (case mget (hiRecords h) i of
        None \<Rightarrow> h
      | Some r \<Rightarrow>
          h\<lparr>hiCalls := forget_calls (hrMeta r) (hiCalls h), hiRecords := mdel i (hiRecords h), hiLineage := mdel i (hiLineage h), hiElided := mdel i (hiElided h),
            hiCompacted := mdel i (hiCompacted h), hiOrder := filter (\<lambda>j. j \<noteq> i) (hiOrder h)\<rparr>)"

definition history_compact :: "string \<Rightarrow> string list \<Rightarrow> history_index \<Rightarrow> history_index" where
  "history_compact summary affected h =
     (if summary = [] then h
      else h\<lparr>hiLatest := summary, hiLineage := mput summary affected (hiLineage h), hiCompacted := fold (\<lambda>i. mput i True) affected (hiCompacted h)\<rparr>)"

definition historyEntry :: "message \<Rightarrow> (string, history_call) gomap \<Rightarrow> history_entry" where
  "historyEntry m calls =
     \<lparr>heRef = mID m, heRole = mRole m, heCategory = mCategory m, heTurn = mTurn m, heName = mName m, heCall = mget calls (mToolCallID m),
      heCalls = map (\<lambda>c. mget_or zero_history_call calls (tcID c)) (mToolCalls m), heOK = mOK m, heElided = False, heCompacted = False\<rparr>"

section \<open>Following the lineage\<close>

text \<open>The walk over summaries of summaries, depth first; the ids still to visit are a list, the ones met so far are \<open>selected\<close>.\<close>

definition lineage_ids :: "(string, string list) gomap \<Rightarrow> string set" where
  "lineage_ids lin = \<Union> (set ` snd ` set lin)"

lemma finite_lineage_ids [simp]: "finite (lineage_ids lin)"
  by (simp add: lineage_ids_def)

lemma lineage_children: "set (mget_or [] lin i) \<subseteq> lineage_ids lin"
proof (cases "mget lin i")
  case None
  then show ?thesis by (simp add: mget_or_def)
next
  case (Some ks)
  then have "(i, ks) \<in> set lin" by (simp add: map_of_SomeD)
  then show ?thesis using Some by (force simp: mget_or_def lineage_ids_def)
qed

function lineage_walk :: "(string, string list) gomap \<Rightarrow> string list \<Rightarrow> string list \<Rightarrow> string list" where
  "lineage_walk lin selected [] = selected"
| "lineage_walk lin selected (i # todo) =
     (if i \<in> set selected then lineage_walk lin selected todo
      else lineage_walk lin (i # selected) (mget_or [] lin i @ todo))"
  by pat_completeness auto
termination
proof (relation "measures [\<lambda>(lin, selected, todo). card (lineage_ids lin - set selected) + card (set todo - lineage_ids lin - set selected), \<lambda>(lin, selected, todo). length todo]")
  fix lin :: "(string, string list) gomap" and selected todo :: "string list" and i :: string
  assume i: "i \<notin> set selected"
  let ?kids = "mget_or [] lin i"
  have sub: "set (?kids @ todo) - lineage_ids lin - set (i # selected) \<subseteq> set (i # todo) - lineage_ids lin - set selected" using lineage_children [of lin i] by auto
  have "card (lineage_ids lin - set (i # selected)) + card (set (?kids @ todo) - lineage_ids lin - set (i # selected)) <
      card (lineage_ids lin - set selected) + card (set (i # todo) - lineage_ids lin - set selected)"
  proof (cases "i \<in> lineage_ids lin")
    case True
    then have "card (lineage_ids lin - set (i # selected)) < card (lineage_ids lin - set selected)" using i by (intro psubset_card_mono) auto
    moreover have "card (set (?kids @ todo) - lineage_ids lin - set (i # selected)) \<le> card (set (i # todo) - lineage_ids lin - set selected)" using sub by (intro card_mono) auto
    ultimately show ?thesis by linarith
  next
    case False
    then have "set (?kids @ todo) - lineage_ids lin - set (i # selected) \<subset> set (i # todo) - lineage_ids lin - set selected" using sub i by auto
    then have "card (set (?kids @ todo) - lineage_ids lin - set (i # selected)) < card (set (i # todo) - lineage_ids lin - set selected)" by (intro psubset_card_mono) auto
    moreover have "card (lineage_ids lin - set (i # selected)) \<le> card (lineage_ids lin - set selected)" by (intro card_mono) auto
    ultimately show ?thesis by linarith
  qed
  then show "((lin, i # selected, ?kids @ todo), lin, selected, i # todo) \<in>
      measures [\<lambda>(lin, selected, todo). card (lineage_ids lin - set selected) + card (set todo - lineage_ids lin - set selected), \<lambda>(lin, selected, todo). length todo]" by simp
next
  fix lin :: "(string, string list) gomap" and selected todo :: "string list" and i :: string
  assume i: "i \<in> set selected"
  have "set (i # todo) - lineage_ids lin - set selected = set todo - lineage_ids lin - set selected" using i by auto
  then show "((lin, selected, todo), lin, selected, i # todo) \<in>
      measures [\<lambda>(lin, selected, todo). card (lineage_ids lin - set selected) + card (set todo - lineage_ids lin - set selected), \<lambda>(lin, selected, todo). length todo]" by simp
qed simp

datatype history_lookup =
    Manifest string "history_entry list"
  | Recorded string message

definition no_history :: string where
  "no_history = ''no compacted history is available''"

definition selected_ids :: "history_index \<Rightarrow> bool \<Rightarrow> string \<Rightarrow> string list" where
  "selected_ids h latest root =
     (if root \<noteq> [] then lineage_walk (hiLineage h) [] (mget_or [] (hiLineage h) root) else []) @
     (if latest then keys (hiCompacted h) @ keys (hiElided h) else [])"

definition manifest_entry :: "history_index \<Rightarrow> string \<Rightarrow> history_entry option" where
  "manifest_entry h i =
     map_option (\<lambda>r. (historyEntry (hrMeta r) (hiCalls h))\<lparr>heElided := mtrue (hiElided h) i, heCompacted := mtrue (hiCompacted h) i\<rparr>) (mget (hiRecords h) i)"

text \<open>An empty lineage is a nil slice, so it does not count as one.\<close>

definition resolve :: "history_codec \<Rightarrow> (history_record \<Rightarrow> string + message) \<Rightarrow> string \<Rightarrow> history_index \<Rightarrow> string + history_lookup" where
  "resolve hc load ref h =
     (if ref = ''latest'' \<or> mget_or [] (hiLineage h) ref \<noteq> [] then
        (let root = (if ref = ''latest'' then hiLatest h else ref); chosen = selected_ids h (ref = ''latest'') root;
             entries = List.map_filter (\<lambda>i. if i \<in> set chosen then manifest_entry h i else None) (hiOrder h)
         in if entries = [] then Inl no_history else Inr (Manifest root entries))
      else case mget (hiRecords h) ref of
             None \<Rightarrow> Inl (''history ref '' @ hcQuote hc ref @ '' is not available'')
           | Some r \<Rightarrow>
               if \<not> mtrue (hiElided h) ref \<and> \<not> mtrue (hiCompacted h) ref then Inl (''history ref '' @ hcQuote hc ref @ '' is not available'')
               else (case load r of Inl e \<Rightarrow> Inl e | Inr m \<Rightarrow> Inr (Recorded ref m)))"

definition resolveReplay :: "history_codec \<Rightarrow> string \<Rightarrow> history_index \<Rightarrow> string + history_lookup" where
  "resolveReplay hc = resolve hc (\<lambda>r. case hrFull r of None \<Rightarrow> Inl ''recorded history body is unavailable'' | Some m \<Rightarrow> Inr m)"

section \<open>Recording events\<close>

definition record_event :: "history_codec \<Rightarrow> bool \<Rightarrow> history_location \<Rightarrow> bus_note \<Rightarrow> history_index \<Rightarrow> history_index" where
  "record_event hc keepFull loc ev h =
     (let data = obj (nData ev)
      in if nType ev = MessageAppended then (case hcMessage hc (nData ev) of Inl _ \<Rightarrow> h | Inr m \<Rightarrow> history_append hc m loc keepFull h)
         else if nType ev = MessageUpdated then history_update hc (str_of (mget data ''id'')) (case mget data ''patch'' of None \<Rightarrow> [] | Some p \<Rightarrow> obj p) h
         else if nType ev = MessageRemoved then history_remove (str_of (mget data ''id'')) h
         else if nType ev = Compaction
         then (if str_of (mget data ''kind'') \<in> {''summarize'', ''fresh'', ''prune+fresh''}
               then history_compact (str_of (mget data ''summary_message_id'')) (strs_of (mget data ''affected_ids'')) h else h)
         else h)"

text \<open>\<open>HistoryArchive.Record\<close>, which keeps the bodies, and the index of the journal, which keeps where they are.\<close>

definition Record_archive :: "history_codec \<Rightarrow> bus_note \<Rightarrow> history_index \<Rightarrow> history_index" where
  "Record_archive hc ev h = (if nType ev = SessionReset then newHistoryIndex else record_event hc True ([], 0, 0) ev h)"

definition record_journal :: "history_codec \<Rightarrow> history_location \<Rightarrow> bus_note \<Rightarrow> history_index \<Rightarrow> history_index" where
  "record_journal hc loc ev h = record_event hc False loc ev h"

section \<open>Reading a body back from the log\<close>

definition readHistoryMessage :: "history_codec \<Rightarrow> (history_location \<Rightarrow> string + string) \<Rightarrow> history_location \<Rightarrow> string + message" where
  "readHistoryMessage hc readAt loc =
     (case readAt loc of
        Inl e \<Rightarrow> Inl e
      | Inr bytes \<Rightarrow>
          (case hcEvent hc bytes of
             Inl e \<Rightarrow> Inl e
           | Inr ev \<Rightarrow>
               if nType ev \<noteq> MessageAppended
               then Inl (''recorded history location is '' @ hcQuote hc (nType ev) @ '', not '' @ hcQuote hc MessageAppended)
               else hcMessage hc (nData ev)))"

text \<open>The look-up under the lock asks for no body; the body is read after it.\<close>

definition ResolveHistory :: "history_codec \<Rightarrow> (history_location \<Rightarrow> string + string) \<Rightarrow> (string, history_index) gomap \<Rightarrow> string \<Rightarrow> string \<Rightarrow> string + history_lookup" where
  "ResolveHistory hc readAt history sessionID ref =
     (case mget history sessionID of
        None \<Rightarrow> Inl ''history is not available for this session''
      | Some h \<Rightarrow>
          (case resolve hc (\<lambda>r. Inr zero_message) ref h of
             Inr (Recorded root _) \<Rightarrow>
               (case readHistoryMessage hc readAt (hrLocation (mget_or zero_history_record (hiRecords h) ref)) of
                  Inl e \<Rightarrow> Inl e
                | Inr m \<Rightarrow> if mID m \<noteq> ref then Inl (''recorded history ref mismatch: got '' @ hcQuote hc (mID m) @ '', want '' @ hcQuote hc ref)
                           else Inr (Recorded root m))
           | x \<Rightarrow> x))"

section \<open>The walk and the lineage\<close>

definition summarizes :: "(string, string list) gomap \<Rightarrow> (string \<times> string) set" where
  "summarizes lin = {(i, k). k \<in> set (mget_or [] lin i)}"

definition lineage_closed :: "(string, string list) gomap \<Rightarrow> string set \<Rightarrow> string set \<Rightarrow> bool" where
  "lineage_closed lin A B \<longleftrightarrow> (\<forall>i \<in> A. set (mget_or [] lin i) \<subseteq> B)"

lemma walk_keeps: "set selected \<union> set todo \<subseteq> set (lineage_walk lin selected todo)"
  by (induction lin selected todo rule: lineage_walk.induct) auto

lemma walk_closed:
  "lineage_closed lin (set selected) (set selected \<union> set todo) \<Longrightarrow>
   lineage_closed lin (set (lineage_walk lin selected todo)) (set (lineage_walk lin selected todo))"
proof (induction lin selected todo rule: lineage_walk.induct)
  case (2 lin selected i todo)
  show ?case
  proof (cases "i \<in> set selected")
    case True
    then have "set selected \<union> set (i # todo) = set selected \<union> set todo" by auto
    then show ?thesis using 2 True by simp
  next
    case False
    have "lineage_closed lin (set (i # selected)) (set (i # selected) \<union> set (mget_or [] lin i @ todo))"
      using "2.prems" by (auto simp: lineage_closed_def)
    then show ?thesis using 2 False by simp
  qed
qed (simp add: lineage_closed_def)

lemma walk_reaches: "set (lineage_walk lin selected todo) \<subseteq> set selected \<union> (summarizes lin)\<^sup>* `` set todo"
proof (induction lin selected todo rule: lineage_walk.induct)
  case (2 lin selected i todo)
  have kids: "(summarizes lin)\<^sup>* `` set (mget_or [] lin i) \<subseteq> (summarizes lin)\<^sup>* `` {i}"
    by (auto simp: summarizes_def intro: converse_rtrancl_into_rtrancl)
  show ?case using 2 kids by (auto simp: Image_Un) blast+
qed simp

lemma closed_contains_reach:
  assumes "lineage_closed lin A A" "B \<subseteq> A"
  shows "(summarizes lin)\<^sup>* `` B \<subseteq> A"
proof -
  have "k \<in> A" if "(i, k) \<in> (summarizes lin)\<^sup>*" "i \<in> A" for i k
    using that assms(1) by (induction rule: rtrancl_induct) (auto simp: lineage_closed_def summarizes_def)
  then show ?thesis using assms(2) by auto
qed

lemma walk_is_closure: "set (lineage_walk lin [] (mget_or [] lin root)) = (summarizes lin)\<^sup>+ `` {root}"
proof -
  let ?R = "set (lineage_walk lin [] (mget_or [] lin root))"
  have kids: "(summarizes lin)\<^sup>* `` set (mget_or [] lin root) = (summarizes lin)\<^sup>+ `` {root}"
    by (auto simp: summarizes_def trancl_unfold_left relcomp_unfold)
  have "lineage_closed lin ?R ?R" by (rule walk_closed) (simp add: lineage_closed_def)
  moreover have "set (mget_or [] lin root) \<subseteq> ?R" using walk_keeps [of "[]" "mget_or [] lin root" lin] by simp
  ultimately have "(summarizes lin)\<^sup>* `` set (mget_or [] lin root) \<subseteq> ?R" by (rule closed_contains_reach)
  then show ?thesis using walk_reaches [of lin "[]" "mget_or [] lin root"] kids by simp
qed

section \<open>What every index has\<close>

text \<open>The indices a program can have: the archive after the events of a replay and the journal's index after the events with their places in the log.\<close>

definition archive_of :: "history_codec \<Rightarrow> bus_note list \<Rightarrow> history_index" where
  "archive_of hc evs = fold (Record_archive hc) evs newHistoryIndex"

definition journal_of :: "history_codec \<Rightarrow> (history_location \<times> bus_note) list \<Rightarrow> history_index" where
  "journal_of hc evs = fold (\<lambda>(loc, ev). record_journal hc loc ev) evs newHistoryIndex"

locale index_property =
  fixes hc :: history_codec and P :: "history_index \<Rightarrow> bool"
  assumes of_new: "P newHistoryIndex"
    and of_append: "\<And>m loc keep h. P h \<Longrightarrow> P (history_append hc m loc keep h)"
    and of_update: "\<And>i patch h. P h \<Longrightarrow> P (history_update hc i patch h)"
    and of_remove: "\<And>i h. P h \<Longrightarrow> P (history_remove i h)"
    and of_compact: "\<And>i ids h. P h \<Longrightarrow> P (history_compact i ids h)"
begin

lemma of_event: "P h \<Longrightarrow> P (record_event hc keep loc ev h)"
  by (simp add: record_event_def Let_def of_append of_update of_remove of_compact split: sum.splits)

lemma of_archive: "P (archive_of hc evs)"
proof -
  have "P h \<Longrightarrow> P (fold (Record_archive hc) evs h)" for h
    by (induction evs arbitrary: h) (auto simp: Record_archive_def of_event of_new)
  then show ?thesis by (simp add: archive_of_def of_new)
qed

lemma of_journal: "P (journal_of hc evs)"
proof -
  have "P h \<Longrightarrow> P (fold (\<lambda>(loc, ev). record_journal hc loc ev) evs h)" for h
    by (induction evs arbitrary: h) (auto simp: record_journal_def of_event)
  then show ?thesis by (simp add: journal_of_def of_new)
qed

end

definition record_ok :: "string \<Rightarrow> history_record \<Rightarrow> bool" where
  "record_ok i r \<longleftrightarrow> i \<noteq> [] \<and> mID (hrMeta r) = i \<and> mContent (hrMeta r) = [] \<and> mReasoning (hrMeta r) = [] \<and> (case hrFull r of None \<Rightarrow> True | Some m \<Rightarrow> mID m = i)"

definition index_ok :: "history_index \<Rightarrow> bool" where
  "index_ok h \<longleftrightarrow> distinct (hiOrder h) \<and> set (hiOrder h) = set (keys (hiRecords h)) \<and>
     (\<forall>i \<in> set (hiOrder h). record_ok i (mget_or zero_history_record (hiRecords h) i))"

lemma index_okD:
  assumes "index_ok h" "mget (hiRecords h) i = Some r"
  shows "record_ok i r" "i \<in> set (hiOrder h)"
proof -
  show "i \<in> set (hiOrder h)" using assms(1) mget_in_keys [OF assms(2)] by (simp add: index_ok_def)
  then have "record_ok i (mget_or zero_history_record (hiRecords h) i)" using assms(1) by (simp only: index_ok_def)
  then show "record_ok i r" using assms(2) by (simp add: mget_or_def)
qed

lemma ok_of_append:
  assumes "index_ok h"
  shows "index_ok (history_append hc m loc keep h)"
  using assms mget_eq_None [of "hiRecords h" "mID m"]
  by (cases "mget (hiRecords h) (mID m)") (auto simp: history_append_def Let_def index_ok_def record_ok_def)

lemma ok_of_update:
  assumes ok: "index_ok h"
  shows "index_ok (history_update hc i patch h)"
proof (cases "mget (hiRecords h) i")
  case (Some r)
  show ?thesis using ok index_okD [OF ok Some]
    by (auto simp: history_update_def Let_def index_ok_def record_ok_def Some split: option.splits)
qed (use ok in \<open>auto simp: history_update_def Let_def index_ok_def split: option.splits\<close>)

lemma ok_of_remove: "index_ok h \<Longrightarrow> index_ok (history_remove i h)"
  by (auto simp: history_remove_def index_ok_def split: option.splits)

lemma ok_of_compact: "index_ok h \<Longrightarrow> index_ok (history_compact i ids h)"
  by (simp add: history_compact_def index_ok_def)

interpretation well_formed: index_property hc index_ok for hc
  by unfold_locales (simp_all add: ok_of_append ok_of_update ok_of_remove ok_of_compact, simp add: index_ok_def newHistoryIndex_def)

section \<open>What sanitizing takes away\<close>

text \<open>In every object of a sanitized value the four keys that carry bodies hold the placeholder, and another string is at most 256 runes and the ellipsis.\<close>

fun hides :: "val \<Rightarrow> bool" and field_hides :: "string \<Rightarrow> val \<Rightarrow> bool" and fields_hide :: "(string \<times> val) list \<Rightarrow> bool" and list_hides :: "val list \<Rightarrow> bool" where
  "hides (VObj fs) = fields_hide fs"
| "hides (VList vs) = list_hides vs"
| "hides v = True"
| "field_hides k v =
     (if k \<in> set omitted_keys then v = VStr omitted_text
      else case v of
             VStr t \<Rightarrow> length t \<le> 1027
           | VObj fs \<Rightarrow> fields_hide fs
           | VList vs \<Rightarrow> list_hides vs
           | _ \<Rightarrow> True)"
| "fields_hide [] = True"
| "fields_hide ((k, v) # fs) = (field_hides k v \<and> fields_hide fs)"
| "list_hides [] = True"
| "list_hides (v # vs) = (hides v \<and> list_hides vs)"

lemma decode2_four: "snd (decode2 lo hi c s) \<le> 4"
  by (induction lo hi c s rule: decode2.induct) auto

lemma decode3_four: "snd (decode3 lo hi c s) \<le> 4"
  by (induction lo hi c s rule: decode3.induct) auto

lemma decode4_four: "snd (decode4 lo hi c s) \<le> 4"
  by (induction lo hi c s rule: decode4.induct) auto

lemma decode_rune_four: "snd (decode_rune c s) \<le> 4"
  by (simp add: decode_rune_def Let_def decode2_four decode3_four decode4_four)

lemma runes_four: "x \<in> set (runes s) \<Longrightarrow> length (snd x) \<le> 4"
proof (induction s rule: runes.induct)
  case (2 c s)
  obtain r n where rn: "decode_rune c s = (r, n)" by force
  then have "n \<le> 4" using decode_rune_four [of c s] by simp
  with "2.IH" [OF rn [symmetric] refl] "2.prems" show ?case by (auto simp: rn)
qed simp

lemma rune_bytes_four: "x \<in> set (runes s) \<Longrightarrow> length (rune_bytes x) \<le> 4"
  using runes_four [of x s] by (simp add: rune_bytes_def)

lemma length_concat_le: "\<forall>x \<in> set xs. length x \<le> n \<Longrightarrow> length (concat xs) \<le> n * length xs"
  by (induction xs) auto

lemma length_take_runes: "length (take_runes n s) \<le> 4 * n"
proof -
  have "\<forall>b \<in> set (map rune_bytes (take n (runes s))). length b \<le> 4" using rune_bytes_four [of _ s] by (auto dest: in_set_takeD)
  from length_concat_le [OF this] show ?thesis by (simp add: take_runes_def)
qed

lemma length_le_runes: "length s \<le> 4 * rune_count s"
proof -
  have "\<forall>b \<in> set (map snd (runes s)). length b \<le> 4" using runes_four [of _ s] by auto
  from length_concat_le [OF this] show ?thesis by (simp add: rune_count_def concat_runes)
qed

lemma length_shorten: "length (shorten t) \<le> 1027"
  using length_take_runes [of 256 t] length_le_runes [of t] by (simp add: shorten_def)

lemma sanitized_hides:
  "hides (sanitizeHistoryValue v)" "field_hides k (sanitize_field k w)" "fields_hide (sanitize_fields fs)" "list_hides (sanitize_list vs)"
proof (induction v and k w and fs and vs rule: sanitizeHistoryValue_sanitize_field_sanitize_fields_sanitize_list.induct)
  case (4 k v)
  then show ?case by (cases v) (simp_all add: length_shorten)
qed simp_all

section \<open>Arguments in the index\<close>

definition safe_arguments :: "history_codec \<Rightarrow> string \<Rightarrow> bool" where
  "safe_arguments hc s \<longleftrightarrow> s = [] \<or> s = ''{}'' \<or> s = unavailable \<or> (\<exists>v. hides v \<and> hcEncode hc v = Some s)"

definition calls_safe :: "history_codec \<Rightarrow> history_index \<Rightarrow> bool" where
  "calls_safe hc h \<longleftrightarrow> (\<forall>i c. mget (hiCalls h) i = Some c \<longrightarrow> safe_arguments hc (hcallArguments c))"

lemma sanitized_arguments_safe: "safe_arguments hc (sanitizeHistoryArguments hc raw)"
  using sanitized_hides(1) by (auto simp: sanitizeHistoryArguments_def safe_arguments_def split: option.splits)

lemma mget_fold_mput: "mget (fold (\<lambda>c. mput (f c) c) cs m) i = Some d \<Longrightarrow> d \<in> set cs \<or> mget m i = Some d"
  by (induction cs arbitrary: m) (auto split: if_splits, fastforce split: if_splits)

lemma mget_fold_mdel: "mget (fold (\<lambda>c. mdel (f c)) cs m) i = Some d \<Longrightarrow> mget m i = Some d"
  by (induction cs arbitrary: m) (auto split: if_splits, fastforce split: if_splits)

lemma calls_safe_mono:
  assumes "calls_safe hc h" "\<And>i c. mget (hiCalls h') i = Some c \<Longrightarrow> mget (hiCalls h) i = Some c \<or> safe_arguments hc (hcallArguments c)"
  shows "calls_safe hc h'"
  using assms by (auto simp: calls_safe_def)

lemma calls_safe_append: "calls_safe hc h \<Longrightarrow> calls_safe hc (history_append hc m loc keep h)"
  by (erule calls_safe_mono)
    (auto simp: history_append_def Let_def compact_call_def sanitized_arguments_safe split: if_splits dest!: mget_fold_mput)

lemma calls_safe_update: "calls_safe hc h \<Longrightarrow> calls_safe hc (history_update hc i patch h)"
  by (erule calls_safe_mono)
    (auto simp: history_update_def Let_def forget_calls_def split: if_splits option.splits dest!: mget_fold_mdel)

lemma calls_safe_remove: "calls_safe hc h \<Longrightarrow> calls_safe hc (history_remove i h)"
  by (erule calls_safe_mono) (auto simp: history_remove_def forget_calls_def split: option.splits dest!: mget_fold_mdel)

lemma calls_safe_compact: "calls_safe hc h \<Longrightarrow> calls_safe hc (history_compact i ids h)"
  by (simp add: history_compact_def calls_safe_def)

interpretation hidden: index_property hc "calls_safe hc" for hc
  by unfold_locales (simp_all add: calls_safe_append calls_safe_update calls_safe_remove calls_safe_compact, simp add: calls_safe_def newHistoryIndex_def)

section \<open>Look-ups\<close>

definition listed :: "history_index \<Rightarrow> string \<Rightarrow> string \<Rightarrow> bool" where
  "listed h ref i \<longleftrightarrow>
     (let root = (if ref = ''latest'' then hiLatest h else ref)
      in (root \<noteq> [] \<and> (root, i) \<in> (summarizes (hiLineage h))\<^sup>+) \<or>
         (ref = ''latest'' \<and> (i \<in> set (keys (hiCompacted h)) \<or> i \<in> set (keys (hiElided h)))))"

definition manifest_ref :: "history_index \<Rightarrow> string \<Rightarrow> bool" where
  "manifest_ref h ref \<longleftrightarrow> ref = ''latest'' \<or> mget_or [] (hiLineage h) ref \<noteq> []"

definition manifest_entries :: "history_index \<Rightarrow> string \<Rightarrow> history_entry list" where
  "manifest_entries h ref =
     List.map_filter (\<lambda>i. if i \<in> set (selected_ids h (ref = ''latest'') (if ref = ''latest'' then hiLatest h else ref)) then manifest_entry h i else None) (hiOrder h)"

lemma resolve_manifest_ref:
  "manifest_ref h ref \<Longrightarrow> resolve hc load ref h =
     (if manifest_entries h ref = [] then Inl no_history else Inr (Manifest (if ref = ''latest'' then hiLatest h else ref) (manifest_entries h ref)))"
  by (auto simp: resolve_def manifest_ref_def manifest_entries_def Let_def)

lemma resolve_other_ref:
  "\<not> manifest_ref h ref \<Longrightarrow> resolve hc load ref h =
     (case mget (hiRecords h) ref of
        None \<Rightarrow> Inl (''history ref '' @ hcQuote hc ref @ '' is not available'')
      | Some r \<Rightarrow>
          if \<not> mtrue (hiElided h) ref \<and> \<not> mtrue (hiCompacted h) ref then Inl (''history ref '' @ hcQuote hc ref @ '' is not available'')
          else (case load r of Inl e \<Rightarrow> Inl e | Inr m \<Rightarrow> Inr (Recorded ref m)))"
  by (simp add: resolve_def manifest_ref_def)

lemma selected_listed: "i \<in> set (selected_ids h (ref = ''latest'') (if ref = ''latest'' then hiLatest h else ref)) \<longleftrightarrow> listed h ref i"
  by (simp add: selected_ids_def listed_def Let_def walk_is_closure Image_def)

lemma manifest_entries_refs:
  assumes "index_ok h"
  shows "map heRef (manifest_entries h ref) = filter (listed h ref) (hiOrder h)"
proof -
  have "map heRef (List.map_filter (\<lambda>i. if listed h ref i then manifest_entry h i else None) is) = filter (listed h ref) is"
    if "set is \<subseteq> set (hiOrder h)" for "is"
    using that
  proof (induction "is")
    case (Cons i "is")
    then have "i \<in> set (keys (hiRecords h))" using assms by (simp add: index_ok_def)
    from keys_mget [OF this] obtain r where r: "mget (hiRecords h) i = Some r" by blast
    have "mID (hrMeta r) = i" using index_okD(1) [OF assms r] by (simp add: record_ok_def)
    then show ?case using Cons r by (simp add: map_filter_simps manifest_entry_def historyEntry_def)
  qed (simp add: map_filter_simps)
  then show ?thesis by (simp add: manifest_entries_def selected_listed)
qed

lemma manifest_entries_safe:
  assumes "calls_safe hc h" "e \<in> set (manifest_entries h ref)" "c \<in> set (heCalls e) \<union> set_option (heCall e)"
  shows "safe_arguments hc (hcallArguments c)"
proof -
  have "safe_arguments hc (hcallArguments (mget_or zero_history_call (hiCalls h) i))" for i
    using assms(1) by (auto simp: calls_safe_def mget_or_def zero_history_call_def safe_arguments_def split: option.splits)
  then show ?thesis using assms
    by (auto simp: manifest_entries_def List.map_filter_def manifest_entry_def historyEntry_def calls_safe_def split: if_splits)
qed

section \<open>The live index and the replayed one\<close>

text \<open>What a manifest depends on: the records without the place or the copy of their bodies.\<close>

definition bare :: "history_record \<Rightarrow> history_record" where
  "bare r = r\<lparr>hrLocation := ([], 0, 0), hrFull := None\<rparr>"

definition view :: "history_index \<Rightarrow> history_index" where
  "view h = h\<lparr>hiRecords := map (\<lambda>(i, r). (i, bare r)) (hiRecords h)\<rparr>"

lemma view_sel [simp]:
  "hiOrder (view h) = hiOrder h" "hiLineage (view h) = hiLineage h" "hiLatest (view h) = hiLatest h" "hiElided (view h) = hiElided h"
  "hiCompacted (view h) = hiCompacted h" "hiCalls (view h) = hiCalls h" "mget (hiRecords (view h)) i = map_option bare (mget (hiRecords h) i)"
  by (simp_all add: view_def mget_map_values)

lemma bare_sel [simp]: "hrMeta (bare r) = hrMeta r" "hrFull (bare r) = None"
  by (simp_all add: bare_def)

lemma map_mput: "map (\<lambda>(i, r). (i, f r)) (mput k v m) = mput k (f v) (map (\<lambda>(i, r). (i, f r)) m)"
  by (induction m) auto

lemma map_mdel: "map (\<lambda>(i, r). (i, f r)) (mdel k m) = mdel k (map (\<lambda>(i, r). (i, f r)) m)"
  by (induction m) (auto simp: AList.delete_eq)

lemma view_append: "view (history_append hc m loc keep h) = history_append hc m ([], 0, 0) False (view h)"
  by (simp add: history_append_def Let_def view_def map_mput mget_map_values bare_def)

lemma bare_patch: "bare (r\<lparr>hrMeta := a, hrFull := f\<rparr>) = (bare r)\<lparr>hrMeta := a, hrFull := None\<rparr>"
  by (cases r) (simp add: bare_def)

lemma view_update: "view (history_update hc i patch h) = history_update hc i patch (view h)"
  by (auto simp: history_update_def Let_def view_def map_mput mget_map_values bare_patch split: option.splits)

lemma view_remove: "view (history_remove i h) = history_remove i (view h)"
  by (auto simp: history_remove_def view_def map_mdel mget_map_values split: option.splits)

lemma view_compact: "view (history_compact i ids h) = history_compact i ids (view h)"
  by (simp add: history_compact_def view_def)

lemma view_event: "view (record_event hc keep loc ev h) = record_event hc False ([], 0, 0) ev (view h)"
  by (simp add: record_event_def Let_def view_append view_update view_remove view_compact split: sum.splits)

definition replayed :: "history_codec \<Rightarrow> bus_note list \<Rightarrow> history_index \<Rightarrow> history_index" where
  "replayed hc evs h = fold (record_event hc False ([], 0, 0)) evs h"

lemma view_archive:
  assumes "SessionReset \<notin> nType ` set evs"
  shows "view (archive_of hc evs) = replayed hc evs (view newHistoryIndex)"
proof -
  have "view (fold (Record_archive hc) evs h) = replayed hc evs (view h)" for h
    using assms by (induction evs arbitrary: h) (auto simp: Record_archive_def view_event replayed_def)
  then show ?thesis by (simp add: archive_of_def)
qed

lemma view_journal: "view (journal_of hc levs) = replayed hc (map snd levs) (view newHistoryIndex)"
proof -
  have "view (fold (\<lambda>(loc, ev). record_journal hc loc ev) levs h) = replayed hc (map snd levs) (view h)" for h
    by (induction levs arbitrary: h) (auto simp: record_journal_def view_event replayed_def)
  then show ?thesis by (simp add: journal_of_def)
qed

lemma manifest_ref_view: "manifest_ref (view h) = manifest_ref h"
  by (rule ext) (simp add: manifest_ref_def)

lemma manifest_entry_view: "manifest_entry (view h) i = manifest_entry h i"
  by (simp add: manifest_entry_def option.map_comp comp_def)

lemma manifest_entries_view: "manifest_entries (view h) = manifest_entries h"
  by (rule ext) (simp add: manifest_entries_def selected_ids_def manifest_entry_view cong: if_cong)

text \<open>Two indices with the same view answer a reference alike, apart from the body itself.\<close>

definition answer_kind :: "string + history_lookup \<Rightarrow> string + history_lookup" where
  "answer_kind x = (case x of Inr (Recorded root m) \<Rightarrow> Inr (Recorded root zero_message) | y \<Rightarrow> y)"

lemma resolve_view:
  assumes "\<And>r. mget (hiRecords h) ref = Some r \<Longrightarrow> \<exists>m. load r = Inr m" "\<And>r. mget (hiRecords h') ref = Some r \<Longrightarrow> \<exists>m. load' r = Inr m" "view h = view h'"
  shows "answer_kind (resolve hc load ref h) = answer_kind (resolve hc load' ref h')"
proof (cases "manifest_ref h ref")
  case True
  have "manifest_ref h' ref" using True manifest_ref_view [of h] manifest_ref_view [of h'] assms(3) by simp
  moreover have "manifest_entries h = manifest_entries h'" using manifest_entries_view [of h] manifest_entries_view [of h'] assms(3) by simp
  moreover have "hiLatest h = hiLatest h'" using view_sel(3) [of h] view_sel(3) [of h'] assms(3) by simp
  ultimately show ?thesis using True by (simp add: resolve_manifest_ref)
next
  case False
  have other: "\<not> manifest_ref h' ref" using False manifest_ref_view [of h] manifest_ref_view [of h'] assms(3) by simp
  have flags: "hiElided h = hiElided h'" "hiCompacted h = hiCompacted h'" using view_sel(4,5) [of h] view_sel(4,5) [of h'] assms(3) by simp_all
  have recs: "map_option bare (mget (hiRecords h) ref) = map_option bare (mget (hiRecords h') ref)"
    using view_sel(7) [of h ref] view_sel(7) [of h' ref] assms(3) by simp
  show ?thesis
  proof (cases "mget (hiRecords h) ref")
    case None
    then show ?thesis using False other recs by (simp add: resolve_other_ref)
  next
    case (Some r)
    then obtain r' where r': "mget (hiRecords h') ref = Some r'" using recs by (cases "mget (hiRecords h') ref") auto
    from assms(1) [OF Some] assms(2) [OF r'] show ?thesis using False other flags Some r' by (auto simp: resolve_other_ref answer_kind_def)
  qed
qed

section \<open>Every record has its body\<close>

definition records_all :: "(string \<Rightarrow> history_record \<Rightarrow> bool) \<Rightarrow> history_index \<Rightarrow> bool" where
  "records_all Q h \<longleftrightarrow> (\<forall>i r. mget (hiRecords h) i = Some r \<longrightarrow> Q i r)"

lemma records_event:
  assumes "records_all Q h"
    and patch: "\<And>i r calls. Q i r \<Longrightarrow> Q i (r\<lparr>hrMeta := (hrMeta r)\<lparr>mToolCalls := calls\<rparr>, hrFull := map_option (\<lambda>m. m\<lparr>mToolCalls := calls\<rparr>) (hrFull r)\<rparr>)"
    and new: "\<And>m meta. nType ev = MessageAppended \<Longrightarrow> hcMessage hc (nData ev) = Inr m \<Longrightarrow>
                Q (mID m) \<lparr>hrMeta = meta, hrLocation = loc, hrFull = (if keep then Some m else None)\<rparr>"
  shows "records_all Q (record_event hc keep loc ev h)"
proof -
  have "records_all Q (history_append hc m loc keep h)" if "nType ev = MessageAppended" "hcMessage hc (nData ev) = Inr m" for m
    using assms(1) new [OF that] by (auto simp: records_all_def history_append_def Let_def split: if_splits)
  moreover have "records_all Q (history_update hc i p h)" for i p
    using assms(1) patch by (auto simp: records_all_def history_update_def Let_def split: option.splits if_splits)
  moreover have "records_all Q (history_remove i h)" for i
    using assms(1) by (auto simp: records_all_def history_remove_def split: option.splits)
  moreover have "records_all Q (history_compact i ids h)" for i ids
    using assms(1) by (simp add: records_all_def history_compact_def)
  ultimately show ?thesis using assms(1) by (simp add: record_event_def Let_def split: sum.splits)
qed

lemma records_new: "records_all Q newHistoryIndex"
  by (simp add: records_all_def newHistoryIndex_def)

lemma archive_keeps_bodies: "records_all (\<lambda>i r. hrFull r \<noteq> None) (archive_of hc evs)"
proof -
  have "records_all (\<lambda>i r. hrFull r \<noteq> None) h \<Longrightarrow> records_all (\<lambda>i r. hrFull r \<noteq> None) (fold (Record_archive hc) evs h)" for h
  proof (induction evs arbitrary: h)
    case (Cons ev evs)
    have "records_all (\<lambda>i r. hrFull r \<noteq> None) (record_event hc True ([], 0, 0) ev h)" by (rule records_event [OF Cons.prems]) auto
    then show ?case using Cons.IH records_new by (simp add: Record_archive_def)
  qed simp
  then show ?thesis using records_new by (simp add: archive_of_def)
qed

text \<open>The log gives back at a place the event that was written there.\<close>

definition reads_back :: "history_codec \<Rightarrow> (history_location \<Rightarrow> string + string) \<Rightarrow> history_location \<times> bus_note \<Rightarrow> bool" where
  "reads_back hc readAt x = (case readAt (fst x) of Inl _ \<Rightarrow> False | Inr bytes \<Rightarrow> hcEvent hc bytes = Inr (snd x))"

definition body_readable :: "history_codec \<Rightarrow> (history_location \<Rightarrow> string + string) \<Rightarrow> string \<Rightarrow> history_record \<Rightarrow> bool" where
  "body_readable hc readAt i r = (case readHistoryMessage hc readAt (hrLocation r) of Inl _ \<Rightarrow> False | Inr m \<Rightarrow> mID m = i)"

lemma journal_bodies_readable:
  assumes "list_all (reads_back hc readAt) levs"
  shows "records_all (body_readable hc readAt) (journal_of hc levs)"
proof -
  have "records_all (body_readable hc readAt) h \<Longrightarrow> records_all (body_readable hc readAt) (fold (\<lambda>(loc, ev). record_journal hc loc ev) levs h)" for h
    using assms
  proof (induction levs arbitrary: h)
    case (Cons x levs)
    obtain loc ev where x: "x = (loc, ev)" by (cases x)
    obtain bytes where b: "readAt loc = Inr bytes" "hcEvent hc bytes = Inr ev" using Cons.prems(2) by (auto simp: x reads_back_def split: sum.splits)
    have "records_all (body_readable hc readAt) (record_event hc False loc ev h)"
      by (rule records_event [OF Cons.prems(1)]) (auto simp: body_readable_def readHistoryMessage_def b)
    then show ?case using Cons x by (simp add: record_journal_def)
  qed simp
  then show ?thesis using records_new by (simp add: journal_of_def)
qed

lemma ResolveHistory_kind:
  assumes "mget history sid = Some h" "records_all (body_readable hc readAt) h"
  shows "answer_kind (ResolveHistory hc readAt history sid ref) = answer_kind (resolve hc (\<lambda>r. Inr zero_message) ref h)"
proof (cases "manifest_ref h ref")
  case True
  then show ?thesis using assms(1) by (simp add: ResolveHistory_def resolve_manifest_ref)
next
  case False
  then show ?thesis
  proof (cases "mget (hiRecords h) ref")
    case None
    then show ?thesis using assms(1) False by (simp add: ResolveHistory_def resolve_other_ref)
  next
    case (Some r)
    then have "body_readable hc readAt ref r" using assms(2) by (simp add: records_all_def)
    then show ?thesis using assms(1) False Some
      by (auto simp: ResolveHistory_def resolve_other_ref answer_kind_def body_readable_def mget_or_def split: sum.splits)
  qed
qed

section \<open>Properties\<close>

text \<open>C15. A reference to a summary answers with exactly the recorded messages below it: the ones it summarizes and, through summaries of summaries, what those stand for, in the order they were recorded; \<open>latest\<close> adds everything compacted or elided. When there is none the answer is an error. The index is the one of a replay or of the live journal, after any events.\<close>
theorem manifest_lists_the_lineage:
  assumes "h = archive_of hc evs \<or> h = journal_of hc levs" "manifest_ref h ref"
  shows "case resolve hc load ref h of
           Inl e \<Rightarrow> e = no_history \<and> filter (listed h ref) (hiOrder h) = []
         | Inr (Manifest root es) \<Rightarrow> map heRef es = filter (listed h ref) (hiOrder h) \<and> distinct (map heRef es) \<and> root = (if ref = ''latest'' then hiLatest h else ref)
         | Inr (Recorded _ _) \<Rightarrow> False"
proof -
  have ok: "index_ok h" using assms(1) well_formed.of_archive well_formed.of_journal by auto
  then have "distinct (hiOrder h)" by (simp add: index_ok_def)
  then show ?thesis using assms(2) manifest_entries_refs [OF ok, of ref] by (auto simp: resolve_manifest_ref)
qed



section \<open>An example\<close>

definition demo_codec :: history_codec where
  "demo_codec = \<lparr>hcDecode = (\<lambda>raw. Some (VObj [(''path'', VStr raw), (''content'', VStr ''body'')])),
     hcEncode = (\<lambda>v. Some (str_of (mget (obj v) ''path'') @ '':'' @ str_of (mget (obj v) ''content''))),
     hcMessage = (\<lambda>v. case v of VMsg m \<Rightarrow> Inr m | _ \<Rightarrow> Inl ''no message''),
     hcEvent = (\<lambda>b. if b = ''appended'' then Inr \<lparr>nType = MessageAppended, nSession = ''s'', nRun = [], nData = VMsg (zero_message\<lparr>mID := ''m1'', mToolCalls := [\<lparr>tcID = ''c1'', tcName = ''edit_file'', tcArguments = ''a''\<rparr>]\<rparr>)\<rparr>
                    else Inr (New Compaction ''s'' [] [(''kind'', VStr ''summarize''), (''summary_message_id'', VStr ''s1''), (''affected_ids'', VList [VStr ''m1''])])),
     hcCalls = (\<lambda>v. []), hcQuote = id\<rparr>"

definition demo_log :: "(history_location \<times> bus_note) list" where
  "demo_log = [((''log'', 0, 8), \<lparr>nType = MessageAppended, nSession = ''s'', nRun = [], nData = VMsg (zero_message\<lparr>mID := ''m1'', mToolCalls := [\<lparr>tcID = ''c1'', tcName = ''edit_file'', tcArguments = ''a''\<rparr>]\<rparr>)\<rparr>),
     ((''log'', 8, 9), New Compaction ''s'' [] [(''kind'', VStr ''summarize''), (''summary_message_id'', VStr ''s1''), (''affected_ids'', VList [VStr ''m1''])])]"

definition demo_read :: "history_location \<Rightarrow> string + string" where
  "demo_read loc = Inr (if fst (snd loc) = 0 then ''appended'' else ''compacted'')"

lemma TrimSpace_one: "TrimSpace ''a'' = ''a''"
  by code_simp

lemma shorten_one: "shorten ''a'' = ''a''"
  using rune_count_le [of "''a''"] by (simp add: shorten_def)

lemma demo_journal:
  "journal_of demo_codec demo_log =
     \<lparr>hiRecords = [(''m1'', \<lparr>hrMeta = zero_message\<lparr>mID := ''m1'', mToolCalls := [\<lparr>tcID = ''c1'', tcName = ''edit_file'', tcArguments = ''a:[omitted]''\<rparr>]\<rparr>, hrLocation = (''log'', 0, 8), hrFull = None\<rparr>)],
      hiOrder = [''m1''], hiLineage = [(''s1'', [''m1''])], hiLatest = ''s1'', hiElided = [], hiCompacted = [(''m1'', True)],
      hiCalls = [(''c1'', \<lparr>hcallID = ''c1'', hcallName = ''edit_file'', hcallArguments = ''a:[omitted]''\<rparr>)]\<rparr>"
  by (simp add: journal_of_def demo_log_def record_journal_def record_event_def newHistoryIndex_def demo_codec_def history_append_def history_compact_def Let_def
      compact_call_def sanitizeHistoryArguments_def TrimSpace_one shorten_one omitted_keys_def omitted_text_def zero_message_def
      str_of_def strs_of_def obj_def)

lemma demo_manifest:
  "resolve demo_codec (\<lambda>r. Inr zero_message) ''s1'' (journal_of demo_codec demo_log) =
     Inr (Manifest ''s1'' [\<lparr>heRef = ''m1'', heRole = [], heCategory = [], heTurn = 0, heName = [], heCall = None,
       heCalls = [\<lparr>hcallID = ''c1'', hcallName = ''edit_file'', hcallArguments = ''a:[omitted]''\<rparr>], heOK = None, heElided = False, heCompacted = True\<rparr>])"
  by (simp add: demo_journal resolve_def selected_ids_def mget_or_def manifest_entry_def historyEntry_def map_filter_simps Let_def zero_message_def)

theorem manifest_lists_the_lineage_witness:
  "manifest_ref (journal_of demo_codec demo_log) ''s1'' \<and> filter (listed (journal_of demo_codec demo_log) ''s1'') (hiOrder (journal_of demo_codec demo_log)) = [''m1'']"
proof -
  have r: "manifest_ref (journal_of demo_codec demo_log) ''s1''" by (simp add: manifest_ref_def demo_journal mget_or_def)
  from manifest_lists_the_lineage [OF disjI2 [OF refl] r, of "\<lambda>r. Inr zero_message"] r show ?thesis by (simp add: demo_manifest)
qed



text \<open>An update that replaces calls forgets the indexed ones and indexes no new ones, so a call that keeps its id appears in a manifest as an empty entry.\<close>

lemma mget_forget: "i \<in> tcID ` set cs \<Longrightarrow> mget (fold (\<lambda>c. mdel (tcID c)) cs m) i = None"
proof (induction cs arbitrary: m)
  case (Cons c cs)
  then show ?case using mget_fold_mdel [of tcID cs "mdel (tcID c) m" i] by (cases "mget (fold (\<lambda>c. mdel (tcID c)) cs (mdel (tcID c) m)) i") (auto split: if_splits)
qed simp

lemma updated_call_is_blank:
  assumes "mget (hiRecords h) i = Some r" "mget patch ''tool_calls'' = Some v" "c \<in> set (mToolCalls (hrMeta r))"
  shows "mget_or zero_history_call (hiCalls (history_update hc i patch h)) (tcID c) = zero_history_call"
  using assms mget_forget [of "tcID c" "mToolCalls (hrMeta r)" "hiCalls h"] by (simp add: history_update_def Let_def forget_calls_def mget_or_def)

end
